(* ===== verification/Catenary_Base.thy ===== *)
theory Catenary_Base
  imports Main "HOL-Library.List_Lexorder" "HOL-Library.Char_ord" "HOL-Library.AList"
begin

text \<open>
  Shared types, collections of simplification rules and generic lemmas of the
  development.

  \<^item> A UUID is its canonical text form. The store's \<open>uuid.UUID\<close> is sixteen bytes
    and the client's \<open>wire.Uuid\<close> is a string; lower-case hexadecimal keeps the byte
    order, so the lexicographic order of strings is the order both sides sort by.
  \<^item> A \<open>time.Time\<close> is an integer count of nanoseconds since Go's zero time, so that
    \<open>IsZero\<close> is \<open>t = 0\<close>. A \<open>time.Duration\<close> is an integer count of nanoseconds; where
    the code multiplies one, the wrap-around of int64 is written out (\<open>wrap64\<close>).
  \<^item> A Go map is an association list updated by \<open>AList.update\<close> and read by
    \<open>map_of\<close>: a key occurs once, and a later value replaces an earlier one.
\<close>

type_synonym uuid = string
type_synonym token = string
type_synonym gotime = int
type_synonym duration = int
type_synonym ('k, 'v) gomap = "('k \<times> 'v) list"

named_theorems rule_defs \<open>definitions of the pure decision rules\<close>
named_theorems journal_defs \<open>definitions of the journal's operations\<close>
named_theorems store_defs \<open>definitions of the store's operations\<close>

section \<open>Machine integers and time\<close>

definition second :: duration where
  "second = 1000000000"

definition minute :: duration where
  "minute = 60 * second"

definition max_i64 :: int where
  "max_i64 = 9223372036854775807"

definition wrap64 :: "int \<Rightarrow> int" where
  "wrap64 x = (x + 9223372036854775808) mod 18446744073709551616 - 9223372036854775808"

lemma wrap64_id [simp]:
  "- 9223372036854775808 \<le> x \<Longrightarrow> x \<le> max_i64 \<Longrightarrow> wrap64 x = x"
  by (simp add: wrap64_def max_i64_def)

lemma wrap64_range: "- 9223372036854775808 \<le> wrap64 x \<and> wrap64 x \<le> max_i64"
proof -
  have "0 \<le> (x + 9223372036854775808) mod 18446744073709551616"
    and "(x + 9223372036854775808) mod 18446744073709551616 < 18446744073709551616"
    by simp_all
  then show ?thesis by (simp add: wrap64_def max_i64_def)
qed

text \<open>\<open>time.Time.Sub\<close> saturates at the ends of the duration range.\<close>

definition time_sub :: "gotime \<Rightarrow> gotime \<Rightarrow> duration" where
  "time_sub t u = max (- 9223372036854775808) (min max_i64 (t - u))"

lemma time_sub_less_iff:
  "- 9223372036854775808 < d \<Longrightarrow> d \<le> max_i64 \<Longrightarrow> time_sub t u < d \<longleftrightarrow> t - u < d"
  by (auto simp: time_sub_def max_i64_def)

section \<open>Go maps as association lists\<close>

abbreviation gomap_keys :: "('k, 'v) gomap \<Rightarrow> 'k set" where
  "gomap_keys m \<equiv> fst ` set m"

abbreviation wf_gomap :: "('k, 'v) gomap \<Rightarrow> bool" where
  "wf_gomap m \<equiv> distinct (map fst m)"

lemma map_of_update [simp]: "map_of (AList.update k v m) = (map_of m)(k \<mapsto> v)"
  by (simp add: update_conv')

lemma wf_gomap_update [simp]: "wf_gomap m \<Longrightarrow> wf_gomap (AList.update k v m)"
  by (rule distinct_update)

lemma map_of_eq_Some_wf: "wf_gomap m \<Longrightarrow> map_of m k = Some v \<longleftrightarrow> (k, v) \<in> set m"
  by (rule map_of_eq_Some_iff)

section \<open>Lists\<close>

lemma last_filter_in: "filter P xs \<noteq> [] \<Longrightarrow> last (filter P xs) \<in> set xs \<and> P (last (filter P xs))"
  using last_in_set [of "filter P xs"] by simp

lemma sorted_wrt_take: "sorted_wrt R xs \<Longrightarrow> sorted_wrt R (take n xs)"
  by (metis append_take_drop_id sorted_wrt_append)

lemma sorted_wrt_take_drop:
  "sorted_wrt R xs \<Longrightarrow> x \<in> set (take n xs) \<Longrightarrow> y \<in> set (drop n xs) \<Longrightarrow> R x y"
  by (metis append_take_drop_id sorted_wrt_append)

lemma sorted_wrt_last:
  "sorted_wrt R xs \<Longrightarrow> x \<in> set xs \<Longrightarrow> x \<noteq> last xs \<Longrightarrow> R x (last xs)"
  by (induction xs) (auto split: if_splits)

section \<open>Decimal numerals\<close>

text \<open>\<open>strconv.Itoa\<close> and the verb \<open>%d\<close> of a number that is not negative.\<close>

fun decimal :: "nat \<Rightarrow> string" where
  "decimal n = (if n < 10 then [char_of (48 + n)] else decimal (n div 10) @ [char_of (48 + n mod 10)])"

declare decimal.simps [simp del]

text \<open>The number a numeral denotes, so that two numbers never share one.\<close>

definition decimalValue :: "string \<Rightarrow> nat" where
  "decimalValue s = foldl (\<lambda>v c. 10 * v + (of_char c - 48)) 0 s"

lemma decimalValue_decimal [simp]: "decimalValue (decimal n) = n"
proof (induction n rule: decimal.induct)
  case (1 n)
  then show ?case by (cases "n < 10") (simp_all add: decimal.simps [of n] decimalValue_def)
qed

lemma decimal_inject [simp]: "decimal m = decimal n \<longleftrightarrow> m = n"
  by (metis decimalValue_decimal)

lemma decimal_digits: "c \<in> set (decimal n) \<Longrightarrow> CHR ''0'' \<le> c \<and> c \<le> CHR ''9''"
proof (induction n rule: decimal.induct)
  case (1 n)
  have d: "CHR ''0'' \<le> (char_of (48 + k) :: char) \<and> (char_of (48 + k) :: char) \<le> CHR ''9''" if "k < 10" for k :: nat
    using that by (simp add: less_eq_char_def)
  from 1 show ?case by (cases "n < 10") (auto simp: decimal.simps [of n] d)
qed

lemma decimal_nonempty [simp]: "decimal n \<noteq> []"
  by (simp add: decimal.simps)

lemma decimal_length: "n < 10 ^ k \<Longrightarrow> 0 < k \<Longrightarrow> length (decimal n) \<le> k"
proof (induction k arbitrary: n)
  case (Suc k)
  show ?case
  proof (cases "n < 10")
    case False
    with Suc.prems have "n div 10 < 10 ^ k" "0 < k" by (auto intro: gr0I)
    from Suc.IH [OF this] False show ?thesis by (simp add: decimal.simps [of n])
  qed (simp add: decimal.simps)
qed simp

end
