(* ===== verification/Wire.thy ===== *)
theory Wire
  imports Catenary_Base
begin

text \<open>
  The wire types of \<open>internal/wire/generated.go\<close> the model exchanges: a served message
  with its attachments and reply reference, a conversation as one reader sees it, a
  user, a \<open>/sync\<close> page and the frames the server sends. A \<open>*T\<close> is an \<open>option\<close>; the
  string-backed enums are strings, as in the generated package. A timestamp is the
  served text.
\<close>

record TranscriptSegment =
  ts_AtMs :: int
  ts_Text :: string

record Transcript =
  tr_State :: string
  tr_Text :: "string option"
  tr_WordCount :: "int option"
  tr_Segments :: "TranscriptSegment list"
  tr_Engine :: "string option"
  tr_Language :: "string option"
  tr_ETASec :: "int option"

record VoiceAttachment =
  va_URL :: string
  va_DurationMs :: int
  va_Peaks :: "int list"
  va_Transcript :: Transcript

record ImageAttachment =
  ia_URL :: string
  ia_Filename :: string
  ia_Width :: int
  ia_Height :: int
  ia_Bytes :: int
  ia_Placeholder :: "string option"

record LinkAttachment =
  la_URL :: string
  la_Title :: "string option"
  la_Description :: "string option"
  la_SiteName :: "string option"
  la_ImageURL :: "string option"
  la_ImageWidth :: "int option"
  la_ImageHeight :: "int option"
  la_ImagePlaceholder :: "string option"
  la_FinalHost :: "string option"

datatype Attachment =
  Voice VoiceAttachment | Image ImageAttachment | Link LinkAttachment

record ReplyRef =
  rr_MessageID :: uuid
  rr_AuthorID :: uuid
  rr_Kind :: string
  rr_Preview :: string
  rr_DurationMs :: "int option"
  rr_URL :: "string option"

record Message =
  m_ID :: uuid
  m_Seq :: int
  m_LogSeq :: int
  m_ConversationID :: uuid
  m_AuthorID :: uuid
  m_At :: string
  m_Text :: "string option"
  m_Attachments :: "Attachment list"
  m_ReplyTo :: "ReplyRef option"
  m_State :: string
  m_ReadBy :: "int option"
  m_ClientID :: "uuid option"
  m_EditedAt :: "string option"
  m_Deleted :: "bool option"

record Conversation =
  c_ID :: uuid
  c_Kind :: string
  c_Name :: string
  c_OtherMemberID :: "uuid option"
  c_MemberCount :: int
  c_Muted :: "bool option"
  c_FirstUnreadSeq :: "int option"
  c_HeadSeq :: int
  c_RetentionDays :: "int option"

record User =
  u_ID :: uuid
  u_Name :: string
  u_Initials :: "string option"
  u_Deactivated :: "bool option"

record SyncResponse =
  sr_LogSeq :: int
  sr_Messages :: "Message list"
  sr_Conversations :: "Conversation list"
  sr_Users :: "User list"
  sr_HasMore :: bool
  sr_ServerTime :: string

record ServerReady =
  rd_SessionID :: uuid
  rd_WireVersion :: "int option"
  rd_ServerTime :: string
  rd_HeartbeatIntervalSec :: int
  rd_MissedPongLimit :: int
  rd_LogSeq :: int
  rd_Resumed :: bool

record ServerReceipt =
  rc_ConversationID :: uuid
  rc_UserID :: uuid
  rc_UpToSeq :: int

record ServerAck =
  ak_ClientID :: uuid
  ak_MessageID :: uuid
  ak_ConversationID :: uuid
  ak_Seq :: int
  ak_LogSeq :: int
  ak_At :: string
  ak_Duplicate :: "bool option"

record ServerError =
  se_Code :: string
  se_Message :: string
  se_Retryable :: bool
  se_ClientID :: "uuid option"
  se_RetryAfterSec :: "int option"

text \<open>
  A decoded server frame. \<open>UnknownFrame\<close> is a tag this wire version does not know,
  which the decoder accepts and every reader ignores.
\<close>

datatype ServerFrame =
    FReady ServerReady
  | FPing string
  | FPong string
  | FMessage Message
  | FConversation Conversation
  | FUser User
  | FReceipt ServerReceipt
  | FResyncRequired string int
  | FTyping uuid "uuid list"
  | FAck ServerAck
  | FError ServerError
  | UnknownFrame

definition ErrorCodeUnauthorized :: string where "ErrorCodeUnauthorized = ''unauthorized''"
definition ErrorCodeWireVersionUnsupported :: string where
  "ErrorCodeWireVersionUnsupported = ''wire_version_unsupported''"
definition ErrorCodeRateLimited :: string where "ErrorCodeRateLimited = ''rate_limited''"
definition ErrorCodeNotAMember :: string where "ErrorCodeNotAMember = ''not_a_member''"
definition ErrorCodeConversationNotFound :: string where
  "ErrorCodeConversationNotFound = ''conversation_not_found''"
definition ErrorCodeMessageTooLarge :: string where "ErrorCodeMessageTooLarge = ''message_too_large''"
definition ErrorCodeUploadNotFound :: string where "ErrorCodeUploadNotFound = ''upload_not_found''"
definition ErrorCodeInternal :: string where "ErrorCodeInternal = ''internal''"

lemmas error_code_defs =
  ErrorCodeUnauthorized_def ErrorCodeWireVersionUnsupported_def ErrorCodeRateLimited_def
  ErrorCodeNotAMember_def ErrorCodeConversationNotFound_def ErrorCodeMessageTooLarge_def
  ErrorCodeUploadNotFound_def ErrorCodeInternal_def

end
