(* ===== verification/Client_Rules.thy ===== *)
theory Client_Rules
  imports Wire
begin

text \<open>
  The client's pure decision rules: the refresh suppressors of
  \<open>internal/client/hold.go\<close>, the refused-token wait of \<open>refused.go\<close>, the dial ramp of
  \<open>backoff.go\<close> and the close table of \<open>terminal.go\<close>. They read values the caller has
  already read and decide; the methods that read the state, count and log are in
  \<open>Client_Refresh\<close> and \<open>Client_Log\<close>.
\<close>

section \<open>hold.go: what bounds the refresh chain\<close>

definition refreshBackoffBase :: duration where
  "refreshBackoffBase = 5 * second"

definition refreshBackoffCap :: duration where
  "refreshBackoffCap = 15 * minute"

text \<open>The loop of \<open>refreshDelay\<close>: doubled until it reaches the cap.\<close>

fun refreshDelay_loop :: "nat \<Rightarrow> duration \<Rightarrow> duration" where
  "refreshDelay_loop 0 d = d"
| "refreshDelay_loop (Suc k) d =
     (if refreshBackoffCap \<le> d then d else refreshDelay_loop k (wrap64 (d * 2)))"

definition refreshDelay :: "int \<Rightarrow> duration" where
  "refreshDelay links =
     (if links \<le> 0 then 0
      else min (refreshDelay_loop (nat (links - 1)) refreshBackoffBase) refreshBackoffCap)"

datatype RefreshHold = RefreshNotHeld | RefreshHeldUnreachable | RefreshHeldBackoff

definition readStamp :: "gotime \<Rightarrow> gotime \<Rightarrow> gotime" where
  "readStamp lastSent now = (if now < lastSent then 0 else lastSent)"

definition gateOpen :: "gotime \<Rightarrow> gotime \<Rightarrow> bool" where
  "gateOpen answeredAt stamp =
     (if answeredAt = 0 then False else if stamp = 0 then True else stamp < answeredAt)"

definition backoffPending :: "int \<Rightarrow> gotime \<Rightarrow> gotime \<Rightarrow> bool" where
  "backoffPending links stamp now \<longleftrightarrow> stamp \<noteq> 0 \<and> now < stamp + refreshDelay links"

definition refreshHoldAt :: "int \<Rightarrow> gotime \<Rightarrow> gotime \<Rightarrow> gotime \<Rightarrow> RefreshHold" where
  "refreshHoldAt links answeredAt lastSent now =
     (if links \<le> 0 then RefreshNotHeld
      else let stamp = readStamp lastSent now in
        if \<not> gateOpen answeredAt stamp then RefreshHeldUnreachable
        else if backoffPending links stamp now then RefreshHeldBackoff
        else RefreshNotHeld)"

section \<open>refused.go: the wait of a refused token\<close>

definition refusedHoldAt :: "bool \<Rightarrow> int \<Rightarrow> gotime \<Rightarrow> gotime \<Rightarrow> bool" where
  "refusedHoldAt refused links lastSent now =
     (if \<not> refused \<or> links \<le> 0 then False
      else backoffPending links (readStamp lastSent now) now)"

definition nextRefreshAt :: "int \<Rightarrow> gotime \<Rightarrow> gotime \<Rightarrow> gotime" where
  "nextRefreshAt links lastSent now =
     (if links = 0 then 0
      else let sent = readStamp lastSent now in
        if sent = 0 then 0 else sent + refreshDelay links)"

section \<open>backoff.go: the dial ramp\<close>

definition resetsRamp :: "bool \<Rightarrow> duration \<Rightarrow> duration \<Rightarrow> bool" where
  "resetsRamp readied readiedFor interval \<longleftrightarrow> readied \<and> interval \<le> readiedFor"

definition advance :: "duration \<Rightarrow> duration \<Rightarrow> duration" where
  "advance nominal ceiling = min (wrap64 (nominal * 2)) ceiling"

definition defaultBackoffMin :: duration where
  "defaultBackoffMin = 250 * 1000000"

definition defaultBackoffMax :: duration where
  "defaultBackoffMax = 5 * second"

text \<open>How \<open>New\<close> settles the two configured bounds.\<close>

definition newBackoff :: "duration \<Rightarrow> duration \<Rightarrow> duration \<times> duration" where
  "newBackoff cfgMin cfgMax =
     (let bmin = (if cfgMin \<le> 0 then defaultBackoffMin else cfgMin);
          bmax = (if cfgMax < bmin then max defaultBackoffMax bmin else cfgMax)
      in (bmin, bmax))"

section \<open>terminal.go: what an ended session means\<close>

datatype TerminalKind = NotTerminal | TerminalCredential | TerminalProtocol

record Terminal =
  t_Kind :: TerminalKind
  t_Reason :: string

datatype closeVerdict = Reconnect | ReconnectAtMaximum | StopProtocolFailure

definition IsInternalCode :: "string \<Rightarrow> bool" where
  "IsInternalCode code \<longleftrightarrow> code = ErrorCodeInternal"

definition statusRevoked :: int where "statusRevoked = 4001"
definition statusPolicyViolation :: int where "statusPolicyViolation = 1008"

definition classifyClose :: "int \<Rightarrow> ServerError option \<Rightarrow> closeVerdict \<times> string" where
  "classifyClose status preceding =
     (if status = statusRevoked then
        (StopProtocolFailure, ''close 4001: the credential behind the session was revoked'')
      else if status = statusPolicyViolation then
        (case preceding of
           None \<Rightarrow> (StopProtocolFailure,
             ''close 1008, bare: the server could not accept what this client wrote'')
         | Some e \<Rightarrow>
             if se_Code e = ErrorCodeUnauthorized \<or> se_Code e = ErrorCodeWireVersionUnsupported
             then (StopProtocolFailure, ''close 1008 after error{'' @ se_Code e @ ''}'')
             else if IsInternalCode (se_Code e) then (ReconnectAtMaximum, '''')
             else (Reconnect, ''''))
      else (Reconnect, ''''))"

text \<open>
  The ramp step of \<open>Run\<close> after a session that did not stop the client: the nominal
  wait before the next dial, and the nominal wait after it.
\<close>

definition rampStep :: "duration \<Rightarrow> duration \<Rightarrow> bool \<Rightarrow> closeVerdict \<Rightarrow> duration \<Rightarrow> duration \<times> duration" where
  "rampStep bmin bmax steady verdict backoff =
     (let b1 = (if steady then bmin else backoff);
          b2 = (if verdict = ReconnectAtMaximum then bmax else b1)
      in (b2, if steady then b2 else advance b2 bmax))"

text \<open>The ramp over a sequence of ended sessions: the nominal waits \<open>Run\<close> asks for, in order.\<close>

fun rampRun :: "duration \<Rightarrow> duration \<Rightarrow> duration \<Rightarrow> (bool \<times> closeVerdict) list \<Rightarrow> duration list" where
  "rampRun bmin bmax backoff [] = []"
| "rampRun bmin bmax backoff ((steady, verdict) # rest) =
     (let (wait, next) = rampStep bmin bmax steady verdict backoff
      in wait # rampRun bmin bmax next rest)"

text \<open>
  A stretch in which every automatic refresh the suppressors let through stays
  unanswered: an allowed attempt writes one more link and moves the stamp to now, a
  held one changes nothing. An event is the wall clock and when Catenary last answered.
\<close>

fun unansweredRun :: "int \<Rightarrow> gotime \<Rightarrow> (gotime \<times> gotime) list \<Rightarrow> int \<times> gotime" where
  "unansweredRun links lastSent [] = (links, lastSent)"
| "unansweredRun links lastSent ((now, answeredAt) # rest) =
     (if refreshHoldAt links answeredAt lastSent now = RefreshNotHeld
      then unansweredRun (links + 1) now rest
      else unansweredRun links lastSent rest)"

lemmas hold_defs = readStamp_def gateOpen_def backoffPending_def refreshHoldAt_def
  refusedHoldAt_def nextRefreshAt_def
declare hold_defs [rule_defs] resetsRamp_def [rule_defs] advance_def [rule_defs]
  rampStep_def [rule_defs] newBackoff_def [rule_defs]

section \<open>The delay\<close>

lemma refreshDelay_loop_eq:
  "refreshBackoffBase \<le> d \<Longrightarrow> d \<le> 2 * refreshBackoffCap \<Longrightarrow>
   min (refreshDelay_loop k d) refreshBackoffCap = min (d * 2 ^ k) refreshBackoffCap"
proof (induction k d rule: refreshDelay_loop.induct)
  case (1 d)
  then show ?case by simp
next
  case (2 k d)
  have pos: "0 < d" using "2.prems" by (simp add: refreshBackoffBase_def second_def)
  show ?case
  proof (cases "refreshBackoffCap \<le> d")
    case True
    have "(1::int) \<le> 2 ^ Suc k" by (rule one_le_power) simp
    then have "d * 1 \<le> d * 2 ^ Suc k" using pos by (intro mult_left_mono) simp_all
    with True show ?thesis by simp
  next
    case False
    have fit: "wrap64 (d * 2) = d * 2"
      using False pos
      by (intro wrap64_id) (simp_all add: refreshBackoffCap_def minute_def second_def max_i64_def)
    have "refreshBackoffBase \<le> wrap64 (d * 2)" "wrap64 (d * 2) \<le> 2 * refreshBackoffCap"
      using False "2.prems" pos by (simp_all add: fit)
    from "2.IH" [OF False this] False show ?thesis
      by (simp add: fit mult.assoc)
  qed
qed

lemma refreshDelay_closed:
  "0 < links \<Longrightarrow> refreshDelay links = min refreshBackoffCap (refreshBackoffBase * 2 ^ nat (links - 1))"
  using refreshDelay_loop_eq [of refreshBackoffBase "nat (links - 1)"]
  by (simp add: refreshDelay_def min.commute refreshBackoffBase_def refreshBackoffCap_def
      minute_def second_def)

lemma refreshDelay_nonneg: "0 \<le> refreshDelay links"
proof (cases "0 < links")
  case True
  then show ?thesis
    by (simp add: refreshDelay_closed refreshBackoffBase_def refreshBackoffCap_def minute_def second_def)
next
  case False
  then show ?thesis by (simp add: refreshDelay_def)
qed

lemma refreshDelay_le_cap: "refreshDelay links \<le> refreshBackoffCap"
  by (simp add: refreshDelay_def refreshBackoffCap_def minute_def second_def)

lemma refreshDelay_mono: "a \<le> b \<Longrightarrow> refreshDelay a \<le> refreshDelay b"
proof (cases "0 < a")
  case True
  assume "a \<le> b"
  then have "(2::int) ^ nat (a - 1) \<le> 2 ^ nat (b - 1)"
    by (intro power_increasing) simp_all
  then have "refreshBackoffBase * 2 ^ nat (a - 1) \<le> refreshBackoffBase * 2 ^ nat (b - 1)"
    by (intro mult_left_mono) (simp_all add: refreshBackoffBase_def second_def)
  with True \<open>a \<le> b\<close> show ?thesis by (simp add: refreshDelay_closed min.coboundedI2)
next
  case False
  then have "refreshDelay a = 0" by (simp add: refreshDelay_def)
  then show ?thesis by (simp add: refreshDelay_nonneg)
qed

lemma refreshDelay_capped: "9 \<le> links \<Longrightarrow> refreshDelay links = refreshBackoffCap"
  using refreshDelay_mono [of 9 links] refreshDelay_le_cap [of links]
  by (simp add: refreshDelay_closed refreshBackoffBase_def refreshBackoffCap_def minute_def second_def)

section \<open>The ramp and the unanswered stretch\<close>

lemma advance_bounds:
  "0 < b \<Longrightarrow> b \<le> bmax \<Longrightarrow> 2 * bmax \<le> max_i64 \<Longrightarrow> b \<le> advance b bmax \<and> advance b bmax \<le> bmax"
  by (simp add: advance_def max_i64_def)

lemma rampRun_bounds:
  "0 < bmin \<Longrightarrow> bmin \<le> bmax \<Longrightarrow> 2 * bmax \<le> max_i64 \<Longrightarrow> bmin \<le> b \<Longrightarrow> b \<le> bmax \<Longrightarrow>
   w \<in> set (rampRun bmin bmax b evs) \<Longrightarrow> bmin \<le> w \<and> w \<le> bmax"
proof (induction bmin bmax b evs rule: rampRun.induct)
  case (2 bmin bmax b steady verdict rest)
  let ?r = "rampStep bmin bmax steady verdict b"
  have "b \<le> advance b bmax \<and> advance b bmax \<le> bmax" "bmax \<le> advance bmax bmax \<and> advance bmax bmax \<le> bmax"
    using advance_bounds [of b bmax] advance_bounds [of bmax bmax] "2.prems"(1-5) by linarith+
  then have "bmin \<le> fst ?r \<and> fst ?r \<le> bmax \<and> bmin \<le> snd ?r \<and> snd ?r \<le> bmax"
    using "2.prems" by (auto simp: rampStep_def Let_def)
  with "2.IH" [OF refl, of "fst ?r" "snd ?r"] "2.prems" show ?case
    by (auto simp: case_prod_beta Let_def)
qed simp

definition waited :: "int \<Rightarrow> duration" where
  "waited n = (\<Sum>i\<in>{1..<n}. refreshDelay i)"

lemma waited_1 [simp]: "waited 1 = 0"
  by (simp add: waited_def)

lemma waited_step: "1 \<le> n \<Longrightarrow> waited (n + 1) = waited n + refreshDelay n"
proof -
  assume "1 \<le> n"
  then have "{1..<n + 1} = insert n {1..<n}" by auto
  then show ?thesis by (simp add: waited_def)
qed

lemma waited_9: "waited 9 = 1275 * second"
  using waited_step [of 1] waited_step [of 2] waited_step [of 3] waited_step [of 4]
    waited_step [of 5] waited_step [of 6] waited_step [of 7] waited_step [of 8]
  by (simp add: refreshDelay_closed refreshBackoffBase_def refreshBackoffCap_def minute_def second_def)

lemma waited_linear: "9 \<le> n \<Longrightarrow> waited n = 1275 * second + (n - 9) * refreshBackoffCap"
proof (induction n rule: int_ge_induct)
  case base
  then show ?case by (simp add: waited_9)
next
  case (step n)
  have "waited (n + 1) = waited n + refreshBackoffCap"
    using step by (simp add: waited_step refreshDelay_capped)
  then show ?case using step by (simp add: algebra_simps)
qed

lemma unansweredRun_spaced:
  assumes "0 < lastSent" "1 \<le> links" "sorted (map fst evs)" "\<forall>e\<in>set evs. lastSent \<le> fst e"
    and "unansweredRun links lastSent evs = (n, t)"
  shows "links \<le> n \<and> waited n - waited links \<le> t - lastSent \<and> t \<in> insert lastSent (fst ` set evs)"
  using assms
proof (induction links lastSent evs rule: unansweredRun.induct)
  case (2 links lastSent now answeredAt rest)
  show ?case
  proof (cases "refreshHoldAt links answeredAt lastSent now = RefreshNotHeld")
    case True
    from True "2.prems" have spaced: "lastSent + refreshDelay links \<le> now"
      by (auto simp: hold_defs Let_def split: if_splits)
    have "links + 1 \<le> n \<and> waited n - waited (links + 1) \<le> t - now \<and> t \<in> insert now (fst ` set rest)"
      using "2.prems" True by (intro "2.IH"(1)) auto
    with spaced "2.prems"(2) show ?thesis by (auto simp: waited_step)
  next
    case False
    have "links \<le> n \<and> waited n - waited links \<le> t - lastSent \<and> t \<in> insert lastSent (fst ` set rest)"
      using "2.prems" False by (intro "2.IH"(2)) auto
    then show ?thesis by auto
  qed
qed simp

section \<open>The properties of the rules\<close>

text \<open>
  The loop of \<open>refreshDelay\<close> computes exactly \<open>min(15 min, 5 s * 2^(n-1))\<close> for every
  chain length, 0 for an empty chain: the doubling never wraps around int64 on its way
  to the cap, whatever the length.
\<close>

theorem refreshDelay_formula:
  "refreshDelay links =
     (if links \<le> 0 then 0 else min (15 * minute) (5 * second * 2 ^ nat (links - 1)))"
  using refreshDelay_closed [of links]
  by (simp add: refreshDelay_def refreshBackoffBase_def refreshBackoffCap_def)

text \<open>
  When the client may refresh on its own initiative. A settled credential is never
  held; an unsettled one is free exactly when Catenary has answered this context, and,
  if there is a stamp that is not in the future, answered strictly later than it and the
  delay counted from it has elapsed.
\<close>

theorem refreshHoldAt_free_iff:
  "refreshHoldAt links answeredAt lastSent now = RefreshNotHeld \<longleftrightarrow>
     links \<le> 0 \<or>
     (answeredAt \<noteq> 0 \<and>
      (lastSent = 0 \<or> now < lastSent \<or>
       (lastSent < answeredAt \<and> lastSent + refreshDelay links \<le> now)))"
  by (auto simp: hold_defs Let_def)

text \<open>
  The refused-token wait and the refresh backoff are the same wait, and it ends. For
  a refused token on a context whose gate is open, the one page per hold is withheld
  exactly while the automatic refresh is backing off; and once fifteen minutes have
  passed since the last send it is not withheld at all, whatever the chain's length.
\<close>

theorem refused_wait_is_the_backoff:
  assumes "gateOpen answeredAt (readStamp lastSent now)"
  shows "(refusedHoldAt True links lastSent now \<longleftrightarrow>
            refreshHoldAt links answeredAt lastSent now = RefreshHeldBackoff) \<and>
         (lastSent + 15 * minute \<le> now \<longrightarrow> \<not> refusedHoldAt True links lastSent now)"
  using assms refreshDelay_le_cap [of links]
  by (auto simp: hold_defs Let_def refreshBackoffCap_def split: if_splits)

theorem refused_wait_is_the_backoff_witness:
  "(refusedHoldAt True 3 (100 * second) (110 * second) \<longleftrightarrow>
      refreshHoldAt 3 (105 * second) (100 * second) (110 * second) = RefreshHeldBackoff) \<and>
   refusedHoldAt True 3 (100 * second) (110 * second)"
proof -
  have "gateOpen (105 * second) (readStamp (100 * second) (110 * second))"
    by (simp add: gateOpen_def readStamp_def second_def)
  from refused_wait_is_the_backoff [OF this, of 3] show ?thesis
    by (simp add: refusedHoldAt_def backoffPending_def readStamp_def second_def refreshDelay_closed
        refreshBackoffBase_def refreshBackoffCap_def minute_def)
qed

text \<open>
  What the two suppressors buy. A device that keeps trying for a whole day while
  \<open>/sync\<close> answers and \<open>/refresh\<close> never does, on a clock that does not run backwards,
  ends with at most 103 links however often it tries; the first eight waits take 1275
  seconds and every later one fifteen minutes.
\<close>

theorem day_of_unanswered_refreshes:
  assumes "0 < t0" and "sorted (map fst evs)"
    and "\<forall>e\<in>set evs. t0 \<le> fst e \<and> fst e \<le> t0 + 24 * 60 * minute"
  shows "fst (unansweredRun 1 t0 evs) \<le> 103"
proof (rule ccontr)
  assume "\<not> ?thesis"
  obtain n t where run: "unansweredRun 1 t0 evs = (n, t)" by fastforce
  from \<open>\<not> ?thesis\<close> run have "104 \<le> n" by simp
  have "waited n - waited 1 \<le> t - t0 \<and> t \<in> insert t0 (fst ` set evs)"
    using unansweredRun_spaced [OF assms(1) _ assms(2) _ run] assms(3) by auto
  moreover have "t \<le> t0 + 24 * 60 * minute"
    using calculation assms(3) by (auto simp: minute_def second_def)
  moreover have "waited n \<ge> 1275 * second + 95 * refreshBackoffCap"
    using \<open>104 \<le> n\<close> by (simp add: waited_linear refreshBackoffCap_def minute_def second_def)
  ultimately show False by (simp add: refreshBackoffCap_def minute_def second_def)
qed

theorem day_of_unanswered_refreshes_witness:
  "fst (unansweredRun 1 second [(3 * second, 2 * second), (7 * second, 2 * second)]) \<le> 103 \<and>
   unansweredRun 1 second [(3 * second, 2 * second), (7 * second, 2 * second)] = (2, 7 * second)"
proof -
  have "fst (unansweredRun 1 second [(3 * second, 2 * second), (7 * second, 2 * second)]) \<le> 103"
    by (rule day_of_unanswered_refreshes) (simp_all add: second_def minute_def)
  then show ?thesis
    by (simp add: hold_defs Let_def second_def minute_def refreshDelay_closed refreshBackoffBase_def
        refreshBackoffCap_def)
qed

text \<open>
  The dial ramp stays between its floor and its ceiling. From the floor, over any
  sequence of ended sessions, every nominal wait lies between the two bounds \<open>New\<close>
  settles, and the floor is positive: the doubling never wraps as long as twice the
  ceiling fits a duration.
\<close>

theorem ramp_between_floor_and_ceiling:
  assumes "newBackoff cfgMin cfgMax = (bmin, bmax)" and "2 * bmax \<le> max_i64"
    and "w \<in> set (rampRun bmin bmax bmin sessions)"
  shows "0 < bmin \<and> bmin \<le> w \<and> w \<le> bmax"
proof -
  from assms(1) have "0 < bmin" "bmin \<le> bmax"
    by (auto simp: newBackoff_def Let_def defaultBackoffMin_def split: if_splits)
  then show ?thesis using rampRun_bounds [OF _ _ assms(2) _ _ assms(3)] by simp
qed

theorem ramp_between_floor_and_ceiling_witness:
  "newBackoff 0 0 = (250000000, 5000000000) \<and>
   rampRun 250000000 5000000000 250000000 [(False, Reconnect), (False, Reconnect), (False, ReconnectAtMaximum)]
     = [250000000, 500000000, 5000000000] \<and> (0::int) < 250000000 \<and> (500000000::int) \<le> 5000000000"
proof -
  have n: "newBackoff 0 0 = (250000000, 5000000000)"
    by (simp add: newBackoff_def Let_def defaultBackoffMin_def defaultBackoffMax_def second_def)
  have r: "rampRun 250000000 5000000000 250000000
      [(False, Reconnect), (False, Reconnect), (False, ReconnectAtMaximum)]
      = [250000000, 500000000, 5000000000]"
    by (simp add: rampStep_def Let_def advance_def max_i64_def)
  have m: "500000000 \<in> set (rampRun 250000000 5000000000 250000000
      [(False, Reconnect), (False, Reconnect), (False, ReconnectAtMaximum)])"
    unfolding r by simp
  have "0 < (250000000::int) \<and> 250000000 \<le> (500000000::int) \<and> (500000000::int) \<le> 5000000000"
    by (rule ramp_between_floor_and_ceiling [OF n _ m]) (simp add: max_i64_def)
  with n r show ?thesis by simp
qed

end
