(* ===== verification/Client_Journal.thy ===== *)
theory Client_Journal
  imports Client_Rules
begin

text \<open>
  \<open>internal/client/journal.go\<close>: the client's durable state. The credential and the
  chain of refreshes sent and not yet answered, the message store with its cursor, and
  the evidence log of counted messages. Each operation is one critical section of the
  journal's locks, so it is one function on the record. The single-flight lock
  \<open>refreshing\<close> carries no data: holding it is what makes a refresh of \<open>Client_Refresh\<close>
  one uninterrupted call.
\<close>

record Credential =
  cr_DeviceID :: uuid
  cr_UserID :: uuid
  cr_AccessToken :: token
  cr_AccessExpiresAt :: gotime
  cr_RefreshToken :: token
  cr_RefreshExpiresAt :: gotime
  cr_AccessIssuedAt :: gotime
  cr_ClockOffset :: duration

record ChainLink =
  l_Token :: token
  l_Proposal :: token

datatype journal_error =
  ErrNoCredential | ErrCredentialHeld | ErrCredentialDevice | ErrCredentialIncomplete
| ErrSeedNegative | ErrSeedHeld | ErrMint

record Journal =
  j_credential :: Credential
  j_hasCredential :: bool
  j_chain :: "ChainLink list"
  j_lastSent :: gotime
  j_cursor :: int
  j_hasCursor :: bool
  j_messages :: "(uuid, Message) gomap"
  j_conversations :: "(uuid, Conversation) gomap"
  j_users :: "(uuid, User) gomap"
  j_counted :: "uuid list"
  j_wipes :: int

definition zeroCredential :: Credential where
  "zeroCredential = \<lparr>cr_DeviceID = '''', cr_UserID = '''', cr_AccessToken = '''',
     cr_AccessExpiresAt = 0, cr_RefreshToken = '''', cr_RefreshExpiresAt = 0,
     cr_AccessIssuedAt = 0, cr_ClockOffset = 0\<rparr>"

definition resetLocked :: "Journal \<Rightarrow> Journal" where
  "resetLocked j = j\<lparr>j_cursor := 0, j_hasCursor := False, j_messages := [],
     j_conversations := [], j_users := [], j_counted := []\<rparr>"

definition NewJournal :: Journal where
  "NewJournal = resetLocked \<lparr>j_credential = zeroCredential, j_hasCredential = False,
     j_chain = [], j_lastSent = 0, j_cursor = 0, j_hasCursor = False, j_messages = [],
     j_conversations = [], j_users = [], j_counted = [], j_wipes = 0\<rparr>"

section \<open>The credential\<close>

definition Enroll :: "Journal \<Rightarrow> Credential \<Rightarrow> journal_error + Journal" where
  "Enroll j cred =
     (if cr_DeviceID cred = '''' \<or> cr_AccessToken cred = '''' \<or> cr_RefreshToken cred = ''''
      then Inl ErrCredentialIncomplete
      else if j_hasCredential j then Inl ErrCredentialHeld
      else Inr (j\<lparr>j_credential := cred, j_hasCredential := True\<rparr>))"

definition Reenroll :: "Journal \<Rightarrow> Credential \<Rightarrow> journal_error + Journal" where
  "Reenroll j cred =
     (if cr_DeviceID cred = '''' \<or> cr_AccessToken cred = '''' \<or> cr_RefreshToken cred = ''''
      then Inl ErrCredentialIncomplete
      else if \<not> j_hasCredential j then Inl ErrNoCredential
      else Inr (j\<lparr>j_credential := cred, j_chain := [], j_lastSent := 0\<rparr>))"

definition Rotate :: "Journal \<Rightarrow> Credential \<Rightarrow> journal_error + Journal" where
  "Rotate j next =
     (if \<not> j_hasCredential j then Inl ErrNoCredential
      else if cr_DeviceID next \<noteq> cr_DeviceID (j_credential j) then Inl ErrCredentialDevice
      else if cr_UserID next \<noteq> '''' \<and> cr_UserID next \<noteq> cr_UserID (j_credential j)
        then Inl ErrCredentialDevice
      else if cr_AccessToken next = '''' \<or> cr_RefreshToken next = ''''
        then Inl ErrCredentialIncomplete
      else Inr (j\<lparr>j_credential := next\<lparr>cr_UserID := cr_UserID (j_credential j)\<rparr>,
                  j_chain := [], j_lastSent := 0\<rparr>))"

definition LastSent :: "Journal \<Rightarrow> gotime \<times> bool" where
  "LastSent j = (j_lastSent j, j_lastSent j \<noteq> 0)"

definition stampLocked :: "Journal \<Rightarrow> gotime \<Rightarrow> Journal" where
  "stampLocked j now = j\<lparr>j_lastSent := now\<rparr>"

text \<open>
  The search of \<open>propose\<close> and \<open>older\<close>: the position of the first link that presented
  \<open>token\<close>.
\<close>

fun findLink :: "ChainLink list \<Rightarrow> token \<Rightarrow> nat option" where
  "findLink [] t = None"
| "findLink (l # ls) t =
     (if l_Token l = t then Some 0 else map_option Suc (findLink ls t))"

definition newest :: "Journal \<Rightarrow> token" where
  "newest j = (if j_chain j = [] then cr_RefreshToken (j_credential j)
               else l_Proposal (last (j_chain j)))"

text \<open>
  \<open>propose\<close>: \<open>Inr None\<close> is \<open>ok = false\<close>, the chain moved. The argument \<open>mint\<close> is what
  the mint callback does when it is called: \<open>None\<close> where it fails, and otherwise the
  fresh proposal with the wall clock it stamps, written in the same section.
\<close>

definition propose ::
  "Journal \<Rightarrow> token \<Rightarrow> bool \<Rightarrow> (token \<times> gotime) option \<Rightarrow> journal_error + (token \<times> Journal) option" where
  "propose j tok replace mint =
     (if \<not> j_hasCredential j then Inl ErrNoCredential
      else case findLink (j_chain j) tok of
        Some i \<Rightarrow>
          if \<not> replace then Inr (Some (l_Proposal (j_chain j ! i), j))
          else (case mint of
              None \<Rightarrow> Inl ErrMint
            | Some (p, now) \<Rightarrow>
                Inr (Some (p, (stampLocked j now)\<lparr>j_chain :=
                  take i (j_chain j) @ [\<lparr>l_Token = tok, l_Proposal = p\<rparr>]\<rparr>)))
      | None \<Rightarrow>
          if tok \<noteq> newest j then Inr None
          else (case mint of
              None \<Rightarrow> Inl ErrMint
            | Some (p, now) \<Rightarrow>
                Inr (Some (p, (stampLocked j now)\<lparr>j_chain :=
                  j_chain j @ [\<lparr>l_Token = tok, l_Proposal = p\<rparr>]\<rparr>))))"

text \<open>
  \<open>older\<close> scans for a link with \<open>i > 0\<close>; the first link never qualifies, so the scan
  of the tail with the previous link at hand is the same loop.
\<close>

fun olderIn :: "ChainLink list \<Rightarrow> token \<Rightarrow> token option" where
  "olderIn (a # b # ls) t = (if l_Token b = t then Some (l_Token a) else olderIn (b # ls) t)"
| "olderIn _ t = None"

definition older :: "Journal \<Rightarrow> token \<Rightarrow> token option" where
  "older j t = olderIn (j_chain j) t"

section \<open>The message store\<close>

definition SeedCursor :: "Journal \<Rightarrow> int \<Rightarrow> journal_error + Journal" where
  "SeedCursor j c =
     (if c < 0 then Inl ErrSeedNegative
      else if j_hasCursor j \<or> j_messages j \<noteq> [] \<or> 0 < j_wipes j then Inl ErrSeedHeld
      else Inr (j\<lparr>j_cursor := c, j_hasCursor := True\<rparr>))"

record Snapshot =
  sn_Cursor :: int
  sn_HasCursor :: bool
  sn_Wipes :: int
  sn_Messages :: "Message list"
  sn_Conversations :: "Conversation list"
  sn_Users :: "User list"
  sn_Counted :: "uuid list"

definition takeSnapshot :: "Journal \<Rightarrow> Snapshot" where
  "takeSnapshot j = \<lparr>sn_Cursor = j_cursor j, sn_HasCursor = j_hasCursor j, sn_Wipes = j_wipes j,
     sn_Messages = sort_key (\<lambda>m. m_ConversationID m)
       (sort_key (\<lambda>m. m_Seq m) (sort_key (\<lambda>m. m_ID m) (map snd (j_messages j)))),
     sn_Conversations = sort_key c_ID (map snd (j_conversations j)),
     sn_Users = sort_key u_ID (map snd (j_users j)),
     sn_Counted = j_counted j\<rparr>"

lemmas journal_op_defs = Enroll_def Reenroll_def Rotate_def propose_def resetLocked_def
  NewJournal_def SeedCursor_def stampLocked_def
declare journal_op_defs [journal_defs]

section \<open>The chain's invariant\<close>

text \<open>
  The chain reads, oldest first, as the token the server last confirmed and then each
  successor this device proposed for it: \<open>linked t ls\<close> says that \<open>ls\<close> starts at \<open>t\<close> and
  every later link presents the proposal of the one before.
\<close>

fun linked :: "token \<Rightarrow> ChainLink list \<Rightarrow> bool" where
  "linked t [] \<longleftrightarrow> True"
| "linked t (l # ls) \<longleftrightarrow> l_Token l = t \<and> linked (l_Proposal l) ls"

fun chainEnd :: "token \<Rightarrow> ChainLink list \<Rightarrow> token" where
  "chainEnd t [] = t"
| "chainEnd t (l # ls) = chainEnd (l_Proposal l) ls"

text \<open>
  The invariant of the credential half of a journal. A journal with no credential has
  no chain; a link is never without the stamp of its writing.
\<close>

definition chain_inv :: "Journal \<Rightarrow> bool" where
  "chain_inv j \<longleftrightarrow>
     (\<not> j_hasCredential j \<longrightarrow> j_chain j = []) \<and>
     linked (cr_RefreshToken (j_credential j)) (j_chain j) \<and>
     (j_chain j = [] \<longrightarrow> j_lastSent j = 0) \<and>
     (j_hasCredential j \<longrightarrow> cr_DeviceID (j_credential j) \<noteq> '''' \<and>
        cr_AccessToken (j_credential j) \<noteq> '''' \<and> cr_RefreshToken (j_credential j) \<noteq> '''')"

lemma chainEnd_last: "ls \<noteq> [] \<Longrightarrow> chainEnd t ls = l_Proposal (last ls)"
  by (induction t ls rule: chainEnd.induct) auto

lemma newest_chainEnd: "newest j = chainEnd (cr_RefreshToken (j_credential j)) (j_chain j)"
  by (simp add: newest_def chainEnd_last)

lemma linked_snoc: "linked t (ls @ [l]) \<longleftrightarrow> linked t ls \<and> l_Token l = chainEnd t ls"
  by (induction t ls rule: linked.induct) auto

lemma linked_take: "linked t ls \<Longrightarrow> linked t (take n ls)"
proof (induction t ls arbitrary: n rule: linked.induct)
  case (2 t l ls)
  then show ?case by (cases n) auto
qed simp

lemma linked_take_end: "linked t ls \<Longrightarrow> i < length ls \<Longrightarrow> chainEnd t (take i ls) = l_Token (ls ! i)"
proof (induction t ls arbitrary: i rule: linked.induct)
  case (2 t l ls)
  then show ?case by (cases i) auto
qed simp

lemma findLink_Some:
  "findLink ls t = Some i \<Longrightarrow> i < length ls \<and> l_Token (ls ! i) = t \<and> (\<forall>k < i. l_Token (ls ! k) \<noteq> t)"
proof (induction ls arbitrary: i)
  case (Cons l ls)
  show ?case
  proof (cases "l_Token l = t")
    case True
    with Cons.prems show ?thesis by simp
  next
    case False
    with Cons.prems obtain k where k: "findLink ls t = Some k" "i = Suc k" by auto
    from Cons.IH [OF k(1)] k(2) False show ?thesis
      by (auto simp: less_Suc_eq_0_disj)
  qed
qed simp

lemma findLink_None: "findLink ls t = None \<longleftrightarrow> t \<notin> l_Token ` set ls"
  by (induction ls) auto

lemma linked_replace:
  "linked t ls \<Longrightarrow> i < length ls \<Longrightarrow> l_Token (ls ! i) = u \<Longrightarrow>
   linked t (take i ls @ [\<lparr>l_Token = u, l_Proposal = p\<rparr>])"
  by (simp add: linked_snoc linked_take linked_take_end)

section \<open>Every operation keeps it\<close>

lemma chain_inv_New: "chain_inv NewJournal"
  by (simp add: chain_inv_def NewJournal_def resetLocked_def zeroCredential_def)

lemma chain_inv_Enroll: "chain_inv j \<Longrightarrow> Enroll j c = Inr j' \<Longrightarrow> chain_inv j'"
  by (auto simp: chain_inv_def Enroll_def split: if_splits)

lemma chain_inv_Reenroll: "chain_inv j \<Longrightarrow> Reenroll j c = Inr j' \<Longrightarrow> chain_inv j'"
  by (auto simp: chain_inv_def Reenroll_def split: if_splits)

lemma chain_inv_Rotate: "chain_inv j \<Longrightarrow> Rotate j c = Inr j' \<Longrightarrow> chain_inv j'"
  by (auto simp: chain_inv_def Rotate_def split: if_splits)

lemma chain_inv_reset: "chain_inv j \<Longrightarrow> chain_inv (resetLocked j)"
  by (simp add: chain_inv_def resetLocked_def)

lemma chain_inv_SeedCursor: "chain_inv j \<Longrightarrow> SeedCursor j c = Inr j' \<Longrightarrow> chain_inv j'"
  by (auto simp: chain_inv_def SeedCursor_def split: if_splits)

lemma chain_inv_propose:
  assumes "chain_inv j" and "propose j tok replace mint = Inr (Some (p, j'))"
  shows "chain_inv j'"
proof (cases "findLink (j_chain j) tok")
  case None
  with assms show ?thesis
    by (auto simp: chain_inv_def propose_def stampLocked_def linked_snoc newest_chainEnd
        split: if_splits option.splits)
next
  case (Some i)
  note i = findLink_Some [OF Some]
  show ?thesis
    using assms Some i linked_replace [of "cr_RefreshToken (j_credential j)" "j_chain j" i tok]
    by (auto simp: chain_inv_def propose_def stampLocked_def split: if_splits option.splits)
qed

lemmas chain_inv_ops = chain_inv_New chain_inv_Enroll chain_inv_Reenroll chain_inv_Rotate
  chain_inv_reset chain_inv_SeedCursor chain_inv_propose

section \<open>What propose answers\<close>

lemma linked_succ: "linked t ls \<Longrightarrow> i < length ls \<Longrightarrow> ls ! i = l \<Longrightarrow>
   chainEnd t (take (Suc i) ls) = l_Proposal l"
proof (induction t ls arbitrary: i rule: linked.induct)
  case (2 t a ls)
  then show ?case by (cases i) auto
qed simp

lemma propose_again:
  assumes "propose j tok replace mint = Inr (Some (p, j'))"
  shows "propose j' tok False mint' = Inr (Some (p, j'))"
proof -
  have find: "findLink (xs @ [\<lparr>l_Token = tok, l_Proposal = q\<rparr>]) tok = Some (length xs)"
    if "tok \<notin> l_Token ` set xs" for xs q
    using that by (induction xs) auto
  have pre: "tok \<notin> l_Token ` set (take i (j_chain j))" if "findLink (j_chain j) tok = Some i" for i
    using findLink_Some [OF that] by (fastforce simp: in_set_conv_nth)
  show ?thesis
  proof (cases "findLink (j_chain j) tok")
    case None
    then have "tok \<notin> l_Token ` set (j_chain j)" by (simp add: findLink_None)
    from find [OF this] None assms show ?thesis
      by (auto simp: propose_def stampLocked_def split: if_splits option.splits)
  next
    case (Some i)
    with assms find [OF pre [OF Some]] findLink_Some [OF Some] show ?thesis
      by (auto simp: propose_def stampLocked_def nth_append min_def split: if_splits option.splits)
  qed
qed

lemma propose_link:
  assumes "propose j tok replace mint = Inr (Some (p, j'))"
  shows "\<lparr>l_Token = tok, l_Proposal = p\<rparr> \<in> set (j_chain j')"
proof (cases "findLink (j_chain j) tok")
  case None
  with assms show ?thesis
    by (auto simp: propose_def stampLocked_def split: if_splits option.splits)
next
  case (Some i)
  note i = findLink_Some [OF Some]
  then have "\<lparr>l_Token = tok, l_Proposal = l_Proposal (j_chain j ! i)\<rparr> = j_chain j ! i" by simp
  with i have "\<lparr>l_Token = tok, l_Proposal = l_Proposal (j_chain j ! i)\<rparr> \<in> set (j_chain j)"
    by (metis nth_mem)
  with assms Some i show ?thesis
    by (auto simp: propose_def stampLocked_def split: if_splits option.splits)
qed

lemma propose_frame:
  "propose j tok replace mint = Inr (Some (p, j')) \<Longrightarrow>
   j_credential j' = j_credential j \<and> j_hasCredential j' \<and>
   j_messages j' = j_messages j \<and> j_cursor j' = j_cursor j \<and> j_wipes j' = j_wipes j"
  by (auto simp: propose_def stampLocked_def split: if_splits option.splits)

section \<open>Reachable journals\<close>

text \<open>
  The journals a device can hold: built by \<open>NewJournal\<close> and changed by the journal's own
  operations, in any order and with any arguments. The page and frame writes of
  \<open>Client_Log\<close> leave the credential half alone, which the last rule over-approximates.
\<close>

inductive journal_reach :: "Journal \<Rightarrow> bool" where
  new: "journal_reach NewJournal"
| enroll: "journal_reach j \<Longrightarrow> Enroll j c = Inr j' \<Longrightarrow> journal_reach j'"
| reenroll: "journal_reach j \<Longrightarrow> Reenroll j c = Inr j' \<Longrightarrow> journal_reach j'"
| rotate: "journal_reach j \<Longrightarrow> Rotate j c = Inr j' \<Longrightarrow> journal_reach j'"
| propose: "journal_reach j \<Longrightarrow> propose j tok replace mint = Inr (Some (p, j')) \<Longrightarrow> journal_reach j'"
| wipe: "journal_reach j \<Longrightarrow> journal_reach ((resetLocked j)\<lparr>j_wipes := j_wipes j + 1\<rparr>)"
| seed: "journal_reach j \<Longrightarrow> SeedCursor j c' = Inr j' \<Longrightarrow> journal_reach j'"
| store: "journal_reach j \<Longrightarrow>
    journal_reach (j\<lparr>j_cursor := cur, j_hasCursor := hc, j_messages := ms, j_conversations := cs,
      j_users := us, j_counted := ct\<rparr>)"

lemma journal_reach_chain_inv: "journal_reach j \<Longrightarrow> chain_inv j"
proof (induction rule: journal_reach.induct)
  case (wipe j)
  then show ?case by (simp add: chain_inv_def resetLocked_def)
next
  case (store j cur hc ms cs us ct)
  then show ?case by (simp add: chain_inv_def)
qed (auto intro: chain_inv_ops)

text \<open>
  C34. the chain invariant holds of every journal the operations can produce: the first
  link presents the confirmed refresh token, each later link presents the proposal of
  the one before it, so \<open>newest\<close> is the end of that walk; a settled credential carries
  no stamp, and a held credential is never missing a half.
\<close>

theorem reachable_journal_chain:
  assumes "journal_reach j"
  shows "linked (cr_RefreshToken (j_credential j)) (j_chain j) \<and>
         newest j = chainEnd (cr_RefreshToken (j_credential j)) (j_chain j) \<and>
         (j_chain j = [] \<longrightarrow> j_lastSent j = 0) \<and>
         (j_hasCredential j \<longrightarrow> cr_AccessToken (j_credential j) \<noteq> '''' \<and>
            cr_RefreshToken (j_credential j) \<noteq> '''')"
  using journal_reach_chain_inv [OF assms] by (auto simp: chain_inv_def newest_chainEnd)

definition exampleCredential :: Credential where
  "exampleCredential = \<lparr>cr_DeviceID = ''d1'', cr_UserID = ''u1'', cr_AccessToken = ''a0'',
     cr_AccessExpiresAt = 900 * second, cr_RefreshToken = ''r0'', cr_RefreshExpiresAt = 9000 * second,
     cr_AccessIssuedAt = 0, cr_ClockOffset = 0\<rparr>"

definition exampleJournal :: Journal where
  "exampleJournal = NewJournal\<lparr>j_credential := exampleCredential, j_hasCredential := True\<rparr>"

lemmas example_defs = exampleJournal_def exampleCredential_def NewJournal_def resetLocked_def

lemma exampleJournal_reach: "journal_reach exampleJournal"
proof -
  have "Enroll NewJournal exampleCredential = Inr exampleJournal"
    by (simp add: Enroll_def example_defs)
  from journal_reach.enroll [OF journal_reach.new this] show ?thesis .
qed

lemma exampleJournal_propose:
  "propose exampleJournal ''r0'' False (Some (''p1'', 7)) =
   Inr (Some (''p1'', exampleJournal\<lparr>j_chain := [\<lparr>l_Token = ''r0'', l_Proposal = ''p1''\<rparr>],
     j_lastSent := 7\<rparr>))"
  by (simp add: propose_def newest_def stampLocked_def example_defs)

theorem reachable_journal_chain_witness:
  "let j = exampleJournal\<lparr>j_chain := [\<lparr>l_Token = ''r0'', l_Proposal = ''p1''\<rparr>], j_lastSent := 7\<rparr>
   in linked ''r0'' (j_chain j) \<and> newest j = ''p1''"
  using reachable_journal_chain
    [OF journal_reach.propose [OF exampleJournal_reach exampleJournal_propose]]
  by (simp add: example_defs newest_def)

text \<open>
  Persist before send, and one proposal per token. Once \<open>propose\<close> has answered, the
  link it answered with is in the journal it returns, and presenting the same token
  again, after any crash that keeps the journal, yields the same proposal, mints nothing
  and writes nothing.
\<close>

theorem propose_is_durable:
  assumes "propose j tok replace mint = Inr (Some (p, j'))"
  shows "\<lparr>l_Token = tok, l_Proposal = p\<rparr> \<in> set (j_chain j') \<and>
         propose j' tok False mint' = Inr (Some (p, j')) \<and> j_credential j' = j_credential j"
  using propose_link [OF assms] propose_again [OF assms] propose_frame [OF assms] by blast

theorem propose_is_durable_witness:
  "propose (exampleJournal\<lparr>j_chain := [\<lparr>l_Token = ''r0'', l_Proposal = ''p1''\<rparr>], j_lastSent := 7\<rparr>)
     ''r0'' False (Some (''p2'', 9)) =
   Inr (Some (''p1'', exampleJournal\<lparr>j_chain := [\<lparr>l_Token = ''r0'', l_Proposal = ''p1''\<rparr>],
     j_lastSent := 7\<rparr>))"
  using propose_is_durable [OF exampleJournal_propose, of "Some (''p2'', 9)"] by blast

text \<open>
  An answer settles the credential and nothing else. A rotation whose pair names the
  device, does not name another user and is complete is accepted; it keeps the device
  and the user, installs both halves of the new pair, empties the chain and its stamp,
  and leaves the message store, the cursor and the wipe count as they were.
\<close>

theorem rotate_settles:
  assumes "j_hasCredential j" and "cr_DeviceID next = cr_DeviceID (j_credential j)"
    and "cr_UserID next \<in> {'''', cr_UserID (j_credential j)}"
    and "cr_AccessToken next \<noteq> ''''" and "cr_RefreshToken next \<noteq> ''''"
  shows "\<exists>j'. Rotate j next = Inr j' \<and> j_chain j' = [] \<and> j_lastSent j' = 0 \<and>
           cr_UserID (j_credential j') = cr_UserID (j_credential j) \<and>
           cr_DeviceID (j_credential j') = cr_DeviceID (j_credential j) \<and>
           cr_AccessToken (j_credential j') = cr_AccessToken next \<and>
           newest j' = cr_RefreshToken next \<and>
           j_messages j' = j_messages j \<and> j_conversations j' = j_conversations j \<and>
           j_users j' = j_users j \<and> j_counted j' = j_counted j \<and> j_cursor j' = j_cursor j \<and>
           j_hasCursor j' = j_hasCursor j \<and> j_wipes j' = j_wipes j"
  using assms by (auto simp: Rotate_def newest_def)

theorem rotate_settles_witness:
  "\<exists>j'. Rotate (exampleJournal\<lparr>j_chain := [\<lparr>l_Token = ''r0'', l_Proposal = ''p1''\<rparr>]\<rparr>)
          (exampleCredential\<lparr>cr_UserID := '''', cr_AccessToken := ''a1'', cr_RefreshToken := ''p1''\<rparr>)
          = Inr j' \<and> j_chain j' = [] \<and> newest j' = ''p1'' \<and> cr_UserID (j_credential j') = ''u1''"
  using rotate_settles [of "exampleJournal\<lparr>j_chain := [\<lparr>l_Token = ''r0'', l_Proposal = ''p1''\<rparr>]\<rparr>"
      "exampleCredential\<lparr>cr_UserID := '''', cr_AccessToken := ''a1'', cr_RefreshToken := ''p1''\<rparr>"]
  by (auto simp: example_defs)

end
