(* ===== verification/Client_State.thy ===== *)
theory Client_State
  imports Client_Journal
begin

text \<open>
  The volatile state of a \<open>Client\<close> (\<open>internal/client/client.go\<close>), its configuration and
  its counters. Every field the modelled methods read or write is here; the transport
  handles (\<open>conn\<close>, \<open>http\<close>, channels, the mutexes) are not data: a method runs its
  critical sections in the order the code takes them.

  \<open>Faults\<close> are the deliberate breakages of the code, kept in the definitions where the
  code consults them; \<open>noFaults\<close> is the zero value, a correct client.
\<close>

record Faults =
  fa_CursorOnLiveFrames :: bool
  fa_DedupeByLogSeq :: bool
  fa_EndCatchUpEarly :: bool
  fa_IgnoreRetrigger :: bool
  fa_SkipWipe :: bool
  fa_NoChain :: bool
  fa_ProposeAfresh :: bool
  fa_Unbounded :: bool
  fa_PresentRefusedToken :: bool
  fa_NeverPresentRefusedToken :: bool
  fa_NeverTerminal :: bool
  fa_AlwaysTerminal :: bool
  fa_KeepHeldConversation :: bool
  fa_ResetOnAnyReady :: bool

definition noFaults :: Faults where
  "noFaults = \<lparr>fa_CursorOnLiveFrames = False, fa_DedupeByLogSeq = False, fa_EndCatchUpEarly = False,
     fa_IgnoreRetrigger = False, fa_SkipWipe = False, fa_NoChain = False, fa_ProposeAfresh = False,
     fa_Unbounded = False, fa_PresentRefusedToken = False, fa_NeverPresentRefusedToken = False,
     fa_NeverTerminal = False, fa_AlwaysTerminal = False, fa_KeepHeldConversation = False,
     fa_ResetOnAnyReady = False\<rparr>"

record Stats =
  st_Readys :: int
  st_Resyncs :: int
  st_Discards :: int
  st_LiveFrames :: int
  st_IntroductionDiscards :: int
  st_Pages :: int
  st_SyncErrors :: int
  st_PongsReceived :: int
  st_Refreshes :: int
  st_RefreshesSkipped :: int
  st_RefreshErrors :: int
  st_RefreshWalkBacks :: int
  st_RefreshesHeldUnreachable :: int
  st_RefreshesHeldBackoff :: int
  st_DialsWithheld :: int
  st_SyncsWithheld :: int
  st_Undecodable :: int
  st_Dials :: int
  st_DialErrors :: int
  st_SyncsBeforeReady :: int
  st_PingsSent :: int
  st_HeartbeatSevers :: int
  st_CloseStatuses :: "(int, int) gomap"

definition zeroStats :: Stats where
  "zeroStats = \<lparr>st_Readys = 0, st_Resyncs = 0, st_Discards = 0, st_LiveFrames = 0,
     st_IntroductionDiscards = 0, st_Pages = 0, st_SyncErrors = 0, st_PongsReceived = 0,
     st_Refreshes = 0, st_RefreshesSkipped = 0, st_RefreshErrors = 0, st_RefreshWalkBacks = 0,
     st_RefreshesHeldUnreachable = 0, st_RefreshesHeldBackoff = 0, st_DialsWithheld = 0,
     st_SyncsWithheld = 0, st_Undecodable = 0, st_Dials = 0, st_DialErrors = 0, st_SyncsBeforeReady = 0,
     st_PingsSent = 0, st_HeartbeatSevers = 0, st_CloseStatuses = []\<rparr>"

text \<open>
  \<open>cl_waiters\<close> are the sends awaiting their answer, \<open>cl_answers\<close> what each of them was
  handed, in order; \<open>cl_outstanding\<close> the pings not yet answered. \<open>cl_cancelled\<close> is the
  cancellation \<open>stop\<close> and \<open>Kill\<close> issue, \<open>cl_conn\<close> the open socket by a number of its own. The
  counters \<open>cl_gen\<close> and \<open>cl_pingSeq\<close> are 64 bits wide in the code.
\<close>

datatype sendResult = SentAck ServerAck | SentRefused ServerError | SentSessionEnded

record Client =
  cl_j :: Journal
  cl_Refresh :: bool
  cl_faults :: Faults
  cl_killed :: bool
  cl_cancelled :: bool
  cl_gen :: nat
  cl_doneGen :: nat
  cl_from0 :: bool
  cl_inPass :: bool
  cl_connecting :: bool
  cl_ready :: bool
  cl_sessionID :: uuid
  cl_interval :: duration
  cl_missedLimit :: int
  cl_outstanding :: "string list"
  cl_waiters :: "uuid list"
  cl_answers :: "(uuid \<times> sendResult) list"
  cl_terminal :: Terminal
  cl_answeredAt :: gotime
  cl_gateKnown :: bool
  cl_gateWasOpen :: bool
  cl_warnedLongChain :: bool
  cl_refusedToken :: token
  cl_stats :: Stats
  cl_SyncLimit :: int
  cl_backoffMin :: duration
  cl_backoffMax :: duration
  cl_running :: bool
  cl_conn :: "nat option"
  cl_pingSeq :: nat

definition newClient :: "Journal \<Rightarrow> bool \<Rightarrow> Faults \<Rightarrow> Client" where
  "newClient j refresh faults = \<lparr>cl_j = j, cl_Refresh = refresh, cl_faults = faults,
     cl_killed = False, cl_cancelled = False, cl_gen = 0, cl_doneGen = 0, cl_from0 = False,
     cl_inPass = False, cl_connecting = False, cl_ready = False, cl_sessionID = '''', cl_interval = 0,
     cl_missedLimit = 0, cl_outstanding = [], cl_waiters = [], cl_answers = [],
     cl_terminal = \<lparr>t_Kind = NotTerminal, t_Reason = ''''\<rparr>, cl_answeredAt = 0, cl_gateKnown = False,
     cl_gateWasOpen = False, cl_warnedLongChain = False, cl_refusedToken = '''',
     cl_stats = zeroStats, cl_SyncLimit = 0, cl_backoffMin = defaultBackoffMin, cl_backoffMax = defaultBackoffMax,
     cl_running = False, cl_conn = None, cl_pingSeq = 0\<rparr>"

abbreviation cl_credential :: "Client \<Rightarrow> Credential" where
  "cl_credential c \<equiv> j_credential (cl_j c)"

definition bump :: "((int \<Rightarrow> int) \<Rightarrow> Stats \<Rightarrow> Stats) \<Rightarrow> Client \<Rightarrow> Client" where
  "bump upd c = c\<lparr>cl_stats := upd (\<lambda>n. n + 1) (cl_stats c)\<rparr>"

lemma bump_frame [simp]:
  "cl_j (bump u c) = cl_j c" "cl_faults (bump u c) = cl_faults c" "cl_killed (bump u c) = cl_killed c"
  "cl_terminal (bump u c) = cl_terminal c" "cl_Refresh (bump u c) = cl_Refresh c"
  "cl_gen (bump u c) = cl_gen c" "cl_doneGen (bump u c) = cl_doneGen c"
  "cl_from0 (bump u c) = cl_from0 c" "cl_inPass (bump u c) = cl_inPass c"
  "cl_refusedToken (bump u c) = cl_refusedToken c" "cl_answeredAt (bump u c) = cl_answeredAt c"
  "cl_cancelled (bump u c) = cl_cancelled c"
  by (simp_all add: bump_def)

text \<open>\<open>stop\<close>: the first terminal wins, nothing is deleted, and \<open>Run\<close>'s context ends.\<close>

definition stop :: "Client \<Rightarrow> Terminal \<Rightarrow> Client" where
  "stop c t = c\<lparr>cl_terminal := (if t_Kind (cl_terminal c) = NotTerminal then t else cl_terminal c),
                cl_cancelled := True\<rparr>"

text \<open>\<open>Kill\<close>: nothing the client had in flight reaches the journal afterwards.\<close>

definition Kill :: "Client \<Rightarrow> Client" where
  "Kill c = c\<lparr>cl_killed := True, cl_cancelled := True\<rparr>"

lemma stop_frame [simp]:
  "cl_j (stop c t) = cl_j c" "cl_faults (stop c t) = cl_faults c" "cl_killed (stop c t) = cl_killed c"
  by (simp_all add: stop_def)

end
