(* ===== verification/Client_Refresh.thy ===== *)
theory Client_Refresh
  imports Client_State
begin

text \<open>
  \<open>internal/client/refresh.go\<close> and the methods of \<open>hold.go\<close> and \<open>refused.go\<close>: when a
  refresh is due, what one \<open>POST /refresh\<close> answers, the walk over the chain, the
  single-flight refresh and the suppressed automatic one.

  The world outside the client (the network with the server behind it, the random
  source, the device's clock and its timer) is a record of functions over a world state:
  \<open>w_post\<close> carries one request and returns the response, \<open>None\<close> for a request or a
  response that was lost; \<open>w_mint\<close> draws a proposal and reads the clock that stamps it;
  \<open>w_wait\<close> is \<open>False\<close> when the context ended first.
\<close>

section \<open>When a refresh is due\<close>

definition refreshFloor :: duration where
  "refreshFloor = 60 * second"

definition go_div :: "int \<Rightarrow> int \<Rightarrow> int" where
  "go_div a b = sgn a * sgn b * (\<bar>a\<bar> div \<bar>b\<bar>)"

definition WithServerDate :: "Credential \<Rightarrow> gotime \<Rightarrow> gotime \<Rightarrow> Credential" where
  "WithServerDate cr date deviceNow =
     cr\<lparr>cr_AccessIssuedAt := date, cr_ClockOffset := time_sub date deviceNow\<rparr>"

definition refreshThreshold :: "Credential \<Rightarrow> duration" where
  "refreshThreshold cr =
     (if cr_AccessIssuedAt cr = 0 then refreshFloor
      else max refreshFloor (go_div (time_sub (cr_AccessExpiresAt cr) (cr_AccessIssuedAt cr)) 3))"

definition refreshDue :: "Credential \<Rightarrow> gotime \<Rightarrow> bool" where
  "refreshDue cr deviceNow =
     (if cr_AccessExpiresAt cr = 0 then False
      else time_sub (cr_AccessExpiresAt cr) (deviceNow + cr_ClockOffset cr) < refreshThreshold cr)"

section \<open>One POST /refresh\<close>

text \<open>
  A response as the client reads it: the status, the \<open>code\<close> and \<open>retry\<close> members of a
  body that is a JSON object, the \<open>Retry-After\<close> and \<open>Date\<close> headers where they parse, and
  the body as the generated decoder accepts it.
\<close>

record RefreshBody =
  rb_AccessToken :: token
  rb_AccessExpiresAt :: "gotime option"
  rb_RefreshToken :: token
  rb_RefreshExpiresAt :: "gotime option"

record http_response =
  hr_status :: int
  hr_code :: "string option"
  hr_retry :: "string option"
  hr_retryAfter :: "int option"
  hr_date :: "gotime option"
  hr_body :: "RefreshBody option"

datatype post_result =
  PostOK Credential | PostUnauthorized | PostPresentProposal | PostFresh duration | PostFailed

definition isCatenaryUnauthorized :: "int \<Rightarrow> string option \<Rightarrow> bool" where
  "isCatenaryUnauthorized status code \<longleftrightarrow> status = 401 \<and> code = Some ''unauthorized''"

text \<open>
  The pair a response mints, with the device and the user of the held one. \<open>None\<close> is a
  timestamp the wire layout does not parse.
\<close>

definition CredentialFromEnroll :: "uuid \<Rightarrow> uuid \<Rightarrow> RefreshBody \<Rightarrow> Credential option" where
  "CredentialFromEnroll device user b =
     (case (rb_AccessExpiresAt b, rb_RefreshExpiresAt b) of
        (Some ae, Some re) \<Rightarrow>
          Some \<lparr>cr_DeviceID = device, cr_UserID = user, cr_AccessToken = rb_AccessToken b,
                cr_AccessExpiresAt = ae, cr_RefreshToken = rb_RefreshToken b,
                cr_RefreshExpiresAt = re, cr_AccessIssuedAt = 0, cr_ClockOffset = 0\<rparr>
      | _ \<Rightarrow> None)"

definition postRefresh :: "Credential \<Rightarrow> gotime \<Rightarrow> http_response option \<Rightarrow> post_result" where
  "postRefresh held arrived resp =
     (case resp of None \<Rightarrow> PostFailed
      | Some r \<Rightarrow>
          if isCatenaryUnauthorized (hr_status r) (hr_code r) then PostUnauthorized
          else if hr_status r = 503 \<and> hr_retry r = Some ''present_proposal'' then PostPresentProposal
          else if hr_status r = 503 \<and> hr_retry r = Some ''fresh_proposal'' then
            PostFresh (wrap64 (max (case hr_retryAfter r of None \<Rightarrow> 0 | Some n \<Rightarrow> n) 0 * second))
          else if hr_status r \<noteq> 200 then PostFailed
          else (case hr_body r of None \<Rightarrow> PostFailed
            | Some b \<Rightarrow>
                (case CredentialFromEnroll (cr_DeviceID held) (cr_UserID held) b of
                   None \<Rightarrow> PostFailed
                 | Some next \<Rightarrow>
                     PostOK (case hr_date r of
                         Some date \<Rightarrow> WithServerDate next date arrived
                       | None \<Rightarrow> next\<lparr>cr_ClockOffset := cr_ClockOffset held,
                                    cr_AccessIssuedAt := arrived + cr_ClockOffset held\<rparr>))))"

section \<open>The walk over the chain\<close>

record 'w World =
  w_post :: "'w \<Rightarrow> token \<Rightarrow> token \<Rightarrow> 'w \<times> http_response option"
  w_mint :: "'w \<Rightarrow> 'w \<times> (token \<times> gotime) option"
  w_now :: "'w \<Rightarrow> gotime"
  w_wait :: "'w \<Rightarrow> duration \<Rightarrow> 'w \<times> bool"

datatype refresh_error =
  RUnauthorized | RChainMoved | RWalkExhausted | RFreshProposal | RCancelled | RKilled | RHeld
| RFailed | RJournal journal_error | RTerminal Terminal

definition maxFreshProposals :: nat where "maxFreshProposals = 3"
definition maxRetryAfter :: duration where "maxRetryAfter = 5 * second"
definition walkSlack :: nat where "walkSlack = 8"

text \<open>Whether \<open>Journal.propose\<close> calls its mint callback: only where it writes a link.\<close>

definition mints :: "Journal \<Rightarrow> token \<Rightarrow> bool \<Rightarrow> bool" where
  "mints j tok replace \<longleftrightarrow> j_hasCredential j \<and>
     (case findLink (j_chain j) tok of Some _ \<Rightarrow> replace | None \<Rightarrow> tok = newest j)"

definition clientPropose ::
  "'w World \<Rightarrow> 'w \<Rightarrow> Client \<Rightarrow> token \<Rightarrow> bool \<Rightarrow> 'w \<times> Client \<times> (refresh_error + token option)" where
  "clientPropose W w c tok replace =
     (if fa_NoChain (cl_faults c) then
        (let (w', m) = w_mint W w in
         case m of None \<Rightarrow> (w', c, Inl (RJournal ErrMint)) | Some (p, _) \<Rightarrow> (w', c, Inr (Some p)))
      else if cl_killed c then (w, c, Inl RKilled)
      else
        let again = replace \<or> fa_ProposeAfresh (cl_faults c);
            (w', m) = (if mints (cl_j c) tok again then w_mint W w else (w, None))
        in case propose (cl_j c) tok again m of
             Inl e \<Rightarrow> (w', c, Inl (RJournal e))
           | Inr None \<Rightarrow> (w', c, Inr None)
           | Inr (Some (p, j')) \<Rightarrow> (w', c\<lparr>cl_j := j'\<rparr>, Inr (Some p)))"

fun exchangeLoop ::
  "'w World \<Rightarrow> nat \<Rightarrow> 'w \<Rightarrow> Client \<Rightarrow> Credential \<Rightarrow> token \<Rightarrow> bool \<Rightarrow> nat \<Rightarrow>
   'w \<times> Client \<times> (refresh_error + Credential)" where
  "exchangeLoop W 0 w c held tok replace collisions = (w, c, Inl RWalkExhausted)"
| "exchangeLoop W (Suc steps) w c held tok replace collisions =
     (case clientPropose W w c tok replace of
        (w1, c1, Inl e) \<Rightarrow> (w1, c1, Inl e)
      | (w1, c1, Inr None) \<Rightarrow> (w1, c1, Inl RChainMoved)
      | (w1, c1, Inr (Some proposal)) \<Rightarrow>
          (case w_post W w1 tok proposal of (w2, resp) \<Rightarrow>
            (case postRefresh held (w_now W w2) resp of
               PostOK next \<Rightarrow> (w2, c1, Inr next)
             | PostUnauthorized \<Rightarrow>
                 (case older (cl_j c1) tok of
                    None \<Rightarrow> (w2, c1, Inl RUnauthorized)
                  | Some o' \<Rightarrow>
                      exchangeLoop W steps w2 (bump st_RefreshWalkBacks_update c1) held o' False collisions)
             | PostPresentProposal \<Rightarrow> exchangeLoop W steps w2 c1 held proposal False collisions
             | PostFresh after \<Rightarrow>
                 (if maxFreshProposals < Suc collisions then (w2, c1, Inl RFreshProposal)
                  else case w_wait W w2 (min after maxRetryAfter) of (w3, elapsed) \<Rightarrow>
                    if elapsed then exchangeLoop W steps w3 c1 held tok True (Suc collisions)
                    else (w3, c1, Inl RCancelled))
             | PostFailed \<Rightarrow> (w2, c1, Inl RFailed))))"

definition exchange ::
  "'w World \<Rightarrow> 'w \<Rightarrow> Client \<Rightarrow> Credential \<Rightarrow> 'w \<times> Client \<times> (refresh_error + Credential)" where
  "exchange W w c held =
     (let chain = j_chain (cl_j c);
          tok = (if chain \<noteq> [] \<and> \<not> fa_NoChain (cl_faults c)
                 then l_Proposal (last chain) else cr_RefreshToken held)
      in exchangeLoop W (length chain + walkSlack) w c held tok False 0)"

section \<open>The single-flight refresh\<close>

datatype refreshNeed = RefreshNotNeeded | RefreshNeeded | RefreshHeldNow

definition clientRotate :: "Client \<Rightarrow> Credential \<Rightarrow> refresh_error + Client" where
  "clientRotate c next =
     (if cl_killed c then Inl RKilled
      else case Rotate (cl_j c) next of Inl e \<Rightarrow> Inl (RJournal e) | Inr j' \<Rightarrow> Inr (c\<lparr>cl_j := j'\<rparr>))"

text \<open>
  \<open>refused\<close>: Catenary's own 401 to the stored refresh token. Terminal only if the stored
  credential is still the one presented.
\<close>

definition refused :: "Client \<Rightarrow> Credential \<Rightarrow> Client \<times> refresh_error option" where
  "refused c presented =
     (if cr_RefreshToken (cl_credential c) \<noteq> cr_RefreshToken presented
      then (bump st_RefreshesSkipped_update c, None)
      else
        let c1 = bump st_RefreshErrors_update c in
        if fa_NeverTerminal (cl_faults c1) then (c1, Some RUnauthorized)
        else
          let c2 = stop c1 \<lparr>t_Kind = TerminalCredential,
                t_Reason = ''POST /refresh: Catenary refused the stored refresh token''\<rparr>
          in (c2, Some (RTerminal (cl_terminal c2))))"

definition refresh ::
  "'w World \<Rightarrow> 'w \<Rightarrow> Client \<Rightarrow> (Client \<Rightarrow> Credential \<Rightarrow> Client \<times> refreshNeed) \<Rightarrow>
   'w \<times> Client \<times> refresh_error option" where
  "refresh W w c stillNeeded =
     (let held = cl_credential c in
      case stillNeeded c held of
        (c0, RefreshNotNeeded) \<Rightarrow> (w, bump st_RefreshesSkipped_update c0, None)
      | (c0, RefreshHeldNow) \<Rightarrow> (w, c0, Some RHeld)
      | (c0, RefreshNeeded) \<Rightarrow>
          (case exchange W w c0 held of
             (w1, c1, Inl RChainMoved) \<Rightarrow> (w1, bump st_RefreshesSkipped_update c1, None)
           | (w1, c1, Inl RUnauthorized) \<Rightarrow> (let (c2, e) = refused c1 held in (w1, c2, e))
           | (w1, c1, Inl e) \<Rightarrow> (w1, bump st_RefreshErrors_update c1, Some e)
           | (w1, c1, Inr next) \<Rightarrow>
               (case clientRotate c1 next of
                  Inl e \<Rightarrow> (w1, c1, Some e)
                | Inr c2 \<Rightarrow> (w1, bump st_Refreshes_update c2, None))))"

section \<open>The suppressed automatic refresh\<close>

definition chainWarnLength :: int where "chainWarnLength = 64"

text \<open>
  \<open>holdNow\<close>: the decision, and with \<open>note\<close> set the log state it moves (the log lines
  themselves are not state).
\<close>

definition holdNow :: "Client \<Rightarrow> gotime \<Rightarrow> bool \<Rightarrow> Client \<times> RefreshHold" where
  "holdNow c now note =
     (let links = int (length (j_chain (cl_j c))) in
      if links = 0 then
        ((if note then c\<lparr>cl_gateKnown := False, cl_gateWasOpen := False\<rparr> else c), RefreshNotHeld)
      else
        let c1 = (if note \<and> chainWarnLength < links then c\<lparr>cl_warnedLongChain := True\<rparr> else c) in
        if fa_Unbounded (cl_faults c) then (c1, RefreshNotHeld)
        else
          let h = refreshHoldAt links (cl_answeredAt c) (fst (LastSent (cl_j c))) now in
          ((if note then c1\<lparr>cl_gateKnown := True, cl_gateWasOpen := h \<noteq> RefreshHeldUnreachable\<rparr> else c1), h))"

definition markAnswered :: "Client \<Rightarrow> gotime \<Rightarrow> Client" where
  "markAnswered c now =
     fst (holdNow (if cl_answeredAt c < now then c\<lparr>cl_answeredAt := now\<rparr> else c) now True)"

definition countHeld :: "Client \<Rightarrow> RefreshHold \<Rightarrow> Client" where
  "countHeld c h =
     (case h of RefreshHeldUnreachable \<Rightarrow> bump st_RefreshesHeldUnreachable_update c
      | RefreshHeldBackoff \<Rightarrow> bump st_RefreshesHeldBackoff_update c
      | RefreshNotHeld \<Rightarrow> c)"

definition refreshWhenAllowed ::
  "'w World \<Rightarrow> 'w \<Rightarrow> Client \<Rightarrow> (Credential \<Rightarrow> refreshNeed) \<Rightarrow> 'w \<times> Client \<times> refresh_error option" where
  "refreshWhenAllowed W w c stillNeeded =
     (case holdNow c (w_now W w) True of (c1, h) \<Rightarrow>
        if h \<noteq> RefreshNotHeld then (w, countHeld c1 h, Some RHeld)
        else refresh W w c1 (\<lambda>c' held.
          case holdNow c' (w_now W w) True of (c2, h') \<Rightarrow>
            if h' \<noteq> RefreshNotHeld then (countHeld c2 h', RefreshHeldNow)
            else (c2, stillNeeded held)))"

definition dueNeed :: "gotime \<Rightarrow> Credential \<Rightarrow> refreshNeed" where
  "dueNeed now held = (if refreshDue held now then RefreshNeeded else RefreshNotNeeded)"

definition refreshDueWhenAllowed :: "'w World \<Rightarrow> 'w \<Rightarrow> Client \<Rightarrow> 'w \<times> Client \<times> refresh_error option" where
  "refreshDueWhenAllowed W w c =
     (if \<not> cl_Refresh c \<or> \<not> refreshDue (cl_credential c) (w_now W w) then (w, c, None)
      else refreshWhenAllowed W w c (dueNeed (w_now W w)))"

definition RefreshIfDue :: "'w World \<Rightarrow> 'w \<Rightarrow> Client \<Rightarrow> 'w \<times> Client \<times> refresh_error option" where
  "RefreshIfDue W w c =
     (if \<not> cl_Refresh c \<or> \<not> refreshDue (cl_credential c) (w_now W w) then (w, c, None)
      else refresh W w c (\<lambda>c' held. (c', dueNeed (w_now W w) held)))"

definition refreshAfter401 :: "'w World \<Rightarrow> 'w \<Rightarrow> Client \<Rightarrow> Credential \<Rightarrow> 'w \<times> Client \<times> refresh_error option" where
  "refreshAfter401 W w c used =
     refreshWhenAllowed W w c (\<lambda>held.
       if cr_AccessToken held = cr_AccessToken used then RefreshNeeded else RefreshNotNeeded)"

section \<open>The refused token\<close>

definition markRefused :: "Client \<Rightarrow> token \<Rightarrow> Client" where
  "markRefused c tok = (if \<not> cl_Refresh c \<or> tok = '''' then c else c\<lparr>cl_refusedToken := tok\<rparr>)"

definition refusedNow :: "Client \<Rightarrow> bool \<Rightarrow> Client \<times> bool" where
  "refusedNow c note =
     (let tok = cr_AccessToken (cl_credential c); marked = cl_refusedToken c;
          gone = (marked \<noteq> '''' \<and> marked \<noteq> tok)
      in ((if gone \<and> note then c\<lparr>cl_refusedToken := ''''\<rparr> else c), marked \<noteq> '''' \<and> marked = tok))"

definition refusedDial :: "Client \<Rightarrow> Client \<times> bool" where
  "refusedDial c = (if fa_PresentRefusedToken (cl_faults c) then (c, False) else refusedNow c True)"

definition refusedHold :: "Client \<Rightarrow> gotime \<Rightarrow> Client \<times> bool" where
  "refusedHold c now =
     (if fa_PresentRefusedToken (cl_faults c) then (c, False)
      else case refusedNow c True of (c1, r) \<Rightarrow>
        if r \<and> fa_NeverPresentRefusedToken (cl_faults c) then (c1, True)
        else (c1, refusedHoldAt r (int (length (j_chain (cl_j c1)))) (fst (LastSent (cl_j c1))) now))"

section \<open>The chain as a list of tokens\<close>

text \<open>
  \<open>ctoks\<close> lists, oldest first, every token that may be the live one: the confirmed
  refresh token and each proposal after it.
\<close>

definition ctoks :: "Journal \<Rightarrow> token list" where
  "ctoks j = cr_RefreshToken (j_credential j) # map l_Proposal (j_chain j)"

fun prevTok :: "token list \<Rightarrow> token \<Rightarrow> token option" where
  "prevTok (a # b # ts) t = (if b = t then Some a else prevTok (b # ts) t)"
| "prevTok _ t = None"

lemma olderIn_prevTok: "olderIn ls t = prevTok (map l_Token ls) t"
  by (induction ls t rule: olderIn.induct) auto

lemma prevTok_append: "v \<notin> set (xs @ [u]) \<Longrightarrow> prevTok (xs @ u # v # zs) v = Some u"
  by (induction xs rule: induct_list012) auto

lemma linked_tokens: "linked t ls \<Longrightarrow> map l_Token ls = butlast (t # map l_Proposal ls)"
  by (induction t ls rule: linked.induct) auto

lemma ctoks_tokens: "chain_inv j \<Longrightarrow> map l_Token (j_chain j) = butlast (ctoks j)"
  unfolding ctoks_def chain_inv_def by (rule linked_tokens) simp

lemma ctoks_newest: "newest j = last (ctoks j)"
  by (simp add: newest_def ctoks_def last_map)

lemma ctoks_nonempty [simp]: "ctoks j \<noteq> []"
  by (simp add: ctoks_def)

lemma older_ctoks:
  assumes "chain_inv j" "ctoks j = xs @ u # v # zs" "zs \<noteq> []" "distinct (ctoks j)"
  shows "older j v = Some u"
proof -
  have "map l_Token (j_chain j) = xs @ u # v # butlast zs"
    using ctoks_tokens [OF assms(1)] assms(2,3) by (simp add: butlast_append)
  moreover have "v \<notin> set (xs @ [u])" using assms(2,4) by auto
  ultimately show ?thesis by (simp add: older_def olderIn_prevTok prevTok_append)
qed

lemma findLink_ctoks_last:
  assumes "chain_inv j" "ctoks j = xs @ [tok]" "distinct (ctoks j)"
  shows "findLink (j_chain j) tok = None"
proof -
  have "l_Token ` set (j_chain j) = set (butlast (ctoks j))"
    using ctoks_tokens [OF assms(1)] by (metis set_map)
  then show ?thesis using assms(2,3) by (simp add: findLink_None)
qed

lemma findLink_ctoks_mid:
  assumes "chain_inv j" "ctoks j = xs @ tok # p # zs" "distinct (ctoks j)"
  shows "\<exists>i. findLink (j_chain j) tok = Some i \<and> l_Proposal (j_chain j ! i) = p"
proof -
  have toks: "map l_Token (j_chain j) = xs @ tok # butlast (p # zs)"
    using ctoks_tokens [OF assms(1)] assms(2) by (simp add: butlast_append)
  have props: "map l_Proposal (j_chain j) = tl (xs @ [tok]) @ p # zs"
    using assms(2) by (cases xs) (auto simp: ctoks_def)
  have "tok \<in> l_Token ` set (j_chain j)" using toks by (metis in_set_conv_decomp set_map)
  then obtain i where i: "findLink (j_chain j) tok = Some i"
    by (cases "findLink (j_chain j) tok") (auto simp: findLink_None)
  note fl = findLink_Some [OF i]
  have d: "distinct (map l_Token (j_chain j))"
    using assms(3) ctoks_tokens [OF assms(1)] by (simp add: distinct_butlast)
  have "i = length xs"
  proof -
    have "map l_Token (j_chain j) ! i = tok" using fl by simp
    moreover have "map l_Token (j_chain j) ! length xs = tok" by (simp only: toks nth_append_length)
    moreover have "length xs < length (j_chain j)" using toks
      by (metis add_less_cancel_left length_Cons length_append length_map less_add_same_cancel1 zero_less_Suc)
    ultimately show ?thesis using nth_eq_iff_index_eq [OF d, of i "length xs"] fl by simp
  qed
  moreover have "map l_Proposal (j_chain j) ! length xs = p"
    using props by (simp add: nth_append)
  ultimately show ?thesis using i fl by auto
qed

lemma clientPropose_mid:
  assumes "chain_inv (cl_j c)" "j_hasCredential (cl_j c)" "ctoks (cl_j c) = xs @ tok # p # zs"
    "distinct (ctoks (cl_j c))" "cl_faults c = noFaults" "\<not> cl_killed c"
  shows "clientPropose W w c tok False = (w, c, Inr (Some p))"
  using findLink_ctoks_mid [OF assms(1,3,4)] assms(2,5,6)
  by (auto simp: clientPropose_def mints_def propose_def noFaults_def)

lemma clientPropose_last:
  assumes "chain_inv (cl_j c)" "j_hasCredential (cl_j c)" "ctoks (cl_j c) = xs @ [tok]"
    "distinct (ctoks (cl_j c))" "cl_faults c = noFaults" "\<not> cl_killed c"
    and "clientPropose W w c tok False = (w', c', r)"
  shows "(\<exists>p now. w_mint W w = (w', Some (p, now)) \<and> r = Inr (Some p) \<and>
            c' = c\<lparr>cl_j := (stampLocked (cl_j c) now)\<lparr>j_chain := j_chain (cl_j c) @ [\<lparr>l_Token = tok, l_Proposal = p\<rparr>]\<rparr>\<rparr>) \<or>
         (w_mint W w = (w', None) \<and> r = Inl (RJournal ErrMint) \<and> c' = c)"
proof -
  have n: "newest (cl_j c) = tok" using assms(3) by (simp add: ctoks_newest)
  note f = findLink_ctoks_last [OF assms(1,3,4)]
  obtain w1 m where m: "w_mint W w = (w1, m)" by fastforce
  from assms(2,5,6,7) n f m show ?thesis
    by (cases m) (auto simp: clientPropose_def mints_def propose_def noFaults_def)
qed

lemma ctoks_snoc:
  "ctoks (j\<lparr>j_lastSent := n, j_chain := j_chain j @ [\<lparr>l_Token = t, l_Proposal = p\<rparr>]\<rparr>) = ctoks j @ [p]"
  by (simp add: ctoks_def)

lemma chain_inv_snoc:
  "chain_inv j \<Longrightarrow> j_hasCredential j \<Longrightarrow> t = newest j \<Longrightarrow>
   chain_inv (j\<lparr>j_lastSent := n, j_chain := j_chain j @ [\<lparr>l_Token = t, l_Proposal = p\<rparr>]\<rparr>)"
  by (simp add: chain_inv_def linked_snoc newest_chainEnd)

section \<open>What a walk relies on: the refresh service\<close>

text \<open>
  The contract the walk is proved against. \<open>known\<close> are the tokens the service stores for
  the device's family, \<open>head\<close> the one that is unspent, \<open>used\<close> every token ever minted
  and \<open>good\<close> that the account may refresh at all. A request may be lost, and so may a
  response; what the service promises is what it does with a request that arrives. A
  token it does not know is Catenary's own 401 and costs nothing; its head, presented
  with a token it does not know, is rotated into it.
\<close>

definition catenary401 :: "http_response \<Rightarrow> bool" where
  "catenary401 r \<longleftrightarrow> isCatenaryUnauthorized (hr_status r) (hr_code r)"

definition rotatedInto :: "http_response \<Rightarrow> token \<Rightarrow> bool" where
  "rotatedInto r p \<longleftrightarrow> hr_status r = 200 \<and>
     (\<exists>b ae re. hr_body r = Some b \<and> rb_RefreshToken b = p \<and> rb_AccessToken b \<noteq> '''' \<and>
        rb_AccessExpiresAt b = Some ae \<and> rb_RefreshExpiresAt b = Some re)"

lemma postRefresh_401: "catenary401 r \<Longrightarrow> postRefresh held t (Some r) = PostUnauthorized"
  by (simp add: postRefresh_def catenary401_def)

lemma postRefresh_rotated:
  assumes "rotatedInto r p"
  shows "\<exists>next. postRefresh held t (Some r) = PostOK next \<and> cr_RefreshToken next = p \<and>
           cr_AccessToken next \<noteq> '''' \<and> cr_DeviceID next = cr_DeviceID held \<and> cr_UserID next = cr_UserID held"
  using assms
  by (auto simp: postRefresh_def rotatedInto_def isCatenaryUnauthorized_def CredentialFromEnroll_def
      WithServerDate_def split: option.splits)

text \<open>
  An answer the client reads as no answer at all: nothing came back, or a status that is
  not one of the protocol's.
\<close>

definition failedAnswer :: "http_response option \<Rightarrow> bool" where
  "failedAnswer resp \<longleftrightarrow> (\<forall>held t. postRefresh held t resp = PostFailed)"

lemma failedAnswer_None [simp]: "failedAnswer None"
  by (simp add: failedAnswer_def postRefresh_def)

lemma failedAnswer_500: "hr_status h = 500 \<Longrightarrow> failedAnswer (Some h)"
  by (simp add: failedAnswer_def postRefresh_def isCatenaryUnauthorized_def)

locale refresh_service =
  fixes W :: "'w World"
    and good :: "'w \<Rightarrow> bool"
    and head :: "'w \<Rightarrow> token"
    and known :: "'w \<Rightarrow> token set"
    and used :: "'w \<Rightarrow> token set"
  assumes head_known: "good w \<Longrightarrow> head w \<in> known w"
    and known_used: "good w \<Longrightarrow> known w \<subseteq> used w"
    and post_unknown: "good w \<Longrightarrow> t \<notin> known w \<Longrightarrow> t \<noteq> '''' \<Longrightarrow> t \<in> used w \<Longrightarrow> p \<noteq> t \<Longrightarrow>
      w_post W w t p = (w', r) \<Longrightarrow>
      good w' \<and> head w' = head w \<and> known w' = known w \<and> used w' = used w \<and>
      (failedAnswer r \<or> (\<exists>h. r = Some h \<and> catenary401 h))"
    and post_head: "good w \<Longrightarrow> p \<notin> known w \<Longrightarrow> p \<noteq> '''' \<Longrightarrow> p \<in> used w \<Longrightarrow>
      w_post W w (head w) p = (w', r) \<Longrightarrow>
      good w' \<and> used w' = used w \<and>
      ((head w' = head w \<and> known w' = known w \<and> failedAnswer r) \<or>
       (head w' = p \<and> known w' = insert p (known w) \<and> (failedAnswer r \<or> (\<exists>h. r = Some h \<and> rotatedInto h p))))"
    and mint_fresh: "good w \<Longrightarrow> w_mint W w = (w', m) \<Longrightarrow>
      good w' \<and> head w' = head w \<and> known w' = known w \<and>
      (\<forall>p now. m = Some (p, now) \<longrightarrow> p \<notin> used w \<and> p \<noteq> '''' \<and> used w' = insert p (used w)) \<and>
      (m = None \<longrightarrow> used w' = used w)"
begin

text \<open>
  A \<open>sane\<close> journal has a well-formed chain of distinct tokens that were all minted; it
  agrees with the service when the head is one of the chain's tokens and none after it
  has reached the service. An \<open>able\<close> client is correct and has not been killed.
\<close>

definition sane :: "'w \<Rightarrow> Journal \<Rightarrow> bool" where
  "sane w j \<longleftrightarrow> good w \<and> chain_inv j \<and> j_hasCredential j \<and> distinct (ctoks j) \<and>
     set (ctoks j) \<subseteq> used w \<and> '''' \<notin> set (ctoks j)"

definition agree :: "'w \<Rightarrow> Journal \<Rightarrow> bool" where
  "agree w j \<longleftrightarrow> sane w j \<and> (\<exists>xs ys. ctoks j = xs @ head w # ys \<and> set ys \<inter> known w = {})"

definition able :: "Client \<Rightarrow> bool" where
  "able c \<longleftrightarrow> cl_faults c = noFaults \<and> \<not> cl_killed c"

text \<open>How a walk may end: with the pair of the service's head, or unsettled and in agreement.\<close>

definition outcome :: "Client \<Rightarrow> 'w \<Rightarrow> Client \<Rightarrow> refresh_error + Credential \<Rightarrow> bool" where
  "outcome c w' c' res \<longleftrightarrow> sane w' (cl_j c') \<and> able c' \<and> cl_terminal c' = cl_terminal c \<and>
     cl_credential c' = cl_credential c \<and>
     (case res of
        Inr next \<Rightarrow> cr_RefreshToken next = head w' \<and> head w' \<noteq> '''' \<and> cr_AccessToken next \<noteq> '''' \<and>
          head w' \<in> used w' \<and>
          cr_DeviceID next = cr_DeviceID (cl_credential c) \<and> cr_UserID next = cr_UserID (cl_credential c)
      | Inl e \<Rightarrow> e \<in> {RFailed, RJournal ErrMint} \<and> agree w' (cl_j c'))"

lemma agreeI:
  "sane w j \<Longrightarrow> ctoks j = xs @ head w # ys \<Longrightarrow> set ys \<inter> known w = {} \<Longrightarrow> agree w j"
  unfolding agree_def by blast

lemma propose_at:
  assumes "sane w (cl_j c)" "able c" "ctoks (cl_j c) = as @ tok # rest"
    and cp: "clientPropose W w c tok False = (w1, c1, r)"
  shows "sane w1 (cl_j c1) \<and> able c1 \<and> head w1 = head w \<and> known w1 = known w \<and>
     cl_terminal c1 = cl_terminal c \<and> cl_credential c1 = cl_credential c \<and>
     ((r = Inl (RJournal ErrMint) \<and> c1 = c) \<or>
      (\<exists>p rest'. r = Inr (Some p) \<and> ctoks (cl_j c1) = as @ tok # p # rest' \<and>
         set (p # rest') - set rest \<subseteq> - used w))"
proof (cases rest)
  case Nil
  with assms(3) have last: "ctoks (cl_j c) = as @ [tok]" by simp
  have tn: "tok = newest (cl_j c)" using last by (simp add: ctoks_newest)
  from assms(1,2) have f: "good w" "chain_inv (cl_j c)" "j_hasCredential (cl_j c)"
    "distinct (ctoks (cl_j c))" "cl_faults c = noFaults" "\<not> cl_killed c"
    by (auto simp: sane_def able_def)
  from clientPropose_last [OF f(2,3) last f(4,5,6) cp]
  consider (ok) p now where "w_mint W w = (w1, Some (p, now))" "r = Inr (Some p)"
      "c1 = c\<lparr>cl_j := (stampLocked (cl_j c) now)\<lparr>j_chain := j_chain (cl_j c) @ [\<lparr>l_Token = tok, l_Proposal = p\<rparr>]\<rparr>\<rparr>"
    | (fail) "w_mint W w = (w1, None)" "r = Inl (RJournal ErrMint)" "c1 = c"
    by auto
  then show ?thesis
  proof cases
    case ok
    note mf = mint_fresh [OF f(1) ok(1)]
    have tk: "ctoks (cl_j c1) = as @ [tok, p]" using last by (simp add: ok(3) stampLocked_def ctoks_snoc)
    have "chain_inv (cl_j c1)" using f(2,3) by (simp add: ok(3) stampLocked_def chain_inv_snoc tn)
    with tk mf assms(1,2) last ok show ?thesis
      by (auto simp: stampLocked_def Nil sane_def able_def)
  next
    case fail
    with mint_fresh [OF f(1) fail(1)] assms(1,2) show ?thesis by (auto simp: sane_def)
  qed
next
  case (Cons p rest')
  with assms(3) have mid: "ctoks (cl_j c) = as @ tok # p # rest'" by simp
  from clientPropose_mid [OF _ _ mid, of W w] assms(1,2) cp
  have "w1 = w" "c1 = c" "r = Inr (Some p)" by (auto simp: sane_def able_def)
  with assms(1,2) mid Cons show ?thesis by auto
qed

lemma post_at_head:
  assumes "sane w j" "ctoks j = as @ head w # p # rest" "set (p # rest) \<inter> known w = {}"
    and "w_post W w (head w) p = (w', resp)"
  shows "agree w' j \<and> (failedAnswer resp \<or> (\<exists>h. resp = Some h \<and> rotatedInto h p \<and> head w' = p))"
proof -
  from assms(1-3) have pre: "good w" "p \<notin> known w" "p \<noteq> ''''" "p \<in> used w" "p \<notin> set rest"
    by (auto simp: sane_def)
  from post_head [OF pre(1-4) assms(4)]
  consider (lost) "good w'" "used w' = used w" "head w' = head w" "known w' = known w" "failedAnswer resp"
    | (moved) "good w'" "used w' = used w" "head w' = p" "known w' = insert p (known w)"
        "failedAnswer resp \<or> (\<exists>h. resp = Some h \<and> rotatedInto h p)"
    by blast
  then show ?thesis
  proof cases
    case lost
    have "sane w' j" using assms(1) lost by (simp add: sane_def)
    then have "agree w' j" by (rule agreeI [where xs = as and ys = "p # rest"]) (use assms lost in simp_all)
    with lost show ?thesis by simp
  next
    case moved
    have "sane w' j" using assms(1) moved by (simp add: sane_def)
    then have "agree w' j"
      by (rule agreeI [where xs = "as @ [head w]" and ys = rest]) (use assms(2,3) pre(5) moved in auto)
    with moved show ?thesis by simp
  qed
qed

lemma post_past_head:
  assumes "sane w j" "ctoks j = as @ head w # cs @ tok # p # rest"
    "set (cs @ tok # p # rest) \<inter> known w = {}" and "w_post W w tok p = (w', resp)"
  shows "agree w' j \<and> head w' = head w \<and> known w' = known w \<and> used w' = used w \<and>
     older j tok = Some (last (head w # cs)) \<and> (failedAnswer resp \<or> (\<exists>h. resp = Some h \<and> catenary401 h))"
proof -
  from assms(1-3) have pre: "good w" "tok \<notin> known w" "tok \<noteq> ''''" "tok \<in> used w" "p \<noteq> tok"
    by (auto simp: sane_def)
  note pu = post_unknown [OF pre assms(4)]
  have "sane w' j" using assms(1) pu by (simp add: sane_def)
  then have "agree w' j"
    by (rule agreeI [where xs = as and ys = "cs @ tok # p # rest"]) (use assms(2,3) pu in simp_all)
  moreover have "ctoks j = (as @ butlast (head w # cs)) @ last (head w # cs) # tok # p # rest"
    using assms(2) append_butlast_last_id [of "head w # cs"] by (metis append.assoc append_Cons append_Nil list.distinct(1))
  then have "older j tok = Some (last (head w # cs))"
    by (rule older_ctoks [rotated]) (use assms(1) in \<open>simp_all add: sane_def\<close>)
  ultimately show ?thesis using pu by blast
qed

lemma walk:
  assumes "sane w (cl_j c)" "able c" "held = cl_credential c"
    and "ctoks (cl_j c) = as @ head w # cs @ rest" "set (cs @ rest) \<inter> known w = {}"
    and "tok = last (head w # cs)" "length cs < steps"
    and "exchangeLoop W steps w c held tok False n = (w', c', res)"
  shows "outcome c w' c' res"
  using assms
proof (induction steps arbitrary: w c tok cs rest)
  case (Suc steps)
  let ?ds = "butlast (head w # cs)"
  have at: "ctoks (cl_j c) = (as @ ?ds) @ tok # rest"
    using Suc.prems(4,6) append_butlast_last_id [of "head w # cs"]
    by (metis append.assoc append_Cons append_Nil list.distinct(1))
  obtain w1 c1 r where cp: "clientPropose W w c tok False = (w1, c1, r)" by (metis prod_cases3)
  note pa = propose_at [OF Suc.prems(1,2) at cp]
  show ?case
  proof (cases "\<exists>p. r = Inr (Some p)")
    case False
    with pa Suc.prems(8) cp have "w' = w1" "c' = c1" "res = Inl (RJournal ErrMint)" "c1 = c" by auto
    moreover have "agree w1 (cl_j c)"
      by (rule agreeI [where xs = as and ys = "cs @ rest"]) (use Suc.prems pa \<open>c1 = c\<close> in auto)
    ultimately show ?thesis using pa by (auto simp: outcome_def)
  next
    case True
    with pa obtain p rest' where p: "r = Inr (Some p)" "ctoks (cl_j c1) = (as @ ?ds) @ tok # p # rest'"
      "set (p # rest') - set rest \<subseteq> - used w" by auto
    have unk: "set (p # rest') \<inter> known w1 = {}"
      using p(3) Suc.prems(1,5) known_used [of w] pa by (auto simp: sane_def)
    obtain w2 resp where post: "w_post W w1 tok p = (w2, resp)" by fastforce
    have lost: ?thesis if ag: "agree w2 (cl_j c1)" and "failedAnswer resp"
    proof -
      have "w' = w2" "c' = c1" "res = Inl RFailed"
        using that(2) Suc.prems(8) cp p(1) post by (auto simp: failedAnswer_def)
      with ag pa show ?thesis by (simp add: outcome_def) (simp add: agree_def)
    qed
    show ?thesis
    proof (cases cs rule: rev_cases)
      case Nil
      with Suc.prems(6) pa have "tok = head w1" by simp
      with Nil p(2) have "ctoks (cl_j c1) = as @ head w1 # p # rest'" by simp
      note ph = post_at_head [OF _ this unk post [unfolded \<open>tok = head w1\<close>]]
      show ?thesis
      proof (cases "failedAnswer resp")
        case False
        with ph pa obtain h where Some: "resp = Some h"
          and h: "agree w2 (cl_j c1)" "rotatedInto h p" "head w2 = p" by auto
        obtain nx where nx: "postRefresh held (w_now W w2) (Some h) = PostOK nx" "cr_RefreshToken nx = p"
          "cr_AccessToken nx \<noteq> ''''" "cr_DeviceID nx = cr_DeviceID held" "cr_UserID nx = cr_UserID held"
          using postRefresh_rotated [OF h(2)] by blast
        then have "w' = w2" "c' = c1" "res = Inr nx"
          using Suc.prems(8) cp p(1) post Some by auto
        moreover from h have s: "sane w2 (cl_j c1)" by (simp add: agree_def)
        then have "p \<noteq> ''''" "p \<in> used w2" using p(2) by (auto simp: sane_def)
        ultimately show ?thesis using nx h(3) pa s Suc.prems(3) by (simp add: outcome_def)
      qed (use ph pa lost in simp)
    next
      case (snoc ds' t)
      with Suc.prems(6) have cs: "cs = ds' @ [tok]" by simp
      have toks: "ctoks (cl_j c1) = as @ head w1 # ds' @ tok # p # rest'" using p(2) cs pa by simp
      have un: "set (ds' @ tok # p # rest') \<inter> known w1 = {}" using unk Suc.prems(5) cs pa by auto
      note pp = post_past_head [OF _ toks un post]
      show ?thesis
      proof (cases "failedAnswer resp")
        case False
        let ?c2 = "bump st_RefreshWalkBacks_update c1"
        from False pp pa obtain h where Some: "resp = Some h" and h: "agree w2 (cl_j c1)" "head w2 = head w1" "known w2 = known w1"
          "older (cl_j c1) tok = Some (last (head w1 # ds'))" "catenary401 h" by auto
        then have "exchangeLoop W steps w2 ?c2 held (last (head w2 # ds')) False n = (w', c', res)"
          using Suc.prems(8) cp p(1) post Some by (simp add: postRefresh_401)
        from Suc.IH [OF _ _ _ _ _ refl _ this, of "tok # p # rest'"] h toks un pa Suc.prems(3,7) cs
        have "outcome ?c2 w' c' res" by (auto simp: agree_def able_def)
        then show ?thesis using pa by (cases res) (simp_all add: outcome_def)
      qed (use pp pa lost in simp)
    qed
  qed
qed simp

text \<open>A whole exchange of a client that agrees with the service.\<close>

lemma exchange_outcome:
  assumes "agree w (cl_j c)" "able c" "exchange W w c (cl_credential c) = (w', c', res)"
  shows "outcome c w' c' res"
proof -
  from assms(1) obtain xs ys where ys: "sane w (cl_j c)" "ctoks (cl_j c) = xs @ head w # ys @ []"
    "set (ys @ []) \<inter> known w = {}" unfolding agree_def by auto
  have "length (ctoks (cl_j c)) = Suc (length (j_chain (cl_j c)))" by (simp add: ctoks_def)
  then have len: "length ys < length (j_chain (cl_j c)) + walkSlack"
    using ys(2) by (simp add: walkSlack_def)
  have "last (ctoks (cl_j c)) = last (head w # ys)" using ys(2) by simp
  then have "(if j_chain (cl_j c) \<noteq> [] \<and> \<not> fa_NoChain (cl_faults c) then l_Proposal (last (j_chain (cl_j c)))
      else cr_RefreshToken (cl_credential c)) = last (head w # ys)"
    using assms(2) by (auto simp: ctoks_newest [symmetric] newest_def able_def noFaults_def)
  then show ?thesis
    using walk [OF ys(1) assms(2) refl ys(2,3) refl len] assms(3) by (simp add: exchange_def Let_def)
qed

text \<open>
  A single-flight refresh keeps the agreement whatever is lost, never turns the client
  terminal, and reports success only with the service's head persisted.
\<close>

lemma refresh_keeps_agreement:
  assumes ag: "agree w (cl_j c)" and "able c"
    and need: "stillNeeded c (cl_credential c) = (c0, need)"
    and c0: "cl_j c0 = cl_j c" "able c0" "cl_terminal c0 = cl_terminal c"
    and "refresh W w c stillNeeded = (w', c', err)"
  shows "agree w' (cl_j c') \<and> able c' \<and> cl_terminal c' = cl_terminal c \<and>
     (need = RefreshNeeded \<and> err = None \<longrightarrow>
        ctoks (cl_j c') = [head w'] \<and> cr_DeviceID (cl_credential c') = cr_DeviceID (cl_credential c))"
proof (cases need)
  case RefreshNeeded
  obtain w1 c1 res where ex: "exchange W w c0 (cl_credential c0) = (w1, c1, res)" by (metis prod_cases3)
  have oc: "outcome c0 w1 c1 res" by (rule exchange_outcome [OF _ c0(2) ex]) (use ag c0(1) in simp)
  show ?thesis
  proof (cases res)
    case (Inl e)
    with oc have "e \<in> {RFailed, RJournal ErrMint}" "agree w1 (cl_j c1)" by (auto simp: outcome_def)
    with Inl ex need RefreshNeeded assms(7) oc c0 show ?thesis
      by (auto simp: refresh_def outcome_def able_def)
  next
    case (Inr nx)
    with oc have n: "cr_RefreshToken nx = head w1" "head w1 \<noteq> ''''" "cr_AccessToken nx \<noteq> ''''" "head w1 \<in> used w1"
      "cr_DeviceID nx = cr_DeviceID (cl_credential c1)" "cr_UserID nx = cr_UserID (cl_credential c1)"
      "sane w1 (cl_j c1)" "able c1" by (auto simp: outcome_def)
    then obtain j' where rot: "Rotate (cl_j c1) nx = Inr j'" "j_chain j' = []" "j_hasCredential j'"
      "cr_RefreshToken (j_credential j') = head w1" "cr_DeviceID (j_credential j') = cr_DeviceID nx"
      by (auto simp: Rotate_def sane_def)
    have "ctoks j' = [] @ head w1 # []" using rot by (simp add: ctoks_def)
    then have "ctoks j' = [head w1]" by simp
    moreover have "chain_inv j'" using chain_inv_Rotate [OF _ rot(1)] n(7) by (simp add: sane_def)
    ultimately have "sane w1 j'" using n rot by (simp add: sane_def)
    then have "agree w1 j'" by (rule agreeI [OF _ \<open>ctoks j' = [] @ head w1 # []\<close>]) simp
    with rot n Inr ex need RefreshNeeded assms(7) oc c0 show ?thesis
      by (auto simp: refresh_def clientRotate_def outcome_def able_def ctoks_def)
  qed
qed (use assms in \<open>auto simp: refresh_def able_def\<close>)

end

section \<open>Properties of the refresh, whatever the world does\<close>

lemma propose_linked:
  "propose j tok a m = Inr (Some (p, j')) \<Longrightarrow>
   j_credential j' = j_credential j \<and> (\<exists>i. findLink (j_chain j') tok = Some i)"
proof (cases "findLink (j_chain j) tok")
  case None
  then have "findLink (j_chain j @ [\<lparr>l_Token = tok, l_Proposal = p\<rparr>]) tok \<noteq> None"
    by (auto simp: findLink_None)
  then show "propose j tok a m = Inr (Some (p, j')) \<Longrightarrow> ?thesis"
    by (auto simp: propose_def stampLocked_def None split: if_splits option.splits)
next
  case (Some i)
  then have "findLink (take i (j_chain j) @ [\<lparr>l_Token = tok, l_Proposal = p\<rparr>]) tok \<noteq> None"
    by (auto simp: findLink_None)
  with Some show "propose j tok a m = Inr (Some (p, j')) \<Longrightarrow> ?thesis"
    by (auto simp: propose_def stampLocked_def split: if_splits option.splits)
qed

lemma clientPropose_frame:
  assumes "clientPropose W w c tok a = (w', c', r)"
  shows "cl_credential c' = cl_credential c \<and> cl_faults c' = cl_faults c \<and> cl_terminal c' = cl_terminal c \<and>
    cl_killed c' = cl_killed c \<and> cl_stats c' = cl_stats c \<and> (chain_inv (cl_j c) \<longrightarrow> chain_inv (cl_j c')) \<and>
    (r = Inr (Some p) \<and> \<not> fa_NoChain (cl_faults c) \<longrightarrow> (\<exists>i. findLink (j_chain (cl_j c')) tok = Some i))"
proof -
  obtain wm m where "w_mint W w = (wm, m)" by fastforce
  with assms show ?thesis
    by (auto simp: clientPropose_def Let_def dest: propose_linked chain_inv_propose
        split: if_splits option.splits sum.splits prod.splits)
qed

lemma exchangeLoop_frame:
  assumes "exchangeLoop W steps w c held tok a n = (w', c', res)"
  shows "cl_credential c' = cl_credential c \<and> cl_faults c' = cl_faults c \<and> cl_terminal c' = cl_terminal c \<and>
    cl_killed c' = cl_killed c \<and> (chain_inv (cl_j c) \<longrightarrow> chain_inv (cl_j c'))"
  using assms
proof (induction W steps w c held tok a n rule: exchangeLoop.induct)
  case (2 W steps w c held tok a n)
  obtain w1 c1 r where cp: "clientPropose W w c tok a = (w1, c1, r)" by (metis prod_cases3)
  note fr = clientPropose_frame [OF cp]
  show ?case
  proof (cases "\<exists>p. r = Inr (Some p)")
    case False
    with "2.prems" cp fr show ?thesis by (auto split: sum.splits option.splits)
  next
    case True
    then obtain p where r: "r = Inr (Some p)" by blast
    obtain w2 resp where po: "w_post W w1 tok p = (w2, resp)" by fastforce
    note ih = "2.IH" [OF cp [symmetric] refl r refl po [symmetric]]
    show ?thesis
    proof (cases "postRefresh held (w_now W w2) resp")
      case PostUnauthorized
      show ?thesis
      proof (cases "older (cl_j c1) tok")
        case None
        with "2.prems" cp r po PostUnauthorized fr show ?thesis by auto
      next
        case (Some o')
        with "2.prems" cp r po PostUnauthorized ih(1) [OF PostUnauthorized Some] fr show ?thesis by auto
      qed
    next
      case PostPresentProposal
      with "2.prems" cp r po ih(2) fr show ?thesis by auto
    next
      case (PostFresh d)
      obtain w3 el where wt: "w_wait W w2 (min d maxRetryAfter) = (w3, el)" by fastforce
      show ?thesis
      proof (cases "maxFreshProposals < Suc n \<or> \<not> el")
        case True
        with "2.prems" cp r po PostFresh wt fr show ?thesis by (auto split: if_splits)
      next
        case False
        with "2.prems" cp r po PostFresh wt fr ih(3) [OF PostFresh _ wt [symmetric]] show ?thesis by auto
      qed
    qed (use "2.prems" cp r po fr in auto)
  qed
qed auto

text \<open>Only the oldest token has nothing older, so a walk that gave up presented it.\<close>

lemma prevTok_None: "t \<in> set ts \<Longrightarrow> prevTok ts t = None \<Longrightarrow> t = hd ts"
  by (induction ts t rule: prevTok.induct) (auto split: if_splits)

lemma older_None:
  assumes "chain_inv j" "findLink (j_chain j) tok = Some i" "older j tok = None"
  shows "tok = cr_RefreshToken (j_credential j)"
proof -
  have "tok \<in> set (map l_Token (j_chain j))" using findLink_Some [OF assms(2)] by auto
  then have "tok = hd (map l_Token (j_chain j))" "j_chain j \<noteq> []"
    using assms(3) prevTok_None by (auto simp: older_def olderIn_prevTok)
  then show ?thesis using ctoks_tokens [OF assms(1)] by (simp add: ctoks_def)
qed

lemma exchangeLoop_unauthorized:
  assumes "exchangeLoop W steps w c held tok a n = (w', c', Inl RUnauthorized)"
    and "chain_inv (cl_j c)" "\<not> fa_NoChain (cl_faults c)" "cl_credential c = held"
  shows "\<exists>w1 p w2 h. w_post W w1 (cr_RefreshToken held) p = (w2, Some h) \<and>
           isCatenaryUnauthorized (hr_status h) (hr_code h)"
  using assms
proof (induction W steps w c held tok a n rule: exchangeLoop.induct)
  case (2 W steps w c held tok a n)
  obtain w1 c1 r where cp: "clientPropose W w c tok a = (w1, c1, r)" by (metis prod_cases3)
  note fr = clientPropose_frame [OF cp]
  have "r \<noteq> Inl RUnauthorized"
    using cp by (auto simp: clientPropose_def Let_def split: if_splits option.splits sum.splits prod.splits)
  with "2.prems"(1) cp obtain p where r: "r = Inr (Some p)" by (auto split: sum.splits option.splits)
  obtain w2 resp where po: "w_post W w1 tok p = (w2, resp)" by fastforce
  note ih = "2.IH" [OF cp [symmetric] refl r refl po [symmetric]]
  show ?case
  proof (cases "postRefresh held (w_now W w2) resp")
    case PostUnauthorized
    show ?thesis
    proof (cases "older (cl_j c1) tok")
      case None
      from clientPropose_frame [OF cp, of p] r "2.prems" obtain i
        where "findLink (j_chain (cl_j c1)) tok = Some i" "chain_inv (cl_j c1)" "cl_credential c1 = held"
        by auto
      with None older_None have "tok = cr_RefreshToken held" by metis
      moreover obtain h where "resp = Some h" "isCatenaryUnauthorized (hr_status h) (hr_code h)"
        using PostUnauthorized by (auto simp: postRefresh_def split: option.splits if_splits)
      ultimately show ?thesis using po by blast
    next
      case (Some o')
      with "2.prems" cp r po PostUnauthorized ih(1) [OF PostUnauthorized Some] fr show ?thesis by auto
    qed
  next
    case PostPresentProposal
    with "2.prems" cp r po ih(2) fr show ?thesis by auto
  next
    case (PostFresh d)
    obtain w3 el where wt: "w_wait W w2 (min d maxRetryAfter) = (w3, el)" by fastforce
    with "2.prems" cp r po PostFresh have "\<not> (maxFreshProposals < Suc n)" "el" by (auto split: if_splits)
    with "2.prems" cp r po PostFresh wt fr ih(3) [OF PostFresh _ wt [symmetric]] show ?thesis by auto
  qed (use "2.prems" cp r po fr in auto)
qed auto

lemma refresh_terminal:
  assumes "refresh W w c stillNeeded = (w', c', err)"
    and "cl_terminal c' \<noteq> cl_terminal c"
    and "chain_inv (cl_j c)" "\<not> fa_NoChain (cl_faults c)"
    and n: "stillNeeded c (cl_credential c) = (c0, need)"
    and f0: "cl_j c0 = cl_j c" "cl_faults c0 = cl_faults c" "cl_terminal c0 = cl_terminal c"
  shows "\<exists>w1 p w2 h. w_post W w1 (cr_RefreshToken (cl_credential c)) p = (w2, Some h) \<and>
           isCatenaryUnauthorized (hr_status h) (hr_code h)"
proof -
  obtain w1 c1 res where ex: "exchange W w c0 (cl_credential c) = (w1, c1, res)" by (metis prod_cases3)
  have fx: "cl_terminal c1 = cl_terminal c0"
    using exchangeLoop_frame [OF ex [unfolded exchange_def Let_def]] by simp
  have "res = Inl RUnauthorized"
  proof (rule ccontr)
    assume "res \<noteq> Inl RUnauthorized"
    then have "cl_terminal c' = cl_terminal c0"
    proof (cases res)
      case (Inl e)
      with \<open>res \<noteq> Inl RUnauthorized\<close> assms(1) n ex fx show ?thesis
        by (cases need; cases e; simp add: refresh_def) auto
    next
      case (Inr nx)
      with assms(1) n ex fx show ?thesis
        by (cases need; cases "clientRotate c1 nx"; simp add: refresh_def)
          (auto simp: clientRotate_def split: if_splits sum.splits)
    qed
    with assms(2) f0 show False by simp
  qed
  with exchangeLoop_unauthorized [of W _ w c0 "cl_credential c"] ex f0 assms(3,4) show ?thesis
    unfolding exchange_def Let_def by simp
qed

lemma holdNow_frame [simp]:
  "cl_j (fst (holdNow c now note)) = cl_j c" "cl_faults (fst (holdNow c now note)) = cl_faults c"
  "cl_terminal (fst (holdNow c now note)) = cl_terminal c" "cl_stats (fst (holdNow c now note)) = cl_stats c"
  "cl_killed (fst (holdNow c now note)) = cl_killed c" "cl_answeredAt (fst (holdNow c now note)) = cl_answeredAt c"
  by (auto simp: holdNow_def Let_def)

lemma countHeld_frame [simp]:
  "cl_j (countHeld c h) = cl_j c" "cl_faults (countHeld c h) = cl_faults c"
  "cl_terminal (countHeld c h) = cl_terminal c" "cl_killed (countHeld c h) = cl_killed c"
  by (cases h; simp add: countHeld_def)+

text \<open>
  C33. An automatic refresh makes the client terminal only on Catenary's own refusal of
  the oldest token it holds: the confirmed refresh token was presented and answered 401
  with the code \<open>unauthorized\<close>. A lost response, a proxy's error, an exhausted walk or a
  refused proposal further up the chain never does.
\<close>

theorem terminal_needs_own_refusal:
  assumes "refreshWhenAllowed W w c stillNeeded = (w', c', err)"
    and "cl_terminal c' \<noteq> cl_terminal c"
    and "chain_inv (cl_j c)" "\<not> fa_NoChain (cl_faults c)"
  shows "\<exists>w1 p w2 h. w_post W w1 (cr_RefreshToken (cl_credential c)) p = (w2, Some h) \<and>
           isCatenaryUnauthorized (hr_status h) (hr_code h)"
proof -
  obtain c1 h where h: "holdNow c (w_now W w) True = (c1, h)" by fastforce
  then have c1: "cl_j c1 = cl_j c" "cl_faults c1 = cl_faults c" "cl_terminal c1 = cl_terminal c"
    by (metis fst_conv holdNow_frame)+
  obtain c2 h' where h': "holdNow c1 (w_now W w) True = (c2, h')" by fastforce
  then have c2: "cl_j c2 = cl_j c1" "cl_faults c2 = cl_faults c1" "cl_terminal c2 = cl_terminal c1"
    by (metis fst_conv holdNow_frame)+
  let ?need = "\<lambda>c' held. case holdNow c' (w_now W w) True of (c2, h') \<Rightarrow>
      if h' \<noteq> RefreshNotHeld then (countHeld c2 h', RefreshHeldNow) else (c2, stillNeeded held)"
  from assms(1,2) h c1 have "refresh W w c1 ?need = (w', c', err)" "cl_terminal c' \<noteq> cl_terminal c1"
    by (auto simp: refreshWhenAllowed_def split: if_splits)
  then show ?thesis
    using refresh_terminal [of W w c1 ?need w' c' err "fst (?need c1 (cl_credential c1))"
        "snd (?need c1 (cl_credential c1))"] assms(3,4) h' c1 c2
    by auto
qed

definition refusingWorld :: "nat World" where
  "refusingWorld = \<lparr>w_post = (\<lambda>n tok p. (n, Some \<lparr>hr_status = 401, hr_code = Some ''unauthorized'', hr_retry = None,
       hr_retryAfter = None, hr_date = None, hr_body = None\<rparr>)),
     w_mint = (\<lambda>n. (Suc n, Some (''p'', 5))), w_now = (\<lambda>n. 5), w_wait = (\<lambda>n d. (n, True))\<rparr>"

definition exampleClient :: Client where
  "exampleClient = newClient exampleJournal True noFaults"

theorem terminal_needs_own_refusal_witness:
  "\<exists>w1 p w2 h. w_post refusingWorld w1 (cr_RefreshToken (cl_credential exampleClient)) p = (w2, Some h) \<and>
     isCatenaryUnauthorized (hr_status h) (hr_code h)"
proof -
  let ?r = "refreshWhenAllowed refusingWorld 0 exampleClient (\<lambda>_. RefreshNeeded)"
  have "cl_terminal (fst (snd ?r)) \<noteq> cl_terminal exampleClient" by code_simp
  moreover have "chain_inv (cl_j exampleClient) \<and> \<not> fa_NoChain (cl_faults exampleClient)" by code_simp
  ultimately show ?thesis
    using terminal_needs_own_refusal [of refusingWorld 0 exampleClient "\<lambda>_. RefreshNeeded" "fst ?r" "fst (snd ?r)" "snd (snd ?r)"]
    by simp
qed

context refresh_service
begin

text \<open>The suppressed automatic refresh keeps the agreement too, held or not.\<close>

lemma refreshWhenAllowed_keeps:
  assumes ag: "agree w (cl_j c)" and ab: "able c"
    and r: "refreshWhenAllowed W w c stillNeeded = (w', c', err)"
  shows "agree w' (cl_j c') \<and> able c' \<and> cl_terminal c' = cl_terminal c"
proof -
  let ?need = "\<lambda>c' held. case holdNow c' (w_now W w) True of (c2, h') \<Rightarrow>
      if h' \<noteq> RefreshNotHeld then (countHeld c2 h', RefreshHeldNow) else (c2, stillNeeded held)"
  obtain c1 h where h: "holdNow c (w_now W w) True = (c1, h)" by fastforce
  then have c1: "cl_j c1 = cl_j c" "cl_faults c1 = cl_faults c" "cl_terminal c1 = cl_terminal c" "cl_killed c1 = cl_killed c"
    by (metis fst_conv holdNow_frame)+
  obtain c2 h' where h': "holdNow c1 (w_now W w) True = (c2, h')" by fastforce
  then have c2: "cl_j c2 = cl_j c1" "cl_faults c2 = cl_faults c1" "cl_terminal c2 = cl_terminal c1" "cl_killed c2 = cl_killed c1"
    by (metis fst_conv holdNow_frame)+
  obtain c0 need where n: "?need c1 (cl_credential c1) = (c0, need)" by fastforce
  have c0: "cl_j c0 = cl_j c1" "able c0" "cl_terminal c0 = cl_terminal c1"
    using n h' c1 c2 ab by (auto simp: able_def split: if_splits)
  show ?thesis
  proof (cases "h = RefreshNotHeld")
    case True
    with r h have "refresh W w c1 ?need = (w', c', err)" by (simp add: refreshWhenAllowed_def)
    from refresh_keeps_agreement [OF _ _ n c0 this] ag ab c1 show ?thesis by (simp add: able_def)
  next
    case False
    with r h ag ab c1 show ?thesis by (auto simp: refreshWhenAllowed_def able_def)
  qed
qed

end

text \<open>
  A refresh that does not succeed loses nothing: whatever the network did, the stored
  credential is the one it started with, and the chain is still a chain of proposals
  that starts at it, so the next attempt can present every token that may be live.
\<close>

theorem failed_refresh_keeps_credential:
  assumes "refreshWhenAllowed W w c stillNeeded = (w', c', Some e)" "chain_inv (cl_j c)"
  shows "cl_credential c' = cl_credential c \<and> chain_inv (cl_j c')"
proof -
  let ?need = "\<lambda>c' held. case holdNow c' (w_now W w) True of (c2, h') \<Rightarrow>
      if h' \<noteq> RefreshNotHeld then (countHeld c2 h', RefreshHeldNow) else (c2, stillNeeded held)"
  obtain c1 h where h: "holdNow c (w_now W w) True = (c1, h)" by fastforce
  then have c1: "cl_j c1 = cl_j c" by (metis fst_conv holdNow_frame(1))
  obtain c0 need where n: "?need c1 (cl_credential c1) = (c0, need)" by fastforce
  have c0: "cl_j c0 = cl_j c1"
    using n by (cases "holdNow c1 (w_now W w) True") (use holdNow_frame(1) [of c1 "w_now W w" True]
      in \<open>auto split: if_splits\<close>)
  obtain w2 c2 res where ex: "exchange W w c0 (cl_credential c1) = (w2, c2, res)" by (metis prod_cases3)
  have fx: "cl_credential c2 = cl_credential c" "chain_inv (cl_j c2)"
    using exchangeLoop_frame [OF ex [unfolded exchange_def Let_def]] c0 c1 assms(2) by simp_all
  show ?thesis
  proof (cases "h = RefreshNotHeld")
    case True
    with assms(1) h have r: "refresh W w c1 ?need = (w', c', Some e)" by (simp add: refreshWhenAllowed_def)
    have "cl_j c' = cl_j c0 \<or> cl_j c' = cl_j c2"
    proof (cases res)
      case (Inl x)
      then show ?thesis using r n ex
        by (cases need; cases x; simp add: refresh_def) (auto simp: refused_def Let_def split: if_splits)
    next
      case (Inr nx)
      then show ?thesis using r n ex
        by (cases need; cases "clientRotate c2 nx"; simp add: refresh_def)
    qed
    with c0 c1 fx assms(2) show ?thesis by auto
  next
    case False
    with assms h c1 show ?thesis by (auto simp: refreshWhenAllowed_def)
  qed
qed

theorem failed_refresh_keeps_credential_witness:
  "cl_credential (fst (snd (refreshWhenAllowed refusingWorld 0 exampleClient (\<lambda>_. RefreshNeeded)))) = exampleCredential"
proof -
  let ?r = "refreshWhenAllowed refusingWorld 0 exampleClient (\<lambda>_. RefreshNeeded)"
  have "snd (snd ?r) \<noteq> None" by code_simp
  then obtain e where "?r = (fst ?r, fst (snd ?r), Some e)" by (metis option.exhaust prod.collapse)
  moreover have "chain_inv (cl_j exampleClient)" by code_simp
  ultimately show ?thesis
    using failed_refresh_keeps_credential [of refusingWorld 0 exampleClient "\<lambda>_. RefreshNeeded" "fst ?r" "fst (snd ?r)" e]
    by (simp add: exampleClient_def newClient_def exampleJournal_def)
qed

text \<open>
  A held automatic refresh sends nothing and mints nothing: the world is untouched, the
  journal is untouched, the client is not terminal for it, and it is counted as held and
  not as a refresh error.
\<close>

theorem held_refresh_sends_nothing:
  assumes "snd (holdNow c (w_now W w) True) \<noteq> RefreshNotHeld"
  shows "\<exists>c'. refreshWhenAllowed W w c stillNeeded = (w, c', Some RHeld) \<and> cl_j c' = cl_j c \<and>
     cl_terminal c' = cl_terminal c \<and> st_RefreshErrors (cl_stats c') = st_RefreshErrors (cl_stats c) \<and>
     st_RefreshesHeldUnreachable (cl_stats c') + st_RefreshesHeldBackoff (cl_stats c') =
       st_RefreshesHeldUnreachable (cl_stats c) + st_RefreshesHeldBackoff (cl_stats c) + 1"
proof -
  obtain c1 h where h: "holdNow c (w_now W w) True = (c1, h)" by fastforce
  then have "cl_j c1 = cl_j c" "cl_terminal c1 = cl_terminal c" "cl_stats c1 = cl_stats c"
    by (metis fst_conv holdNow_frame)+
  with h assms show ?thesis
    by (cases h) (auto simp: refreshWhenAllowed_def countHeld_def bump_def)
qed

theorem held_refresh_sends_nothing_witness:
  "\<exists>c'. refreshWhenAllowed refusingWorld 0
      (exampleClient\<lparr>cl_j := exampleJournal\<lparr>j_chain := [\<lparr>l_Token = ''r0'', l_Proposal = ''p1''\<rparr>], j_lastSent := 4\<rparr>\<rparr>)
      (\<lambda>_. RefreshNeeded) = (0, c', Some RHeld)"
proof -
  let ?c = "exampleClient\<lparr>cl_j := exampleJournal\<lparr>j_chain := [\<lparr>l_Token = ''r0'', l_Proposal = ''p1''\<rparr>], j_lastSent := 4\<rparr>\<rparr>"
  have "snd (holdNow ?c (w_now refusingWorld 0) True) \<noteq> RefreshNotHeld" by code_simp
  from held_refresh_sends_nothing [OF this] show ?thesis by blast
qed

text \<open>
  C35. The device's clock does not matter: a device whose clock is off by any fixed amount,
  when it learns the server's date from a response, refreshes at exactly the moments a
  device with the server's own clock would.
\<close>

theorem refreshDue_ignores_skew:
  assumes "\<bar>skew\<bar> \<le> max_i64"
  shows "refreshDue (WithServerDate cr date (date - skew)) (now - skew) =
         refreshDue (WithServerDate cr date date) now"
proof -
  have "time_sub date (date - skew) = skew" "time_sub date date = 0"
    using assms by (auto simp: time_sub_def max_i64_def)
  then show ?thesis by (simp add: refreshDue_def refreshThreshold_def WithServerDate_def)
qed

theorem refreshDue_ignores_skew_witness:
  "refreshDue (WithServerDate exampleCredential 100 (100 - 3600 * second)) (200 - 3600 * second) =
   refreshDue (WithServerDate exampleCredential 100 100) 200"
  by (rule refreshDue_ignores_skew) (simp add: second_def max_i64_def)

end
