(* ===== verification/Store_Schema.thy ===== *)
theory Store_Schema
  imports Wire
begin

text \<open>
  The database the store package works on: one record per table of \<open>migrations/\<close> with
  the columns the Go code reads or writes, the row types of \<open>internal/store/rows.go\<close>, the
  NOTIFY payloads of \<open>notify.go\<close> and the errors of the package. A transaction is a
  function from a database to a database; one that rolls back returns the database it
  was given. \<open>db_notify\<close> lists the notifications committed transactions raised, in commit
  order. The unique and check constraints the code relies on are refusals of the inserts,
  by SQLSTATE and constraint name.
\<close>

section \<open>Rows\<close>

definition uuid_Nil :: uuid where
  "uuid_Nil = ''00000000-0000-0000-0000-000000000000''"

record UserT =
  us_id :: uuid
  us_handle :: string
  us_display_name :: string
  us_kind :: string
  us_email :: "string option"
  us_created_at :: gotime
  us_deactivated_at :: "gotime option"
  us_metadata_log_seq :: int

record DeviceT =
  dv_id :: uuid
  dv_user_id :: uuid
  dv_name :: string
  dv_created_at :: gotime
  dv_revoked_at :: "gotime option"

record ConversationT =
  cv_id :: uuid
  cv_kind :: string
  cv_name :: "string option"
  cv_direct_key :: "string option"
  cv_create_key :: "string option"
  cv_last_seq :: int
  cv_retention_days :: "int option"
  cv_metadata_log_seq :: int

record MemberT =
  mb_conversation_id :: uuid
  mb_user_id :: uuid
  mb_read_seq :: int
  mb_muted :: bool
  mb_metadata_log_seq :: int

record MessageRow =
  mr_ID :: uuid
  mr_ConversationID :: uuid
  mr_AuthorID :: uuid
  mr_Seq :: int
  mr_LogSeq :: int
  mr_UpdatedLogSeq :: int
  mr_At :: gotime
  mr_Text :: "string option"
  mr_ClientID :: "uuid option"
  mr_SenderDeviceID :: "uuid option"
  mr_ReplyTo :: "uuid option"
  mr_EditedAt :: "gotime option"
  mr_Deleted :: bool

text \<open>
  \<open>transcript_json\<close> is the stored document as its decoder sees it: the raw bytes are
  never inspected by the store.
\<close>

record AttachmentRow =
  ar_Kind :: string
  ar_Position :: nat
  ar_StorageKey :: string
  ar_DurationMs :: "int option"
  ar_Peaks :: "int list option"
  ar_TranscriptState :: "string option"
  ar_TranscriptJSON :: "string option"
  ar_Filename :: "string option"
  ar_Width :: "int option"
  ar_Height :: "int option"
  ar_Bytes :: "int option"
  ar_Placeholder :: "string option"
  ar_LinkURL :: "string option"
  ar_LinkTitle :: "string option"
  ar_LinkDescription :: "string option"
  ar_LinkSiteName :: "string option"
  ar_LinkFinalHost :: "string option"

record AttachmentT =
  at_id :: uuid
  at_message_id :: uuid
  at_row :: AttachmentRow

record UploadT =
  up_id :: uuid
  up_uploader :: uuid
  up_kind :: string
  up_storage_key :: "string option"
  up_thumb_key :: "string option"
  up_bytes :: int
  up_width :: "int option"
  up_height :: "int option"
  up_placeholder :: "string option"
  up_filename :: "string option"
  up_duration_ms :: "int option"
  up_peaks :: "int list option"
  up_link_url :: "string option"
  up_link_title :: "string option"
  up_link_description :: "string option"
  up_link_site_name :: "string option"
  up_link_final_host :: "string option"
  up_consumed_at :: "gotime option"

record 'h EnrollmentT =
  en_id :: uuid
  en_user_id :: uuid
  en_token_hash :: 'h
  en_expires_at :: gotime
  en_redeemed_at :: "gotime option"
  en_redeemed_by_device :: "uuid option"
  en_superseded_at :: "gotime option"

record 'h RefreshT =
  rt_id :: uuid
  rt_device_id :: uuid
  rt_token_hash :: 'h
  rt_family_id :: uuid
  rt_replaced_by :: "uuid option"
  rt_issued_at :: gotime
  rt_expires_at :: gotime
  rt_revoked_at :: "gotime option"

record 'h AccessT =
  ac_id :: uuid
  ac_token_hash :: 'h
  ac_user_id :: uuid
  ac_device_id :: "uuid option"
  ac_issued_at :: gotime
  ac_expires_at :: "gotime option"
  ac_revoked_at :: "gotime option"

section \<open>Notifications\<close>

text \<open>
  The payloads of the two channels: a message, a receipt (the member, the span of the
  mark's move, the batch), and the revocation of a device or of a user. They hold ids and
  64-bit integers only, so their JSON is far below the 8000-byte cap.
\<close>

datatype notification =
  NotifyMessage uuid int
| NotifyReceipt uuid uuid int int "uuid option"
| RevokedDevice uuid
| RevokedUser uuid

section \<open>The database\<close>

record 'h DB =
  db_users :: "UserT list"
  db_devices :: "DeviceT list"
  db_conversations :: "ConversationT list"
  db_members :: "MemberT list"
  db_messages :: "MessageRow list"
  db_attachments :: "AttachmentT list"
  db_uploads :: "UploadT list"
  db_enrollment_tokens :: "'h EnrollmentT list"
  db_refresh_tokens :: "'h RefreshT list"
  db_access_tokens :: "'h AccessT list"
  db_log_counter :: int
  db_notify :: "notification list"

definition emptyDB :: "'h DB" where
  "emptyDB = \<lparr>db_users = [], db_devices = [], db_conversations = [], db_members = [],
     db_messages = [], db_attachments = [], db_uploads = [], db_enrollment_tokens = [],
     db_refresh_tokens = [], db_access_tokens = [], db_log_counter = 0, db_notify = []\<rparr>"

definition notify :: "notification \<Rightarrow> 'h DB \<Rightarrow> 'h DB" where
  "notify n db = db\<lparr>db_notify := db_notify db @ [n]\<rparr>"

lemma notify_frame [simp]:
  "db_users (notify n db) = db_users db" "db_devices (notify n db) = db_devices db"
  "db_conversations (notify n db) = db_conversations db" "db_members (notify n db) = db_members db"
  "db_messages (notify n db) = db_messages db" "db_attachments (notify n db) = db_attachments db"
  "db_uploads (notify n db) = db_uploads db" "db_enrollment_tokens (notify n db) = db_enrollment_tokens db"
  "db_refresh_tokens (notify n db) = db_refresh_tokens db" "db_access_tokens (notify n db) = db_access_tokens db"
  "db_log_counter (notify n db) = db_log_counter db" "db_notify (notify n db) = db_notify db @ [n]"
  by (simp_all add: notify_def)

section \<open>Statements\<close>

text \<open>An \<open>UPDATE ... WHERE\<close>, and a lookup of the first row of a unique index.\<close>

definition update_where :: "('r \<Rightarrow> bool) \<Rightarrow> ('r \<Rightarrow> 'r) \<Rightarrow> 'r list \<Rightarrow> 'r list" where
  "update_where P f rs = map (\<lambda>r. if P r then f r else r) rs"

lemma length_update_where [simp]: "length (update_where P f rs) = length rs"
  by (simp add: update_where_def)

lemma map_update_where:
  "(\<And>r. g (f r) = g r) \<Longrightarrow> map g (update_where P f rs) = map g rs"
  by (simp add: update_where_def)

lemma image_update_where:
  "(\<And>r. g (f r) = g r) \<Longrightarrow> g ` set (update_where P f rs) = g ` set rs"
  by (metis map_update_where set_map)

lemma set_update_where: "set (update_where P f rs) = f ` {r \<in> set rs. P r} \<union> {r \<in> set rs. \<not> P r}"
  by (auto simp: update_where_def)

lemma update_where_D: "x \<in> set (update_where P f rs) \<Longrightarrow> \<exists>r \<in> set rs. x = (if P r then f r else r)"
  by (auto simp: update_where_def)

lemma update_whereE:
  assumes "x \<in> set (update_where P f rs)"
  obtains (changed) r where "r \<in> set rs" "P r" "x = f r" | (kept) "x \<in> set rs" "\<not> P x"
  using assms by (auto simp: set_update_where)

lemma update_where_I: "r \<in> set rs \<Longrightarrow> (if P r then f r else r) \<in> set (update_where P f rs)"
  by (simp add: update_where_def)

lemma update_where_none: "(\<And>r. r \<in> set rs \<Longrightarrow> \<not> P r) \<Longrightarrow> update_where P f rs = rs"
  by (simp add: update_where_def map_idI)

lemma find_update_where:
  "(\<And>r. Q (f r) = Q r) \<Longrightarrow>
   find Q (update_where P f rs) = map_option (\<lambda>r. if P r then f r else r) (find Q rs)"
  by (induction rs) (auto simp: update_where_def)

lemma find_SomeD: "find P xs = Some x \<Longrightarrow> x \<in> set xs \<and> P x"
  by (auto simp: find_Some_iff)

lemma find_unique:
  "distinct (map k rs) \<Longrightarrow> r \<in> set rs \<Longrightarrow> find (\<lambda>x. k x = k r) rs = Some r"
  by (induction rs) (auto simp: image_iff)

lemma find_append_none: "find P xs = None \<Longrightarrow> find P (xs @ ys) = find P ys"
  by (induction xs) auto

lemma find_append_some: "find P xs = Some x \<Longrightarrow> find P (xs @ ys) = Some x"
  by (induction xs) auto

section \<open>Errors of the package\<close>

text \<open>
  The sentinels of the store package, and the wrapped failures of the database: a unique
  violation with its constraint or any other SQLSTATE at severity ERROR, one at FATAL or
  PANIC, and the failures without one: the context, the closed pool, what the driver can
  prove never reached the server, a dropped connection, a network error, anything else.
\<close>

datatype store_error =
  ErrUnauthorized | ErrRefreshRetryFreshProposal | ErrRefreshRetryPresentProposal
| ErrDeviceNameRequired | ErrNotABot
| ErrNoClientID | ErrMessageTooLarge | ErrTooManyAttachments | ErrConversationNotFound
| ErrNotAMember | ErrUploadNotFound | ErrUploadResolverContract | ErrNotFound | ErrSeqOutOfRange
| ErrRateLimited | ErrNotifyTooLarge | ErrNegativeCursor
| ErrBumpNoRows | ErrTargetNotFound | ErrTargetDeactivated | ErrSelfDirect
| ErrInvalidGroup | ErrBotCannotCreateGroup | ErrBotCannotCreateSelf | ErrPersonNotFound
| PgError string string | PgFatal string
| Canceled | DeadlineExceeded | ClosedPool | SafeToRetry | ConnectionEOF | NetError | DriverError

end
