(* ===== verification/Store_Tokens.thy ===== *)
theory Store_Tokens
  imports Store_Schema "HOL-Library.Product_Lexorder" "HOL-Library.List_Lexorder"
begin

text \<open>
  \<open>internal/store/tokens.go\<close>, \<open>refresh.go\<close>, \<open>sweep.go\<close> and the credential half of \<open>bots.go\<close>:
  authentication, enrollment, the rotation of refresh tokens with its reuse detection, and
  revocation. \<open>hash\<close> is \<open>HashToken\<close> (SHA-256), a parameter: the code uses it as a lookup key
  only. What the code draws (\<open>uuid.New\<close>, the bytes of \<open>MintToken\<close>) are arguments, \<open>None\<close> a
  random source that failed. \<open>now\<close> is \<open>ServerTime()\<close>, the application's clock, and \<open>dbnow\<close>
  Postgres's \<open>now()\<close>: the code compares ages on the second and expiries on the first.
\<close>

section \<open>Constants and results\<close>

definition AccessTokenLifetime :: duration where "AccessTokenLifetime = 15 * minute"
definition RefreshTokenLifetime :: duration where "RefreshTokenLifetime = 60 * 24 * 60 * minute"
definition EnrollmentTokenLifetime :: duration where "EnrollmentTokenLifetime = 7 * 24 * 60 * minute"
definition SpentCredentialRetention :: duration where
  "SpentCredentialRetention = RefreshTokenLifetime + 7 * 24 * 60 * minute"
definition ReuseGraceWindow :: duration where "ReuseGraceWindow = 10 * second"
definition MaxDeviceNameBytes :: nat where "MaxDeviceNameBytes = 128"
definition sweepBatchSize :: nat where "sweepBatchSize = 1000"

record Caller =
  ca_UserID :: uuid
  ca_DeviceID :: uuid
  ca_Kind :: string

definition IsBot :: "Caller \<Rightarrow> bool" where "IsBot c \<longleftrightarrow> ca_Kind c = ''bot''"

text \<open>\<open>it_ExpiresAt\<close> 0 is the zero time of a bot's token, which does not expire.\<close>

record IssuedToken =
  it_Plaintext :: token
  it_ExpiresAt :: gotime

record Enrollment =
  er_UserID :: uuid
  er_DeviceID :: uuid
  er_Access :: IssuedToken
  er_Refresh :: IssuedToken

type_synonym Rotated = Enrollment

section \<open>Lookups\<close>

definition refreshByHash :: "'h DB \<Rightarrow> 'h \<Rightarrow> 'h RefreshT option" where
  "refreshByHash db h = find (\<lambda>r. rt_token_hash r = h) (db_refresh_tokens db)"

definition refreshByID :: "'h DB \<Rightarrow> uuid \<Rightarrow> 'h RefreshT option" where
  "refreshByID db i = find (\<lambda>r. rt_id r = i) (db_refresh_tokens db)"

definition deviceByID :: "'h DB \<Rightarrow> uuid \<Rightarrow> DeviceT option" where
  "deviceByID db i = find (\<lambda>d. dv_id d = i) (db_devices db)"

definition userByID :: "'h DB \<Rightarrow> uuid \<Rightarrow> UserT option" where
  "userByID db i = find (\<lambda>u. us_id u = i) (db_users db)"

section \<open>Authentication\<close>

definition Authenticate ::
  "(token \<Rightarrow> 'h) \<Rightarrow> gotime \<Rightarrow> 'h DB \<Rightarrow> token \<Rightarrow> store_error + Caller" where
  "Authenticate hash now db presented =
     (if presented = '''' then Inl ErrUnauthorized
      else case find (\<lambda>a. ac_token_hash a = hash presented) (db_access_tokens db) of
        None \<Rightarrow> Inl ErrUnauthorized
      | Some a \<Rightarrow>
          (case userByID db (ac_user_id a) of
             None \<Rightarrow> Inl ErrUnauthorized
           | Some u \<Rightarrow>
               let deviceRevoked = (case ac_device_id a of
                     None \<Rightarrow> None
                   | Some i \<Rightarrow> Option.bind (deviceByID db i) dv_revoked_at)
               in if ac_token_hash a \<noteq> hash presented then Inl ErrUnauthorized
                  else if ac_revoked_at a \<noteq> None then Inl ErrUnauthorized
                  else if (case ac_expires_at a of None \<Rightarrow> False | Some e \<Rightarrow> \<not> now < e) then Inl ErrUnauthorized
                  else if deviceRevoked \<noteq> None then Inl ErrUnauthorized
                  else if us_deactivated_at u \<noteq> None then Inl ErrUnauthorized
                  else Inr \<lparr>ca_UserID = ac_user_id a,
                        ca_DeviceID = (case ac_device_id a of None \<Rightarrow> uuid_Nil | Some i \<Rightarrow> i),
                        ca_Kind = us_kind u\<rparr>))"

section \<open>Issuing\<close>

text \<open>
  The three inserts. A minted or proposed hash that is already stored, or an id that is, is
  the unique violation Postgres raises, by constraint.
\<close>

definition insertRefreshProposed ::
  "(token \<Rightarrow> 'h) \<Rightarrow> gotime \<Rightarrow> 'h DB \<Rightarrow> uuid \<Rightarrow> uuid \<Rightarrow> uuid \<Rightarrow> gotime \<Rightarrow> token \<Rightarrow> token option \<Rightarrow>
   store_error + 'h DB \<times> IssuedToken" where
  "insertRefreshProposed hash dbnow db i device family now proposed mint =
     (case (if proposed = '''' then mint else Some proposed) of
        None \<Rightarrow> Inl DriverError
      | Some plain \<Rightarrow>
          if refreshByID db i \<noteq> None then Inl (PgError ''23505'' ''refresh_tokens_pkey'')
          else if refreshByHash db (hash plain) \<noteq> None then Inl (PgError ''23505'' ''refresh_tokens_token_hash_key'')
          else
            let expires = now + RefreshTokenLifetime in
            Inr (db\<lparr>db_refresh_tokens := db_refresh_tokens db @
                   [\<lparr>rt_id = i, rt_device_id = device, rt_token_hash = hash plain, rt_family_id = family,
                     rt_replaced_by = None, rt_issued_at = dbnow, rt_expires_at = expires,
                     rt_revoked_at = None\<rparr>]\<rparr>,
                 \<lparr>it_Plaintext = plain, it_ExpiresAt = expires\<rparr>))"

definition issueRefresh ::
  "(token \<Rightarrow> 'h) \<Rightarrow> gotime \<Rightarrow> 'h DB \<Rightarrow> uuid \<Rightarrow> uuid \<Rightarrow> gotime \<Rightarrow> token option \<Rightarrow>
   store_error + 'h DB \<times> IssuedToken" where
  "issueRefresh hash dbnow db i device now mint =
     insertRefreshProposed hash dbnow db i device i now '''' mint"

definition issueAccess ::
  "(token \<Rightarrow> 'h) \<Rightarrow> gotime \<Rightarrow> 'h DB \<Rightarrow> uuid \<Rightarrow> uuid \<Rightarrow> uuid option \<Rightarrow> gotime \<Rightarrow> token option \<Rightarrow>
   store_error + 'h DB \<times> IssuedToken" where
  "issueAccess hash dbnow db i user device now mint =
     (case mint of
        None \<Rightarrow> Inl DriverError
      | Some plain \<Rightarrow>
          if i \<in> ac_id ` set (db_access_tokens db) then Inl (PgError ''23505'' ''access_tokens_pkey'')
          else if hash plain \<in> ac_token_hash ` set (db_access_tokens db)
          then Inl (PgError ''23505'' ''access_tokens_token_hash_key'')
          else
            let expires = (case device of None \<Rightarrow> None | Some _ \<Rightarrow> Some (now + AccessTokenLifetime)) in
            Inr (db\<lparr>db_access_tokens := db_access_tokens db @
                   [\<lparr>ac_id = i, ac_token_hash = hash plain, ac_user_id = user, ac_device_id = device,
                     ac_issued_at = dbnow, ac_expires_at = expires, ac_revoked_at = None\<rparr>]\<rparr>,
                 \<lparr>it_Plaintext = plain, it_ExpiresAt = (case expires of None \<Rightarrow> 0 | Some e \<Rightarrow> e)\<rparr>))"

definition liveEnrollment :: "uuid \<Rightarrow> 'h EnrollmentT \<Rightarrow> bool" where
  "liveEnrollment user e \<longleftrightarrow> en_user_id e = user \<and> en_redeemed_at e = None \<and> en_superseded_at e = None"

definition issueEnrollmentTokenTx ::
  "(token \<Rightarrow> 'h) \<Rightarrow> gotime \<Rightarrow> 'h DB \<Rightarrow> uuid \<Rightarrow> uuid \<Rightarrow> gotime \<Rightarrow> token option \<Rightarrow>
   store_error + 'h DB \<times> IssuedToken" where
  "issueEnrollmentTokenTx hash dbnow db i user now mint =
     (case mint of
        None \<Rightarrow> Inl DriverError
      | Some plain \<Rightarrow>
          let expires = now + EnrollmentTokenLifetime;
              rows = update_where (liveEnrollment user) (\<lambda>e. e\<lparr>en_superseded_at := Some dbnow\<rparr>)
                       (db_enrollment_tokens db)
          in if userByID db user = None then Inl (PgError ''23503'' ''enrollment_tokens_user_id_fkey'')
             else if i \<in> en_id ` set rows then Inl (PgError ''23505'' ''enrollment_tokens_pkey'')
             else if hash plain \<in> en_token_hash ` set rows
             then Inl (PgError ''23505'' ''enrollment_tokens_token_hash_key'')
             else Inr (db\<lparr>db_enrollment_tokens := rows @
                    [\<lparr>en_id = i, en_user_id = user, en_token_hash = hash plain, en_expires_at = expires,
                      en_redeemed_at = None, en_redeemed_by_device = None, en_superseded_at = None\<rparr>]\<rparr>,
                  \<lparr>it_Plaintext = plain, it_ExpiresAt = expires\<rparr>))"

text \<open>\<open>IssueEnrollmentToken\<close> is that work in a transaction of its own.\<close>

definition IssueEnrollmentToken ::
  "(token \<Rightarrow> 'h) \<Rightarrow> gotime \<Rightarrow> 'h DB \<Rightarrow> uuid \<Rightarrow> uuid \<Rightarrow> gotime \<Rightarrow> token option \<Rightarrow>
   'h DB \<times> (store_error + IssuedToken)" where
  "IssueEnrollmentToken hash dbnow db i user now mint =
     (case issueEnrollmentTokenTx hash dbnow db i user now mint of
        Inl e \<Rightarrow> (db, Inl e) | Inr (db', t) \<Rightarrow> (db', Inr t))"

text \<open>What one request draws: the ids and the random strings.\<close>

record Draws =
  dr_deviceID :: uuid
  dr_refreshID :: uuid
  dr_accessID :: uuid
  dr_refresh :: "token option"
  dr_access :: "token option"

definition RedeemEnrollment ::
  "(token \<Rightarrow> 'h) \<Rightarrow> gotime \<Rightarrow> gotime \<Rightarrow> Draws \<Rightarrow> 'h DB \<Rightarrow> token \<Rightarrow> string \<Rightarrow>
   'h DB \<times> (store_error + Enrollment)" where
  "RedeemEnrollment hash dbnow now d db presented deviceName =
     (if deviceName = '''' then (db, Inl ErrDeviceNameRequired)
      else if MaxDeviceNameBytes < length deviceName then (db, Inl ErrDeviceNameRequired)
      else if presented = '''' then (db, Inl ErrUnauthorized)
      else case find (\<lambda>e. en_token_hash e = hash presented) (db_enrollment_tokens db) of
        None \<Rightarrow> (db, Inl ErrUnauthorized)
      | Some e \<Rightarrow>
          if en_redeemed_at e \<noteq> None then (db, Inl ErrUnauthorized)
          else if en_superseded_at e \<noteq> None then (db, Inl ErrUnauthorized)
          else if \<not> now < en_expires_at e then (db, Inl ErrUnauthorized)
          else case userByID db (en_user_id e) of
            None \<Rightarrow> (db, Inl DriverError)
          | Some u \<Rightarrow>
              if us_deactivated_at u \<noteq> None then (db, Inl ErrUnauthorized)
              else if us_kind u \<noteq> ''person'' then (db, Inl ErrUnauthorized)
              else if deviceByID db (dr_deviceID d) \<noteq> None then (db, Inl (PgError ''23505'' ''devices_pkey''))
              else
                let db1 = db\<lparr>db_devices := db_devices db @
                      [\<lparr>dv_id = dr_deviceID d, dv_user_id = us_id u, dv_name = deviceName,
                        dv_created_at = dbnow, dv_revoked_at = None\<rparr>]\<rparr>
                in case issueRefresh hash dbnow db1 (dr_refreshID d) (dr_deviceID d) now (dr_refresh d) of
                  Inl er \<Rightarrow> (db, Inl er)
                | Inr (db2, refresh) \<Rightarrow>
                    (case issueAccess hash dbnow db2 (dr_accessID d) (us_id u) (Some (dr_deviceID d)) now (dr_access d) of
                       Inl er \<Rightarrow> (db, Inl er)
                     | Inr (db3, access) \<Rightarrow>
                         (db3\<lparr>db_enrollment_tokens :=
                              update_where (\<lambda>x. en_id x = en_id e)
                                (\<lambda>x. x\<lparr>en_redeemed_at := Some dbnow, en_redeemed_by_device := Some (dr_deviceID d)\<rparr>)
                                (db_enrollment_tokens db3)\<rparr>,
                          Inr \<lparr>er_UserID = us_id u, er_DeviceID = dr_deviceID d,
                               er_Access = access, er_Refresh = refresh\<rparr>)))"

definition IssueBotToken ::
  "(token \<Rightarrow> 'h) \<Rightarrow> gotime \<Rightarrow> 'h DB \<Rightarrow> uuid \<Rightarrow> uuid \<Rightarrow> gotime \<Rightarrow> token option \<Rightarrow>
   'h DB \<times> (store_error + IssuedToken)" where
  "IssueBotToken hash dbnow db i user now mint =
     (case userByID db user of
        None \<Rightarrow> (db, Inl DriverError)
      | Some u \<Rightarrow>
          if us_kind u \<noteq> ''bot'' then (db, Inl ErrNotABot)
          else case issueAccess hash dbnow db i user None now mint of
            Inl e \<Rightarrow> (db, Inl e) | Inr (db', t) \<Rightarrow> (db', Inr t))"

section \<open>Revocation\<close>

definition publishRevocation :: "uuid \<Rightarrow> 'h DB \<Rightarrow> 'h DB" where
  "publishRevocation device db = notify (RevokedDevice device) db"

definition liveDevice :: "uuid \<Rightarrow> DeviceT \<Rightarrow> bool" where
  "liveDevice i d \<longleftrightarrow> dv_id d = i \<and> dv_revoked_at d = None"

definition RevokeDevice :: "gotime \<Rightarrow> 'h DB \<Rightarrow> uuid \<Rightarrow> 'h DB \<times> bool" where
  "RevokeDevice dbnow db device =
     (if \<exists>d \<in> set (db_devices db). liveDevice device d then
        (publishRevocation device
           (db\<lparr>db_devices := update_where (liveDevice device) (\<lambda>d. d\<lparr>dv_revoked_at := Some dbnow\<rparr>) (db_devices db)\<rparr>),
         True)
      else (db, False))"

definition RevokeOwnDevice :: "gotime \<Rightarrow> 'h DB \<Rightarrow> uuid \<Rightarrow> uuid \<Rightarrow> 'h DB \<times> bool" where
  "RevokeOwnDevice dbnow db user device =
     (let P = (\<lambda>d. liveDevice device d \<and> dv_user_id d = user) in
      if \<exists>d \<in> set (db_devices db). P d then
        (publishRevocation device
           (db\<lparr>db_devices := update_where P (\<lambda>d. d\<lparr>dv_revoked_at := Some dbnow\<rparr>) (db_devices db)\<rparr>),
         True)
      else (db, False))"

definition RevokeBotTokens :: "gotime \<Rightarrow> 'h DB \<Rightarrow> uuid \<Rightarrow> 'h DB \<times> nat" where
  "RevokeBotTokens dbnow db user =
     (let isbot = (case userByID db user of None \<Rightarrow> False | Some u \<Rightarrow> us_kind u = ''bot'');
          P = (\<lambda>a. ac_user_id a = user \<and> isbot \<and> ac_device_id a = None \<and> ac_revoked_at a = None)
      in (db\<lparr>db_access_tokens := update_where P (\<lambda>a. a\<lparr>ac_revoked_at := Some dbnow\<rparr>) (db_access_tokens db)\<rparr>,
          length (filter P (db_access_tokens db))))"

text \<open>
  \<open>invalidateFamily\<close>: the family's refresh tokens, the device's access tokens and the
  device, in one transaction; the notification only when the device was live.
\<close>

definition invalidateFamily :: "gotime \<Rightarrow> 'h DB \<Rightarrow> uuid \<Rightarrow> uuid \<Rightarrow> 'h DB" where
  "invalidateFamily dbnow db family device =
     (let severed = (\<exists>d \<in> set (db_devices db). liveDevice device d);
          db1 = db\<lparr>db_refresh_tokens := update_where (\<lambda>r. rt_family_id r = family \<and> rt_revoked_at r = None)
                      (\<lambda>r. r\<lparr>rt_revoked_at := Some dbnow\<rparr>) (db_refresh_tokens db),
                   db_access_tokens := update_where (\<lambda>a. ac_device_id a = Some device \<and> ac_revoked_at a = None)
                      (\<lambda>a. a\<lparr>ac_revoked_at := Some dbnow\<rparr>) (db_access_tokens db),
                   db_devices := update_where (liveDevice device)
                      (\<lambda>d. d\<lparr>dv_revoked_at := Some dbnow\<rparr>) (db_devices db)\<rparr>
      in if severed then notify (RevokedDevice device) db1 else db1)"

section \<open>Rotation and reuse detection\<close>

text \<open>
  The ages below are \<open>EXTRACT(EPOCH ...)\<close> at Postgres's microsecond resolution; the
  conversion through \<open>float8\<close> is exact to the nanosecond at that size.
\<close>

definition spentTokenOutcome :: "gotime \<Rightarrow> 'h DB \<Rightarrow> uuid \<Rightarrow> uuid \<Rightarrow> duration option \<Rightarrow> 'h DB" where
  "spentTokenOutcome dbnow db family device rotatedAge =
     (case rotatedAge of
        None \<Rightarrow> invalidateFamily dbnow db family device
      | Some age \<Rightarrow> if age < ReuseGraceWindow then db else invalidateFamily dbnow db family device)"

definition refusalOutcome :: "gotime \<Rightarrow> 'h DB \<Rightarrow> uuid \<Rightarrow> uuid \<Rightarrow> uuid \<Rightarrow> 'h DB" where
  "refusalOutcome dbnow db tokenID family device =
     (case refreshByID db tokenID of
        None \<Rightarrow> db
      | Some r \<Rightarrow>
          if (case deviceByID db (rt_device_id r) of None \<Rightarrow> True
              | Some d \<Rightarrow> userByID db (dv_user_id d) = None) then db
          else case rt_replaced_by r of
            None \<Rightarrow> db
          | Some s \<Rightarrow> spentTokenOutcome dbnow db family device
                (map_option (\<lambda>succ. dbnow - rt_issued_at succ) (refreshByID db s)))"

definition routeCollision ::
  "gotime \<Rightarrow> 'h DB \<Rightarrow> uuid \<Rightarrow> uuid \<Rightarrow> uuid \<Rightarrow> 'h \<Rightarrow> 'h DB \<times> store_error" where
  "routeCollision dbnow db tokenID family device proposedHash =
     (case refreshByID db tokenID of
        None \<Rightarrow> (refusalOutcome dbnow db tokenID family device, ErrUnauthorized)
      | Some r \<Rightarrow>
          (case (rt_replaced_by r, refreshByHash db proposedHash) of
             (None, _) \<Rightarrow> (db, ErrRefreshRetryFreshProposal)
           | (Some s, Some c) \<Rightarrow>
               if s = rt_id c \<and> dbnow - rt_issued_at c < ReuseGraceWindow
               then (db, ErrRefreshRetryPresentProposal)
               else (refusalOutcome dbnow db tokenID family device, ErrUnauthorized)
           | (Some s, None) \<Rightarrow> (refusalOutcome dbnow db tokenID family device, ErrUnauthorized)))"

definition isTokenHashCollision :: "store_error \<Rightarrow> bool" where
  "isTokenHashCollision e \<longleftrightarrow> e = PgError ''23505'' ''refresh_tokens_token_hash_key''"

text \<open>
  The conditional \<open>UPDATE\<close>, the one authority: live, unrotated and unexpired, on a device
  that is not revoked, of an account that is not deactivated.
\<close>

definition rotatable :: "'h DB \<Rightarrow> gotime \<Rightarrow> uuid \<Rightarrow> 'h RefreshT \<Rightarrow> bool" where
  "rotatable db now tokenID r \<longleftrightarrow>
     rt_id r = tokenID \<and> rt_replaced_by r = None \<and> rt_revoked_at r = None \<and> now < rt_expires_at r \<and>
     (case deviceByID db (rt_device_id r) of
        None \<Rightarrow> False
      | Some d \<Rightarrow> dv_revoked_at d = None \<and>
          (case userByID db (dv_user_id d) of None \<Rightarrow> False | Some u \<Rightarrow> us_deactivated_at u = None))"

text \<open>
  What the read of \<open>RotateRefreshProposing\<close> hands to its write: it may be stale by then,
  so the write takes the database of its own moment.
\<close>

record ReadToken =
  rd_tokenID :: uuid
  rd_familyID :: uuid
  rd_deviceID :: uuid
  rd_userID :: uuid

definition rotateRead :: "'h DB \<Rightarrow> 'h \<Rightarrow> ReadToken option" where
  "rotateRead db h =
     (case refreshByHash db h of
        None \<Rightarrow> None
      | Some r \<Rightarrow>
          (case deviceByID db (rt_device_id r) of
             None \<Rightarrow> None
           | Some d \<Rightarrow> Some \<lparr>rd_tokenID = rt_id r, rd_familyID = rt_family_id r,
                rd_deviceID = rt_device_id r, rd_userID = dv_user_id d\<rparr>))"

definition rotateTx ::
  "(token \<Rightarrow> 'h) \<Rightarrow> gotime \<Rightarrow> gotime \<Rightarrow> Draws \<Rightarrow> 'h DB \<Rightarrow> ReadToken \<Rightarrow> token \<Rightarrow>
   'h DB \<times> (store_error + Rotated)" where
  "rotateTx hash dbnow now d db t proposed =
     (case insertRefreshProposed hash dbnow db (dr_refreshID d) (rd_deviceID t) (rd_familyID t) now
             proposed (dr_refresh d) of
        Inl e \<Rightarrow>
          if proposed \<noteq> '''' \<and> isTokenHashCollision e
          then (case routeCollision dbnow db (rd_tokenID t) (rd_familyID t) (rd_deviceID t) (hash proposed) of
                  (db', e') \<Rightarrow> (db', Inl e'))
          else (db, Inl e)
      | Inr (db1, refresh) \<Rightarrow>
          if \<not> (\<exists>r \<in> set (db_refresh_tokens db1). rotatable db1 now (rd_tokenID t) r)
          then (refusalOutcome dbnow db (rd_tokenID t) (rd_familyID t) (rd_deviceID t), Inl ErrUnauthorized)
          else
            let db2 = db1\<lparr>db_refresh_tokens := update_where (rotatable db1 now (rd_tokenID t))
                        (\<lambda>r. r\<lparr>rt_replaced_by := Some (dr_refreshID d)\<rparr>) (db_refresh_tokens db1)\<rparr>
            in case issueAccess hash dbnow db2 (dr_accessID d) (rd_userID t) (Some (rd_deviceID t)) now (dr_access d) of
                 Inl e \<Rightarrow> (db, Inl e)
               | Inr (db3, access) \<Rightarrow>
                   (db3, Inr \<lparr>er_UserID = rd_userID t, er_DeviceID = rd_deviceID t,
                              er_Access = access, er_Refresh = refresh\<rparr>))"

definition RotateRefreshProposing ::
  "(token \<Rightarrow> 'h) \<Rightarrow> gotime \<Rightarrow> gotime \<Rightarrow> Draws \<Rightarrow> 'h DB \<Rightarrow> token \<Rightarrow> token \<Rightarrow>
   'h DB \<times> (store_error + Rotated)" where
  "RotateRefreshProposing hash dbnow now d db presented proposed =
     (if presented = '''' then (db, Inl ErrUnauthorized)
      else if proposed \<noteq> '''' \<and> proposed = presented then (db, Inl ErrRefreshRetryFreshProposal)
      else case rotateRead db (hash presented) of
        None \<Rightarrow> (db, Inl ErrUnauthorized)
      | Some t \<Rightarrow> rotateTx hash dbnow now d db t proposed)"

definition RotateRefresh ::
  "(token \<Rightarrow> 'h) \<Rightarrow> gotime \<Rightarrow> gotime \<Rightarrow> Draws \<Rightarrow> 'h DB \<Rightarrow> token \<Rightarrow> 'h DB \<times> (store_error + Rotated)" where
  "RotateRefresh hash dbnow now d db presented = RotateRefreshProposing hash dbnow now d db presented ''''"

section \<open>The sweep of spent credentials\<close>

definition sweepable :: "gotime \<Rightarrow> gotime \<Rightarrow> gotime option \<Rightarrow> gotime option \<Rightarrow> bool" where
  "sweepable dbnow issued revoked expires \<longleftrightarrow>
     issued < dbnow - SpentCredentialRetention \<and>
     (revoked \<noteq> None \<or> (case expires of None \<Rightarrow> False | Some e \<Rightarrow> e \<le> dbnow))"

definition accessBatch :: "gotime \<Rightarrow> 'h AccessT list \<Rightarrow> uuid list" where
  "accessBatch dbnow as = map ac_id (take sweepBatchSize
     (sort_key (\<lambda>a. (ac_issued_at a, map of_char (ac_id a) :: nat list))
        (filter (\<lambda>a. sweepable dbnow (ac_issued_at a) (ac_revoked_at a) (ac_expires_at a)) as)))"

definition refreshBatch :: "gotime \<Rightarrow> 'h RefreshT list \<Rightarrow> uuid list" where
  "refreshBatch dbnow rs = map rt_id (take sweepBatchSize
     (sort_key (\<lambda>r. (rt_issued_at r, map of_char (rt_id r) :: nat list))
        (filter (\<lambda>r. sweepable dbnow (rt_issued_at r) (rt_revoked_at r) (Some (rt_expires_at r))) rs)))"

definition sweepAccessTokensOnce :: "gotime \<Rightarrow> 'h DB \<Rightarrow> 'h DB \<times> nat" where
  "sweepAccessTokensOnce dbnow db =
     (let gone = (\<lambda>a. ac_id a \<in> set (accessBatch dbnow (db_access_tokens db)))
      in (db\<lparr>db_access_tokens := filter (\<lambda>a. \<not> gone a) (db_access_tokens db)\<rparr>,
          length (filter gone (db_access_tokens db))))"

text \<open>
  The refresh sweep deletes no row another row that stays still names: \<open>replaced_by\<close> is
  \<open>ON DELETE RESTRICT\<close>, and then the whole statement fails.
\<close>

definition sweepRefreshTokensOnce :: "gotime \<Rightarrow> 'h DB \<Rightarrow> 'h DB \<times> (store_error + nat)" where
  "sweepRefreshTokensOnce dbnow db =
     (let spent = refreshBatch dbnow (db_refresh_tokens db);
          gone = (\<lambda>r. rt_id r \<in> set spent);
          kept = filter (\<lambda>r. \<not> gone r) (db_refresh_tokens db)
      in if \<exists>r \<in> set kept. \<exists>x \<in> set spent. rt_replaced_by r = Some x
         then (db, Inl (PgError ''23503'' ''refresh_tokens_replaced_by_fkey''))
         else (db\<lparr>db_refresh_tokens := kept\<rparr>, Inr (length (filter gone (db_refresh_tokens db)))))"

end
