(* ===== verification/Store_Tokens_Props.thy ===== *)
theory Store_Tokens_Props
  imports Store_Tokens
begin

text \<open>
  What the credential store promises: the shape of the token tables under every operation,
  single use of a refresh token, the echo and the replay, revocation, enrollment.
\<close>

section \<open>The invariant of the token tables\<close>

definition one_head :: "'h RefreshT list \<Rightarrow> bool" where
  "one_head rs \<longleftrightarrow> (\<forall>r \<in> set rs. \<forall>r' \<in> set rs.
     rt_family_id r = rt_family_id r' \<and> rt_replaced_by r = None \<and> rt_replaced_by r' = None \<longrightarrow> r = r')"

definition one_device :: "'h RefreshT list \<Rightarrow> bool" where
  "one_device rs \<longleftrightarrow> (\<forall>r \<in> set rs. \<forall>r' \<in> set rs.
     rt_family_id r = rt_family_id r' \<longrightarrow> rt_device_id r = rt_device_id r')"

definition successors_stored :: "'h RefreshT list \<Rightarrow> bool" where
  "successors_stored rs \<longleftrightarrow> (\<forall>r \<in> set rs. \<forall>s. rt_replaced_by r = Some s \<longrightarrow> s \<in> rt_id ` set rs)"

definition one_invitation :: "'h EnrollmentT list \<Rightarrow> bool" where
  "one_invitation es \<longleftrightarrow> (\<forall>e \<in> set es. \<forall>e' \<in> set es. \<forall>u.
     liveEnrollment u e \<and> liveEnrollment u e' \<longrightarrow> e = e')"

definition access_shape :: "'h AccessT list \<Rightarrow> bool" where
  "access_shape as \<longleftrightarrow> (\<forall>a \<in> set as. (ac_device_id a = None) = (ac_expires_at a = None))"

definition token_inv :: "'h DB \<Rightarrow> bool" where
  "token_inv db \<longleftrightarrow>
     distinct (map rt_id (db_refresh_tokens db)) \<and> distinct (map rt_token_hash (db_refresh_tokens db)) \<and>
     distinct (map ac_token_hash (db_access_tokens db)) \<and>
     distinct (map en_id (db_enrollment_tokens db)) \<and> distinct (map en_token_hash (db_enrollment_tokens db)) \<and>
     distinct (map dv_id (db_devices db)) \<and> distinct (map us_id (db_users db)) \<and>
     one_head (db_refresh_tokens db) \<and> one_device (db_refresh_tokens db) \<and>
     successors_stored (db_refresh_tokens db) \<and>
     one_invitation (db_enrollment_tokens db) \<and> access_shape (db_access_tokens db)"

text \<open>
  The steps of the credential store. \<open>users\<close> is what the rest of the package does to the
  \<open>users\<close> table; a family id that is drawn is fresh.
\<close>

definition fresh_family :: "'h DB \<Rightarrow> uuid \<Rightarrow> bool" where
  "fresh_family db i \<longleftrightarrow> (\<forall>r \<in> set (db_refresh_tokens db). rt_family_id r \<noteq> i)"

inductive token_step :: "(token \<Rightarrow> 'h) \<Rightarrow> 'h DB \<Rightarrow> 'h DB \<Rightarrow> bool" for hash where
  invite: "token_step hash db (fst (IssueEnrollmentToken hash dbnow db i user now mint))"
| redeem: "fresh_family db (dr_refreshID d) \<Longrightarrow>
    token_step hash db (fst (RedeemEnrollment hash dbnow now d db presented name))"
| rotate: "dr_refreshID d \<noteq> rd_tokenID t \<Longrightarrow>
    (\<And>r. r \<in> set (db_refresh_tokens db) \<Longrightarrow> rt_id r = rd_tokenID t \<Longrightarrow>
       rt_family_id r = rd_familyID t \<and> rt_device_id r = rd_deviceID t) \<Longrightarrow>
    token_step hash db (fst (rotateTx hash dbnow now d db t proposed))"
| bot: "token_step hash db (fst (IssueBotToken hash dbnow db i user now mint))"
| revoke: "token_step hash db (fst (RevokeDevice dbnow db device))"
| revokeOwn: "token_step hash db (fst (RevokeOwnDevice dbnow db user device))"
| revokeBot: "token_step hash db (fst (RevokeBotTokens dbnow db user))"
| sweepAccess: "token_step hash db (fst (sweepAccessTokensOnce dbnow db))"
| sweepRefresh: "token_step hash db (fst (sweepRefreshTokensOnce dbnow db))"
| users: "distinct (map us_id us) \<Longrightarrow> token_step hash db (db\<lparr>db_users := us\<rparr>)"

section \<open>Preservation, table by table\<close>

text \<open>An update that keeps the ids and the links of the rows keeps the chain shape.\<close>

definition keeps_links :: "('h RefreshT \<Rightarrow> 'h RefreshT) \<Rightarrow> bool" where
  "keeps_links f \<longleftrightarrow> (\<forall>r. rt_id (f r) = rt_id r \<and> rt_family_id (f r) = rt_family_id r \<and>
     rt_device_id (f r) = rt_device_id r \<and> rt_replaced_by (f r) = rt_replaced_by r \<and>
     rt_token_hash (f r) = rt_token_hash r)"

lemma update_where_keeps:
  assumes "keeps_links f"
  shows "one_head rs \<Longrightarrow> one_head (update_where P f rs)"
    and "one_device rs \<Longrightarrow> one_device (update_where P f rs)"
    and "successors_stored rs \<Longrightarrow> successors_stored (update_where P f rs)"
    and "map rt_id (update_where P f rs) = map rt_id rs"
    and "map rt_token_hash (update_where P f rs) = map rt_token_hash rs"
proof -
  define g where "g r = (if P r then f r else r)" for r
  have g: "rt_id (g r) = rt_id r" "rt_family_id (g r) = rt_family_id r" "rt_device_id (g r) = rt_device_id r"
    "rt_replaced_by (g r) = rt_replaced_by r" "rt_token_hash (g r) = rt_token_hash r" for r
    using assms by (auto simp: g_def keeps_links_def)
  have u: "update_where P f rs = map g rs" by (simp add: update_where_def g_def)
  show "one_head rs \<Longrightarrow> one_head (update_where P f rs)"
    unfolding one_head_def u set_map ball_simps g by metis
  show "one_device rs \<Longrightarrow> one_device (update_where P f rs)"
    unfolding one_device_def u set_map ball_simps g by metis
  show "successors_stored rs \<Longrightarrow> successors_stored (update_where P f rs)"
    unfolding successors_stored_def u set_map ball_simps image_image g .
  show "map rt_id (update_where P f rs) = map rt_id rs"
    "map rt_token_hash (update_where P f rs) = map rt_token_hash rs"
    by (simp_all add: u g)
qed

lemma invalidateFamily_inv:
  assumes "token_inv db"
  shows "token_inv (invalidateFamily dbnow db family device)"
proof -
  have k: "keeps_links (\<lambda>r. r\<lparr>rt_revoked_at := Some dbnow\<rparr>)" by (simp add: keeps_links_def)
  have "access_shape (update_where P (\<lambda>a. a\<lparr>ac_revoked_at := Some dbnow\<rparr>) (db_access_tokens db))" for P
    using assms by (auto simp: token_inv_def access_shape_def set_update_where)
  with assms show ?thesis
    by (simp add: token_inv_def invalidateFamily_def Let_def map_update_where update_where_keeps [OF k])
qed

lemma refusalOutcome_inv: "token_inv db \<Longrightarrow> token_inv (refusalOutcome dbnow db i family device)"
  by (simp add: refusalOutcome_def spentTokenOutcome_def invalidateFamily_inv split: option.splits)

lemma routeCollision_inv:
  "token_inv db \<Longrightarrow> routeCollision dbnow db i family device h = (db', e) \<Longrightarrow> token_inv db'"
  by (auto simp: routeCollision_def refusalOutcome_inv split: option.splits if_splits)

section \<open>The inserts\<close>

lemma insertRefreshProposed_Inr:
  assumes "insertRefreshProposed hash dbnow db i device family now proposed mint = Inr (db', t)"
  shows "\<exists>plain. (proposed \<noteq> '''' \<longrightarrow> plain = proposed) \<and> (proposed = '''' \<longrightarrow> mint = Some plain) \<and>
    t = \<lparr>it_Plaintext = plain, it_ExpiresAt = now + RefreshTokenLifetime\<rparr> \<and>
    i \<notin> rt_id ` set (db_refresh_tokens db) \<and> hash plain \<notin> rt_token_hash ` set (db_refresh_tokens db) \<and>
    db' = db\<lparr>db_refresh_tokens := db_refresh_tokens db @
      [\<lparr>rt_id = i, rt_device_id = device, rt_token_hash = hash plain, rt_family_id = family,
        rt_replaced_by = None, rt_issued_at = dbnow, rt_expires_at = now + RefreshTokenLifetime,
        rt_revoked_at = None\<rparr>]\<rparr>"
  using assms
  by (auto simp: insertRefreshProposed_def refreshByID_def refreshByHash_def find_None_iff Let_def image_iff
      split: if_splits option.splits)

lemma issueAccess_Inr:
  assumes "issueAccess hash dbnow db i user device now mint = Inr (db', t)"
  shows "\<exists>plain. mint = Some plain \<and> it_Plaintext t = plain \<and>
    hash plain \<notin> ac_token_hash ` set (db_access_tokens db) \<and>
    db' = db\<lparr>db_access_tokens := db_access_tokens db @
      [\<lparr>ac_id = i, ac_token_hash = hash plain, ac_user_id = user, ac_device_id = device, ac_issued_at = dbnow,
        ac_expires_at = map_option (\<lambda>_. now + AccessTokenLifetime) device, ac_revoked_at = None\<rparr>]\<rparr>"
  using assms by (auto simp: issueAccess_def Let_def split: if_splits option.splits)

text \<open>A rotation that succeeded: the rows it left, and the row that let it.\<close>

lemma rotateTx_Inr:
  assumes "rotateTx hash dbnow now d db t proposed = (db', Inr x)"
  obtains plain acc where
    "proposed \<noteq> '''' \<longrightarrow> plain = proposed" "proposed = '''' \<longrightarrow> dr_refresh d = Some plain" "dr_access d = Some acc"
    "dr_refreshID d \<notin> rt_id ` set (db_refresh_tokens db)"
    "hash plain \<notin> rt_token_hash ` set (db_refresh_tokens db)"
    "hash acc \<notin> ac_token_hash ` set (db_access_tokens db)"
    "db_refresh_tokens db' = update_where (rotatable db now (rd_tokenID t)) (\<lambda>r. r\<lparr>rt_replaced_by := Some (dr_refreshID d)\<rparr>)
       (db_refresh_tokens db @ [\<lparr>rt_id = dr_refreshID d, rt_device_id = rd_deviceID t, rt_token_hash = hash plain,
          rt_family_id = rd_familyID t, rt_replaced_by = None, rt_issued_at = dbnow,
          rt_expires_at = now + RefreshTokenLifetime, rt_revoked_at = None\<rparr>])"
    "db_access_tokens db' = db_access_tokens db @
       [\<lparr>ac_id = dr_accessID d, ac_token_hash = hash acc, ac_user_id = rd_userID t, ac_device_id = Some (rd_deviceID t),
         ac_issued_at = dbnow, ac_expires_at = Some (now + AccessTokenLifetime), ac_revoked_at = None\<rparr>]"
    "db_devices db' = db_devices db" "db_users db' = db_users db" "db_notify db' = db_notify db"
    "db_enrollment_tokens db' = db_enrollment_tokens db"
    "dr_refreshID d \<noteq> rd_tokenID t \<Longrightarrow> \<exists>r \<in> set (db_refresh_tokens db). rotatable db now (rd_tokenID t) r"
    "er_UserID x = rd_userID t" "er_DeviceID x = rd_deviceID t"
    "it_Plaintext (er_Refresh x) = plain" "it_Plaintext (er_Access x) = acc"
    "it_ExpiresAt (er_Refresh x) = now + RefreshTokenLifetime"
proof -
  obtain db1 ref where i: "insertRefreshProposed hash dbnow db (dr_refreshID d) (rd_deviceID t) (rd_familyID t) now
      proposed (dr_refresh d) = Inr (db1, ref)"
    using assms by (auto simp: rotateTx_def split: sum.splits if_splits prod.splits)
  from insertRefreshProposed_Inr [OF i] obtain plain where pl:
    "proposed \<noteq> '''' \<longrightarrow> plain = proposed" "proposed = '''' \<longrightarrow> dr_refresh d = Some plain"
    "ref = \<lparr>it_Plaintext = plain, it_ExpiresAt = now + RefreshTokenLifetime\<rparr>"
    "dr_refreshID d \<notin> rt_id ` set (db_refresh_tokens db)" "hash plain \<notin> rt_token_hash ` set (db_refresh_tokens db)"
    and db1: "db1 = db\<lparr>db_refresh_tokens := db_refresh_tokens db @
      [\<lparr>rt_id = dr_refreshID d, rt_device_id = rd_deviceID t, rt_token_hash = hash plain, rt_family_id = rd_familyID t,
        rt_replaced_by = None, rt_issued_at = dbnow, rt_expires_at = now + RefreshTokenLifetime,
        rt_revoked_at = None\<rparr>]\<rparr>" by metis
  have rot: "rotatable db1 = rotatable db"
    by (intro ext) (simp add: rotatable_def db1 deviceByID_def userByID_def cong: option.case_cong)
  from assms i have ex: "\<exists>r \<in> set (db_refresh_tokens db1). rotatable db now (rd_tokenID t) r"
    by (auto simp: rotateTx_def rot split: if_splits)
  define db2 where "db2 = db1\<lparr>db_refresh_tokens := update_where (rotatable db now (rd_tokenID t))
        (\<lambda>r. r\<lparr>rt_replaced_by := Some (dr_refreshID d)\<rparr>) (db_refresh_tokens db1)\<rparr>"
  obtain db3 ac where a: "issueAccess hash dbnow db2 (dr_accessID d) (rd_userID t) (Some (rd_deviceID t)) now (dr_access d) = Inr (db3, ac)"
    and x: "db' = db3" "x = \<lparr>er_UserID = rd_userID t, er_DeviceID = rd_deviceID t, er_Access = ac, er_Refresh = ref\<rparr>"
    using assms i ex by (auto simp: rotateTx_def rot db2_def Let_def split: sum.splits if_splits)
  from issueAccess_Inr [OF a] obtain acc where acc: "dr_access d = Some acc" "it_Plaintext ac = acc"
    "hash acc \<notin> ac_token_hash ` set (db_access_tokens db2)"
    "db3 = db2\<lparr>db_access_tokens := db_access_tokens db2 @
      [\<lparr>ac_id = dr_accessID d, ac_token_hash = hash acc, ac_user_id = rd_userID t, ac_device_id = Some (rd_deviceID t),
        ac_issued_at = dbnow, ac_expires_at = Some (now + AccessTokenLifetime), ac_revoked_at = None\<rparr>]\<rparr>" by auto
  show thesis
    by (rule that [OF pl(1,2) acc(1) pl(4,5)]) (use acc ex in \<open>auto simp: x db2_def db1 pl(3) rotatable_def\<close>)
qed

section \<open>Every operation keeps the invariant\<close>

lemma update_where_unique:
  assumes "distinct (map k rs)" "r \<in> set rs" "P r" "\<And>x. P x \<Longrightarrow> k x = k r"
  shows "set (update_where P f rs) = insert (f r) (set rs - {r})"
proof -
  have "P x \<longleftrightarrow> x = r" if "x \<in> set rs" for x
    using assms that by (metis inj_onD distinct_map)
  with assms(2) show ?thesis by (auto simp: set_update_where)
qed

lemma rotate_rows:
  assumes d: "distinct (map rt_id rs)" and shape: "one_head rs" "one_device rs" "successors_stored rs"
    and r: "r \<in> set rs" "rt_replaced_by r = None"
    and new: "rt_id n \<notin> rt_id ` set rs" "rt_family_id n = rt_family_id r" "rt_device_id n = rt_device_id r"
      "rt_replaced_by n = None"
    and rs': "set rs' = insert (r\<lparr>rt_replaced_by := Some (rt_id n)\<rparr>) (insert n (set rs - {r}))"
  shows "one_head rs' \<and> one_device rs' \<and> successors_stored rs'"
proof (intro conjI)
  have old: "rt_replaced_by x \<noteq> None" if "x \<in> set rs" "x \<noteq> r" "rt_family_id x = rt_family_id r" for x
    using that r shape(1) unfolding one_head_def by metis
  have none: "x = n \<or> x \<in> set rs \<and> rt_family_id x \<noteq> rt_family_id r" if "x \<in> set rs'" "rt_replaced_by x = None" for x
  proof -
    from that(1) consider "x = r\<lparr>rt_replaced_by := Some (rt_id n)\<rparr>" | "x = n" | "x \<in> set rs" "x \<noteq> r"
      unfolding rs' by blast
    then show ?thesis using that(2) old [of x] by cases auto
  qed
  show "one_head rs'" unfolding one_head_def
  proof (intro ballI impI, elim conjE)
    fix x y assume xy: "x \<in> set rs'" "y \<in> set rs'" "rt_family_id x = rt_family_id y"
      "rt_replaced_by x = None" "rt_replaced_by y = None"
    with none [of x] none [of y] new(2) consider "x = n" "y = n" | "x \<in> set rs" "y \<in> set rs" by auto
    then show "x = y" using xy(3-5) shape(1) unfolding one_head_def by cases metis+
  qed
  have dev: "\<exists>z \<in> set rs. rt_family_id x = rt_family_id z \<and> rt_device_id x = rt_device_id z" if "x \<in> set rs'" for x
  proof -
    from that consider "x = r\<lparr>rt_replaced_by := Some (rt_id n)\<rparr>" | "x = n" | "x \<in> set rs"
      unfolding rs' by blast
    then show ?thesis
    proof cases
      case 1 then show ?thesis by (intro bexI [OF _ r(1)]) simp
    next
      case 2 then show ?thesis using new(2,3) by (intro bexI [OF _ r(1)]) simp
    qed auto
  qed
  show "one_device rs'" unfolding one_device_def
  proof (intro ballI impI)
    fix x y assume "x \<in> set rs'" "y \<in> set rs'" "rt_family_id x = rt_family_id y"
    with dev [of x] dev [of y] shape(2) show "rt_device_id x = rt_device_id y"
      unfolding one_device_def by metis
  qed
  have "rt_id ` set rs' = insert (rt_id n) (rt_id ` set rs)" using r(1) unfolding rs' by force
  then show "successors_stored rs'" using shape(3) new(4) unfolding successors_stored_def by (auto simp: rs')
qed

lemma rotateTx_inv:
  assumes inv: "token_inv db" and fresh: "dr_refreshID d \<noteq> rd_tokenID t"
    and match: "\<And>r. r \<in> set (db_refresh_tokens db) \<Longrightarrow> rt_id r = rd_tokenID t \<Longrightarrow>
       rt_family_id r = rd_familyID t \<and> rt_device_id r = rd_deviceID t"
  shows "token_inv (fst (rotateTx hash dbnow now d db t proposed))"
proof (cases "snd (rotateTx hash dbnow now d db t proposed)")
  case (Inl e)
  then show ?thesis using inv refusalOutcome_inv routeCollision_inv
    by (auto simp: rotateTx_def Let_def split: sum.splits if_splits prod.splits)
next
  case (Inr x)
  then obtain db' where res: "rotateTx hash dbnow now d db t proposed = (db', Inr x)" by (metis prod.collapse)
  let ?rs = "db_refresh_tokens db"
  from rotateTx_Inr [OF res] obtain plain acc n where
    plain: "rt_id n \<notin> rt_id ` set ?rs" "rt_token_hash n \<notin> rt_token_hash ` set ?rs" "rt_id n = dr_refreshID d"
      "rt_family_id n = rd_familyID t" "rt_device_id n = rd_deviceID t" "rt_replaced_by n = None"
    and rows: "db_refresh_tokens db' = update_where (rotatable db now (rd_tokenID t))
       (\<lambda>r. r\<lparr>rt_replaced_by := Some (dr_refreshID d)\<rparr>) (?rs @ [n])"
    and acc: "hash acc \<notin> ac_token_hash ` set (db_access_tokens db)"
      "db_access_tokens db' = db_access_tokens db @
       [\<lparr>ac_id = dr_accessID d, ac_token_hash = hash acc, ac_user_id = rd_userID t, ac_device_id = Some (rd_deviceID t),
         ac_issued_at = dbnow, ac_expires_at = Some (now + AccessTokenLifetime), ac_revoked_at = None\<rparr>]"
    and rest: "db_devices db' = db_devices db" "db_users db' = db_users db"
      "db_enrollment_tokens db' = db_enrollment_tokens db"
    and ex: "\<exists>r \<in> set ?rs. rotatable db now (rd_tokenID t) r"
    using fresh by (metis RefreshT.select_convs)
  from ex obtain r where r: "r \<in> set ?rs" "rotatable db now (rd_tokenID t) r" by blast
  then have r': "rt_replaced_by r = None" "rt_id r = rd_tokenID t" by (auto simp: rotatable_def)
  have dist: "distinct (map rt_id (?rs @ [n]))" "distinct (map rt_token_hash (?rs @ [n]))"
    using inv plain(1,2) by (auto simp: token_inv_def)
  have "set (db_refresh_tokens db') = insert (r\<lparr>rt_replaced_by := Some (rt_id n)\<rparr>) (set (?rs @ [n]) - {r})"
    unfolding rows plain(3)
    by (rule update_where_unique [OF dist(1)]) (use r r'(2) in \<open>auto simp: rotatable_def\<close>)
  moreover have "r \<noteq> n" using plain(1) r(1) by auto
  ultimately have "set (db_refresh_tokens db') = insert (r\<lparr>rt_replaced_by := Some (rt_id n)\<rparr>) (insert n (set ?rs - {r}))"
    by auto
  from rotate_rows [OF _ _ _ _ r(1) r'(1) plain(1) _ _ plain(6) this] inv match [OF r(1) r'(2)] plain(4,5)
  have "one_head (db_refresh_tokens db') \<and> one_device (db_refresh_tokens db') \<and> successors_stored (db_refresh_tokens db')"
    by (auto simp: token_inv_def)
  moreover have "map rt_id (db_refresh_tokens db') = map rt_id (?rs @ [n])"
    "map rt_token_hash (db_refresh_tokens db') = map rt_token_hash (?rs @ [n])"
    by (simp_all add: rows map_update_where)
  ultimately show ?thesis using inv dist acc rest by (auto simp: res token_inv_def access_shape_def)
qed

lemma supersede_rows:
  assumes "liveEnrollment user n" "en_user_id n = user"
    and "one_invitation es"
  shows "one_invitation (update_where (liveEnrollment user) (\<lambda>e. e\<lparr>en_superseded_at := Some t\<rparr>) es @ [n])"
proof -
  have live: "x = n \<or> x \<in> set es \<and> u \<noteq> user"
    if "x \<in> set (update_where (liveEnrollment user) (\<lambda>e. e\<lparr>en_superseded_at := Some t\<rparr>) es @ [n])" "liveEnrollment u x" for x u
    using that by (auto simp: set_update_where liveEnrollment_def)
  show ?thesis unfolding one_invitation_def
  proof (intro ballI allI impI, elim conjE)
    fix x y u
    assume xy: "x \<in> set (update_where (liveEnrollment user) (\<lambda>e. e\<lparr>en_superseded_at := Some t\<rparr>) es @ [n])"
      "y \<in> set (update_where (liveEnrollment user) (\<lambda>e. e\<lparr>en_superseded_at := Some t\<rparr>) es @ [n])"
      "liveEnrollment u x" "liveEnrollment u y"
    with live [of x u] live [of y u] assms(2) consider "x = n" "y = n" | "x \<in> set es" "y \<in> set es"
      by (auto simp: liveEnrollment_def)
    then show "x = y" using xy(3,4) assms(3) unfolding one_invitation_def by cases metis+
  qed
qed

lemma IssueEnrollmentToken_inv:
  assumes "token_inv db"
  shows "token_inv (fst (IssueEnrollmentToken hash dbnow db i user now mint))"
proof (cases "issueEnrollmentTokenTx hash dbnow db i user now mint")
  case (Inl e)
  then show ?thesis using assms by (simp add: IssueEnrollmentToken_def)
next
  case (Inr p)
  let ?rows = "update_where (liveEnrollment user) (\<lambda>e. e\<lparr>en_superseded_at := Some dbnow\<rparr>) (db_enrollment_tokens db)"
  from Inr obtain n where n: "fst p = db\<lparr>db_enrollment_tokens := ?rows @ [n]\<rparr>" "liveEnrollment user n" "en_user_id n = user"
    "en_id n \<notin> en_id ` set ?rows" "en_token_hash n \<notin> en_token_hash ` set ?rows"
    by (auto simp: issueEnrollmentTokenTx_def Let_def liveEnrollment_def split: option.splits if_splits)
  have "distinct (map en_id ?rows)" "distinct (map en_token_hash ?rows)"
    using assms by (simp_all add: token_inv_def map_update_where)
  moreover have "one_invitation (?rows @ [n])"
    using supersede_rows [OF n(2,3)] assms by (simp add: token_inv_def)
  ultimately show ?thesis using n assms Inr
    by (cases p) (simp add: IssueEnrollmentToken_def token_inv_def)
qed

lemma redeemed_rows:
  assumes "one_invitation es" and f: "f = (\<lambda>x. x\<lparr>en_redeemed_at := Some a, en_redeemed_by_device := Some b\<rparr>)"
  shows "one_invitation (update_where P f es)"
proof -
  have "x \<in> set es" if "x \<in> set (update_where P f es)" "liveEnrollment v x" for x v
    using that by (auto simp: set_update_where f liveEnrollment_def)
  then show ?thesis using assms(1) unfolding one_invitation_def by metis
qed

lemma RedeemEnrollment_Inr:
  assumes "RedeemEnrollment hash dbnow now d db presented name = (db', Inr x)"
  obtains e u ref acc where
    "find (\<lambda>e. en_token_hash e = hash presented) (db_enrollment_tokens db) = Some e" "presented \<noteq> ''''"
    "liveEnrollment (us_id u) e" "now < en_expires_at e" "userByID db (en_user_id e) = Some u"
    "us_deactivated_at u = None" "us_kind u = ''person''" "deviceByID db (dr_deviceID d) = None"
    "dr_refresh d = Some ref" "dr_access d = Some acc"
    "dr_refreshID d \<notin> rt_id ` set (db_refresh_tokens db)" "hash ref \<notin> rt_token_hash ` set (db_refresh_tokens db)"
    "hash acc \<notin> ac_token_hash ` set (db_access_tokens db)"
    "db_refresh_tokens db' = db_refresh_tokens db @ [\<lparr>rt_id = dr_refreshID d, rt_device_id = dr_deviceID d,
        rt_token_hash = hash ref, rt_family_id = dr_refreshID d, rt_replaced_by = None, rt_issued_at = dbnow,
        rt_expires_at = now + RefreshTokenLifetime, rt_revoked_at = None\<rparr>]"
    "db_access_tokens db' = db_access_tokens db @
       [\<lparr>ac_id = dr_accessID d, ac_token_hash = hash acc, ac_user_id = us_id u, ac_device_id = Some (dr_deviceID d),
         ac_issued_at = dbnow, ac_expires_at = Some (now + AccessTokenLifetime), ac_revoked_at = None\<rparr>]"
    "db_devices db' = db_devices db @ [\<lparr>dv_id = dr_deviceID d, dv_user_id = us_id u, dv_name = name,
        dv_created_at = dbnow, dv_revoked_at = None\<rparr>]"
    "db_users db' = db_users db"
    "db_enrollment_tokens db' = update_where (\<lambda>x. en_id x = en_id e)
       (\<lambda>x. x\<lparr>en_redeemed_at := Some dbnow, en_redeemed_by_device := Some (dr_deviceID d)\<rparr>) (db_enrollment_tokens db)"
    "er_UserID x = us_id u" "er_DeviceID x = dr_deviceID d" "it_Plaintext (er_Access x) = acc"
    "it_Plaintext (er_Refresh x) = ref"
proof -
  obtain e u where eu: "presented \<noteq> ''''" "find (\<lambda>e. en_token_hash e = hash presented) (db_enrollment_tokens db) = Some e"
    "en_redeemed_at e = None" "en_superseded_at e = None" "now < en_expires_at e" "userByID db (en_user_id e) = Some u"
    "us_deactivated_at u = None" "us_kind u = ''person''" "deviceByID db (dr_deviceID d) = None"
    using assms by (auto simp: RedeemEnrollment_def split: if_splits option.splits)
  define db1 where "db1 = db\<lparr>db_devices := db_devices db @
      [\<lparr>dv_id = dr_deviceID d, dv_user_id = us_id u, dv_name = name, dv_created_at = dbnow, dv_revoked_at = None\<rparr>]\<rparr>"
  obtain db2 r where r: "insertRefreshProposed hash dbnow db1 (dr_refreshID d) (dr_deviceID d) (dr_refreshID d) now '''' (dr_refresh d) = Inr (db2, r)"
    using assms eu by (auto simp: RedeemEnrollment_def db1_def issueRefresh_def Let_def split: if_splits sum.splits)
  obtain db3 a where a: "issueAccess hash dbnow db2 (dr_accessID d) (us_id u) (Some (dr_deviceID d)) now (dr_access d) = Inr (db3, a)"
    and res: "db' = db3\<lparr>db_enrollment_tokens := update_where (\<lambda>x. en_id x = en_id e)
       (\<lambda>x. x\<lparr>en_redeemed_at := Some dbnow, en_redeemed_by_device := Some (dr_deviceID d)\<rparr>) (db_enrollment_tokens db3)\<rparr>"
      "x = \<lparr>er_UserID = us_id u, er_DeviceID = dr_deviceID d, er_Access = a, er_Refresh = r\<rparr>"
    using assms eu r by (auto simp: RedeemEnrollment_def db1_def issueRefresh_def Let_def split: if_splits sum.splits)
  from insertRefreshProposed_Inr [OF r] obtain ref where ref: "dr_refresh d = Some ref" "it_Plaintext r = ref"
    "dr_refreshID d \<notin> rt_id ` set (db_refresh_tokens db1)" "hash ref \<notin> rt_token_hash ` set (db_refresh_tokens db1)"
    "db2 = db1\<lparr>db_refresh_tokens := db_refresh_tokens db1 @ [\<lparr>rt_id = dr_refreshID d, rt_device_id = dr_deviceID d,
        rt_token_hash = hash ref, rt_family_id = dr_refreshID d, rt_replaced_by = None, rt_issued_at = dbnow,
        rt_expires_at = now + RefreshTokenLifetime, rt_revoked_at = None\<rparr>]\<rparr>" by auto
  from issueAccess_Inr [OF a] obtain acc where acc: "dr_access d = Some acc" "it_Plaintext a = acc"
    "hash acc \<notin> ac_token_hash ` set (db_access_tokens db2)"
    "db3 = db2\<lparr>db_access_tokens := db_access_tokens db2 @
      [\<lparr>ac_id = dr_accessID d, ac_token_hash = hash acc, ac_user_id = us_id u, ac_device_id = Some (dr_deviceID d),
        ac_issued_at = dbnow, ac_expires_at = Some (now + AccessTokenLifetime), ac_revoked_at = None\<rparr>]\<rparr>" by auto
  have "us_id u = en_user_id e" using eu(6) by (auto simp: userByID_def dest: find_SomeD)
  with eu have "liveEnrollment (us_id u) e" by (simp add: liveEnrollment_def)
  then show thesis
    by (rule that [OF eu(2,1) _ eu(5-9) ref(1) acc(1)]) (use ref acc in \<open>auto simp: res db1_def\<close>)
qed

lemma new_family_rows:
  assumes "one_head rs" "one_device rs" "successors_stored rs"
    and fr: "\<And>x. x \<in> set rs \<Longrightarrow> rt_family_id x \<noteq> rt_family_id n" and "rt_replaced_by n = None"
  shows "one_head (rs @ [n])" "one_device (rs @ [n])" "successors_stored (rs @ [n])"
proof -
  have split: "x \<in> set rs \<and> y \<in> set rs \<or> x = n \<and> y = n"
    if "x \<in> set (rs @ [n])" "y \<in> set (rs @ [n])" "rt_family_id x = rt_family_id y" for x y
    using that fr [of x] fr [of y] by auto
  show "one_head (rs @ [n])" unfolding one_head_def
  proof (intro ballI impI, elim conjE)
    fix x y assume "x \<in> set (rs @ [n])" "y \<in> set (rs @ [n])" "rt_family_id x = rt_family_id y"
      "rt_replaced_by x = None" "rt_replaced_by y = None"
    then show "x = y" using split [of x y] assms(1) unfolding one_head_def by metis
  qed
  show "one_device (rs @ [n])" unfolding one_device_def
  proof (intro ballI impI)
    fix x y assume "x \<in> set (rs @ [n])" "y \<in> set (rs @ [n])" "rt_family_id x = rt_family_id y"
    then show "rt_device_id x = rt_device_id y" using split [of x y] assms(2) unfolding one_device_def by metis
  qed
  show "successors_stored (rs @ [n])" using assms(3,5) unfolding successors_stored_def by auto
qed

lemma RedeemEnrollment_inv:
  assumes inv: "token_inv db" and fresh: "fresh_family db (dr_refreshID d)"
  shows "token_inv (fst (RedeemEnrollment hash dbnow now d db presented name))"
proof (cases "snd (RedeemEnrollment hash dbnow now d db presented name)")
  case (Inl e)
  then show ?thesis using inv
    by (auto simp: RedeemEnrollment_def Let_def split: sum.splits if_splits prod.splits option.splits)
next
  case (Inr x)
  then obtain db' where res: "RedeemEnrollment hash dbnow now d db presented name = (db', Inr x)" by (metis prod.collapse)
  let ?rs = "db_refresh_tokens db"
  show ?thesis
  proof (rule RedeemEnrollment_Inr [OF res], goal_cases)
    case (1 e u ref acc)
    let ?n = "\<lparr>rt_id = dr_refreshID d, rt_device_id = dr_deviceID d, rt_token_hash = hash ref,
        rt_family_id = dr_refreshID d, rt_replaced_by = None, rt_issued_at = dbnow,
        rt_expires_at = now + RefreshTokenLifetime, rt_revoked_at = None\<rparr>"
    have fr: "rt_family_id x \<noteq> rt_family_id ?n" if "x \<in> set ?rs" for x
      using fresh that by (auto simp: fresh_family_def)
    from inv have shape: "one_head ?rs" "one_device ?rs" "successors_stored ?rs" by (simp_all add: token_inv_def)
    note rows = new_family_rows [OF shape fr]
    have "one_invitation (db_enrollment_tokens db')"
      using inv unfolding 1(18) token_inv_def by (intro redeemed_rows [OF _ refl]) simp
    moreover have "dr_deviceID d \<notin> dv_id ` set (db_devices db)"
      using 1(8) by (auto simp: deviceByID_def find_None_iff)
    ultimately show ?thesis using inv rows 1(11-17)
      by (simp add: res token_inv_def 1(18) map_update_where access_shape_def)
  qed
qed

lemma filter_rows_inv:
  assumes "one_head rs" "one_device rs"
  shows "one_head (filter P rs)" "one_device (filter P rs)"
  using assms unfolding one_head_def one_device_def by auto

lemma sweepRefresh_inv:
  assumes inv: "token_inv db"
  shows "token_inv (fst (sweepRefreshTokensOnce dbnow db))"
proof -
  let ?rs = "db_refresh_tokens db"
  define spent where "spent = set (refreshBatch dbnow ?rs)"
  let ?kept = "filter (\<lambda>r. rt_id r \<notin> spent) ?rs"
  show ?thesis
  proof (cases "\<exists>r \<in> set ?kept. \<exists>x \<in> spent. rt_replaced_by r = Some x")
    case True
    with inv show ?thesis by (simp add: sweepRefreshTokensOnce_def Let_def spent_def)
  next
    case False
    have "successors_stored ?kept" unfolding successors_stored_def
    proof (intro ballI allI impI)
      fix r s assume r: "r \<in> set ?kept" "rt_replaced_by r = Some s"
      from r(1) have "r \<in> set ?rs" by simp
      with inv r(2) have "s \<in> rt_id ` set ?rs" unfolding token_inv_def successors_stored_def by metis
      moreover have "s \<notin> spent" using False r by blast
      ultimately show "s \<in> rt_id ` set ?kept" by auto
    qed
    moreover have "distinct (map rt_id ?kept)" "distinct (map rt_token_hash ?kept)"
      using inv by (simp_all add: token_inv_def distinct_map_filter)
    moreover have "one_head ?kept" "one_device ?kept"
      using inv filter_rows_inv by (auto simp: token_inv_def)
    moreover have "fst (sweepRefreshTokensOnce dbnow db) = db\<lparr>db_refresh_tokens := ?kept\<rparr>"
      using False by (auto simp: sweepRefreshTokensOnce_def Let_def spent_def)
    ultimately show ?thesis using inv by (simp add: token_inv_def)
  qed
qed

lemma revoked_rows:
  "distinct (map dv_id ds) \<Longrightarrow> distinct (map dv_id (update_where P (\<lambda>d. d\<lparr>dv_revoked_at := Some t\<rparr>) ds))"
  "access_shape as \<Longrightarrow> access_shape (update_where Q (\<lambda>a. a\<lparr>ac_revoked_at := Some t\<rparr>) as)"
  by (simp_all add: map_update_where) (auto simp: access_shape_def set_update_where)

lemma revoke_inv:
  assumes "token_inv db"
  shows "token_inv (fst (RevokeDevice dbnow db device))" "token_inv (fst (RevokeOwnDevice dbnow db user device))"
    "token_inv (fst (RevokeBotTokens dbnow db user))"
  using assms
  by (simp_all add: RevokeDevice_def RevokeOwnDevice_def RevokeBotTokens_def publishRevocation_def token_inv_def
      revoked_rows map_update_where Let_def)

lemma IssueBotToken_inv:
  assumes "token_inv db"
  shows "token_inv (fst (IssueBotToken hash dbnow db i user now mint))"
proof -
  have "token_inv db'" if "issueAccess hash dbnow db i user None now mint = Inr (db', t)" for db' t
    using issueAccess_Inr [OF that] assms by (auto simp: token_inv_def access_shape_def)
  with assms show ?thesis by (auto simp: IssueBotToken_def split: option.splits sum.splits)
qed

lemma token_step_inv:
  assumes "token_step hash db db'" "token_inv db"
  shows "token_inv db'"
  using assms
proof (cases rule: token_step.cases)
  case (sweepAccess dbnow)
  with assms(2) show ?thesis
    by (auto simp: sweepAccessTokensOnce_def Let_def token_inv_def distinct_map_filter access_shape_def)
next
  case (rotate d t dbnow now proposed)
  with assms(2) show ?thesis by (auto intro!: rotateTx_inv)
next
  case (users us)
  with assms(2) show ?thesis by (simp add: token_inv_def)
qed (auto intro: IssueEnrollmentToken_inv RedeemEnrollment_inv IssueBotToken_inv sweepRefresh_inv revoke_inv)

lemma token_inv_empty: "token_inv emptyDB"
  by (simp add: token_inv_def emptyDB_def one_head_def one_device_def successors_stored_def
      one_invitation_def access_shape_def)

inductive token_reach :: "(token \<Rightarrow> 'h) \<Rightarrow> 'h DB \<Rightarrow> bool" for hash where
  empty: "token_reach hash emptyDB"
| step: "token_reach hash db \<Longrightarrow> token_step hash db db' \<Longrightarrow> token_reach hash db'"

lemma token_reach_inv: "token_reach hash db \<Longrightarrow> token_inv db"
  by (induction rule: token_reach.induct) (auto intro: token_inv_empty token_step_inv)


text \<open>A database with a person, an invitation, and the device enrolled with it.\<close>

definition ada :: UserT where
  "ada = \<lparr>us_id = ''ada'', us_handle = ''ada'', us_display_name = ''Ada L'', us_kind = ''person'',
     us_email = None, us_created_at = 0, us_deactivated_at = None, us_metadata_log_seq = 0\<rparr>"

definition demoInvited :: "token DB" where
  "demoInvited = fst (IssueEnrollmentToken id 10 (emptyDB\<lparr>db_users := [ada]\<rparr>) ''e1'' ''ada'' 10 (Some ''invite''))"

definition demoDraws :: Draws where
  "demoDraws = \<lparr>dr_deviceID = ''d1'', dr_refreshID = ''f1'', dr_accessID = ''a1'',
     dr_refresh = Some ''r0'', dr_access = Some ''x0''\<rparr>"

definition demoDB :: "token DB" where
  "demoDB = fst (RedeemEnrollment id 20 20 demoDraws demoInvited ''invite'' ''phone'')"

lemma demoDB_eq: "demoDB = \<lparr>db_users = [ada],
   db_devices = [\<lparr>dv_id = ''d1'', dv_user_id = ''ada'', dv_name = ''phone'', dv_created_at = 20, dv_revoked_at = None\<rparr>],
   db_conversations = [], db_members = [], db_messages = [], db_attachments = [], db_uploads = [],
   db_enrollment_tokens = [\<lparr>en_id = ''e1'', en_user_id = ''ada'', en_token_hash = ''invite'',
      en_expires_at = 10 + EnrollmentTokenLifetime, en_redeemed_at = Some 20, en_redeemed_by_device = Some ''d1'',
      en_superseded_at = None\<rparr>],
   db_refresh_tokens = [\<lparr>rt_id = ''f1'', rt_device_id = ''d1'', rt_token_hash = ''r0'', rt_family_id = ''f1'',
      rt_replaced_by = None, rt_issued_at = 20, rt_expires_at = 20 + RefreshTokenLifetime, rt_revoked_at = None\<rparr>],
   db_access_tokens = [\<lparr>ac_id = ''a1'', ac_token_hash = ''x0'', ac_user_id = ''ada'', ac_device_id = Some ''d1'',
      ac_issued_at = 20, ac_expires_at = Some (20 + AccessTokenLifetime), ac_revoked_at = None\<rparr>],
   db_log_counter = 0, db_notify = []\<rparr>"
  by code_simp

lemma demoDB_reach: "token_reach id demoDB"
proof -
  have "token_reach id (emptyDB\<lparr>db_users := [ada]\<rparr>)"
    by (rule token_reach.step [OF token_reach.empty]) (rule token_step.users, simp)
  then have "token_reach id demoInvited"
    unfolding demoInvited_def by (rule token_reach.step) (rule token_step.invite)
  moreover have "fresh_family demoInvited (dr_refreshID demoDraws)" by code_simp
  ultimately show ?thesis unfolding demoDB_def by (metis token_reach.step token_step.redeem)
qed


section \<open>Single use: the echo and the replay\<close>

text \<open>What a rotation leaves behind: the spent row, and the successor that dates it.\<close>

lemma rotated_rows:
  assumes inv: "token_inv db" and fresh: "dr_refreshID d \<noteq> rd_tokenID t"
    and res: "rotateTx hash dbnow now d db t proposed = (db1, Inr x)"
  obtains r s where "refreshByID db1 (rd_tokenID t) = Some r" "rt_replaced_by r = Some (dr_refreshID d)"
    "refreshByID db1 (dr_refreshID d) = Some s" "rt_issued_at s = dbnow" "rt_family_id s = rd_familyID t"
    "\<exists>dv u. deviceByID db1 (rt_device_id r) = Some dv \<and> dv_revoked_at dv = None \<and>
       userByID db1 (dv_user_id dv) = Some u"
proof -
  let ?rs = "db_refresh_tokens db"
  show thesis
  proof (rule rotateTx_Inr [OF res], goal_cases)
    case (1 plain acc)
    let ?n = "\<lparr>rt_id = dr_refreshID d, rt_device_id = rd_deviceID t, rt_token_hash = hash plain,
        rt_family_id = rd_familyID t, rt_replaced_by = None, rt_issued_at = dbnow,
        rt_expires_at = now + RefreshTokenLifetime, rt_revoked_at = None\<rparr>"
    let ?P = "rotatable db now (rd_tokenID t)"
    let ?f = "\<lambda>r. r\<lparr>rt_replaced_by := Some (dr_refreshID d)\<rparr>"
    from 1(13) [OF fresh] obtain r0 where r0: "r0 \<in> set ?rs" "?P r0" by blast
    then have r0': "rt_id r0 = rd_tokenID t" "rt_replaced_by r0 = None" by (auto simp: rotatable_def)
    from inv have d: "distinct (map rt_id ?rs)" by (simp add: token_inv_def)
    have f0: "find (\<lambda>r. rt_id r = rd_tokenID t) ?rs = Some r0"
      using find_unique [OF d r0(1)] r0'(1) by simp
    have "refreshByID db1 (rd_tokenID t) = Some (?f r0)"
      unfolding refreshByID_def 1(7) using r0(2) find_append_some [OF f0] by (simp add: find_update_where)
    moreover have "find (\<lambda>r. rt_id r = dr_refreshID d) ?rs = None" using 1(4) by (force simp: find_None_iff)
    then have "refreshByID db1 (dr_refreshID d) = Some ?n"
      unfolding refreshByID_def 1(7) using fresh by (simp add: find_update_where find_append_none rotatable_def)
    moreover have "\<exists>dv u. deviceByID db1 (rt_device_id (?f r0)) = Some dv \<and> dv_revoked_at dv = None \<and>
       userByID db1 (dv_user_id dv) = Some u"
      using r0(2) 1(9,10) by (auto simp: rotatable_def deviceByID_def userByID_def split: option.splits)
    ultimately show thesis by - (rule that [of "?f r0" ?n], simp_all)
  qed
qed

lemma spent_not_rotatable:
  assumes "token_inv db1" "refreshByID db1 i = Some r" "rt_replaced_by r \<noteq> None" "r' \<in> set (db_refresh_tokens db1)"
  shows "\<not> rotatable db now i r'"
proof
  assume "rotatable db now i r'"
  then have r': "rt_id r' = i" "rt_replaced_by r' = None" by (auto simp: rotatable_def)
  have "distinct (map rt_id (db_refresh_tokens db1))" using assms(1) by (simp add: token_inv_def)
  from find_unique [OF this assms(4)] r' assms(2,3) show False by (simp add: refreshByID_def)
qed

text \<open>
  A second presentation of a token whose row is spent: the refusal, with what the detector
  makes of it.
\<close>

lemma present_spent:
  assumes inv: "token_inv db1" and r: "refreshByID db1 (rd_tokenID t) = Some r" "rt_replaced_by r = Some s"
    and fresh: "dr_refreshID d \<noteq> rd_tokenID t"
    and res: "rotateTx hash dbnow now d db1 t proposed = (db2, x)"
  shows "\<exists>e. x = Inl e \<and> (db2 = db1 \<or> db2 = refusalOutcome dbnow db1 (rd_tokenID t) (rd_familyID t) (rd_deviceID t))"
    and "refreshByID db1 (dr_refreshID d) = None \<Longrightarrow>
         proposed \<noteq> '''' \<or> (\<exists>m. dr_refresh d = Some m \<and> refreshByHash db1 (hash m) = None) \<Longrightarrow>
         \<not> (\<exists>c. refreshByHash db1 (hash proposed) = Some c \<and> rt_id c = s \<and> dbnow - rt_issued_at c < ReuseGraceWindow) \<Longrightarrow>
         x = Inl ErrUnauthorized \<and> db2 = refusalOutcome dbnow db1 (rd_tokenID t) (rd_familyID t) (rd_deviceID t)"
proof -
  have no: "\<not> rotatable db' now (rd_tokenID t) r'"
    if "insertRefreshProposed hash dbnow db1 (dr_refreshID d) (rd_deviceID t) (rd_familyID t) now proposed (dr_refresh d) = Inr (db'', y)"
      "r' \<in> set (db_refresh_tokens db'')" for db' db'' y r'
  proof (cases "r' \<in> set (db_refresh_tokens db1)")
    case True
    with spent_not_rotatable [OF inv r(1)] r(2) show ?thesis by blast
  next
    case False
    with insertRefreshProposed_Inr [OF that(1)] that(2) fresh show ?thesis by (auto simp: rotatable_def)
  qed
  show "\<exists>e. x = Inl e \<and> (db2 = db1 \<or> db2 = refusalOutcome dbnow db1 (rd_tokenID t) (rd_familyID t) (rd_deviceID t))"
    using res no r by (auto simp: rotateTx_def routeCollision_def split: sum.splits if_splits prod.splits option.splits)
  show "x = Inl ErrUnauthorized \<and> db2 = refusalOutcome dbnow db1 (rd_tokenID t) (rd_familyID t) (rd_deviceID t)"
    if "refreshByID db1 (dr_refreshID d) = None"
      "proposed \<noteq> '''' \<or> (\<exists>m. dr_refresh d = Some m \<and> refreshByHash db1 (hash m) = None)"
      "\<not> (\<exists>c. refreshByHash db1 (hash proposed) = Some c \<and> rt_id c = s \<and> dbnow - rt_issued_at c < ReuseGraceWindow)"
  proof (cases "proposed \<noteq> '''' \<and> refreshByHash db1 (hash proposed) \<noteq> None")
    case True
    then have "insertRefreshProposed hash dbnow db1 (dr_refreshID d) (rd_deviceID t) (rd_familyID t) now proposed (dr_refresh d) =
      Inl (PgError ''23505'' ''refresh_tokens_token_hash_key'')" using that(1) by (simp add: insertRefreshProposed_def)
    with True res r that(3) show ?thesis
      by (auto simp: rotateTx_def routeCollision_def isTokenHashCollision_def split: if_splits prod.splits)
  next
    case False
    with that(1,2) obtain db'' y where
      i: "insertRefreshProposed hash dbnow db1 (dr_refreshID d) (rd_deviceID t) (rd_familyID t) now proposed (dr_refresh d) = Inr (db'', y)"
      by (cases "proposed = ''''") (auto simp: insertRefreshProposed_def Let_def)
    with no [OF i] res show ?thesis by (auto simp: rotateTx_def)
  qed
qed

text \<open>
  C32. The echo. Once a refresh token has been rotated, a second presentation of it inside
  the grace window (the other of two requests a waking phone sent, with the stale read it
  made before the first one committed) is refused and changes nothing: one new pair, no
  second successor, nothing revoked.
\<close>

theorem echo_is_refused_and_harmless:
  assumes inv: "token_inv db"
    and first: "rotateTx hash dbnow now d db t proposed = (db1, Inr x)"
    and fresh: "dr_refreshID d \<noteq> rd_tokenID t" "dr_refreshID d' \<noteq> rd_tokenID t"
    and match: "\<And>r. r \<in> set (db_refresh_tokens db) \<Longrightarrow> rt_id r = rd_tokenID t \<Longrightarrow>
       rt_family_id r = rd_familyID t \<and> rt_device_id r = rd_deviceID t"
    and soon: "dbnow' - dbnow < ReuseGraceWindow"
  shows "\<exists>e. rotateTx hash dbnow' now' d' db1 t proposed' = (db1, Inl e)"
proof -
  from rotateTx_inv [OF inv fresh(1) match] first have inv1: "token_inv db1" by (metis fst_conv)
  show ?thesis
  proof (rule rotated_rows [OF inv fresh(1) first], goal_cases)
    case (1 r s)
    then have "refusalOutcome dbnow' db1 (rd_tokenID t) (rd_familyID t) (rd_deviceID t) = db1"
      using soon by (auto simp: refusalOutcome_def spentTokenOutcome_def)
    with present_spent(1) [OF inv1 1(1,2) fresh(2)] show ?case by (metis prod.collapse)
  qed
qed

text \<open>The device and the two tokens of the demonstration database.\<close>

definition demoRead :: ReadToken where
  "demoRead = \<lparr>rd_tokenID = ''f1'', rd_familyID = ''f1'', rd_deviceID = ''d1'', rd_userID = ''ada''\<rparr>"

definition demoDraws2 :: Draws where
  "demoDraws2 = \<lparr>dr_deviceID = '''', dr_refreshID = ''f2'', dr_accessID = ''a2'', dr_refresh = None, dr_access = Some ''x1''\<rparr>"

definition demoDraws3 :: Draws where
  "demoDraws3 = \<lparr>dr_deviceID = '''', dr_refreshID = ''f3'', dr_accessID = ''a3'', dr_refresh = None, dr_access = Some ''x2''\<rparr>"

definition demoRotated :: "token DB" where
  "demoRotated = fst (rotateTx id 30 30 demoDraws2 demoDB demoRead ''r1'')"

lemma demoRead_eq: "rotateRead demoDB ''r0'' = Some demoRead"
  unfolding demoDB_eq by code_simp

lemma demo_rotation: "\<exists>x. rotateTx id 30 30 demoDraws2 demoDB demoRead ''r1'' = (demoRotated, Inr x)"
proof -
  have "\<not> isl (snd (rotateTx id 30 30 demoDraws2 demoDB demoRead ''r1''))" unfolding demoDB_eq by code_simp
  then show ?thesis unfolding demoRotated_def by (metis prod.collapse sum.collapse(2))
qed

lemma demo_match: "r \<in> set (db_refresh_tokens demoDB) \<Longrightarrow> rt_id r = rd_tokenID demoRead \<Longrightarrow>
   rt_family_id r = rd_familyID demoRead \<and> rt_device_id r = rd_deviceID demoRead"
  by (simp add: demoDB_eq demoRead_def)

theorem echo_is_refused_and_harmless_witness:
  "\<exists>e. rotateTx id 31 31 demoDraws3 demoRotated demoRead ''r1'' = (demoRotated, Inl e)"
proof -
  obtain x where x: "rotateTx id 30 30 demoDraws2 demoDB demoRead ''r1'' = (demoRotated, Inr x)"
    using demo_rotation by blast
  show ?thesis
    by (rule echo_is_refused_and_harmless [OF token_reach_inv [OF demoDB_reach] x _ _ demo_match])
      (simp_all add: demoDraws2_def demoDraws3_def demoRead_def ReuseGraceWindow_def second_def)
qed

text \<open>
  C31. The replay. A rotated token presented again outside the grace window, with or
  without a proposal, with the proposal it was rotated into or with another, is refused and
  ends everything the chain bought: every refresh token of the family is revoked, every
  access token of the device is, the device is, and the revocation is published exactly if
  the device was still live.
\<close>

theorem replay_invalidates_the_family:
  assumes inv: "token_inv db"
    and first: "rotateTx hash dbnow now d db t proposed = (db1, Inr x)"
    and fresh: "dr_refreshID d \<noteq> rd_tokenID t" "dr_refreshID d' \<noteq> rd_tokenID t" "refreshByID db1 (dr_refreshID d') = None"
    and match: "\<And>r. r \<in> set (db_refresh_tokens db) \<Longrightarrow> rt_id r = rd_tokenID t \<Longrightarrow>
       rt_family_id r = rd_familyID t \<and> rt_device_id r = rd_deviceID t"
    and draw: "proposed' \<noteq> '''' \<or> (\<exists>m. dr_refresh d' = Some m \<and> refreshByHash db1 (hash m) = None)"
    and late: "dbnow' - dbnow \<ge> ReuseGraceWindow"
  shows "\<exists>db2. rotateTx hash dbnow' now' d' db1 t proposed' = (db2, Inl ErrUnauthorized) \<and>
     (\<forall>r \<in> set (db_refresh_tokens db2). rt_family_id r = rd_familyID t \<longrightarrow> rt_revoked_at r \<noteq> None) \<and>
     (\<forall>a \<in> set (db_access_tokens db2). ac_device_id a = Some (rd_deviceID t) \<longrightarrow> ac_revoked_at a \<noteq> None) \<and>
     (\<forall>dv \<in> set (db_devices db2). dv_id dv = rd_deviceID t \<longrightarrow> dv_revoked_at dv \<noteq> None) \<and>
     db_notify db2 = db_notify db1 @
       (if \<exists>dv \<in> set (db_devices db1). liveDevice (rd_deviceID t) dv then [RevokedDevice (rd_deviceID t)] else [])"
proof -
  from rotateTx_inv [OF inv fresh(1) match] first have inv1: "token_inv db1" by (metis fst_conv)
  show ?thesis
  proof (rule rotated_rows [OF inv fresh(1) first], goal_cases)
    case (1 r s)
    have "\<not> (\<exists>c. refreshByHash db1 (hash proposed') = Some c \<and> rt_id c = dr_refreshID d \<and> dbnow' - rt_issued_at c < ReuseGraceWindow)"
    proof
      assume "\<exists>c. refreshByHash db1 (hash proposed') = Some c \<and> rt_id c = dr_refreshID d \<and> dbnow' - rt_issued_at c < ReuseGraceWindow"
      then obtain c where c: "c \<in> set (db_refresh_tokens db1)" "rt_id c = dr_refreshID d" "dbnow' - rt_issued_at c < ReuseGraceWindow"
        by (auto simp: refreshByHash_def dest: find_SomeD)
      have "distinct (map rt_id (db_refresh_tokens db1))" using inv1 by (simp add: token_inv_def)
      from find_unique [OF this c(1)] c(2) 1(3) have "c = s" by (simp add: refreshByID_def)
      with c(3) 1(4) late show False by simp
    qed
    with present_spent(2) [OF inv1 1(1,2) fresh(2) _ fresh(3) draw]
    have "rotateTx hash dbnow' now' d' db1 t proposed' =
        (refusalOutcome dbnow' db1 (rd_tokenID t) (rd_familyID t) (rd_deviceID t), Inl ErrUnauthorized)"
      by (metis prod.collapse)
    moreover have "refusalOutcome dbnow' db1 (rd_tokenID t) (rd_familyID t) (rd_deviceID t) =
        invalidateFamily dbnow' db1 (rd_familyID t) (rd_deviceID t)"
      using 1(1-4,6) late by (auto simp: refusalOutcome_def spentTokenOutcome_def)
    ultimately show ?case
      by (auto simp: invalidateFamily_def Let_def set_update_where liveDevice_def)
  qed
qed

theorem replay_invalidates_the_family_witness:
  "\<exists>db2. rotateTx id (30 + ReuseGraceWindow) 31 demoDraws3 demoRotated demoRead ''r1'' = (db2, Inl ErrUnauthorized) \<and>
     (\<forall>dv \<in> set (db_devices db2). dv_id dv = ''d1'' \<longrightarrow> dv_revoked_at dv \<noteq> None)"
proof -
  obtain x where x: "rotateTx id 30 30 demoDraws2 demoDB demoRead ''r1'' = (demoRotated, Inr x)"
    using demo_rotation by blast
  have "refreshByID demoRotated (dr_refreshID demoDraws3) = None"
    unfolding demoRotated_def demoDB_eq by code_simp
  from replay_invalidates_the_family [OF token_reach_inv [OF demoDB_reach] x _ _ this demo_match,
      of "''r1''" "30 + ReuseGraceWindow" 31]
  show ?thesis by (auto simp: demoDraws2_def demoDraws3_def demoRead_def)
qed

section \<open>Revocation, deactivation, enrollment\<close>

lemma Authenticate_Inr:
  assumes "Authenticate hash now db presented = Inr c"
  obtains a u where "a \<in> set (db_access_tokens db)" "ac_token_hash a = hash presented" "presented \<noteq> ''''"
    "userByID db (ac_user_id a) = Some u" "us_deactivated_at u = None" "ac_revoked_at a = None"
    "case ac_expires_at a of None \<Rightarrow> True | Some e \<Rightarrow> now < e"
    "\<And>i dv. ac_device_id a = Some i \<Longrightarrow> deviceByID db i = Some dv \<Longrightarrow> dv_revoked_at dv = None"
    "c = \<lparr>ca_UserID = ac_user_id a, ca_DeviceID = (case ac_device_id a of None \<Rightarrow> uuid_Nil | Some i \<Rightarrow> i), ca_Kind = us_kind u\<rparr>"
proof -
  obtain a u where au: "find (\<lambda>a. ac_token_hash a = hash presented) (db_access_tokens db) = Some a"
    "userByID db (ac_user_id a) = Some u" "presented \<noteq> ''''"
    using assms by (auto simp: Authenticate_def split: if_splits option.splits)
  with find_SomeD [OF au(1)] assms show thesis
    by (intro that [of a u]) (auto simp: Authenticate_def Let_def split: if_splits option.splits)
qed

definition device_out :: "(token \<Rightarrow> 'h) \<Rightarrow> 'h DB \<Rightarrow> uuid \<Rightarrow> bool" where
  "device_out hash db device \<longleftrightarrow>
     (\<forall>now presented c. Authenticate hash now db presented = Inr c \<longrightarrow> ca_DeviceID c \<noteq> device) \<and>
     (\<forall>now i r. r \<in> set (db_refresh_tokens db) \<longrightarrow> rt_device_id r = device \<longrightarrow> \<not> rotatable db now i r)"

lemma revoked_device_out:
  assumes "deviceByID db device = Some dv" "dv_revoked_at dv \<noteq> None" "device \<noteq> uuid_Nil"
  shows "device_out hash db device"
proof -
  have "ca_DeviceID c \<noteq> device" if "Authenticate hash now db presented = Inr c" for now presented c
    using that assms by (elim Authenticate_Inr) (auto split: option.splits)
  moreover have "\<not> rotatable db now i r" if "rt_device_id r = device" for now i r
    using that assms by (auto simp: rotatable_def)
  ultimately show ?thesis by (auto simp: device_out_def)
qed

text \<open>
  Revocation is immediate and happens once. After \<open>RevokeDevice\<close> on a stored device no
  access token authenticates as that device, whatever its expiry, and none of its refresh
  tokens can be rotated; the call publishes exactly if it reports a change, and a second
  call changes and publishes nothing.
\<close>

theorem revoked_device_is_out:
  assumes "token_inv db" "dv \<in> set (db_devices db)" "dv_id dv \<noteq> uuid_Nil"
    and "RevokeDevice dbnow db (dv_id dv) = (db', changed)"
  shows "device_out hash db' (dv_id dv) \<and> RevokeDevice dbnow' db' (dv_id dv) = (db', False) \<and>
     db_notify db' = db_notify db @ (if changed then [RevokedDevice (dv_id dv)] else [])"
proof -
  let ?ds = "db_devices db'"
  have ds: "?ds = update_where (liveDevice (dv_id dv)) (\<lambda>d. d\<lparr>dv_revoked_at := Some dbnow\<rparr>) (db_devices db)"
    using assms(4) by (auto simp: RevokeDevice_def publishRevocation_def update_where_none split: if_splits)
  have "distinct (map dv_id (db_devices db))" using assms(1) by (simp add: token_inv_def)
  from find_unique [OF this assms(2)] have "deviceByID db' (dv_id dv) =
      Some (if liveDevice (dv_id dv) dv then dv\<lparr>dv_revoked_at := Some dbnow\<rparr> else dv)"
    by (simp add: deviceByID_def ds find_update_where)
  then have "device_out hash db' (dv_id dv)"
    by (rule revoked_device_out) (use assms(3) in \<open>auto simp: liveDevice_def\<close>)
  moreover have "\<not> liveDevice (dv_id dv) d" if "d \<in> set ?ds" for d
    using that by (auto simp: ds set_update_where liveDevice_def)
  ultimately show ?thesis using assms(4)
    by (auto simp: RevokeDevice_def publishRevocation_def split: if_splits)
qed

theorem revoked_device_is_out_witness:
  "device_out id (fst (RevokeDevice 40 demoDB ''d1'')) ''d1''"
proof -
  have m: "\<lparr>dv_id = ''d1'', dv_user_id = ''ada'', dv_name = ''phone'', dv_created_at = 20, dv_revoked_at = None\<rparr>
      \<in> set (db_devices demoDB)" by (simp add: demoDB_eq)
  obtain db' ch where r: "RevokeDevice 40 demoDB ''d1'' = (db', ch)" by fastforce
  from revoked_device_is_out [OF token_reach_inv [OF demoDB_reach] m, of 40 db' ch id] r
  show ?thesis by (simp add: uuid_Nil_def)
qed

text \<open>
  A disabled account is out: while \<open>deactivated_at\<close> is set, no credential authenticates
  as the account, no refresh token of one of its devices rotates, and no invitation of it
  can be redeemed.
\<close>

theorem disabled_account_is_out:
  assumes "userByID db user = Some u" "us_deactivated_at u \<noteq> None"
  shows "(\<forall>hash now presented c. Authenticate hash now db presented = Inr c \<longrightarrow> ca_UserID c \<noteq> user) \<and>
     (\<forall>now i r dv. deviceByID db (rt_device_id r) = Some dv \<longrightarrow> dv_user_id dv = user \<longrightarrow> \<not> rotatable db now i r) \<and>
     (\<forall>hash dbnow now d presented name db' x. RedeemEnrollment hash dbnow now d db presented name = (db', Inr x) \<longrightarrow> er_UserID x \<noteq> user)"
proof (intro conjI allI impI)
  fix hash now presented c assume "Authenticate hash now db presented = Inr c"
  then show "ca_UserID c \<noteq> user" using assms by (elim Authenticate_Inr) auto
next
  fix now i and r :: "'a RefreshT" and dv
  assume "deviceByID db (rt_device_id r) = Some dv" "dv_user_id dv = user"
  then show "\<not> rotatable db now i r" using assms by (auto simp: rotatable_def)
next
  fix hash dbnow now d presented name db' x assume "RedeemEnrollment hash dbnow now d db presented name = (db', Inr x)"
  then show "er_UserID x \<noteq> user" using assms
    by (elim RedeemEnrollment_Inr) (auto simp: liveEnrollment_def)
qed

theorem disabled_account_is_out_witness:
  "Authenticate id 30 (demoDB\<lparr>db_users := [ada\<lparr>us_deactivated_at := Some 25\<rparr>]\<rparr>) ''x0'' \<noteq>
     Inr \<lparr>ca_UserID = ''ada'', ca_DeviceID = ''d1'', ca_Kind = ''person''\<rparr>"
proof -
  have "userByID (demoDB\<lparr>db_users := [ada\<lparr>us_deactivated_at := Some 25\<rparr>]\<rparr>) ''ada'' = Some (ada\<lparr>us_deactivated_at := Some 25\<rparr>)"
    by (simp add: userByID_def ada_def)
  from disabled_account_is_out [OF this] show ?thesis by fastforce
qed

text \<open>
  C36. An invitation is good for one device. A redemption mints a pair that authenticates as
  the invited person on the new device until it expires, and the same invitation presented
  again, by anyone and with any name, is refused and changes nothing.
\<close>

theorem enrollment_once:
  assumes "token_inv db" and "RedeemEnrollment hash dbnow now d db presented name = (db', Inr x)"
    and "later < now + AccessTokenLifetime" "it_Plaintext (er_Access x) \<noteq> ''''"
  shows "Authenticate hash later db' (it_Plaintext (er_Access x)) =
       Inr \<lparr>ca_UserID = er_UserID x, ca_DeviceID = er_DeviceID x, ca_Kind = ''person''\<rparr> \<and>
     (name' \<noteq> '''' \<and> length name' \<le> MaxDeviceNameBytes \<longrightarrow>
        RedeemEnrollment hash dbnow' now' d' db' presented name' = (db', Inl ErrUnauthorized))"
proof (rule RedeemEnrollment_Inr [OF assms(2)], goal_cases)
  case (1 e u ref acc)
  have ab: "find (\<lambda>a. ac_token_hash a = hash acc) (db_access_tokens db') = Some
      \<lparr>ac_id = dr_accessID d, ac_token_hash = hash acc, ac_user_id = us_id u, ac_device_id = Some (dr_deviceID d),
       ac_issued_at = dbnow, ac_expires_at = Some (now + AccessTokenLifetime), ac_revoked_at = None\<rparr>"
    using 1(13,15) by (subst 1(15), subst find_append_none) (auto simp: find_None_iff image_iff)
  have u: "us_id u = en_user_id e" using 1(5) by (auto simp: userByID_def dest: find_SomeD)
  with 1(5,17) have ub: "userByID db' (us_id u) = Some u" by (simp add: userByID_def)
  have "find (\<lambda>x. dv_id x = dr_deviceID d) (db_devices db) = None" using 1(8) by (simp add: deviceByID_def)
  then have db: "deviceByID db' (dr_deviceID d) = Some \<lparr>dv_id = dr_deviceID d, dv_user_id = us_id u, dv_name = name,
      dv_created_at = dbnow, dv_revoked_at = None\<rparr>"
    by (simp add: deviceByID_def 1(16) find_append_none)
  have auth: "Authenticate hash later db' acc = Inr \<lparr>ca_UserID = us_id u, ca_DeviceID = dr_deviceID d, ca_Kind = ''person''\<rparr>"
    using ab ub db 1(6,7,21) assms(3,4) by (simp add: Authenticate_def Let_def)
  have "distinct (map en_id (db_enrollment_tokens db))" using assms(1) by (simp add: token_inv_def)
  have "find (\<lambda>e. en_token_hash e = hash presented) (db_enrollment_tokens db') =
      Some (e\<lparr>en_redeemed_at := Some dbnow, en_redeemed_by_device := Some (dr_deviceID d)\<rparr>)"
    using 1(1) by (simp add: 1(18) find_update_where)
  then have "name' \<noteq> '''' \<and> length name' \<le> MaxDeviceNameBytes \<longrightarrow>
      RedeemEnrollment hash dbnow' now' d' db' presented name' = (db', Inl ErrUnauthorized)"
    using 1(2) by (simp add: RedeemEnrollment_def)
  with auth 1(19-21) show ?case by simp
qed

theorem enrollment_once_witness:
  "Authenticate id 30 demoDB ''x0'' = Inr \<lparr>ca_UserID = ''ada'', ca_DeviceID = ''d1'', ca_Kind = ''person''\<rparr> \<and>
   RedeemEnrollment id 50 50 demoDraws3 demoDB ''invite'' ''tablet'' = (demoDB, Inl ErrUnauthorized)"
proof -
  have inv: "token_inv demoInvited"
    unfolding demoInvited_def by (rule IssueEnrollmentToken_inv) (simp add: token_inv_def emptyDB_def
      one_head_def one_device_def successors_stored_def one_invitation_def access_shape_def)
  let ?r = "RedeemEnrollment id 20 20 demoDraws demoInvited ''invite'' ''phone''"
  have r: "?r = (demoDB, Inr \<lparr>er_UserID = ''ada'', er_DeviceID = ''d1'',
      er_Access = \<lparr>it_Plaintext = ''x0'', it_ExpiresAt = 20 + AccessTokenLifetime\<rparr>,
      er_Refresh = \<lparr>it_Plaintext = ''r0'', it_ExpiresAt = 20 + RefreshTokenLifetime\<rparr>\<rparr>)"
    unfolding demoDB_eq by code_simp
  from enrollment_once [OF inv r, of 30 "''tablet''" 50 50 demoDraws3] show ?thesis
    by (simp add: AccessTokenLifetime_def minute_def second_def MaxDeviceNameBytes_def)
qed

end
