(* ===== verification/Credential_System.thy ===== *)
theory Credential_System
  imports Client_Refresh Store_Tokens_Props
begin

text \<open>
  The client and the server together: \<open>internal/api/router.go\<close>'s refresh handler over the
  store, a network that may lose a request, lose a response or meet a failing server, and
  the client's refresh in front of it. The server model is shown to be a \<open>refresh_service\<close>,
  so that what the walk over the chain promises holds of the real pair.
\<close>

section \<open>The refresh handler\<close>

definition validToken :: "token \<Rightarrow> bool" where
  "validToken s \<longleftrightarrow> length s = 43 \<and>
     list_all (\<lambda>c. c \<in> set ''ABCDEFGHIJKLMNOPQRSTUVWXYZabcdefghijklmnopqrstuvwxyz0123456789_-'') s"

definition wire_time :: "gotime \<Rightarrow> gotime" where
  "wire_time t = t - t mod 1000000"

definition refreshAnswer :: "gotime \<Rightarrow> store_error + Rotated \<Rightarrow> http_response" where
  "refreshAnswer now r =
     (let base = \<lparr>hr_status = 500, hr_code = Some ErrorCodeInternal, hr_retry = None, hr_retryAfter = None,
           hr_date = Some (now - now mod second), hr_body = None\<rparr>
      in case r of
           Inl ErrRefreshRetryFreshProposal \<Rightarrow>
             base\<lparr>hr_status := 503, hr_code := None, hr_retry := Some ''fresh_proposal'', hr_retryAfter := Some 1\<rparr>
         | Inl ErrRefreshRetryPresentProposal \<Rightarrow>
             base\<lparr>hr_status := 503, hr_code := None, hr_retry := Some ''present_proposal''\<rparr>
         | Inl ErrUnauthorized \<Rightarrow> base\<lparr>hr_status := 401, hr_code := Some ''unauthorized''\<rparr>
         | Inl _ \<Rightarrow> base
         | Inr x \<Rightarrow> base\<lparr>hr_status := 200, hr_code := None, hr_body := Some
               \<lparr>rb_AccessToken = it_Plaintext (er_Access x), rb_AccessExpiresAt = Some (wire_time (it_ExpiresAt (er_Access x))),
                rb_RefreshToken = it_Plaintext (er_Refresh x),
                rb_RefreshExpiresAt = Some (wire_time (it_ExpiresAt (er_Refresh x)))\<rparr>\<rparr>)"

definition refreshHandler ::
  "(token \<Rightarrow> 'h) \<Rightarrow> gotime \<Rightarrow> gotime \<Rightarrow> Draws \<Rightarrow> 'h DB \<Rightarrow> token \<Rightarrow> token option \<Rightarrow> 'h DB \<times> http_response" where
  "refreshHandler hash dbnow now d db tok proposed =
     (if \<not> validToken tok \<or> (case proposed of None \<Rightarrow> False | Some p \<Rightarrow> \<not> validToken p)
      then (db, \<lparr>hr_status = 400, hr_code = None, hr_retry = None, hr_retryAfter = None,
                 hr_date = Some (now - now mod second), hr_body = None\<rparr>)
      else case RotateRefreshProposing hash dbnow now d db tok (case proposed of None \<Rightarrow> '''' | Some p \<Rightarrow> p) of
             (db', r) \<Rightarrow> (db', refreshAnswer now r))"

section \<open>The network\<close>

text \<open>
  What happens to one request: it is delivered and answered, lost on the way, met by a
  server that fails before it commits, or answered into a connection that is gone. A
  request carries the moments of both clocks and what the server draws for it. \<open>n_used\<close>
  is every token drawn so far, \<open>n_rand\<close> what the device's random source will give, \<open>None\<close>
  a draw that fails.
\<close>

datatype fate = Delivered | RequestLost | ServerFails | ResponseLost

record Req =
  rq_fate :: fate
  rq_dbnow :: gotime
  rq_now :: gotime
  rq_draws :: Draws

record 'h Net =
  n_db :: "'h DB"
  n_hash :: "token \<Rightarrow> 'h"
  n_family :: uuid
  n_device :: uuid
  n_used :: "token list"
  n_rand :: "(token \<times> gotime) option list"
  n_script :: "Req list"
  n_clock :: gotime

definition serverDown :: "gotime \<Rightarrow> http_response" where
  "serverDown now = \<lparr>hr_status = 500, hr_code = Some ErrorCodeInternal, hr_retry = None, hr_retryAfter = None,
     hr_date = Some (now - now mod second), hr_body = None\<rparr>"

definition netPost :: "'h Net \<Rightarrow> token \<Rightarrow> token \<Rightarrow> 'h Net \<times> http_response option" where
  "netPost w tok p =
     (case n_script w of
        [] \<Rightarrow> (w, None)
      | q # qs \<Rightarrow>
          let w1 = w\<lparr>n_script := qs\<rparr>;
              served = refreshHandler (n_hash w) (rq_dbnow q) (rq_now q) (rq_draws q) (n_db w) tok (Some p)
          in case rq_fate q of
               RequestLost \<Rightarrow> (w1, None)
             | ServerFails \<Rightarrow> (w1, Some (serverDown (rq_now q)))
             | Delivered \<Rightarrow> (w1\<lparr>n_db := fst served\<rparr>, Some (snd served))
             | ResponseLost \<Rightarrow> (w1\<lparr>n_db := fst served\<rparr>, None))"

definition netMint :: "'h Net \<Rightarrow> 'h Net \<times> (token \<times> gotime) option" where
  "netMint w =
     (case n_rand w of
        [] \<Rightarrow> (w, None)
      | None # rs \<Rightarrow> (w\<lparr>n_rand := rs\<rparr>, None)
      | Some (p, t) # rs \<Rightarrow> (w\<lparr>n_rand := rs, n_used := n_used w @ [p]\<rparr>, Some (p, t)))"

definition lossyNetwork :: "'h Net World" where
  "lossyNetwork = \<lparr>w_post = netPost, w_mint = netMint, w_now = n_clock,
     w_wait = (\<lambda>w d. (w\<lparr>n_clock := n_clock w + d\<rparr>, True))\<rparr>"

section \<open>What the deployment keeps true\<close>

definition futureTokens :: "'h Net \<Rightarrow> token list" where
  "futureTokens w = map fst (List.map_filter id (n_rand w))"

definition isHead :: "'h Net \<Rightarrow> token \<Rightarrow> bool" where
  "isHead w t \<longleftrightarrow> (case refreshByHash (n_db w) (n_hash w t) of
     None \<Rightarrow> False | Some r \<Rightarrow> rt_family_id r = n_family w \<and> rt_replaced_by r = None)"

definition netHead :: "'h Net \<Rightarrow> token" where
  "netHead w = hd (filter (isHead w) (n_used w) @ [''''])"

definition netKnown :: "'h Net \<Rightarrow> token set" where
  "netKnown w = {t \<in> set (n_used w). refreshByHash (n_db w) (n_hash w t) \<noteq> None}"

text \<open>
  The family's live row: unrevoked, on a live device of an active account, and not
  expired at any moment a request will arrive.
\<close>

definition liveHead :: "'h Net \<Rightarrow> token \<Rightarrow> bool" where
  "liveHead w t \<longleftrightarrow> (\<exists>r dv u. refreshByHash (n_db w) (n_hash w t) = Some r \<and> rt_family_id r = n_family w \<and>
     rt_replaced_by r = None \<and> rt_revoked_at r = None \<and> rt_device_id r = n_device w \<and>
     (\<forall>q \<in> set (n_script w). rq_now q < rt_expires_at r) \<and>
     deviceByID (n_db w) (n_device w) = Some dv \<and> dv_revoked_at dv = None \<and>
     userByID (n_db w) (dv_user_id dv) = Some u \<and> us_deactivated_at u = None)"

definition tokensOK :: "'h Net \<Rightarrow> bool" where
  "tokensOK w \<longleftrightarrow> distinct (n_used w @ futureTokens w) \<and> list_all validToken (n_used w @ futureTokens w) \<and>
     inj_on (n_hash w) (set (n_used w @ futureTokens w)) \<and>
     rt_token_hash ` set (db_refresh_tokens (n_db w)) \<subseteq> n_hash w ` set (n_used w)"

definition scriptOK :: "'h Net \<Rightarrow> bool" where
  "scriptOK w \<longleftrightarrow> distinct (map (dr_refreshID \<circ> rq_draws) (n_script w)) \<and>
     (\<forall>q \<in> set (n_script w). dr_refreshID (rq_draws q) \<notin> rt_id ` set (db_refresh_tokens (n_db w)) \<and>
        dr_access (rq_draws q) \<noteq> Some '''') \<and>
     (\<forall>q \<in> set (n_script w). \<forall>q' \<in> set (n_script w). rq_now q' < rq_now q + RefreshTokenLifetime)"

definition netGood :: "'h Net \<Rightarrow> bool" where
  "netGood w \<longleftrightarrow> token_inv (n_db w) \<and> tokensOK w \<and> scriptOK w \<and> (\<exists>t \<in> set (n_used w). liveHead w t)"

section \<open>The server is a refresh service\<close>

lemma validToken_nonempty: "validToken t \<Longrightarrow> t \<noteq> ''''"
  by (auto simp: validToken_def)

lemma refreshByHash_in:
  "refreshByHash db h = Some r \<Longrightarrow> r \<in> set (db_refresh_tokens db) \<and> rt_token_hash r = h"
  by (auto simp: refreshByHash_def dest: find_SomeD)

lemma liveHead_unique:
  assumes "netGood w" "t \<in> set (n_used w)" "liveHead w t" "t' \<in> set (n_used w)" "isHead w t'"
  shows "t' = t"
proof -
  from assms(3) obtain r where r: "refreshByHash (n_db w) (n_hash w t) = Some r" "rt_family_id r = n_family w"
    "rt_replaced_by r = None" by (auto simp: liveHead_def)
  from assms(5) obtain r' where r': "refreshByHash (n_db w) (n_hash w t') = Some r'" "rt_family_id r' = n_family w"
    "rt_replaced_by r' = None" by (auto simp: isHead_def split: option.splits)
  have "one_head (db_refresh_tokens (n_db w))" using assms(1) by (simp add: netGood_def token_inv_def)
  moreover have "r \<in> set (db_refresh_tokens (n_db w))" "r' \<in> set (db_refresh_tokens (n_db w))"
    using refreshByHash_in [OF r(1)] refreshByHash_in [OF r'(1)] by simp_all
  ultimately have "r = r'" using r(2,3) r'(2,3) unfolding one_head_def by simp
  with refreshByHash_in [OF r(1)] refreshByHash_in [OF r'(1)] have "n_hash w t = n_hash w t'" by simp
  moreover have "inj_on (n_hash w) (set (n_used w))"
    using assms(1) by (auto simp: netGood_def tokensOK_def intro: inj_on_subset)
  ultimately show ?thesis using assms(2,4) by (auto dest: inj_onD)
qed

lemma netHead_eq:
  assumes "netGood w" "t \<in> set (n_used w)" "liveHead w t"
  shows "netHead w = t"
proof -
  have "isHead w t" using assms(3) by (auto simp: isHead_def liveHead_def)
  with assms(2) have "filter (isHead w) (n_used w) \<noteq> []" by (auto simp: filter_empty_conv)
  then have "netHead w \<in> set (filter (isHead w) (n_used w))"
    using hd_in_set [of "filter (isHead w) (n_used w)"] by (simp only: netHead_def hd_append if_False simp_thms)
  with liveHead_unique [OF assms] show ?thesis by simp
qed

lemma netHead_live:
  assumes "netGood w"
  shows "netHead w \<in> set (n_used w) \<and> liveHead w (netHead w)"
  using assms netHead_eq by (auto simp: netGood_def)

lemma refreshHandler_unknown:
  assumes "refreshByHash db (hash tok) = None" "p \<noteq> tok"
  shows "fst (refreshHandler hash dbnow now d db tok (Some p)) = db \<and>
     (let h = snd (refreshHandler hash dbnow now d db tok (Some p)) in failedAnswer (Some h) \<or> catenary401 h)"
proof (cases "validToken tok \<and> validToken p")
  case True
  then show ?thesis using assms validToken_nonempty
    by (auto simp: refreshHandler_def RotateRefreshProposing_def rotateRead_def refreshAnswer_def Let_def
        catenary401_def isCatenaryUnauthorized_def)
next
  case False
  then show ?thesis
    by (auto simp: refreshHandler_def Let_def failedAnswer_def postRefresh_def isCatenaryUnauthorized_def)
qed

text \<open>What a script still to come may lose: a request that was served.\<close>

lemma scriptOK_tail:
  assumes "scriptOK w" "n_script w = q # qs"
  shows "scriptOK (w\<lparr>n_script := qs\<rparr>)"
  using assms unfolding scriptOK_def by auto

lemma tokensOK_script [simp]: "tokensOK (w\<lparr>n_script := qs\<rparr>) = tokensOK w"
  by (simp add: tokensOK_def futureTokens_def)

lemma isHead_script [simp]: "isHead (w\<lparr>n_script := qs\<rparr>) = isHead w"
  by (intro ext) (simp add: isHead_def split: option.split)

lemma net_views_script [simp]:
  "netHead (w\<lparr>n_script := qs\<rparr>) = netHead w" "netKnown (w\<lparr>n_script := qs\<rparr>) = netKnown w"
  by (simp_all add: netHead_def netKnown_def)

lemma liveHead_tail: "liveHead w t \<Longrightarrow> n_script w = q # qs \<Longrightarrow> liveHead (w\<lparr>n_script := qs\<rparr>) t"
  unfolding liveHead_def by auto

lemma netGood_tail: "netGood w \<Longrightarrow> n_script w = q # qs \<Longrightarrow> netGood (w\<lparr>n_script := qs\<rparr>)"
  using scriptOK_tail liveHead_tail by (fastforce simp: netGood_def)

lemma n_db_id [simp]: "w\<lparr>n_script := qs, n_db := n_db w\<rparr> = w\<lparr>n_script := qs\<rparr>"
  by simp

lemma netPost_unknown:
  assumes "netGood w" "t \<notin> netKnown w" "t \<in> set (n_used w)" "p \<noteq> t" "netPost w t p = (w', r)"
  shows "netGood w' \<and> netHead w' = netHead w \<and> netKnown w' = netKnown w \<and> set (n_used w') = set (n_used w) \<and>
     (failedAnswer r \<or> (\<exists>h. r = Some h \<and> catenary401 h))"
proof (cases "n_script w")
  case Nil
  with assms show ?thesis by (simp add: netPost_def)
next
  case (Cons q qs)
  have "refreshByHash (n_db w) (n_hash w t) = None" using assms(2,3) by (simp add: netKnown_def)
  note u = refreshHandler_unknown [of "n_db w" "n_hash w" t p "rq_dbnow q" "rq_now q" "rq_draws q", OF this assms(4)]
  have "failedAnswer (Some (serverDown (rq_now q)))" by (rule failedAnswer_500) (simp add: serverDown_def)
  with assms(5) u Cons have "w' = w\<lparr>n_script := qs\<rparr>" "failedAnswer r \<or> (\<exists>h. r = Some h \<and> catenary401 h)"
    by (auto simp: netPost_def Let_def split: fate.splits)
  with netGood_tail [OF assms(1) Cons] show ?thesis by simp
qed

lemma refreshByHash_None: "refreshByHash db h = None \<longleftrightarrow> h \<notin> rt_token_hash ` set (db_refresh_tokens db)"
  by (auto simp: refreshByHash_def find_None_iff)

lemma refreshByID_None: "refreshByID db i = None \<longleftrightarrow> i \<notin> rt_id ` set (db_refresh_tokens db)"
  by (auto simp: refreshByID_def find_None_iff)

lemma scriptOK_cong: "n_script w' = n_script w \<Longrightarrow> n_db w' = n_db w \<Longrightarrow> scriptOK w' = scriptOK w"
  by (simp add: scriptOK_def)

lemma netKnown_eq:
  "netKnown w = {t \<in> set (n_used w). n_hash w t \<in> rt_token_hash ` set (db_refresh_tokens (n_db w))}"
  unfolding netKnown_def refreshByHash_None by simp

text \<open>A live head presented with an unknown proposal either rotates or meets a failing draw.\<close>

lemma rotate_live:
  assumes r: "refreshByHash db (hash t) = Some r" "rt_replaced_by r = None" "rt_revoked_at r = None" "now < rt_expires_at r"
    and dv: "deviceByID db (rt_device_id r) = Some dv" "dv_revoked_at dv = None"
    and u: "userByID db (dv_user_id dv) = Some u" "us_deactivated_at u = None"
    and p: "p \<noteq> ''''" "p \<noteq> t" "t \<noteq> ''''" "refreshByHash db (hash p) = None" "refreshByID db (dr_refreshID d) = None"
  defines "rd \<equiv> \<lparr>rd_tokenID = rt_id r, rd_familyID = rt_family_id r, rd_deviceID = rt_device_id r, rd_userID = dv_user_id dv\<rparr>"
  shows "RotateRefreshProposing hash dbnow now d db t p = rotateTx hash dbnow now d db rd p \<and>
    ((\<exists>e. rotateTx hash dbnow now d db rd p = (db, Inl e) \<and> failedAnswer (Some (refreshAnswer now (Inl e)))) \<or>
     (\<exists>db' x. rotateTx hash dbnow now d db rd p = (db', Inr x)))"
proof
  have "rotateRead db (hash t) = Some rd" using r(1) dv(1) by (simp add: rotateRead_def rd_def)
  then show "RotateRefreshProposing hash dbnow now d db t p = rotateTx hash dbnow now d db rd p"
    using p(1-3) by (simp add: RotateRefreshProposing_def)
  obtain db1 y where i: "insertRefreshProposed hash dbnow db (dr_refreshID d) (rd_deviceID rd) (rd_familyID rd) now p (dr_refresh d) = Inr (db1, y)"
    using p(1,4,5) by (auto simp: insertRefreshProposed_def Let_def)
  from insertRefreshProposed_Inr [OF i] obtain n where n: "db1 = db\<lparr>db_refresh_tokens := db_refresh_tokens db @ [n]\<rparr>" by auto
  have "r \<in> set (db_refresh_tokens db1)" using refreshByHash_in [OF r(1)] by (simp add: n)
  moreover have "rotatable db1 now (rd_tokenID rd) r"
    using r(2-4) dv u by (simp add: rotatable_def rd_def n deviceByID_def userByID_def)
  ultimately have ex: "\<exists>r \<in> set (db_refresh_tokens db1). rotatable db1 now (rd_tokenID rd) r" by blast
  have err: "failedAnswer (Some (refreshAnswer now (Inl e)))"
    if "issueAccess hash dbnow db2 i us dv' now m = Inl e" for db2 i us dv' m e
    using that by (intro failedAnswer_500) (auto simp: issueAccess_def refreshAnswer_def Let_def split: option.splits if_splits)
  show "(\<exists>e. rotateTx hash dbnow now d db rd p = (db, Inl e) \<and> failedAnswer (Some (refreshAnswer now (Inl e)))) \<or>
     (\<exists>db' x. rotateTx hash dbnow now d db rd p = (db', Inr x))"
    using i ex err by (auto simp: rotateTx_def Let_def split: sum.splits)
qed

lemma rotated_net:
  assumes good: "netGood w" and sc: "n_script w = q # qs" and p: "p \<notin> netKnown w" "p \<in> set (n_used w)"
    and r: "refreshByHash (n_db w) (n_hash w t) = Some r" "rt_family_id r = n_family w" "rt_device_id r = n_device w"
    and dv: "deviceByID (n_db w) (n_device w) = Some dv" "dv_revoked_at dv = None"
      "userByID (n_db w) (dv_user_id dv) = Some u" "us_deactivated_at u = None"
    and res: "rotateTx (n_hash w) dbnow (rq_now q) (rq_draws q) (n_db w)
        \<lparr>rd_tokenID = rt_id r, rd_familyID = rt_family_id r, rd_deviceID = rt_device_id r, rd_userID = usr\<rparr> p = (db', Inr x)"
  defines "w' \<equiv> w\<lparr>n_script := qs, n_db := db'\<rparr>"
  shows "netGood w' \<and> netHead w' = p \<and> netKnown w' = insert p (netKnown w)"
proof (rule rotateTx_Inr [OF res], goal_cases)
  case (1 plain acc)
  let ?rs = "db_refresh_tokens (n_db w)" and ?i = "dr_refreshID (rq_draws q)"
  from good have inv: "token_inv (n_db w)" and tok: "tokensOK w" and scr: "scriptOK w"
    by (simp_all add: netGood_def)
  have "validToken p" using tok p(2) by (auto simp: tokensOK_def list_all_iff)
  then have pl: "plain = p" using 1(1) validToken_nonempty by blast
  have rin: "r \<in> set ?rs" using refreshByHash_in [OF r(1)] by simp
  then have fresh: "?i \<noteq> rt_id r" using 1(4) by auto
  have hs: "map rt_token_hash (db_refresh_tokens db') = map rt_token_hash ?rs @ [n_hash w p]"
    "map rt_id (db_refresh_tokens db') = map rt_id ?rs @ [?i]"
    using 1(7) pl by (simp_all add: map_update_where)
  then have hset: "rt_token_hash ` set (db_refresh_tokens db') = insert (n_hash w p) (rt_token_hash ` set ?rs)"
    "rt_id ` set (db_refresh_tokens db') = insert ?i (rt_id ` set ?rs)"
    by (metis (no_types, opaque_lifting) Un_insert_right list.set(1) list.set(2) list.set_map set_append sup_bot.right_neutral)+
  have inv': "token_inv db'"
  proof -
    have "distinct (map rt_id ?rs)" using inv by (simp add: token_inv_def)
    then have "y = r" if "y \<in> set ?rs" "rt_id y = rt_id r" for y
      using that rin by (auto simp: distinct_map dest: inj_onD)
    with rotateTx_inv [OF inv, of "rq_draws q"] res fresh show ?thesis by (metis (no_types, lifting) ReadToken.select_convs fst_conv)
  qed
  have "tokensOK w'"
    using tok p(2) hset(1) by (auto simp: tokensOK_def w'_def futureTokens_def)
  moreover have "dr_refreshID (rq_draws q') \<noteq> ?i" if "q' \<in> set qs" for q'
  proof -
    have "?i \<notin> (dr_refreshID \<circ> rq_draws) ` set qs" using scr sc by (simp add: scriptOK_def)
    then show ?thesis using imageI [OF that, of "dr_refreshID \<circ> rq_draws"] by auto
  qed
  then have "scriptOK w'" using scr sc hset(2) by (simp add: scriptOK_def w'_def)
  moreover have "liveHead w' p"
  proof -
    let ?n = "\<lparr>rt_id = ?i, rt_device_id = rt_device_id r, rt_token_hash = n_hash w plain, rt_family_id = rt_family_id r,
        rt_replaced_by = None, rt_issued_at = dbnow, rt_expires_at = rq_now q + RefreshTokenLifetime, rt_revoked_at = None\<rparr>"
    have "find (\<lambda>r. rt_token_hash r = n_hash w p) ?rs = None"
      using p by (auto simp: netKnown_def refreshByHash_def)
    then have "refreshByHash db' (n_hash w p) = Some ?n"
      unfolding refreshByHash_def 1(7) using fresh pl
      by (simp add: find_update_where find_append_none rotatable_def)
    moreover have "\<forall>q' \<in> set qs. rq_now q' < rq_now q + RefreshTokenLifetime"
      using scr sc by (auto simp: scriptOK_def)
    ultimately show ?thesis using r(2,3) dv 1(9,10)
      by (simp add: liveHead_def w'_def deviceByID_def userByID_def)
  qed
  ultimately have g: "netGood w'" using inv' p(2) by (auto simp: netGood_def w'_def)
  moreover have "netHead w' = p" using netHead_eq [OF g _ \<open>liveHead w' p\<close>] p(2) by (simp add: w'_def)
  moreover have "netKnown w' = insert p (netKnown w)"
  proof -
    have "inj_on (n_hash w) (set (n_used w))" using tok by (auto simp: tokensOK_def intro: inj_on_subset)
    then have "n_hash w y = n_hash w p \<longleftrightarrow> y = p" if "y \<in> set (n_used w)" for y
      using p(2) that by (auto dest: inj_onD)
    then show ?thesis unfolding netKnown_eq using p(2) hset(1) by (auto simp: w'_def)
  qed
  ultimately show ?case by blast
qed

lemma refreshAnswer_rotated:
  "it_Plaintext (er_Refresh x) = p \<Longrightarrow> it_Plaintext (er_Access x) \<noteq> '''' \<Longrightarrow> rotatedInto (refreshAnswer now (Inr x)) p"
  by (simp add: rotatedInto_def refreshAnswer_def)

lemma netPost_head:
  assumes good: "netGood w" and p: "p \<notin> netKnown w" "p \<in> set (n_used w)"
    and post: "netPost w (netHead w) p = (w', r)"
  shows "netGood w' \<and> set (n_used w') = set (n_used w) \<and>
     ((netHead w' = netHead w \<and> netKnown w' = netKnown w \<and> failedAnswer r) \<or>
      (netHead w' = p \<and> netKnown w' = insert p (netKnown w) \<and> (failedAnswer r \<or> (\<exists>h. r = Some h \<and> rotatedInto h p))))"
proof (cases "n_script w")
  case Nil
  with assms show ?thesis by (simp add: netPost_def)
next
  case (Cons q qs)
  let ?t = "netHead w" and ?d = "rq_draws q"
  from netHead_live [OF good] obtain row dv u where row: "refreshByHash (n_db w) (n_hash w ?t) = Some row"
      "rt_family_id row = n_family w" "rt_device_id row = n_device w"
      "rt_replaced_by row = None" "rt_revoked_at row = None" "rq_now q < rt_expires_at row" "?t \<in> set (n_used w)"
    and dv: "deviceByID (n_db w) (n_device w) = Some dv" "dv_revoked_at dv = None"
      "userByID (n_db w) (dv_user_id dv) = Some u" "us_deactivated_at u = None"
    using Cons by (auto simp: liveHead_def)
  have tk: "tokensOK w" "scriptOK w" using good by (simp_all add: netGood_def)
  then have v: "validToken p" "validToken ?t" using p(2) row(7) by (auto simp: tokensOK_def list_all_iff)
  have np: "refreshByHash (n_db w) (n_hash w p) = None" using p by (simp add: netKnown_def)
  then have "p \<noteq> ?t" using row(1) by auto
  have "refreshByID (n_db w) (dr_refreshID ?d) = None"
    using tk(2) Cons by (simp add: scriptOK_def refreshByID_None)
  note rl = rotate_live [where hash = "n_hash w" and db = "n_db w" and t = ?t and p = p and d = ?d and dbnow = "rq_dbnow q",
      OF row(1,4,5,6) dv [folded row(3)] validToken_nonempty [OF v(1)] \<open>p \<noteq> ?t\<close> validToken_nonempty [OF v(2)] np this]
  let ?h = "refreshHandler (n_hash w) (rq_dbnow q) (rq_now q) ?d (n_db w) ?t (Some p)"
  have sf: "failedAnswer (Some (serverDown (rq_now q)))" by (rule failedAnswer_500) (simp add: serverDown_def)
  have kept: ?thesis if "w' = w\<lparr>n_script := qs\<rparr>" "failedAnswer r"
    using that netGood_tail [OF good Cons] by simp
  show ?thesis
  proof (cases "rq_fate q \<in> {RequestLost, ServerFails}")
    case True
    with post Cons sf show ?thesis by (intro kept) (auto simp: netPost_def Let_def)
  next
    case False
    from rl consider (fails) e where "?h = (n_db w, refreshAnswer (rq_now q) (Inl e))"
        "failedAnswer (Some (refreshAnswer (rq_now q) (Inl e)))"
      | (rotates) db' x where "?h = (db', refreshAnswer (rq_now q) (Inr x))"
        "rotateTx (n_hash w) (rq_dbnow q) (rq_now q) ?d (n_db w) \<lparr>rd_tokenID = rt_id row, rd_familyID = rt_family_id row,
           rd_deviceID = rt_device_id row, rd_userID = dv_user_id dv\<rparr> p = (db', Inr x)"
      using v by (auto simp: refreshHandler_def)
    then show ?thesis
    proof cases
      case fails
      with False post Cons show ?thesis
        by (intro kept) (cases "rq_fate q"; auto simp: netPost_def Let_def)+
    next
      case rotates
      have "it_Plaintext (er_Refresh x) = p \<and> it_Plaintext (er_Access x) \<noteq> ''''"
        using validToken_nonempty [OF v(1)] tk(2) Cons by (rule_tac rotateTx_Inr [OF rotates(2)]) (auto simp: scriptOK_def)
      then have "rotatedInto (refreshAnswer (rq_now q) (Inr x)) p" by (simp add: refreshAnswer_rotated)
      moreover have "w' = w\<lparr>n_script := qs, n_db := db'\<rparr>"
        "r = Some (refreshAnswer (rq_now q) (Inr x)) \<or> r = None"
        using False post Cons rotates(1) by (cases "rq_fate q"; auto simp: netPost_def Let_def)+
      ultimately show ?thesis
        using rotated_net [OF good Cons p row(1-3) dv rotates(2)] by auto
    qed
  qed
qed

lemma netMint_fresh:
  assumes good: "netGood w" and m: "netMint w = (w', m)"
  shows "netGood w' \<and> netHead w' = netHead w \<and> netKnown w' = netKnown w \<and>
      (\<forall>p now. m = Some (p, now) \<longrightarrow> p \<notin> set (n_used w) \<and> p \<noteq> '''' \<and> set (n_used w') = insert p (set (n_used w))) \<and>
      (m = None \<longrightarrow> set (n_used w') = set (n_used w))"
proof -
  have live: "liveHead w' = liveHead w"
    using m by (intro ext) (auto simp: netMint_def liveHead_def split: list.splits option.splits)
  have ih: "isHead w' = isHead w"
    using m by (intro ext) (auto simp: netMint_def isHead_def split: list.splits option.splits)
  have same: "n_script w' = n_script w" "n_db w' = n_db w"
    using m by (auto simp: netMint_def split: list.splits option.splits)
  then have inv: "token_inv (n_db w')" "scriptOK w'"
    using good scriptOK_cong [OF same] by (simp_all add: netGood_def)
  have tok: "tokensOK w" using good by (simp add: netGood_def)
  show ?thesis
  proof (cases "\<exists>p t rs. n_rand w = Some (p, t) # rs")
    case True
    then obtain p t rs where rs: "n_rand w = Some (p, t) # rs" by blast
    then have f: "futureTokens w = p # futureTokens w'" "n_used w' = n_used w @ [p]" "n_db w' = n_db w"
      "n_hash w' = n_hash w" "m = Some (p, t)"
      using m by (auto simp: netMint_def futureTokens_def map_filter_simps)
    have p: "p \<notin> set (n_used w)" "validToken p" using tok f(1) by (auto simp: tokensOK_def)
    have t': "tokensOK w'" using tok f by (auto simp: tokensOK_def)
    have good': "netGood w'" using good inv t' live f(2) by (auto simp: netGood_def)
    from netHead_live [OF good] live netHead_eq [OF good', of "netHead w"] f(2)
    have hd: "netHead w' = netHead w" by auto
    have "n_hash w p \<notin> rt_token_hash ` set (db_refresh_tokens (n_db w))"
    proof
      assume "n_hash w p \<in> rt_token_hash ` set (db_refresh_tokens (n_db w))"
      then obtain y where "y \<in> set (n_used w)" "n_hash w p = n_hash w y" using tok by (auto simp: tokensOK_def)
      with tok f(1) p(1) show False by (auto simp: tokensOK_def dest: inj_onD)
    qed
    then have "netKnown w' = netKnown w" by (auto simp: netKnown_eq f)
    with good' hd p f(2,5) validToken_nonempty show ?thesis by auto
  next
    case False
    then obtain rs where w': "w' = w\<lparr>n_rand := rs\<rparr>" "m = None" and rs: "n_rand w = rs \<or> n_rand w = None # rs"
      using m by (auto simp: netMint_def split: list.splits option.splits)
    then have "futureTokens w' = futureTokens w" by (auto simp: futureTokens_def map_filter_simps)
    with tok w'(1) have t': "tokensOK w'" by (simp add: tokensOK_def)
    then show ?thesis using good inv live ih w' by (auto simp: netGood_def netHead_def netKnown_def)
  qed
qed

interpretation deployed: refresh_service lossyNetwork netGood netHead netKnown "\<lambda>w. set (n_used w)"
proof unfold_locales
  fix w :: "'a Net" assume "netGood w"
  from netHead_live [OF this] show "netHead w \<in> netKnown w" by (auto simp: netKnown_def liveHead_def)
next
  fix w :: "'a Net" show "netKnown w \<subseteq> set (n_used w)" by (auto simp: netKnown_def)
next
  fix w w' :: "'a Net" and t p r
  assume "netGood w" "t \<notin> netKnown w" "t \<in> set (n_used w)" "p \<noteq> t" "w_post lossyNetwork w t p = (w', r)"
  then show "netGood w' \<and> netHead w' = netHead w \<and> netKnown w' = netKnown w \<and> set (n_used w') = set (n_used w) \<and>
      (failedAnswer r \<or> (\<exists>h. r = Some h \<and> catenary401 h))"
    by (intro netPost_unknown) (simp_all add: lossyNetwork_def)
next
  fix w w' :: "'a Net" and p r
  assume "netGood w" "p \<notin> netKnown w" "p \<in> set (n_used w)" "w_post lossyNetwork w (netHead w) p = (w', r)"
  then show "netGood w' \<and> set (n_used w') = set (n_used w) \<and>
     ((netHead w' = netHead w \<and> netKnown w' = netKnown w \<and> failedAnswer r) \<or>
      (netHead w' = p \<and> netKnown w' = insert p (netKnown w) \<and> (failedAnswer r \<or> (\<exists>h. r = Some h \<and> rotatedInto h p))))"
    by (intro netPost_head) (simp_all add: lossyNetwork_def)
next
  fix w w' :: "'a Net" and m
  assume "netGood w" "w_mint lossyNetwork w = (w', m)"
  then show "netGood w' \<and> netHead w' = netHead w \<and> netKnown w' = netKnown w \<and>
      (\<forall>p now. m = Some (p, now) \<longrightarrow> p \<notin> set (n_used w) \<and> p \<noteq> '''' \<and> set (n_used w') = insert p (set (n_used w))) \<and>
      (m = None \<longrightarrow> set (n_used w') = set (n_used w))"
    by (intro netMint_fresh) (simp_all add: lossyNetwork_def)
qed

section \<open>A device in use\<close>

text \<open>
  What happens to a client over its life: a request answered 401 with the token it
  carried, a refresh because the token is due, a request answered (which opens the gate),
  time passing on the device, and a restart from the journal.
\<close>

datatype life = Answered401 Credential | RefreshDue | ServerAnswered | Passes duration | Restart

fun liveOn :: "'h Net \<Rightarrow> Client \<Rightarrow> life list \<Rightarrow> 'h Net \<times> Client" where
  "liveOn w c [] = (w, c)"
| "liveOn w c (Answered401 used # es) =
     (case refreshAfter401 lossyNetwork w c used of (w', c', _) \<Rightarrow> liveOn w' c' es)"
| "liveOn w c (RefreshDue # es) =
     (case refreshDueWhenAllowed lossyNetwork w c of (w', c', _) \<Rightarrow> liveOn w' c' es)"
| "liveOn w c (ServerAnswered # es) = liveOn w (markAnswered c (n_clock w)) es"
| "liveOn w c (Passes d # es) = liveOn (w\<lparr>n_clock := n_clock w + d\<rparr>) c es"
| "liveOn w c (Restart # es) = liveOn w (newClient (cl_j c) (cl_Refresh c) noFaults) es"

lemma clock_views [simp]:
  "netHead (w\<lparr>n_clock := k\<rparr>) = netHead w" "netKnown (w\<lparr>n_clock := k\<rparr>) = netKnown w"
  "netGood (w\<lparr>n_clock := k\<rparr>) = netGood w"
proof -
  have "isHead (w\<lparr>n_clock := k\<rparr>) = isHead w" "liveHead (w\<lparr>n_clock := k\<rparr>) = liveHead w"
    by (intro ext; simp add: isHead_def liveHead_def split: option.split)+
  then show "netHead (w\<lparr>n_clock := k\<rparr>) = netHead w" "netKnown (w\<lparr>n_clock := k\<rparr>) = netKnown w"
    "netGood (w\<lparr>n_clock := k\<rparr>) = netGood w"
    by (simp_all add: netHead_def netKnown_def netGood_def tokensOK_def scriptOK_def futureTokens_def)
qed

lemma agree_clock [simp]: "deployed.agree (w\<lparr>n_clock := k\<rparr>) j = deployed.agree w j"
  by (simp add: deployed.agree_def deployed.sane_def)

lemma liveOn_keeps:
  assumes "deployed.agree w (cl_j c)" "deployed.able c" "t_Kind (cl_terminal c) = NotTerminal"
    and "liveOn w c es = (w', c')"
  shows "deployed.agree w' (cl_j c') \<and> deployed.able c' \<and> t_Kind (cl_terminal c') = NotTerminal"
  using assms
proof (induction w c es rule: liveOn.induct)
  case (2 w c used es)
  obtain w1 c1 e where r: "refreshAfter401 lossyNetwork w c used = (w1, c1, e)" by (metis prod_cases3)
  from deployed.refreshWhenAllowed_keeps [OF "2.prems"(1,2) r [unfolded refreshAfter401_def]] 2 r show ?case by simp
next
  case (3 w c es)
  obtain w1 c1 e where r: "refreshDueWhenAllowed lossyNetwork w c = (w1, c1, e)" by (metis prod_cases3)
  then have "deployed.agree w1 (cl_j c1) \<and> deployed.able c1 \<and> cl_terminal c1 = cl_terminal c"
    using "3.prems"(1,2) deployed.refreshWhenAllowed_keeps [OF "3.prems"(1,2), of "dueNeed (w_now lossyNetwork w)"]
    by (simp add: refreshDueWhenAllowed_def split: if_splits)
  with 3 r show ?case by simp
next
  case (4 w c es)
  then show ?case by (simp add: markAnswered_def deployed.able_def)
next
  case (6 w c es)
  then show ?case by (simp add: newClient_def deployed.able_def)
qed simp_all

text \<open>
  Agreement, spelled out: the deployment is in order, the journal's chain is well formed,
  its tokens are distinct and were drawn, the server's head is one of them, and none after
  the head has reached the server.
\<close>

definition inAgreement :: "'h Net \<Rightarrow> Client \<Rightarrow> bool" where
  "inAgreement w c \<longleftrightarrow> netGood w \<and> cl_faults c = noFaults \<and> \<not> cl_killed c \<and>
     chain_inv (cl_j c) \<and> j_hasCredential (cl_j c) \<and> distinct (ctoks (cl_j c)) \<and>
     set (ctoks (cl_j c)) \<subseteq> set (n_used w) \<and> netHead w \<in> set (ctoks (cl_j c)) \<and>
     set (tl (dropWhile (\<lambda>t. t \<noteq> netHead w) (ctoks (cl_j c)))) \<inter> netKnown w = {}"

lemma inAgreement_agree:
  assumes "inAgreement w c"
  shows "deployed.agree w (cl_j c)" "deployed.able c"
proof -
  let ?ts = "ctoks (cl_j c)" and ?P = "\<lambda>t. t \<noteq> netHead w"
  have "dropWhile ?P ?ts \<noteq> []" using assms by (auto simp: inAgreement_def)
  then have "?ts = takeWhile ?P ?ts @ netHead w # tl (dropWhile ?P ?ts)"
    using hd_dropWhile [of ?P ?ts] by (metis list.collapse takeWhile_dropWhile_id)
  moreover have "set ?ts \<subseteq> set (n_used w)" "list_all validToken (n_used w)"
    using assms by (simp_all add: inAgreement_def netGood_def tokensOK_def)
  then have "'''' \<notin> set ?ts" using validToken_nonempty by (auto simp: list_all_iff)
  ultimately show "deployed.agree w (cl_j c)" using assms
    unfolding inAgreement_def deployed.agree_def deployed.sane_def by blast
  show "deployed.able c" using assms by (simp add: inAgreement_def deployed.able_def)
qed

text \<open>
  C1. No lost packet logs a device out. However a network loses requests and responses,
  however often the server fails, and whenever the client restarts, a client in agreement
  with the server never becomes terminal, the server never revokes its device, and the
  token the server would accept is one of those the client's journal holds.
\<close>

theorem losses_never_log_out:
  assumes "inAgreement w c" "t_Kind (cl_terminal c) = NotTerminal" "liveOn w c es = (w', c')"
  shows "t_Kind (cl_terminal c') = NotTerminal \<and>
     (\<exists>dv. deviceByID (n_db w') (n_device w') = Some dv \<and> dv_revoked_at dv = None) \<and>
     (\<exists>t \<in> set (ctoks (cl_j c')). liveHead w' t)"
proof -
  note k = liveOn_keeps [OF inAgreement_agree [OF assms(1)] assms(2,3)]
  then have g: "netGood w'" and h: "netHead w' \<in> set (ctoks (cl_j c'))"
    by (auto simp: deployed.agree_def deployed.sane_def)
  from netHead_live [OF g] have "liveHead w' (netHead w')" by simp
  with h k show ?thesis unfolding liveHead_def by blast
qed

text \<open>An enrolled client whose first rotation is answered into a closed connection.\<close>

definition tok :: "char \<Rightarrow> token" where "tok c = replicate 43 c"

definition demoNetDB :: "token DB" where
  "demoNetDB = fst (RedeemEnrollment id 20 20 (demoDraws\<lparr>dr_refresh := Some (tok CHR ''a'')\<rparr>) demoInvited ''invite'' ''phone'')"

definition demoReq :: "fate \<Rightarrow> uuid \<Rightarrow> uuid \<Rightarrow> token \<Rightarrow> Req" where
  "demoReq f i a x = \<lparr>rq_fate = f, rq_dbnow = 30, rq_now = 30, rq_draws =
     \<lparr>dr_deviceID = '''', dr_refreshID = i, dr_accessID = a, dr_refresh = None, dr_access = Some x\<rparr>\<rparr>"

definition demoNet :: "token Net" where
  "demoNet = \<lparr>n_db = demoNetDB, n_hash = id, n_family = ''f1'', n_device = ''d1'', n_used = [tok CHR ''a''],
     n_rand = [Some (tok CHR ''b'', 30), Some (tok CHR ''c'', 40)],
     n_script = [demoReq ResponseLost ''f2'' ''a2'' ''x2'', demoReq Delivered ''f3'' ''a3'' ''x3'', demoReq Delivered ''f4'' ''a4'' ''x4''],
     n_clock = 30\<rparr>"

definition demoClient :: Client where
  "demoClient = newClient (exampleJournal\<lparr>j_credential := exampleCredential\<lparr>cr_RefreshToken := tok CHR ''a''\<rparr>\<rparr>) True noFaults"

lemma demoNetDB_eq: "demoNetDB = demoDB\<lparr>db_refresh_tokens := [\<lparr>rt_id = ''f1'', rt_device_id = ''d1'',
     rt_token_hash = tok CHR ''a'', rt_family_id = ''f1'', rt_replaced_by = None, rt_issued_at = 20,
     rt_expires_at = 20 + RefreshTokenLifetime, rt_revoked_at = None\<rparr>]\<rparr>"
  unfolding demoDB_eq by code_simp

lemma demoNet_live: "liveHead demoNet (tok CHR ''a'')"
  by (simp add: liveHead_def demoNet_def demoReq_def demoNetDB_eq demoDB_eq refreshByHash_def deviceByID_def
      userByID_def ada_def RefreshTokenLifetime_def minute_def second_def)

lemma demoNet_good: "netGood demoNet"
proof -
  have "token_inv (n_db demoNet)"
    by (simp add: demoNet_def demoNetDB_eq demoDB_eq token_inv_def one_head_def one_device_def successors_stored_def
        one_invitation_def access_shape_def)
  moreover have "tokensOK demoNet"
    by (simp add: demoNet_def demoNetDB_eq tokensOK_def futureTokens_def map_filter_simps tok_def validToken_def list_all_iff)
  moreover have "scriptOK demoNet"
    by (simp add: demoNet_def demoReq_def demoNetDB_eq scriptOK_def RefreshTokenLifetime_def minute_def second_def)
  moreover have "tok CHR ''a'' \<in> set (n_used demoNet)" by (simp add: demoNet_def)
  ultimately show ?thesis using demoNet_live by (auto simp: netGood_def)
qed

lemma demoNet_agrees: "inAgreement demoNet demoClient"
proof -
  have "netHead demoNet = tok CHR ''a''"
    using netHead_eq [OF demoNet_good _ demoNet_live] by (simp add: demoNet_def)
  then show ?thesis using demoNet_good
    by (simp add: inAgreement_def demoClient_def newClient_def ctoks_def chain_inv_def example_defs demoNet_def) (simp add: tok_def)
qed

theorem losses_never_log_out_witness:
  "t_Kind (cl_terminal (snd (liveOn demoNet demoClient [RefreshDue, Restart, ServerAnswered, Passes (700 * second),
      Answered401 (j_credential (cl_j demoClient))]))) = NotTerminal"
proof -
  obtain w' c' where "liveOn demoNet demoClient [RefreshDue, Restart, ServerAnswered, Passes (700 * second),
      Answered401 (j_credential (cl_j demoClient))] = (w', c')" by fastforce
  with losses_never_log_out [OF demoNet_agrees _ this] show ?thesis
    by (simp add: demoClient_def newClient_def)
qed

end
