(* ===== verification/Store_Errors.thy ===== *)
theory Store_Errors
  imports Store_Schema
begin

text \<open>
  \<open>internal/store/senderror.go\<close>: the one table from a cause to what the client is told,
  and the judgement whether sending the identical frame again could succeed.
\<close>

record SendError =
  sx_Code :: string
  sx_Retryable :: bool
  sx_RetryAfterSec :: "int option"
  sx_HTTPStatus :: int

definition has_prefix :: "string \<Rightarrow> string \<Rightarrow> bool" where
  "has_prefix s p \<longleftrightarrow> take (length p) s = p"

definition isTransient :: "store_error \<Rightarrow> bool" where
  "isTransient e =
     (case e of
        Canceled \<Rightarrow> True
      | DeadlineExceeded \<Rightarrow> True
      | PgFatal code \<Rightarrow> True
      | PgError code constraint \<Rightarrow>
          if code = ''40001'' \<or> code = ''40P01'' then True
          else if code = ''54000'' then True
          else list_ex (has_prefix code) [''08'', ''53'', ''57'']
      | ClosedPool \<Rightarrow> True
      | SafeToRetry \<Rightarrow> True
      | ConnectionEOF \<Rightarrow> True
      | NetError \<Rightarrow> True
      | _ \<Rightarrow> False)"

definition internalSendError :: "store_error \<Rightarrow> SendError" where
  "internalSendError e = \<lparr>sx_Code = ErrorCodeInternal, sx_Retryable = isTransient e, sx_RetryAfterSec = None,
     sx_HTTPStatus = 500\<rparr>"

text \<open>
  The table in its order. \<open>ErrConversationNotFound\<close> wraps \<open>ErrNotFound\<close> and has a row of its
  own; a bare \<open>ErrNotFound\<close> has none.
\<close>

definition sendErrorTable :: "(store_error \<times> string \<times> bool \<times> int) list" where
  "sendErrorTable =
     [(ErrNotAMember, ErrorCodeNotAMember, False, 403),
      (ErrConversationNotFound, ErrorCodeConversationNotFound, False, 404),
      (ErrMessageTooLarge, ErrorCodeMessageTooLarge, False, 413),
      (ErrTooManyAttachments, ErrorCodeMessageTooLarge, False, 413),
      (ErrUploadNotFound, ErrorCodeUploadNotFound, False, 404),
      (ErrRateLimited, ErrorCodeRateLimited, True, 429),
      (ErrTargetNotFound, ErrorCodeConversationNotFound, False, 404),
      (ErrTargetDeactivated, ErrorCodeConversationNotFound, False, 404),
      (ErrSelfDirect, ErrorCodeConversationNotFound, False, 404),
      (ErrNoClientID, ErrorCodeInternal, False, 500),
      (ErrNotifyTooLarge, ErrorCodeInternal, False, 500),
      (ErrUploadResolverContract, ErrorCodeInternal, False, 500)]"

definition sendErrorFor :: "store_error \<Rightarrow> SendError" where
  "sendErrorFor e =
     (case map_of sendErrorTable e of
        Some (code, retryable, status) \<Rightarrow>
          \<lparr>sx_Code = code, sx_Retryable = retryable, sx_RetryAfterSec = None, sx_HTTPStatus = status\<rparr>
      | None \<Rightarrow> internalSendError e)"

text \<open>The methods, with \<open>None\<close> the nil receiver each of them is safe for.\<close>

definition sendErrorWire :: "SendError option \<Rightarrow> string \<Rightarrow> ServerError" where
  "sendErrorWire e message =
     (case e of
        None \<Rightarrow> \<lparr>se_Code = ErrorCodeInternal, se_Message = message, se_Retryable = False, se_ClientID = None,
             se_RetryAfterSec = None\<rparr>
      | Some x \<Rightarrow> \<lparr>se_Code = sx_Code x, se_Message = message, se_Retryable = sx_Retryable x, se_ClientID = None,
                    se_RetryAfterSec = sx_RetryAfterSec x\<rparr>)"

definition HTTPStatus :: "SendError option \<Rightarrow> int" where
  "HTTPStatus e = (case e of None \<Rightarrow> 500 | Some x \<Rightarrow> if sx_HTTPStatus x = 0 then 500 else sx_HTTPStatus x)"

datatype Level = LevelInfo | LevelWarn

definition sendErrorLevel :: "SendError option \<Rightarrow> Level" where
  "sendErrorLevel e = (case e of None \<Rightarrow> LevelInfo
     | Some x \<Rightarrow> if sx_Code x \<noteq> ErrorCodeInternal then LevelInfo else LevelWarn)"

section \<open>What the table promises\<close>

lemma sendErrorTable_distinct: "distinct (map fst sendErrorTable)"
  by (simp add: sendErrorTable_def)

text \<open>
  A refusal is marked retryable only for the server's own reasons: the code is
  \<open>rate_limited\<close>, or the failure is transient. What the sender's frame caused is never
  retryable and never \<open>internal\<close>; a retryable answer is never a 4xx but 429; and every
  refusal has a status of its own.
\<close>

theorem sendErrorFor_verdict:
  "sx_Retryable (sendErrorFor e) = (e = ErrRateLimited \<or> isTransient e) \<and>
   (sx_Code (sendErrorFor e) = ErrorCodeInternal \<longleftrightarrow> sx_HTTPStatus (sendErrorFor e) = 500) \<and>
   (sx_Code (sendErrorFor e) \<noteq> ErrorCodeInternal \<longleftrightarrow>
      e \<in> {ErrNotAMember, ErrConversationNotFound, ErrMessageTooLarge, ErrTooManyAttachments, ErrUploadNotFound,
           ErrRateLimited, ErrTargetNotFound, ErrTargetDeactivated, ErrSelfDirect})"
  by (cases e) (simp_all add: sendErrorFor_def sendErrorTable_def internalSendError_def isTransient_def error_code_defs)

end
