(* ===== verification/Store_Messages.thy ===== *)
theory Store_Messages
  imports Store_Errors
begin

text \<open>
  \<open>internal/store/messages.go\<close>, \<open>uploads.go\<close>, \<open>metadata.go\<close>'s bump and \<open>readstate.go\<close>: the send
  path in its twelve positions, the two upload resolvers, the metadata marker and the read
  mark. A send reads the key and the membership without a lock, so it takes two databases:
  the one those reads saw and the one its locked part, from the resolver on, runs in.
\<close>

section \<open>Limits\<close>

record Limits =
  lm_MaxMessageBytes :: int
  lm_MaxAttachments :: int

definition DefaultLimits :: Limits where
  "DefaultLimits = \<lparr>lm_MaxMessageBytes = 16384, lm_MaxAttachments = 16\<rparr>"

definition MaxAttachmentsCeiling :: int where "MaxAttachmentsCeiling = 64"

definition ValidateLimits :: "Limits \<Rightarrow> bool" where
  "ValidateLimits l \<longleftrightarrow> \<not> lm_MaxMessageBytes l < 1 \<and> \<not> lm_MaxAttachments l < 1 \<and>
     \<not> MaxAttachmentsCeiling < lm_MaxAttachments l"

section \<open>A send\<close>

record NewAttachment =
  na_Kind :: string
  na_UploadID :: uuid

record NewMessage =
  nm_ConversationID :: uuid
  nm_AuthorID :: uuid
  nm_ClientID :: uuid
  nm_SenderDeviceID :: "uuid option"
  nm_ReplyTo :: "uuid option"
  nm_Text :: "string option"
  nm_Attachments :: "NewAttachment list"

record Sent =
  so_ID :: uuid
  so_ConversationID :: uuid
  so_Seq :: int
  so_LogSeq :: int
  so_At :: gotime
  so_Duplicate :: bool

definition checkBounds :: "Limits \<Rightarrow> NewMessage \<Rightarrow> store_error option" where
  "checkBounds l m =
     (if (case nm_Text m of None \<Rightarrow> False | Some t \<Rightarrow> lm_MaxMessageBytes l < int (length t)) then Some ErrMessageTooLarge
      else if lm_MaxAttachments l < int (length (nm_Attachments m)) then Some ErrTooManyAttachments
      else None)"

section \<open>Uploads\<close>

type_synonym 'h Resolver = "'h DB \<Rightarrow> uuid \<Rightarrow> NewAttachment list \<Rightarrow> store_error + 'h DB \<times> AttachmentRow list"

definition RefuseUploads :: "'h Resolver" where
  "RefuseUploads db uploader want = Inl ErrUploadNotFound"

definition uploadReady :: "UploadT \<Rightarrow> bool" where
  "uploadReady u \<longleftrightarrow>
     (up_kind u = ''voice'' \<and> up_peaks u \<noteq> None \<and> up_duration_ms u \<noteq> None) \<or>
     (up_kind u = ''image'' \<and> up_width u \<noteq> None \<and> up_height u \<noteq> None \<and> up_filename u \<noteq> None) \<or>
     (up_kind u = ''link'' \<and> up_link_url u \<noteq> None)"

definition consumable :: "uuid list \<Rightarrow> uuid \<Rightarrow> UploadT \<Rightarrow> bool" where
  "consumable ids uploader u \<longleftrightarrow> up_id u \<in> set ids \<and> up_uploader u = uploader \<and> up_consumed_at u = None \<and> uploadReady u"

definition attachmentOf :: "UploadT \<Rightarrow> AttachmentRow" where
  "attachmentOf u =
     \<lparr>ar_Kind = up_kind u, ar_Position = 0,
      ar_StorageKey = (case up_storage_key u of None \<Rightarrow> '''' | Some k \<Rightarrow> k),
      ar_DurationMs = (if up_kind u = ''voice'' then up_duration_ms u else None),
      ar_Peaks = (if up_kind u = ''voice'' then Some (case up_peaks u of None \<Rightarrow> [] | Some ps \<Rightarrow> ps) else None),
      ar_TranscriptState = (if up_kind u = ''voice'' then Some ''pending'' else None),
      ar_TranscriptJSON = None,
      ar_Filename = up_filename u, ar_Width = up_width u, ar_Height = up_height u,
      ar_Bytes = (if up_kind u \<noteq> ''link'' then Some (up_bytes u) else None),
      ar_Placeholder = up_placeholder u, ar_LinkURL = up_link_url u, ar_LinkTitle = up_link_title u,
      ar_LinkDescription = up_link_description u, ar_LinkSiteName = up_link_site_name u,
      ar_LinkFinalHost = up_link_final_host u\<rparr>"

text \<open>The loop that counts against the request: in its order, each handle once.\<close>

fun takeWanted :: "(uuid \<times> AttachmentRow) list \<Rightarrow> uuid list \<Rightarrow> NewAttachment list \<Rightarrow> AttachmentRow list option" where
  "takeWanted byID seen [] = Some []"
| "takeWanted byID seen (w # ws) =
     (case map_of byID (na_UploadID w) of
        None \<Rightarrow> None
      | Some row \<Rightarrow>
          if na_UploadID w \<in> set seen then None
          else map_option ((#) row) (takeWanted byID (na_UploadID w # seen) ws))"

definition PostgresUploads :: "gotime \<Rightarrow> 'h Resolver" where
  "PostgresUploads dbnow db uploader want =
     (let P = consumable (map na_UploadID want) uploader;
          byID = map (\<lambda>u. (up_id u, attachmentOf u)) (filter P (db_uploads db));
          db' = db\<lparr>db_uploads := update_where P (\<lambda>u. u\<lparr>up_consumed_at := Some dbnow\<rparr>) (db_uploads db)\<rparr>
      in case takeWanted byID [] want of
           None \<Rightarrow> Inl ErrUploadNotFound
         | Some rows \<Rightarrow> Inr (db', rows))"

fun placeAttachments :: "nat \<Rightarrow> NewAttachment list \<Rightarrow> AttachmentRow list \<Rightarrow> store_error + AttachmentRow list" where
  "placeAttachments i (w # ws) (r # rs) =
     (if ar_Kind r \<noteq> na_Kind w then Inl ErrUploadNotFound
      else case placeAttachments (Suc i) ws rs of
        Inl e \<Rightarrow> Inl e | Inr out \<Rightarrow> Inr (r\<lparr>ar_Position := i\<rparr> # out))"
| "placeAttachments i _ _ = Inr []"

definition resolveUploads :: "'h Resolver \<Rightarrow> 'h DB \<Rightarrow> NewMessage \<Rightarrow> store_error + 'h DB \<times> AttachmentRow list" where
  "resolveUploads resolve db m =
     (if nm_Attachments m = [] then Inr (db, [])
      else case resolve db (nm_AuthorID m) (nm_Attachments m) of
        Inl e \<Rightarrow> Inl e
      | Inr (db', rows) \<Rightarrow>
          if length rows \<noteq> length (nm_Attachments m) then Inl ErrUploadResolverContract
          else case placeAttachments 0 (nm_Attachments m) rows of
            Inl e \<Rightarrow> Inl e | Inr out \<Rightarrow> Inr (db', out))"

text \<open>The CHECK constraints a stored attachment row has to meet.\<close>

definition attachmentChecks :: "AttachmentRow \<Rightarrow> bool" where
  "attachmentChecks a \<longleftrightarrow>
     ar_Kind a \<in> {''voice'', ''image'', ''link''} \<and>
     (ar_Kind a = ''voice'' \<longrightarrow> ar_DurationMs a \<noteq> None \<and> ar_Peaks a \<noteq> None \<and> ar_TranscriptState a \<noteq> None) \<and>
     (ar_Kind a = ''image'' \<longrightarrow> ar_Filename a \<noteq> None \<and> ar_Width a \<noteq> None \<and> ar_Height a \<noteq> None \<and> ar_Bytes a \<noteq> None) \<and>
     (ar_Kind a = ''link'' \<longrightarrow> ar_LinkURL a \<noteq> None)"

definition insertAttachments ::
  "(nat \<Rightarrow> uuid) \<Rightarrow> uuid \<Rightarrow> AttachmentRow list \<Rightarrow> 'h DB \<Rightarrow> store_error + 'h DB" where
  "insertAttachments ids message rows db =
     (if rows = [] then Inr db
      else if \<not> list_all attachmentChecks rows then Inl (PgError ''23514'' ''attachments_check'')
      else Inr (db\<lparr>db_attachments := db_attachments db @
             map (\<lambda>(i, r). \<lparr>at_id = ids i, at_message_id = message, at_row = r\<rparr>) (enumerate 0 rows)\<rparr>))"

section \<open>The transaction of a send\<close>

definition conversationByID :: "'h DB \<Rightarrow> uuid \<Rightarrow> ConversationT option" where
  "conversationByID db i = find (\<lambda>c. cv_id c = i) (db_conversations db)"

definition isMember :: "'h DB \<Rightarrow> uuid \<Rightarrow> uuid \<Rightarrow> bool" where
  "isMember db conv user \<longleftrightarrow> list_ex (\<lambda>m. mb_conversation_id m = conv \<and> mb_user_id m = user) (db_members db)"

definition messageByKey :: "'h DB \<Rightarrow> uuid \<Rightarrow> uuid \<Rightarrow> MessageRow option" where
  "messageByKey db author client =
     find (\<lambda>m. mr_AuthorID m = author \<and> mr_ClientID m = Some client) (db_messages db)"

definition sentOf :: "MessageRow \<Rightarrow> Sent" where
  "sentOf m = \<lparr>so_ID = mr_ID m, so_ConversationID = mr_ConversationID m, so_Seq = mr_Seq m, so_LogSeq = mr_LogSeq m,
     so_At = mr_At m, so_Duplicate = True\<rparr>"

definition sentByKey :: "'h DB \<Rightarrow> uuid \<Rightarrow> uuid \<Rightarrow> store_error + Sent" where
  "sentByKey db author client =
     (case messageByKey db author client of None \<Rightarrow> Inl ErrNotFound | Some m \<Rightarrow> Inr (sentOf m))"

record SendDraws =
  sd_messageID :: uuid
  sd_attachmentIDs :: "nat \<Rightarrow> uuid"
  sd_at :: gotime

text \<open>
  A counter in a row: \<open>value + 1\<close>, and the error a BIGINT raises at its end. The draw of
  \<open>last_seq\<close> on the conversation, the draw of \<open>log_counter\<close>.
\<close>

definition outOfRange :: store_error where "outOfRange = PgError ''22003'' ''''"

definition drawSeq :: "'h DB \<Rightarrow> uuid \<Rightarrow> store_error + 'h DB \<times> int" where
  "drawSeq db conv =
     (case conversationByID db conv of
        None \<Rightarrow> Inl ErrConversationNotFound
      | Some c \<Rightarrow>
          if cv_last_seq c = max_i64 then Inl outOfRange
          else Inr (db\<lparr>db_conversations := update_where (\<lambda>c. cv_id c = conv)
                 (\<lambda>c. c\<lparr>cv_last_seq := cv_last_seq c + 1\<rparr>) (db_conversations db)\<rparr>, cv_last_seq c + 1))"

definition drawLog :: "'h DB \<Rightarrow> store_error + 'h DB \<times> int" where
  "drawLog db =
     (if db_log_counter db = max_i64 then Inl outOfRange
      else Inr (db\<lparr>db_log_counter := db_log_counter db + 1\<rparr>, db_log_counter db + 1))"

definition resolveReply :: "'h DB \<Rightarrow> uuid \<Rightarrow> uuid option \<Rightarrow> uuid option" where
  "resolveReply db conv replyTo =
     (case replyTo of
        None \<Rightarrow> None
      | Some i \<Rightarrow> if list_ex (\<lambda>m. mr_ID m = i \<and> mr_ConversationID m = conv) (db_messages db) then Some i else None)"

definition insertMessage :: "'h DB \<Rightarrow> MessageRow \<Rightarrow> store_error + 'h DB" where
  "insertMessage db row =
     (if mr_ID row \<in> mr_ID ` set (db_messages db) then Inl (PgError ''23505'' ''messages_pkey'')
      else if \<exists>m \<in> set (db_messages db). mr_ConversationID m = mr_ConversationID row \<and> mr_Seq m = mr_Seq row
      then Inl (PgError ''23505'' ''messages_conversation_id_seq_key'')
      else if \<exists>m \<in> set (db_messages db). mr_LogSeq m = mr_LogSeq row
      then Inl (PgError ''23505'' ''messages_log_seq_key'')
      else if \<exists>m \<in> set (db_messages db). mr_AuthorID m = mr_AuthorID row \<and> mr_ClientID m = mr_ClientID row \<and> mr_ClientID m \<noteq> None
      then Inl (PgError ''23505'' ''messages_author_id_client_id_key'')
      else if (case mr_SenderDeviceID row of None \<Rightarrow> False | Some i \<Rightarrow> i \<notin> dv_id ` set (db_devices db))
      then Inl (PgError ''23503'' ''messages_sender_device_id_fkey'')
      else Inr (db\<lparr>db_messages := db_messages db @ [row]\<rparr>))"

text \<open>Positions 7 to 12: what runs under the locks, on the database of that moment.\<close>

definition writeSend :: "'h Resolver \<Rightarrow> SendDraws \<Rightarrow> 'h DB \<Rightarrow> NewMessage \<Rightarrow> store_error + 'h DB \<times> Sent" where
  "writeSend resolve d db m =
     (case resolveUploads resolve db m of
        Inl e \<Rightarrow> Inl e
      | Inr (db1, atts) \<Rightarrow>
     (case drawSeq db1 (nm_ConversationID m) of
        Inl e \<Rightarrow> Inl e
      | Inr (db2, seq) \<Rightarrow>
          let replyTo = resolveReply db2 (nm_ConversationID m) (nm_ReplyTo m) in
     (case drawLog db2 of
        Inl e \<Rightarrow> Inl e
      | Inr (db3, logSeq) \<Rightarrow>
     (case insertMessage db3
             \<lparr>mr_ID = sd_messageID d, mr_ConversationID = nm_ConversationID m, mr_AuthorID = nm_AuthorID m,
              mr_Seq = seq, mr_LogSeq = logSeq, mr_UpdatedLogSeq = logSeq, mr_At = sd_at d, mr_Text = nm_Text m,
              mr_ClientID = Some (nm_ClientID m), mr_SenderDeviceID = nm_SenderDeviceID m, mr_ReplyTo = replyTo,
              mr_EditedAt = None, mr_Deleted = False\<rparr> of
        Inl e \<Rightarrow> Inl e
      | Inr db4 \<Rightarrow>
     (case insertAttachments (sd_attachmentIDs d) (sd_messageID d) atts db4 of
        Inl e \<Rightarrow> Inl e
      | Inr db5 \<Rightarrow>
          Inr (notify (NotifyMessage (nm_ConversationID m) seq) db5,
               \<lparr>so_ID = sd_messageID d, so_ConversationID = nm_ConversationID m, so_Seq = seq, so_LogSeq = logSeq,
                so_At = sd_at d, so_Duplicate = False\<rparr>))))))"

definition attemptSend ::
  "'h Resolver \<Rightarrow> SendDraws \<Rightarrow> 'h DB \<Rightarrow> 'h DB \<Rightarrow> NewMessage \<Rightarrow> 'h DB \<times> (store_error + Sent)" where
  "attemptSend resolve d db0 db m =
     (case messageByKey db0 (nm_AuthorID m) (nm_ClientID m) of
        Some row \<Rightarrow> (db, Inr (sentOf row))
      | None \<Rightarrow>
          if conversationByID db0 (nm_ConversationID m) = None then (db, Inl ErrConversationNotFound)
          else if \<not> isMember db0 (nm_ConversationID m) (nm_AuthorID m) then (db, Inl ErrNotAMember)
          else case writeSend resolve d db m of
            Inl e \<Rightarrow> (db, Inl e)
          | Inr (db', out) \<Rightarrow> (db', Inr out))"

definition isUniqueViolation :: "store_error \<Rightarrow> string \<Rightarrow> bool" where
  "isUniqueViolation e constraint \<longleftrightarrow>
     (case e of PgError code c \<Rightarrow> code = ''23505'' \<and> (constraint = '''' \<or> c = constraint) | _ \<Rightarrow> False)"

definition dedupConstraint :: string where "dedupConstraint = ''messages_author_id_client_id_key''"

definition send ::
  "Limits \<Rightarrow> 'h Resolver \<Rightarrow> SendDraws \<Rightarrow> 'h DB \<Rightarrow> 'h DB \<Rightarrow> NewMessage \<Rightarrow> 'h DB \<times> (store_error + Sent)" where
  "send l resolve d db0 db m =
     (if nm_ClientID m = uuid_Nil then (db, Inl ErrNoClientID)
      else case checkBounds l m of
        Some e \<Rightarrow> (db, Inl e)
      | None \<Rightarrow>
          (case attemptSend resolve d db0 db m of
             (db', Inr sent) \<Rightarrow> (db', Inr sent)
           | (db', Inl e) \<Rightarrow>
               if isUniqueViolation e dedupConstraint then (db', sentByKey db' (nm_AuthorID m) (nm_ClientID m))
               else if e = ErrUploadNotFound then
                 (case sentByKey db' (nm_AuthorID m) (nm_ClientID m) of
                    Inr original \<Rightarrow> (db', Inr original)
                  | Inl er \<Rightarrow> if er = ErrNotFound then (db', Inl e) else (db', Inl er))
               else (db', Inl e)))"

definition SendMessage ::
  "Limits \<Rightarrow> 'h Resolver \<Rightarrow> SendDraws \<Rightarrow> 'h DB \<Rightarrow> 'h DB \<Rightarrow> NewMessage \<Rightarrow> 'h DB \<times> (SendError + Sent)" where
  "SendMessage l resolve d db0 db m =
     (case send l resolve d db0 db m of
        (db', Inr sent) \<Rightarrow> (db', Inr sent)
      | (db', Inl e) \<Rightarrow> (db', Inl (sendErrorFor e)))"

section \<open>The metadata marker\<close>

text \<open>
  The targets of one bump; the locks in their order are the refusals below, the counter is
  drawn once, after them.
\<close>

record metadataBump =
  bp_convs :: "uuid list"
  bp_members :: "(uuid \<times> uuid) list"
  bp_users :: "uuid list"

definition applyBump :: "metadataBump \<Rightarrow> 'h DB \<Rightarrow> store_error + 'h DB \<times> int" where
  "applyBump b db =
     (if bp_convs b = [] \<and> bp_members b = [] \<and> bp_users b = [] then Inl ErrBumpNoRows
      else if list_ex (\<lambda>i. conversationByID db i = None) (bp_convs b) then Inl ErrNotAMember
      else if list_ex (\<lambda>(c, u). \<not> isMember db c u) (bp_members b) then Inl ErrNotAMember
      else if list_ex (\<lambda>i. i \<notin> us_id ` set (db_users db)) (bp_users b) then Inl DriverError
      else case drawLog db of
        Inl e \<Rightarrow> Inl e
      | Inr (db1, v) \<Rightarrow>
          Inr (db1\<lparr>db_conversations := update_where (\<lambda>c. cv_id c \<in> set (bp_convs b))
                     (\<lambda>c. c\<lparr>cv_metadata_log_seq := v\<rparr>) (db_conversations db1),
                   db_members := update_where (\<lambda>m. (mb_conversation_id m, mb_user_id m) \<in> set (bp_members b))
                     (\<lambda>m. m\<lparr>mb_metadata_log_seq := v\<rparr>) (db_members db1),
                   db_users := update_where (\<lambda>u. us_id u \<in> set (bp_users b))
                     (\<lambda>u. u\<lparr>us_metadata_log_seq := v\<rparr>) (db_users db1)\<rparr>, v))"

section \<open>The read mark\<close>

record ReadReceipt =
  rp_ConversationID :: uuid
  rp_UserID :: uuid
  rp_UpToSeq :: int
  rp_Advanced :: bool

definition memberOf :: "'h DB \<Rightarrow> uuid \<Rightarrow> uuid \<Rightarrow> MemberT option" where
  "memberOf db conv user = find (\<lambda>m. mb_conversation_id m = conv \<and> mb_user_id m = user) (db_members db)"

definition markRead :: "'h DB \<Rightarrow> uuid \<Rightarrow> uuid \<Rightarrow> int \<Rightarrow> 'h DB \<times> (store_error + ReadReceipt)" where
  "markRead db conv user upToSeq =
     (if upToSeq < 1 then (db, Inl ErrSeqOutOfRange)
      else case memberOf db conv user of
        None \<Rightarrow> (db, Inl ErrNotAMember)
      | Some mb \<Rightarrow>
          (case conversationByID db conv of
             None \<Rightarrow> (db, Inl DriverError)
           | Some c \<Rightarrow>
               let before = mb_read_seq mb;
                   after = min (max (mb_read_seq mb) upToSeq) (cv_last_seq c);
                   db1 = db\<lparr>db_members := update_where (\<lambda>m. mb_conversation_id m = conv \<and> mb_user_id m = user)
                            (\<lambda>m. m\<lparr>mb_read_seq := after\<rparr>) (db_members db)\<rparr>;
                   receipt = \<lparr>rp_ConversationID = conv, rp_UserID = user, rp_UpToSeq = after, rp_Advanced = before < after\<rparr>
               in if before < after then
                    (case applyBump \<lparr>bp_convs = [], bp_members = [(conv, user)], bp_users = []\<rparr> db1 of
                       Inl e \<Rightarrow> (db, Inl e)
                     | Inr (db2, _) \<Rightarrow> (notify (NotifyReceipt conv user before after None) db2, Inr receipt))
                  else (db1, Inr receipt)))"

definition MarkRead :: "'h DB \<Rightarrow> uuid \<Rightarrow> uuid \<Rightarrow> int \<Rightarrow> 'h DB \<times> ((store_error + SendError) + ReadReceipt)" where
  "MarkRead db conv user upToSeq =
     (case markRead db conv user upToSeq of
        (db', Inr r) \<Rightarrow> (db', Inr r)
      | (db', Inl e) \<Rightarrow> (db', Inl (if e = ErrSeqOutOfRange then Inl e else Inr (sendErrorFor e))))"

definition firstUnreadSeq :: "'h DB \<Rightarrow> MemberT \<Rightarrow> int option" where
  "firstUnreadSeq db cm =
     (let seqs = map mr_Seq (filter (\<lambda>m. mr_ConversationID m = mb_conversation_id cm \<and> mb_read_seq cm < mr_Seq m \<and>
                   mr_AuthorID m \<noteq> mb_user_id cm) (db_messages db))
      in if seqs = [] then None else Some (Min (set seqs)))"

definition FirstUnreadSeq :: "'h DB \<Rightarrow> uuid \<Rightarrow> uuid \<Rightarrow> SendError + int option" where
  "FirstUnreadSeq db conv viewer =
     (case memberOf db conv viewer of
        None \<Rightarrow> Inl (sendErrorFor ErrNotAMember)
      | Some cm \<Rightarrow> Inr (firstUnreadSeq db cm))"

definition activeMembers :: "'h DB \<Rightarrow> uuid \<Rightarrow> MemberT list" where
  "activeMembers db conv =
     filter (\<lambda>am. mb_conversation_id am = conv \<and>
        list_ex (\<lambda>u. us_id u = mb_user_id am \<and> us_deactivated_at u = None) (db_users db)) (db_members db)"

definition readBy :: "'h DB \<Rightarrow> MessageRow \<Rightarrow> int" where
  "readBy db m = int (length (filter (\<lambda>am. mb_user_id am = mr_AuthorID m \<or> mr_Seq m \<le> mb_read_seq am)
     (activeMembers db (mr_ConversationID m))))"

definition memberCount :: "'h DB \<Rightarrow> uuid \<Rightarrow> int" where
  "memberCount db conv = int (length (activeMembers db conv))"

section \<open>Attaching a session\<close>

datatype HelloOutcome = HelloNoCursor | HelloBehind | HelloAtHead | HelloCursorAhead

record HelloResult =
  hl_Outcome :: HelloOutcome
  hl_Head :: int
  hl_Cursor :: "int option"
  hl_Delta :: int

definition Head :: "'h DB \<Rightarrow> int" where "Head db = db_log_counter db"

definition Hello :: "'h DB \<Rightarrow> int option \<Rightarrow> store_error + HelloResult" where
  "Hello db cursor =
     (case cursor of
        None \<Rightarrow> Inr \<lparr>hl_Outcome = HelloNoCursor, hl_Head = Head db, hl_Cursor = None, hl_Delta = 0\<rparr>
      | Some c \<Rightarrow>
          if c < 0 then Inl ErrNegativeCursor
          else
            let delta = Head db - c in
            Inr \<lparr>hl_Outcome = (if 0 < delta then HelloBehind else if delta = 0 then HelloAtHead else HelloCursorAhead),
                 hl_Head = Head db, hl_Cursor = Some c, hl_Delta = delta\<rparr>)"

end
