(* ===== verification/Store_Sync.thy ===== *)
theory Store_Sync
  imports Store_Messages "HOL-Library.Product_Lexorder"
begin

text \<open>
  \<open>internal/store/sync.go\<close>, the page half of \<open>readstate.go\<close> and \<open>roster.go\<close>: one page of the log
  as one reader may see it, and the conversation row of one reader. The transaction is READ
  COMMITTED, so each statement sees the database of its own moment: \<open>snap k\<close> is what
  statement \<open>k\<close> sees. \<open>MessageRow\<close> is the stored row; the page's rows keep the two columns the
  query leaves out (\<open>sender_device_id\<close>, \<open>updated_log_seq\<close>), which no reader of a page uses.
\<close>

section \<open>Rows as served\<close>

record ConversationRow =
  cr_ID :: uuid
  cr_Kind :: string
  cr_Name :: "string option"
  cr_LastSeq :: int
  cr_RetentionDays :: "int option"
  cr_Muted :: bool
  cr_MemberCount :: int
  cr_ReadSeq :: int
  cr_FirstUnreadSeq :: "int option"
  cr_OtherMemberName :: "string option"
  cr_OtherMemberID :: "uuid option"

record UserRow =
  ur_ID :: uuid
  ur_DisplayName :: string
  ur_Deactivated :: bool

record ReplySource =
  rs_MessageID :: uuid
  rs_ConversationID :: uuid
  rs_AuthorID :: uuid
  rs_Text :: "string option"
  rs_FirstAttachment :: "AttachmentRow option"

record SyncPage =
  sp_Messages :: "MessageRow list"
  sp_Attachments :: "(uuid, AttachmentRow list) gomap"
  sp_ReplySources :: "(uuid, ReplySource) gomap"
  sp_ReadBy :: "(uuid, int) gomap"
  sp_Conversations :: "ConversationRow list"
  sp_Users :: "UserRow list"
  sp_HighWater :: int
  sp_HasMore :: bool

definition DefaultSyncLimit :: int where "DefaultSyncLimit = 200"
definition MaxSyncLimit :: int where "MaxSyncLimit = 500"

section \<open>A conversation as one member sees it\<close>

text \<open>
  The lateral join of a direct's other member. A direct has two members, so at most one
  row passes the filter and the order by display name decides nothing.
\<close>

definition otherMember :: "'h DB \<Rightarrow> ConversationT \<Rightarrow> MemberT \<Rightarrow> UserT option" where
  "otherMember db c cm =
     (if cv_kind c \<noteq> ''direct'' then None
      else case sort_key us_display_name
             (filter (\<lambda>u. us_id u \<noteq> mb_user_id cm \<and> isMember db (cv_id c) (us_id u)) (db_users db)) of
        [] \<Rightarrow> None | u # _ \<Rightarrow> Some u)"

definition conversationRowPerViewer :: "'h DB \<Rightarrow> ConversationT \<Rightarrow> MemberT \<Rightarrow> ConversationRow" where
  "conversationRowPerViewer db c cm =
     \<lparr>cr_ID = cv_id c, cr_Kind = cv_kind c, cr_Name = cv_name c, cr_LastSeq = cv_last_seq c,
      cr_RetentionDays = cv_retention_days c, cr_Muted = mb_muted cm, cr_MemberCount = memberCount db (cv_id c),
      cr_ReadSeq = mb_read_seq cm, cr_FirstUnreadSeq = firstUnreadSeq db cm,
      cr_OtherMemberName = map_option us_display_name (otherMember db c cm),
      cr_OtherMemberID = map_option us_id (otherMember db c cm)\<rparr>"

definition conversationRowOne :: "'h DB \<Rightarrow> uuid \<Rightarrow> uuid \<Rightarrow> store_error + ConversationRow" where
  "conversationRowOne db i viewer =
     (case (conversationByID db i, memberOf db i viewer) of
        (Some c, Some cm) \<Rightarrow> Inr (conversationRowPerViewer db c cm)
      | _ \<Rightarrow> Inl ErrNotAMember)"

definition conversationRowsForMembers :: "'h DB \<Rightarrow> uuid \<Rightarrow> (uuid, ConversationRow) gomap" where
  "conversationRowsForMembers db i =
     (case conversationByID db i of
        None \<Rightarrow> []
      | Some c \<Rightarrow> map (\<lambda>cm. (mb_user_id cm, conversationRowPerViewer db c cm))
          (sort_key mb_user_id (filter (\<lambda>cm. mb_conversation_id cm = i) (db_members db))))"

definition userRow :: "UserT \<Rightarrow> UserRow" where
  "userRow u = \<lparr>ur_ID = us_id u, ur_DisplayName = us_display_name u, ur_Deactivated = (us_deactivated_at u \<noteq> None)\<rparr>"

definition memberUsers :: "'h DB \<Rightarrow> uuid \<Rightarrow> UserRow list" where
  "memberUsers db conv = map userRow (sort_key us_id (filter (\<lambda>u. isMember db conv (us_id u)) (db_users db)))"

section \<open>A page\<close>

definition clampLimit :: "int \<Rightarrow> int" where
  "clampLimit limit =
     (let l = (if limit \<le> 0 then DefaultSyncLimit else limit)
      in if MaxSyncLimit < l then MaxSyncLimit else l)"

text \<open>The messages of the viewer's rooms in \<open>(after, head]\<close>, by position in the log.\<close>

definition visibleMessages :: "'h DB \<Rightarrow> uuid \<Rightarrow> int \<Rightarrow> int \<Rightarrow> MessageRow list" where
  "visibleMessages db viewer after head =
     sort_key mr_LogSeq (filter (\<lambda>m. isMember db (mr_ConversationID m) viewer \<and>
        after < mr_LogSeq m \<and> mr_LogSeq m \<le> head) (db_messages db))"

definition loadAttachments :: "'h DB \<Rightarrow> MessageRow list \<Rightarrow> (uuid, AttachmentRow list) gomap" where
  "loadAttachments db msgs =
     filter (\<lambda>(_, rows). rows \<noteq> [])
       (map (\<lambda>i. (i, sort_key ar_Position (map at_row (filter (\<lambda>a. at_message_id a = i) (db_attachments db)))))
          (remdups (map mr_ID msgs)))"

text \<open>The first attachment of a reply's source carries four of its columns.\<close>

definition firstAttachment :: "'h DB \<Rightarrow> uuid \<Rightarrow> AttachmentRow option" where
  "firstAttachment db i =
     (case sort_key ar_Position (map at_row (filter (\<lambda>a. at_message_id a = i) (db_attachments db))) of
        [] \<Rightarrow> None
      | a # _ \<Rightarrow> Some
          \<lparr>ar_Kind = ar_Kind a, ar_Position = 0, ar_StorageKey = ar_StorageKey a, ar_DurationMs = ar_DurationMs a,
           ar_Peaks = None, ar_TranscriptState = None, ar_TranscriptJSON = ar_TranscriptJSON a, ar_Filename = None,
           ar_Width = None, ar_Height = None, ar_Bytes = None, ar_Placeholder = None, ar_LinkURL = None,
           ar_LinkTitle = None, ar_LinkDescription = None, ar_LinkSiteName = None, ar_LinkFinalHost = None\<rparr>)"

definition loadReplySources :: "'h DB \<Rightarrow> MessageRow list \<Rightarrow> (uuid, ReplySource) gomap" where
  "loadReplySources db msgs =
     map (\<lambda>src. (mr_ID src, \<lparr>rs_MessageID = mr_ID src, rs_ConversationID = mr_ConversationID src,
             rs_AuthorID = mr_AuthorID src, rs_Text = mr_Text src, rs_FirstAttachment = firstAttachment db (mr_ID src)\<rparr>))
       (filter (\<lambda>src. Some (mr_ID src) \<in> mr_ReplyTo ` set msgs \<and> mr_ConversationID src \<in> mr_ConversationID ` set msgs)
          (db_messages db))"

definition loadReadBy :: "'h DB \<Rightarrow> MessageRow list \<Rightarrow> (uuid, int) gomap" where
  "loadReadBy db msgs =
     map (\<lambda>m. (mr_ID m, readBy db m)) (filter (\<lambda>m. mr_ID m \<in> mr_ID ` set msgs) (db_messages db))"

definition inWindow :: "int \<Rightarrow> int \<Rightarrow> int \<Rightarrow> bool" where
  "inWindow after high v \<longleftrightarrow> after < v \<and> v \<le> high"

definition loadConversations ::
  "'h DB \<Rightarrow> uuid \<Rightarrow> int \<Rightarrow> int \<Rightarrow> MessageRow list \<Rightarrow> ConversationRow list" where
  "loadConversations db viewer after high msgs =
     List.map_filter (\<lambda>c.
        case memberOf db (cv_id c) viewer of
          None \<Rightarrow> None
        | Some cm \<Rightarrow>
            if cv_id c \<in> mr_ConversationID ` set msgs \<or> inWindow after high (cv_metadata_log_seq c) \<or>
               inWindow after high (mb_metadata_log_seq cm)
            then Some (conversationRowPerViewer db c cm) else None)
       (sort_key cv_id (db_conversations db))"

definition sharesRoom :: "'h DB \<Rightarrow> uuid \<Rightarrow> uuid \<Rightarrow> bool" where
  "sharesRoom db viewer user \<longleftrightarrow>
     list_ex (\<lambda>mine. mb_user_id mine = viewer \<and> isMember db (mb_conversation_id mine) user) (db_members db)"

definition pageMembers :: "'h DB \<Rightarrow> ConversationRow list \<Rightarrow> uuid list" where
  "pageMembers db convs =
     remdups (map mb_user_id (filter (\<lambda>m. mb_conversation_id m \<in> cr_ID ` set convs) (db_members db)))"

definition loadUsers :: "'h DB \<Rightarrow> uuid \<Rightarrow> int \<Rightarrow> int \<Rightarrow> uuid list \<Rightarrow> UserRow list" where
  "loadUsers db viewer after high ids =
     map userRow (sort_key us_id (filter (\<lambda>u. us_id u \<in> set ids \<or>
        inWindow after high (us_metadata_log_seq u) \<and> sharesRoom db viewer (us_id u)) (db_users db)))"

text \<open>
  The statements in their order: the head (0), the messages (1), their attachments (2),
  their reply sources (3), the counts (4), the conversations (5), the members (6), the
  users (7).
\<close>

definition Sync :: "(nat \<Rightarrow> 'h DB) \<Rightarrow> uuid \<Rightarrow> int \<Rightarrow> int \<Rightarrow> SyncPage" where
  "Sync snap viewer after limit =
     (let l = clampLimit limit;
          head = db_log_counter (snap 0);
          rows = take (nat (l + 1)) (visibleMessages (snap 1) viewer after head);
          hasMore = l < int (length rows);
          msgs = (if hasMore then take (nat l) rows else rows);
          high = (if hasMore then mr_LogSeq (last msgs) else head);
          sources = loadReplySources (snap 3) msgs;
          convs = loadConversations (snap 5) viewer after high msgs;
          ids = map mr_AuthorID msgs @ map (rs_AuthorID \<circ> snd) sources @ pageMembers (snap 6) convs
      in \<lparr>sp_Messages = msgs,
          sp_Attachments = loadAttachments (snap 2) msgs,
          sp_ReplySources = sources,
          sp_ReadBy = loadReadBy (snap 4) msgs,
          sp_Conversations = convs,
          sp_Users = loadUsers (snap 7) viewer after high ids,
          sp_HighWater = high,
          sp_HasMore = hasMore\<rparr>)"

section \<open>The roster\<close>

record RosterRow =
  ro_ID :: uuid
  ro_DisplayName :: string
  ro_Handle :: string

definition Roster :: "'h DB \<Rightarrow> uuid \<Rightarrow> RosterRow list" where
  "Roster db viewer =
     map (\<lambda>u. \<lparr>ro_ID = us_id u, ro_DisplayName = us_display_name u, ro_Handle = us_handle u\<rparr>)
       (sort_key (\<lambda>u. (us_display_name u, us_id u))
          (filter (\<lambda>u. us_kind u = ''person'' \<and> us_deactivated_at u = None \<and> us_id u \<noteq> viewer) (db_users db)))"

end
