(* ===== verification/Store_Fanout.thy ===== *)
theory Store_Fanout
  imports Store_Sync
begin

text \<open>
  \<open>internal/store/fanout.go\<close>: what the hub reads between a notification and a frame. Both
  message reads run in one REPEATABLE READ snapshot, so each is a function of one database.
\<close>

record FanoutMember =
  fx_UserID :: uuid
  fx_ReadSeq :: int

record FanoutMessage =
  fm_Message :: MessageRow
  fm_Attachments :: "AttachmentRow list"
  fm_ReplySource :: "ReplySource option"
  fm_ReadBy :: int
  fm_Members :: "FanoutMember list"
  fm_Conversations :: "(uuid, ConversationRow) gomap"
  fm_Users :: "UserRow list"

definition FirstMessageSeq :: int where "FirstMessageSeq = 1"

text \<open>What the page loaders find for one message: a missing entry is the zero value.\<close>

definition attachmentsOf :: "'h DB \<Rightarrow> MessageRow list \<Rightarrow> MessageRow \<Rightarrow> AttachmentRow list" where
  "attachmentsOf db msgs m = (case map_of (loadAttachments db msgs) (mr_ID m) of None \<Rightarrow> [] | Some as \<Rightarrow> as)"

definition readByOf :: "'h DB \<Rightarrow> MessageRow list \<Rightarrow> MessageRow \<Rightarrow> int" where
  "readByOf db msgs m = (case map_of (loadReadBy db msgs) (mr_ID m) of None \<Rightarrow> 0 | Some n \<Rightarrow> n)"

definition sourceOf :: "'h DB \<Rightarrow> MessageRow list \<Rightarrow> MessageRow \<Rightarrow> ReplySource option" where
  "sourceOf db msgs m = (case mr_ReplyTo m of None \<Rightarrow> None | Some r \<Rightarrow> map_of (loadReplySources db msgs) r)"

definition MessageForFanout :: "'h DB \<Rightarrow> uuid \<Rightarrow> int \<Rightarrow> store_error + FanoutMessage" where
  "MessageForFanout db conv seq =
     (case find (\<lambda>m. mr_ConversationID m = conv \<and> mr_Seq m = seq) (db_messages db) of
        None \<Rightarrow> Inl ErrNotFound
      | Some m \<Rightarrow> Inr
          \<lparr>fm_Message = m, fm_Attachments = attachmentsOf db [m] m, fm_ReplySource = sourceOf db [m] m,
           fm_ReadBy = readByOf db [m] m,
           fm_Members = map (\<lambda>mb. \<lparr>fx_UserID = mb_user_id mb, fx_ReadSeq = mb_read_seq mb\<rparr>)
             (sort_key mb_user_id (filter (\<lambda>mb. mb_conversation_id mb = conv) (db_members db))),
           fm_Conversations = (if mr_Seq m = FirstMessageSeq then conversationRowsForMembers db conv else []),
           fm_Users = (if mr_Seq m = FirstMessageSeq then memberUsers db conv else [])\<rparr>)"

record ReadNotifyMessage =
  rn_Message :: MessageRow
  rn_Attachments :: "AttachmentRow list"
  rn_ReplySource :: "ReplySource option"
  rn_ReadBy :: int

text \<open>The span of a receipt, the newest \<open>capPerAuthor\<close> of each author, by author and newest first.\<close>

definition readSpan :: "'h DB \<Rightarrow> uuid \<Rightarrow> uuid \<Rightarrow> int \<Rightarrow> int \<Rightarrow> nat \<Rightarrow> MessageRow list" where
  "readSpan db conv reader before after capPerAuthor =
     (let span = filter (\<lambda>m. mr_ConversationID m = conv \<and> before < mr_Seq m \<and> mr_Seq m \<le> after \<and> mr_AuthorID m \<noteq> reader \<and>
                   isMember db (mr_ConversationID m) (mr_AuthorID m)) (db_messages db)
      in concat (map (\<lambda>a. take capPerAuthor (rev (sort_key mr_Seq (filter (\<lambda>m. mr_AuthorID m = a) span))))
           (sort (remdups (map mr_AuthorID span)))))"

definition MessagesForReadNotify :: "'h DB \<Rightarrow> uuid \<Rightarrow> uuid \<Rightarrow> int \<Rightarrow> int \<Rightarrow> nat \<Rightarrow> ReadNotifyMessage list" where
  "MessagesForReadNotify db conv reader before after capPerAuthor =
     (let msgs = readSpan db conv reader before after capPerAuthor
      in map (\<lambda>m. \<lparr>rn_Message = m, rn_Attachments = attachmentsOf db msgs m, rn_ReplySource = sourceOf db msgs m,
                    rn_ReadBy = readByOf db msgs m\<rparr>) msgs)"

definition Members :: "'h DB \<Rightarrow> uuid \<Rightarrow> uuid list" where
  "Members db conv = sort (map mb_user_id (filter (\<lambda>mb. mb_conversation_id mb = conv) (db_members db)))"

definition DeadDevices :: "'h DB \<Rightarrow> uuid list \<Rightarrow> uuid list" where
  "DeadDevices db ids =
     sort (map dv_id (filter (\<lambda>d. dv_id d \<in> set ids \<and>
        list_ex (\<lambda>u. us_id u = dv_user_id d \<and> (dv_revoked_at d \<noteq> None \<or> us_deactivated_at u \<noteq> None)) (db_users db)) (db_devices db)))"

end
