(* ===== verification/Go_Text.thy ===== *)
theory Go_Text
  imports Catenary_Base
begin

text \<open>
  What the sources use of Go's \<open>unicode/utf8\<close>, \<open>unicode\<close> and \<open>strings\<close>: a Go string is its
  bytes, a list of \<open>char\<close>; ranging over it decodes one rune at a time, an invalid byte
  being U+FFFD of width one.
\<close>

section \<open>Decoding\<close>

definition RuneError :: nat where "RuneError = 65533"

definition cont_byte :: "nat \<Rightarrow> bool" where "cont_byte b \<longleftrightarrow> 128 \<le> b \<and> b \<le> 191"

definition RuneStart :: "nat \<Rightarrow> bool" where "RuneStart b \<longleftrightarrow> \<not> cont_byte b"

fun decodeRune :: "nat list \<Rightarrow> nat \<times> nat" where
  "decodeRune [] = (RuneError, 0)"
| "decodeRune (b0 # bs) =
     (if b0 < 128 then (b0, 1)
      else if 194 \<le> b0 \<and> b0 \<le> 223 then
        (case bs of
           b1 # _ \<Rightarrow> if cont_byte b1 then ((b0 - 192) * 64 + (b1 - 128), 2) else (RuneError, 1)
         | _ \<Rightarrow> (RuneError, 1))
      else if 224 \<le> b0 \<and> b0 \<le> 239 then
        (case bs of
           b1 # b2 # _ \<Rightarrow>
             if (if b0 = 224 then 160 else 128) \<le> b1 \<and> b1 \<le> (if b0 = 237 then 159 else 191) \<and> cont_byte b2
             then ((b0 - 224) * 4096 + (b1 - 128) * 64 + (b2 - 128), 3) else (RuneError, 1)
         | _ \<Rightarrow> (RuneError, 1))
      else if 240 \<le> b0 \<and> b0 \<le> 244 then
        (case bs of
           b1 # b2 # b3 # _ \<Rightarrow>
             if (if b0 = 240 then 144 else 128) \<le> b1 \<and> b1 \<le> (if b0 = 244 then 143 else 191) \<and> cont_byte b2 \<and> cont_byte b3
             then ((b0 - 240) * 262144 + (b1 - 128) * 4096 + (b2 - 128) * 64 + (b3 - 128), 4) else (RuneError, 1)
         | _ \<Rightarrow> (RuneError, 1))
      else (RuneError, 1))"

lemma decodeRune_width: "bs \<noteq> [] \<Longrightarrow> 1 \<le> snd (decodeRune bs) \<and> snd (decodeRune bs) \<le> length bs"
  by (cases bs) (auto split: list.splits)

text \<open>The runes of a byte string with the bytes each of them takes.\<close>

function runes :: "nat list \<Rightarrow> (nat \<times> nat list) list" where
  "runes bs =
     (if bs = [] then []
      else case decodeRune bs of (r, w) \<Rightarrow> (r, take w bs) # runes (drop w bs))"
  by pat_completeness auto
termination
proof (relation "measure length")
  fix bs :: "nat list" and r w
  assume "bs \<noteq> []" "(r, w) = decodeRune bs"
  then show "(drop w bs, bs) \<in> measure length"
    by (metis decodeRune_width diff_less in_measure length_drop length_greater_0_conv less_le_trans snd_conv zero_less_one)
qed simp

declare runes.simps [simp del]

lemma runes_simps [simp]:
  "runes [] = []"
  "bs \<noteq> [] \<Longrightarrow> runes bs = (fst (decodeRune bs), take (snd (decodeRune bs)) bs) # runes (drop (snd (decodeRune bs)) bs)"
  by (simp_all add: runes.simps [of "[]"] runes.simps [of bs] split: prod.splits)

lemma runes_concat: "concat (map snd (runes bs)) = bs"
  by (induction bs rule: runes.induct) (auto simp: runes.simps split: prod.splits)

definition bytes :: "string \<Rightarrow> nat list" where "bytes s = map of_char s"

definition of_bytes :: "nat list \<Rightarrow> string" where "of_bytes bs = map char_of bs"

lemma of_bytes_bytes [simp]: "of_bytes (bytes s) = s"
  by (simp add: of_bytes_def bytes_def comp_def)

text \<open>\<open>utf8.EncodeRune\<close>.\<close>

definition encodeRune :: "nat \<Rightarrow> nat list" where
  "encodeRune r =
     (let r = (if 1114111 < r \<or> (55296 \<le> r \<and> r \<le> 57343) then RuneError else r)
      in if r < 128 then [r]
         else if r < 2048 then [192 + r div 64, 128 + r mod 64]
         else if r < 65536 then [224 + r div 4096, 128 + r div 64 mod 64, 128 + r mod 64]
         else [240 + r div 262144, 128 + r div 4096 mod 64, 128 + r div 64 mod 64, 128 + r mod 64])"

definition RuneCountInString :: "string \<Rightarrow> nat" where
  "RuneCountInString s = length (runes (bytes s))"

lemma RuneCountInString_le: "RuneCountInString s \<le> length s"
proof -
  have "length (runes bs) \<le> length bs" for bs
  proof (induction bs rule: runes.induct)
    case (1 bs)
    show ?case
    proof (cases "bs = []")
      case False
      obtain r w where d: "decodeRune bs = (r, w)" by fastforce
      with decodeRune_width [OF False] have w: "1 \<le> w" "w \<le> length bs" by simp_all
      have "length (runes (drop w bs)) \<le> length bs - w" using 1 [OF False d [symmetric]] by simp
      with w False d show ?thesis by simp
    qed simp
  qed
  from this [of "bytes s"] show ?thesis by (simp add: RuneCountInString_def bytes_def)
qed

section \<open>\<open>strings.TrimSpace\<close>\<close>

definition IsSpace :: "nat \<Rightarrow> bool" where
  "IsSpace r \<longleftrightarrow> (9 \<le> r \<and> r \<le> 13) \<or> r = 32 \<or> r = 133 \<or> r = 160 \<or> r = 5760 \<or> (8192 \<le> r \<and> r \<le> 8202) \<or>
     r = 8232 \<or> r = 8233 \<or> r = 8239 \<or> r = 8287 \<or> r = 12288"

function trimLeftSpace :: "nat list \<Rightarrow> nat list" where
  "trimLeftSpace bs =
     (if bs = [] then []
      else case decodeRune bs of (r, w) \<Rightarrow> if IsSpace r then trimLeftSpace (drop w bs) else bs)"
  by pat_completeness auto
termination
proof (relation "measure length")
  fix bs :: "nat list" and r w
  assume "bs \<noteq> []" "(r, w) = decodeRune bs"
  then show "(drop w bs, bs) \<in> measure length"
    by (metis decodeRune_width diff_less in_measure length_drop length_greater_0_conv less_le_trans snd_conv zero_less_one)
qed simp

text \<open>\<open>DecodeLastRune\<close>: back to the nearest start of a rune, at most four bytes.\<close>

definition decodeLastRune :: "nat list \<Rightarrow> nat \<times> nat" where
  "decodeLastRune bs =
     (case find (\<lambda>w. w \<le> length bs \<and> RuneStart (bs ! (length bs - w))) [1, 2, 3, 4] of
        None \<Rightarrow> (RuneError, 1)
      | Some w \<Rightarrow>
          (case decodeRune (drop (length bs - w) bs) of
             (r, n) \<Rightarrow> if n = w then (r, w) else (RuneError, 1)))"

lemma decodeLastRune_width: "bs \<noteq> [] \<Longrightarrow> 1 \<le> snd (decodeLastRune bs)"
  by (auto simp: decodeLastRune_def split: option.splits prod.splits dest!: find_Some_iff [THEN iffD1] simp: nth_Cons')

function trimRightSpace :: "nat list \<Rightarrow> nat list" where
  "trimRightSpace bs =
     (if bs = [] then []
      else case decodeLastRune bs of (r, w) \<Rightarrow> if IsSpace r then trimRightSpace (take (length bs - w) bs) else bs)"
  by pat_completeness auto
termination
proof (relation "measure length")
  fix bs :: "nat list" and r w
  assume "bs \<noteq> []" "(r, w) = decodeLastRune bs"
  then have "0 < length bs" "1 \<le> w" using decodeLastRune_width [of bs] by (auto dest: sym [of "(r, w)"])
  then show "(take (length bs - w) bs, bs) \<in> measure length" by simp
qed simp

declare trimLeftSpace.simps [simp del] trimRightSpace.simps [simp del]

definition TrimSpace :: "string \<Rightarrow> string" where
  "TrimSpace s = of_bytes (trimRightSpace (trimLeftSpace (bytes s)))"

text \<open>A text of ASCII without spaces is trimmed to itself.\<close>

lemma TrimSpace_plain:
  assumes "s \<noteq> []" "\<forall>c \<in> set s. of_char c < (128 :: nat) \<and> \<not> IsSpace (of_char c)"
  shows "TrimSpace s = s"
proof -
  obtain b bs where b: "bytes s = b # bs" using assms(1) by (cases s) (auto simp: bytes_def)
  have all: "\<forall>x \<in> set (bytes s). x < 128 \<and> \<not> IsSpace x" using assms(2) by (auto simp: bytes_def)
  then have "decodeRune (bytes s) = (b, 1)" "\<not> IsSpace b" using b by auto
  then have l: "trimLeftSpace (bytes s) = bytes s" using b by (simp add: trimLeftSpace.simps)
  have last: "last (bytes s) < 128" "\<not> IsSpace (last (bytes s))" using all b by (metis last_in_set list.distinct(1))+
  have d: "drop (length (bytes s) - 1) (bytes s) = [last (bytes s)]"
    using b by (metis append_butlast_last_id append_eq_conv_conj length_butlast list.distinct(1))
  have "bytes s ! (length (bytes s) - 1) = last (bytes s)" using b by (simp add: last_conv_nth)
  then have "decodeLastRune (bytes s) = (last (bytes s), 1)"
    using last(1) d b by (simp add: decodeLastRune_def RuneStart_def cont_byte_def)
  then have "trimRightSpace (bytes s) = bytes s" using last(2) b by (subst trimRightSpace.simps) simp
  then show ?thesis using l by (simp add: TrimSpace_def)
qed

section \<open>\<open>strings\<close> on single bytes\<close>

text \<open>\<open>strings.Cut\<close> and \<open>strings.Count\<close> at a one-byte separator, \<open>Trim\<close> and \<open>TrimRight\<close> with a cutset of ASCII.\<close>

definition Cut :: "char \<Rightarrow> string \<Rightarrow> string \<times> string \<times> bool" where
  "Cut sep s = (takeWhile (\<lambda>c. c \<noteq> sep) s, drop 1 (dropWhile (\<lambda>c. c \<noteq> sep) s), sep \<in> set s)"

definition Count :: "char \<Rightarrow> string \<Rightarrow> nat" where
  "Count sep s = length (filter (\<lambda>c. c = sep) s)"

definition TrimRight :: "(char \<Rightarrow> bool) \<Rightarrow> string \<Rightarrow> string" where
  "TrimRight cutset s = rev (dropWhile cutset (rev s))"

definition Trim :: "(char \<Rightarrow> bool) \<Rightarrow> string \<Rightarrow> string" where
  "Trim cutset s = TrimRight cutset (dropWhile cutset s)"

lemma TrimRight_prefix: "\<exists>t. s = TrimRight P s @ t"
  by (metis TrimRight_def rev_append rev_rev_ident takeWhile_dropWhile_id)

lemma TrimRight_length [simp]: "length (TrimRight P s) \<le> length s"
  by (simp add: TrimRight_def length_dropWhile_le [of P "rev s", simplified])

lemma set_TrimRight: "set (TrimRight P s) \<subseteq> set s"
  by (metis TrimRight_prefix Un_upper1 set_append)

lemma set_Trim: "set (Trim P s) \<subseteq> set s"
  unfolding Trim_def using set_TrimRight set_dropWhileD by fast

lemma TrimRight_last: "TrimRight P s \<noteq> [] \<Longrightarrow> \<not> P (last (TrimRight P s))"
  unfolding TrimRight_def by (simp add: last_rev hd_dropWhile)

text \<open>Trimming the right of a text that does not begin with the cutset never empties it.\<close>

lemma TrimRight_hd:
  assumes "s \<noteq> []" "\<not> P (hd s)"
  shows "TrimRight P s \<noteq> []" "hd (TrimRight P s) = hd s"
proof -
  show "TrimRight P s \<noteq> []"
    using assms by (metis TrimRight_def dropWhile_eq_Nil_conv hd_in_set rev_is_Nil_conv set_rev)
  then show "hd (TrimRight P s) = hd s" using TrimRight_prefix [of s P] by (metis hd_append2)
qed

lemma Trim_hd: "Trim P s \<noteq> [] \<Longrightarrow> \<not> P (hd (Trim P s))"
  unfolding Trim_def
  by (metis TrimRight_def TrimRight_hd(2) dropWhile.simps(1) hd_dropWhile rev.simps(1))

lemma Trim_last: "Trim P s \<noteq> [] \<Longrightarrow> \<not> P (last (Trim P s))"
  by (simp add: Trim_def TrimRight_last)

section \<open>\<open>strings.ToLower\<close>\<close>

text \<open>
  \<open>strings.ToLower\<close> maps each rune: ASCII by its rule, the rest by Unicode's table, the argument
  \<open>low\<close>. An invalid byte becomes U+FFFD, as \<open>strings.Map\<close> writes it.
\<close>

definition lowerRune :: "(nat \<Rightarrow> nat) \<Rightarrow> nat \<Rightarrow> nat" where
  "lowerRune low r = (if r < 128 then (if 65 \<le> r \<and> r \<le> 90 then r + 32 else r) else low r)"

definition ToLower :: "(nat \<Rightarrow> nat) \<Rightarrow> string \<Rightarrow> string" where
  "ToLower low s = of_bytes (concat (map (encodeRune \<circ> lowerRune low \<circ> fst) (runes (bytes s))))"

definition asciiText :: "string \<Rightarrow> bool" where
  "asciiText s \<longleftrightarrow> (\<forall>c \<in> set s. of_char c < (128 :: nat))"

lemma runes_ascii: "(\<forall>b \<in> set bs. b < 128) \<Longrightarrow> runes bs = map (\<lambda>b. (b, [b])) bs"
proof (induction bs)
  case (Cons b bs)
  have "runes (b # bs) = (b, [b]) # runes bs" using Cons.prems by (simp add: runes_simps(2) [of "b # bs"])
  then show ?case using Cons by simp
qed simp

text \<open>On ASCII it is the byte-wise rule, and lower-case text is a fixed point.\<close>

lemma ToLower_ascii:
  assumes "asciiText s"
  shows "ToLower low s = map (\<lambda>c. char_of (lowerRune low (of_char c))) s"
proof -
  have "runes (bytes s) = map (\<lambda>b. (b, [b])) (bytes s)"
    using assms by (intro runes_ascii) (auto simp: bytes_def asciiText_def)
  then have "ToLower low s = of_bytes (concat (map (\<lambda>c. encodeRune (lowerRune low (of_char c))) s))"
    by (simp add: ToLower_def bytes_def comp_def)
  also have "map (\<lambda>c. encodeRune (lowerRune low (of_char c))) s = map (\<lambda>c. [lowerRune low (of_char c)]) s"
    using assms by (auto simp: asciiText_def encodeRune_def lowerRune_def Let_def)
  finally show ?thesis by (simp add: of_bytes_def comp_def)
qed

lemma ToLower_fix:
  assumes "\<forall>c \<in> set s. of_char c < (128 :: nat) \<and> \<not> (65 \<le> (of_char c :: nat) \<and> (of_char c :: nat) \<le> 90)"
  shows "ToLower low s = s"
proof -
  have "asciiText s" using assms by (simp add: asciiText_def)
  from ToLower_ascii [OF this] show ?thesis
    using assms by (simp add: map_idI lowerRune_def)
qed

end
