(* ===== verification/Go_Time.thy ===== *)
theory Go_Time
  imports Catenary_Base
begin

text \<open>
  What the sources use of Go's \<open>time.Format\<close>: the layout \<open>2006-01-02T15:04:05.000Z\<close> of
  \<open>internal/wireview/message.go\<close>, the wire's timestamp. A time counts nanoseconds since
  the first instant of year 1 UTC, so the civil date is the split of the days into cycles of
  400, 100, 4 and 1 years that \<open>time.Time\<close> makes. The schema calls the served texts sortable;
  the lemmas below show that they sort as the times they stand for.
\<close>

section \<open>The civil date\<close>

definition leapYear :: "int \<Rightarrow> bool" where
  "leapYear y \<longleftrightarrow> y mod 4 = 0 \<and> (y mod 100 \<noteq> 0 \<or> y mod 400 = 0)"

text \<open>The year and the day of the year, from the days since 0001-01-01.\<close>

definition civilYear :: "int \<Rightarrow> int \<times> int" where
  "civilYear d =
     (let n400 = d div 146097; d1 = d mod 146097;
          n100 = min 3 (d1 div 36524); d2 = d1 - 36524 * n100;
          n4 = d2 div 1461; d3 = d2 mod 1461;
          n1 = min 3 (d3 div 365)
      in (1 + 400 * n400 + 100 * n100 + 4 * n4 + n1, d3 - 365 * n1))"

definition monthStarts :: "bool \<Rightarrow> int list" where
  "monthStarts leap =
     (let l = (if leap then 1 else 0)
      in [0, 31, 59 + l, 90 + l, 120 + l, 151 + l, 181 + l, 212 + l, 243 + l, 273 + l, 304 + l, 334 + l])"

text \<open>The month is the number of months begun, the day counts from the start of the last of them.\<close>

definition civilMonth :: "bool \<Rightarrow> int \<Rightarrow> int \<times> int" where
  "civilMonth leap yday =
     (let begun = filter (\<lambda>s. s \<le> yday) (monthStarts leap)
      in (int (length begun), yday - last begun + 1))"

section \<open>The layout\<close>

fun pad :: "nat \<Rightarrow> nat \<Rightarrow> string" where
  "pad 0 n = []"
| "pad (Suc w) n = pad w (n div 10) @ [char_of (48 + n mod 10)]"

text \<open>\<open>appendInt(b, year, 4)\<close>: a sign in front of a negative year, more digits for a year past 9999.\<close>

definition padYear :: "int \<Rightarrow> string" where
  "padYear y =
     (if y < 0 then ''-'' else []) @
     (if \<bar>y\<bar> < 10000 then pad 4 (nat \<bar>y\<bar>) else decimal (nat \<bar>y\<bar>))"

definition day_ns :: int where "day_ns = 86400 * second"

definition formatWire :: "gotime \<Rightarrow> string" where
  "formatWire t =
     (let (y, yday) = civilYear (t div day_ns);
          (mo, d) = civilMonth (leapYear y) yday;
          ms = (t mod day_ns) div 1000000
      in padYear y @ ''-'' @ pad 2 (nat mo) @ ''-'' @ pad 2 (nat d) @ ''T'' @
         pad 2 (nat (ms div 3600000)) @ '':'' @ pad 2 (nat (ms div 60000 mod 60)) @ '':'' @
         pad 2 (nat (ms div 1000 mod 60)) @ ''.'' @ pad 3 (nat (ms mod 1000)) @ ''Z'')"

section \<open>Texts of fixed width compare as their fields do\<close>

lemma length_pad [simp]: "length (pad w n) = w"
  by (induction w arbitrary: n) simp_all

lemma append_less_left: "(xs :: string) < ys \<Longrightarrow> length xs = length ys \<Longrightarrow> xs @ us < ys @ vs"
  by (simp add: list_less_def lexord_sufI)

lemma append_less_right: "(us :: string) < vs \<Longrightarrow> xs @ us < xs @ vs"
  by (induction xs) simp_all

lemma char_of_less: "a < b \<Longrightarrow> b < 256 \<Longrightarrow> (char_of (a :: nat) :: char) < char_of b"
  by (simp add: less_char_def)

lemma pad_less: "n < m \<Longrightarrow> m < 10 ^ w \<Longrightarrow> pad w n < pad w m"
proof (induction w arbitrary: n m)
  case (Suc w)
  have m: "m div 10 < 10 ^ w" using Suc.prems(2) by (simp add: less_mult_imp_div_less mult.commute)
  show ?case
  proof (cases "n div 10 < m div 10")
    case True
    then show ?thesis using Suc.IH [OF True m] by (simp add: append_less_left)
  next
    case False
    then have "n div 10 = m div 10" "n mod 10 < m mod 10" using Suc.prems(1)
      by (metis div_le_mono le_antisym less_imp_le_nat not_less)
         (metis False Suc.prems(1) div_le_mono div_mult_mod_eq le_antisym less_imp_le_nat nat_add_left_cancel_less not_less)
    then show ?thesis by (auto intro!: append_less_right char_of_less)
  qed
qed simp

text \<open>Two texts that begin with a field of width \<open>w\<close>: the field decides, or the rest does.\<close>

lemma pad_field_less:
  assumes "a < b \<or> a = b \<and> us < vs" "b < 10 ^ w"
  shows "pad w a @ us < pad w b @ vs"
  using assms by (auto intro: append_less_left append_less_right pad_less)

lemma div_mod_less: "(a :: int) < b \<Longrightarrow> 0 < k \<Longrightarrow> a div k < b div k \<or> a div k = b div k \<and> a mod k < b mod k"
proof -
  assume a: "a < b" "0 < k"
  then have "a div k \<le> b div k" by (intro zdiv_mono1) simp_all
  moreover have "a mod k < b mod k" if "a div k = b div k"
    using a(1) that minus_div_mult_eq_mod [of a k] minus_div_mult_eq_mod [of b k] by (metis diff_less_eq diff_add_cancel)
  ultimately show ?thesis by linarith
qed

section \<open>The date is monotone in the day\<close>

definition yearStart :: "int \<Rightarrow> int" where
  "yearStart y = 365 * (y - 1) + (y - 1) div 4 - (y - 1) div 100 + (y - 1) div 400"

definition yearLen :: "int \<Rightarrow> int" where "yearLen y = (if leapYear y then 366 else 365)"

lemma div_of_parts:
  fixes a b c e :: int
  assumes "0 \<le> b" "b \<le> 3" "0 \<le> c" "c \<le> 24" "0 \<le> e" "e \<le> 3"
  shows "(400 * a + 100 * b + 4 * c + e) div 4 = 100 * a + 25 * b + c"
    "(400 * a + 100 * b + 4 * c + e) div 100 = 4 * a + b"
    "(400 * a + 100 * b + 4 * c + e) div 400 = a"
proof -
  let ?n = "400 * a + 100 * b + 4 * c + e"
  show "?n div 4 = 100 * a + 25 * b + c"
    using assms by (intro int_div_pos_eq [where r = e]) simp_all
  show "?n div 100 = 4 * a + b"
    using assms by (intro int_div_pos_eq [where r = "4 * c + e"]) simp_all
  show "?n div 400 = a"
    using assms by (intro int_div_pos_eq [where r = "100 * b + 4 * c + e"]) simp_all
qed

text \<open>The cycles the split yields, and what is left inside the last of them.\<close>

lemma civilYear_parts:
  obtains a b c e where "0 \<le> b" "b \<le> 3" "0 \<le> c" "c \<le> 24" "0 \<le> e" "e \<le> 3"
    "fst (civilYear d) = 1 + 400 * a + 100 * b + 4 * c + e"
    "d = 146097 * a + 36524 * b + 1461 * c + 365 * e + snd (civilYear d)"
    "0 \<le> snd (civilYear d)" "snd (civilYear d) \<le> 365"
    "snd (civilYear d) = 365 \<longrightarrow> e = 3 \<and> (c < 24 \<or> b = 3)"
proof -
  define n400 d1 where "n400 = d div 146097" and "d1 = d mod 146097"
  define n100 where "n100 = min 3 (d1 div 36524)"
  define d2 where "d2 = d1 - 36524 * n100"
  define n4 d3 where "n4 = d2 div 1461" and "d3 = d2 mod 1461"
  define n1 where "n1 = min 3 (d3 div 365)"
  have y: "civilYear d = (1 + 400 * n400 + 100 * n100 + 4 * n4 + n1, d3 - 365 * n1)"
    by (simp add: civilYear_def Let_def n400_def d1_def n100_def d2_def n4_def d3_def n1_def)
  have d: "d = 146097 * n400 + d1" by (simp add: n400_def d1_def)
  have d1: "0 \<le> d1" "d1 < 146097" by (simp_all add: d1_def)
  have n100: "0 \<le> n100" "n100 \<le> 3" "0 \<le> d2" "d2 \<le> 36524" "d2 = 36524 \<longrightarrow> n100 = 3"
  proof -
    define q where "q = d1 div 36524"
    have q: "0 \<le> q" "36524 * q \<le> d1" "d1 < 36524 * q + 36524"
      using d1 pos_mod_bound [of 36524 d1] pos_mod_sign [of 36524 d1] minus_mod_eq_mult_div [of d1 36524]
      by (simp_all add: q_def pos_imp_zdiv_nonneg_iff)
    have n: "n100 = min 3 q" by (simp add: n100_def q_def)
    show "0 \<le> n100" "n100 \<le> 3" "0 \<le> d2" "d2 \<le> 36524" "d2 = 36524 \<longrightarrow> n100 = 3"
      using q d1 unfolding d2_def n min_def by (simp_all split: if_splits)
  qed
  have d2: "d2 = 1461 * n4 + d3" by (simp add: n4_def d3_def)
  have d3: "0 \<le> d3" "d3 < 1461" by (simp_all add: d3_def)
  have n4: "0 \<le> n4" "n4 \<le> 24" using d2 d3 n100 by linarith+
  have n1: "0 \<le> n1" "n1 \<le> 3" "0 \<le> d3 - 365 * n1" "d3 - 365 * n1 \<le> 365" "d3 - 365 * n1 = 365 \<longrightarrow> n1 = 3 \<and> d3 = 1460"
  proof -
    define q where "q = d3 div 365"
    have q: "0 \<le> q" "365 * q \<le> d3" "d3 < 365 * q + 365"
      using d3 pos_mod_bound [of 365 d3] pos_mod_sign [of 365 d3] minus_mod_eq_mult_div [of d3 365]
      by (simp_all add: q_def pos_imp_zdiv_nonneg_iff)
    have n: "n1 = min 3 q" by (simp add: n1_def q_def)
    show "0 \<le> n1" "n1 \<le> 3" "0 \<le> d3 - 365 * n1" "d3 - 365 * n1 \<le> 365" "d3 - 365 * n1 = 365 \<longrightarrow> n1 = 3 \<and> d3 = 1460"
      using q d3 unfolding n min_def by (simp_all split: if_splits)
  qed
  have e: "d3 - 365 * n1 = 365 \<longrightarrow> n1 = 3 \<and> (n4 < 24 \<or> n100 = 3)"
  proof (intro impI conjI)
    assume a: "d3 - 365 * n1 = 365"
    then show "n1 = 3" using n1 by blast
    have "d3 = 1460" using a n1 by blast
    then show "n4 < 24 \<or> n100 = 3" using d2 n100 n4 by linarith
  qed
  show thesis
    by (rule that [of n100 n4 n1 n400]) (use y d d2 d2_def n100 n4 n1 e in auto)
qed

lemma civilYear_inverse:
  "yearStart (fst (civilYear d)) + snd (civilYear d) = d"
  "0 \<le> snd (civilYear d)" "snd (civilYear d) < yearLen (fst (civilYear d))"
proof -
  obtain a b c e where p: "0 \<le> b" "b \<le> 3" "0 \<le> c" "c \<le> 24" "0 \<le> e" "e \<le> 3"
    and y: "fst (civilYear d) = 1 + 400 * a + 100 * b + 4 * c + e"
    and d: "d = 146097 * a + 36524 * b + 1461 * c + 365 * e + snd (civilYear d)"
    and r: "0 \<le> snd (civilYear d)" "snd (civilYear d) \<le> 365"
    and l: "snd (civilYear d) = 365 \<longrightarrow> e = 3 \<and> (c < 24 \<or> b = 3)"
    by (rule civilYear_parts)
  have y': "fst (civilYear d) - 1 = 400 * a + 100 * b + 4 * c + e" using y by simp
  show "yearStart (fst (civilYear d)) + snd (civilYear d) = d"
  proof -
    have "365 * (400 * a + 100 * b + 4 * c + e) + (100 * a + 25 * b + c) - (4 * a + b) + a + s = d"
      if "d = 146097 * a + 36524 * b + 1461 * c + 365 * e + s" for s
      using that by simp
    from this [OF d] show ?thesis by (simp only: yearStart_def y' div_of_parts [OF p])
  qed
  show "0 \<le> snd (civilYear d)" by (fact r)
  have "leapYear (fst (civilYear d))" if s: "snd (civilYear d) = 365"
  proof -
    from l s have e: "e = 3" and "c < 24 \<or> b = 3" by blast+
    then consider "c < 24" | "c = 24" "b = 3" using p by linarith
    then show ?thesis
    proof cases
      case 1
      have "(1 + 400 * a + 100 * b + 4 * c + e) mod 100 = 4 * (c + 1)"
        using 1 p e by (intro int_mod_pos_eq [where q = "4 * a + b"]) simp_all
      moreover have "(1 + 400 * a + 100 * b + 4 * c + e) mod 4 = 0"
        using e by (intro int_mod_pos_eq [where q = "100 * a + 25 * b + c + 1"]) simp_all
      ultimately show ?thesis using p by (simp add: leapYear_def y)
    next
      case 2
      then show ?thesis using e by (simp add: leapYear_def y algebra_simps)
    qed
  qed
  then show "snd (civilYear d) < yearLen (fst (civilYear d))"
    using r by (cases "snd (civilYear d) = 365") (auto simp: yearLen_def)
qed

lemma div_pred:
  fixes y k :: int
  assumes "0 < k"
  shows "y div k = (y - 1) div k + (if y mod k = 0 then 1 else 0)"
proof (cases "y mod k = 0")
  case True
  then have "(y - 1) div k = y div k - 1"
    using assms by (intro int_div_pos_eq [where r = "k - 1"]) (auto simp: algebra_simps)
  then show ?thesis using True by simp
next
  case False
  have "0 \<le> y mod k" "y mod k < k" using assms by simp_all
  then have "(y - 1) div k = y div k"
    using False by (intro int_div_pos_eq [where r = "y mod k - 1"]) (auto simp: algebra_simps)
  then show ?thesis using False by simp
qed

lemma yearStart_Suc: "yearStart (y + 1) = yearStart y + yearLen y"
proof -
  have imp: "y mod 400 = 0 \<longrightarrow> y mod 100 = 0" "y mod 100 = 0 \<longrightarrow> y mod 4 = 0"
    using mod_mod_cancel [of 100 400 y] mod_mod_cancel [of 4 100 y] by (auto simp: mod_0)
  have len: "yearLen y = 365 + (if y mod 4 = 0 then 1 else 0) - (if y mod 100 = 0 then 1 else 0)
      + (if y mod 400 = 0 then 1 else 0)"
  proof -
    have "(if p \<and> (\<not> q \<or> r) then 366 else 365) = 365 + (if p then 1 else 0) - (if q then 1 else 0) + (if r then 1 else (0 :: int))"
      if "r \<longrightarrow> q" "q \<longrightarrow> p" for p q r using that by (cases p; cases q; cases r) simp_all
    from this [OF imp] show ?thesis unfolding yearLen_def leapYear_def .
  qed
  have "365 * y + (A + i) - (B + j) + (C + k) = 365 * (y - 1) + A - B + C + (365 + i - j + k)" for A B C i j k :: int
    by simp
  moreover have "yearStart (y + 1) = 365 * y + y div 4 - y div 100 + y div 400" by (simp add: yearStart_def)
  ultimately show ?thesis
    by (simp only: len yearStart_def [of y] div_pred [of 4 y] div_pred [of 100 y] div_pred [of 400 y] zero_less_numeral)
qed

lemma yearStart_less: "y < y' \<Longrightarrow> yearStart y + yearLen y \<le> yearStart y'"
proof -
  have "yearStart y + yearLen y \<le> yearStart (y + 1 + int n)" for n
  proof (induction n)
    case 0
    then show ?case by (simp add: yearStart_Suc)
  next
    case (Suc n)
    have "0 \<le> yearLen (y + 1 + int n)" by (simp add: yearLen_def)
    with Suc yearStart_Suc [of "y + 1 + int n"] show ?case by (simp add: algebra_simps)
  qed
  from this [of "nat (y' - y - 1)"] show "y < y' \<Longrightarrow> yearStart y + yearLen y \<le> yearStart y'" by simp
qed

lemma civilYear_less:
  assumes "d < d'"
  shows "fst (civilYear d) < fst (civilYear d') \<or>
    fst (civilYear d) = fst (civilYear d') \<and> snd (civilYear d) < snd (civilYear d')"
proof (rule ccontr)
  assume n: "\<not> ?thesis"
  then have "fst (civilYear d') < fst (civilYear d) \<or>
      fst (civilYear d') = fst (civilYear d) \<and> snd (civilYear d') \<le> snd (civilYear d)" by linarith
  then show False
    using assms civilYear_inverse [of d] civilYear_inverse [of d'] yearStart_less [of "fst (civilYear d')" "fst (civilYear d)"]
    by auto
qed

lemma civilMonth_range:
  assumes "0 \<le> yday" "yday < 366"
  shows "fst (civilMonth leap yday) \<in> {1..12} \<and> snd (civilMonth leap yday) \<in> {1..32}"
proof -
  obtain l where l: "l = (if leap then 1 else (0 :: int))" "0 \<le> l" "l \<le> 1" by simp
  consider "yday < 31" | "31 \<le> yday" "yday < 59 + l" | "59 + l \<le> yday" "yday < 90 + l" | "90 + l \<le> yday" "yday < 120 + l"
    | "120 + l \<le> yday" "yday < 151 + l" | "151 + l \<le> yday" "yday < 181 + l" | "181 + l \<le> yday" "yday < 212 + l"
    | "212 + l \<le> yday" "yday < 243 + l" | "243 + l \<le> yday" "yday < 273 + l" | "273 + l \<le> yday" "yday < 304 + l"
    | "304 + l \<le> yday" "yday < 334 + l" | "334 + l \<le> yday" by linarith
  then show ?thesis
    unfolding civilMonth_def monthStarts_def l(1) [symmetric] by cases (use assms l(2,3) in \<open>simp_all add: Let_def\<close>)
qed

lemma filter_chain:
  assumes "\<And>x. x \<in> set xs \<Longrightarrow> P x \<Longrightarrow> Q x"
  shows "length (filter P xs) < length (filter Q xs) \<or> filter P xs = filter Q xs"
proof -
  have "filter P xs = filter P (filter Q xs)" using assms by (induction xs) auto
  then show ?thesis by (metis filter_id_conv length_filter_le length_filter_less le_neq_implies_less)
qed

lemma civilMonth_less:
  assumes "yday < yday'"
  shows "fst (civilMonth leap yday) < fst (civilMonth leap yday') \<or>
    fst (civilMonth leap yday) = fst (civilMonth leap yday') \<and> snd (civilMonth leap yday) < snd (civilMonth leap yday')"
  using filter_chain [of "monthStarts leap" "\<lambda>s. s \<le> yday" "\<lambda>s. s \<le> yday'"] assms
  by (auto simp: civilMonth_def Let_def)

section \<open>Served timestamps sort as times\<close>

text \<open>The date and the clock of a time, as the texts they are served as.\<close>

definition dateText :: "int \<Rightarrow> string \<Rightarrow> string" where
  "dateText d rest =
     (let (y, yday) = civilYear d; (mo, dd) = civilMonth (leapYear y) yday
      in pad 4 (nat y) @ ''-'' @ pad 2 (nat mo) @ ''-'' @ pad 2 (nat dd) @ ''T'' @ rest)"

definition clockText :: "int \<Rightarrow> string" where
  "clockText ms =
     pad 2 (nat (ms div 3600000)) @ '':'' @ pad 2 (nat (ms div 60000 mod 60)) @ '':'' @
     pad 2 (nat (ms div 1000 mod 60)) @ ''.'' @ pad 3 (nat (ms mod 1000)) @ ''Z''"

definition year10k :: int where "year10k = 3652059"

lemma civilYear_in_range:
  assumes "0 \<le> d" "d < year10k"
  shows "1 \<le> fst (civilYear d)" "fst (civilYear d) < 10000"
proof -
  have s: "yearStart 1 = 0" "yearStart 10000 = year10k" "yearLen 10000 = 366"
    by (simp_all add: yearStart_def year10k_def yearLen_def leapYear_def)
  show "1 \<le> fst (civilYear d)"
    using assms s civilYear_inverse [of d] yearStart_less [of "fst (civilYear d)" 1] by force
  have "d < yearStart (fst (civilYear d))" if "10000 \<le> fst (civilYear d)"
    using that assms s yearStart_less [of 10000 "fst (civilYear d)"] by (cases "fst (civilYear d) = 10000") auto
  then show "fst (civilYear d) < 10000" using civilYear_inverse [of d] by force
qed

lemma formatWire_parts:
  assumes "0 \<le> t" "t < year10k * day_ns"
  shows "formatWire t = dateText (t div day_ns) (clockText (t mod day_ns div 1000000))"
proof -
  have "0 \<le> t div day_ns" "t div day_ns < year10k"
    using assms by (simp_all add: day_ns_def second_def year10k_def pos_imp_zdiv_nonneg_iff div_less_iff_less_mult)
  from civilYear_in_range [OF this] show ?thesis
    by (simp add: formatWire_def dateText_def clockText_def padYear_def Let_def case_prod_beta)
qed

lemma dateText_less:
  assumes "d < d' \<or> d = d' \<and> us < vs" "0 \<le> d" "d' < year10k"
  shows "dateText d us < dateText d' vs"
proof -
  let ?y = "fst (civilYear d)" and ?y' = "fst (civilYear d')"
  let ?m = "civilMonth (leapYear ?y) (snd (civilYear d))" and ?m' = "civilMonth (leapYear ?y') (snd (civilYear d'))"
  have "0 \<le> d'" "d < year10k" using assms by auto
  note y = civilYear_in_range [OF assms(2) this(2)] civilYear_in_range [OF this(1) assms(3)]
  have "snd (civilYear x) < 366" for x using civilYear_inverse(3) [of x] by (simp add: yearLen_def split: if_splits)
  then have m: "fst ?m \<in> {1..12} \<and> snd ?m \<in> {1..32}" "fst ?m' \<in> {1..12} \<and> snd ?m' \<in> {1..32}"
    by (intro civilMonth_range civilYear_inverse; simp)+
  have "?y < ?y' \<or> ?y = ?y' \<and> (fst ?m < fst ?m' \<or> fst ?m = fst ?m' \<and> (snd ?m < snd ?m' \<or> snd ?m = snd ?m' \<and> us < vs))"
    using assms(1) civilYear_less [of d d'] civilMonth_less [of "snd (civilYear d)" "snd (civilYear d')" "leapYear ?y'"]
    by auto
  then have "nat ?y < nat ?y' \<or> nat ?y = nat ?y' \<and> (nat (fst ?m) < nat (fst ?m') \<or> nat (fst ?m) = nat (fst ?m') \<and>
      (nat (snd ?m) < nat (snd ?m') \<or> nat (snd ?m) = nat (snd ?m') \<and> us < vs))"
    using y m by auto
  moreover have "nat ?y' < 10 ^ 4" "nat (fst ?m') < 10 ^ 2" "nat (snd ?m') < 10 ^ 2" using y m by auto
  ultimately show ?thesis
    unfolding dateText_def Let_def case_prod_beta
    by (intro pad_field_less) (auto intro!: append_less_right pad_field_less simp del: append.simps)
qed

lemma mod_mult_parts:
  fixes x k j :: int
  assumes "0 < k" "0 < j"
  shows "x mod (k * j) div k = x div k mod j" "x mod (k * j) mod k = x mod k"
  using zmod_zmult2_eq [of j x k] assms by (simp_all add: mod_mod_cancel)

lemma clock_fields_less:
  fixes h mi s l :: int
  assumes "h < h' \<or> h = h' \<and> (mi < mi' \<or> mi = mi' \<and> (s < s' \<or> s = s' \<and> l < l'))"
    and "0 \<le> h" "0 \<le> mi" "0 \<le> s" "0 \<le> l" "h' < 100" "mi' < 100" "s' < 100" "l' < 1000"
  shows "pad 2 (nat h) @ '':'' @ pad 2 (nat mi) @ '':'' @ pad 2 (nat s) @ ''.'' @ pad 3 (nat l) @ ''Z''
    < pad 2 (nat h') @ '':'' @ pad 2 (nat mi') @ '':'' @ pad 2 (nat s') @ ''.'' @ pad 3 (nat l') @ ''Z''"
proof -
  have "nat h < nat h' \<or> nat h = nat h' \<and> (nat mi < nat mi' \<or> nat mi = nat mi' \<and>
      (nat s < nat s' \<or> nat s = nat s' \<and> nat l < nat l'))" using assms(1-5) by auto
  moreover have "nat h' < 10 ^ 2" "nat mi' < 10 ^ 2" "nat s' < 10 ^ 2" "nat l' < 10 ^ 3" using assms by auto
  ultimately show ?thesis
    by (intro pad_field_less) (auto intro!: append_less_right pad_field_less simp del: append.simps)
qed

lemma clockText_less:
  assumes "ms < ms'" "0 \<le> ms" "ms' < 86400000"
  shows "clockText ms < clockText ms'"
proof -
  have parts: "x mod 3600000 div 60000 = x div 60000 mod 60" "x mod 60000 div 1000 = x div 1000 mod 60"
    "x mod 3600000 mod 60000 = x mod 60000" "x mod 60000 mod 1000 = x mod 1000" for x :: int
    by (fact mod_mult_parts [of 60000 60 x, simplified] mod_mult_parts [of 1000 60 x, simplified])+
  have lex: "ms div 3600000 < ms' div 3600000 \<or> ms div 3600000 = ms' div 3600000 \<and>
     (ms div 60000 mod 60 < ms' div 60000 mod 60 \<or> ms div 60000 mod 60 = ms' div 60000 mod 60 \<and>
       (ms div 1000 mod 60 < ms' div 1000 mod 60 \<or> ms div 1000 mod 60 = ms' div 1000 mod 60 \<and> ms mod 1000 < ms' mod 1000))"
    using div_mod_less [OF assms(1), of 3600000] div_mod_less [of "ms mod 3600000" "ms' mod 3600000" 60000]
      div_mod_less [of "ms mod 60000" "ms' mod 60000" 1000] unfolding parts by auto
  have "m mod 60 < 100" "0 \<le> m mod 60" "m mod 1000 < 1000" "0 \<le> m mod 1000" for m :: int
    using pos_mod_bound [of 60 m] by simp_all
  moreover have "0 \<le> ms div 3600000" "ms' div 3600000 < 100" using assms by (simp_all add: pos_imp_zdiv_nonneg_iff div_less_iff_less_mult)
  ultimately show ?thesis
    unfolding clockText_def using lex by (intro clock_fields_less)
qed

text \<open>
  The wire's timestamps sort chronologically as strings (the promise of the schema): for
  times of the years 1 to 9999 the order of the served texts is the order of the times at the
  millisecond the layout keeps, and two texts are equal exactly for times of one millisecond.
\<close>

theorem timestamps_sort_as_times:
  assumes "0 \<le> t" "t < year10k * day_ns" "0 \<le> u" "u < year10k * day_ns"
  shows "(formatWire t \<le> formatWire u \<longleftrightarrow> t div 1000000 \<le> u div 1000000) \<and>
    (formatWire t = formatWire u \<longleftrightarrow> t div 1000000 = u div 1000000)"
proof -
  have ms: "x div day_ns = x div 1000000 div 86400000" "x mod day_ns div 1000000 = x div 1000000 mod 86400000" for x
  proof -
    have day: "day_ns = 1000000 * 86400000" by (simp add: day_ns_def second_def)
    show "x mod day_ns div 1000000 = x div 1000000 mod 86400000" unfolding day by (rule mod_mult_parts) simp_all
    show "x div day_ns = x div 1000000 div 86400000" unfolding day by (rule zdiv_zmult2_eq) simp
  qed
  have less: "formatWire x < formatWire z"
    if "x div 1000000 < z div 1000000" "0 \<le> x" "x < year10k * day_ns" "0 \<le> z" "z < year10k * day_ns" for x z
  proof -
    have "x div day_ns < z div day_ns \<or> x div day_ns = z div day_ns \<and>
        x mod day_ns div 1000000 < z mod day_ns div 1000000"
      using div_mod_less [OF that(1), of 86400000] by (simp only: ms)
    moreover have "0 \<le> x div day_ns" "z div day_ns < year10k"
      using that by (simp_all add: day_ns_def second_def year10k_def pos_imp_zdiv_nonneg_iff div_less_iff_less_mult)
    ultimately show ?thesis
      unfolding formatWire_parts [OF that(2,3)] formatWire_parts [OF that(4,5)]
      by (intro dateText_less) (auto intro!: clockText_less simp: ms(2))
  qed
  have eq: "formatWire t = formatWire u" if "t div 1000000 = u div 1000000"
    using that by (simp add: formatWire_parts assms ms)
  show ?thesis
    using less [of t u] less [of u t] eq assms by (cases "t div 1000000" "u div 1000000" rule: linorder_cases) auto
qed

theorem timestamps_sort_as_times_witness:
  "formatWire 5 \<le> formatWire (day_ns + 5) \<and> formatWire 5 \<noteq> formatWire (day_ns + 5)"
  using timestamps_sort_as_times [of 5 "day_ns + 5"] by (simp add: year10k_def day_ns_def second_def)

end
