(* ===== verification/Wireview.thy ===== *)
theory Wireview
  imports Store_Sync Go_Text Go_Time
begin

text \<open>
  \<open>internal/wireview\<close>: rows and a reader in, wire types out. \<open>wireMessage\<close>, \<open>wireConversation\<close>,
  \<open>wireUser\<close> and \<open>wireSync\<close> are the package's \<open>Message\<close>, \<open>Conversation\<close>, \<open>User\<close> and \<open>Sync\<close>. A reader
  without a media deriver is a wiring mistake the code panics on: the value \<open>None\<close>. The decoder of
  a stored transcript (\<open>encoding/json\<close>) and the letter tables of \<open>unicode\<close> are arguments; every
  theorem holds for all of them.
\<close>

section \<open>Text\<close>

text \<open>\<open>strings.FieldsFunc\<close> over the runes of a string: the maximal runs without a separator.\<close>

fun splitRunes :: "(nat \<Rightarrow> bool) \<Rightarrow> (nat \<times> nat list) list \<Rightarrow> (nat \<times> nat list) list list" where
  "splitRunes sep [] = [[]]"
| "splitRunes sep (r # rs) =
     (if sep (fst r) then [] # splitRunes sep rs
      else case splitRunes sep rs of [] \<Rightarrow> [[r]] | w # ws \<Rightarrow> (r # w) # ws)"

definition runeBytes :: "(nat \<times> nat list) list \<Rightarrow> nat list" where
  "runeBytes rs = concat (map snd rs)"

definition FieldsFunc :: "(nat \<Rightarrow> bool) \<Rightarrow> string \<Rightarrow> string list" where
  "FieldsFunc sep s =
     map (of_bytes \<circ> runeBytes) (filter (\<lambda>w. w \<noteq> []) (splitRunes sep (runes (bytes s))))"

definition Fields :: "string \<Rightarrow> string list" where "Fields s = FieldsFunc IsSpace s"

fun join :: "string \<Rightarrow> string list \<Rightarrow> string" where
  "join sep [] = []"
| "join sep [w] = w"
| "join sep (w # v # ws) = w @ sep @ join sep (v # ws)"

definition previewRunes :: nat where "previewRunes = 48"

definition ellipsis :: string where "ellipsis = of_bytes [226, 128, 166]"

text \<open>The scan for the cut: bytes before the rune, runes before it, the last space seen.\<close>

fun previewScan :: "(nat \<times> nat list) list \<Rightarrow> nat \<Rightarrow> nat \<Rightarrow> nat \<Rightarrow> nat \<Rightarrow> nat" where
  "previewScan [] budget i n cutAt = cutAt"
| "previewScan ((r, bs) # rs) budget i n cutAt =
     (if budget < n then cutAt
      else previewScan rs budget (i + length bs) (n + 1) (if r = 32 then i else cutAt))"

fun runeIndexLoop :: "(nat \<times> nat list) list \<Rightarrow> nat \<Rightarrow> nat \<Rightarrow> nat \<Rightarrow> nat" where
  "runeIndexLoop [] n count i = i"
| "runeIndexLoop ((r, bs) # rs) n count i =
     (if count = n then i else runeIndexLoop rs n (count + 1) (i + length bs))"

definition runeIndex :: "string \<Rightarrow> nat \<Rightarrow> nat" where
  "runeIndex s n = runeIndexLoop (runes (bytes s)) n 0 0"

definition preview :: "string \<Rightarrow> string" where
  "preview text =
     (let s = join '' '' (Fields text)
      in if RuneCountInString s \<le> previewRunes then s
         else let budget = previewRunes - 1;
                  cutAt = previewScan (runes (bytes s)) budget 0 0 0;
                  cutAt = (if cutAt = 0 then runeIndex s budget else cutAt)
              in take cutAt s @ ellipsis)"

text \<open>
  The initials of a name: the first letters of the first two words or the
  first two of the only one.
\<close>

record UnicodeTables =
  ut_IsLetter :: "nat \<Rightarrow> bool"
  ut_IsNumber :: "nat \<Rightarrow> bool"
  ut_ToUpper :: "nat \<Rightarrow> nat"

definition firstN :: "string \<Rightarrow> nat \<Rightarrow> string" where
  "firstN s n = of_bytes (concat (map (encodeRune \<circ> fst) (take n (runes (bytes s)))))"

definition ToUpper :: "UnicodeTables \<Rightarrow> string \<Rightarrow> string" where
  "ToUpper ut s = of_bytes (concat (map (encodeRune \<circ> ut_ToUpper ut \<circ> fst) (runes (bytes s))))"

definition initials :: "UnicodeTables \<Rightarrow> string \<Rightarrow> string" where
  "initials ut name =
     (case FieldsFunc (\<lambda>r. \<not> ut_IsLetter ut r \<and> \<not> ut_IsNumber ut r) name of
        [] \<Rightarrow> []
      | [w] \<Rightarrow> ToUpper ut (firstN w 2)
      | w # v # _ \<Rightarrow> ToUpper ut (firstN w 1 @ firstN v 1))"

section \<open>A message for one reader\<close>

record storedSegment =
  ss_AtMs :: int
  ss_Text :: string

record storedTranscript =
  st_Text :: "string option"
  st_WordCount :: "int option"
  st_Segments :: "storedSegment list"
  st_Engine :: "string option"
  st_Language :: "string option"
  st_ETASec :: "int option"

type_synonym transcript_decoder = "string \<Rightarrow> storedTranscript"

record Viewer =
  vw_UserID :: uuid
  vw_State :: string
  vw_ReadBy :: "int option"
  vw_MediaURL :: "(string \<Rightarrow> string) option"

definition deref :: "int option \<Rightarrow> int" where
  "deref p = (case p of None \<Rightarrow> 0 | Some x \<Rightarrow> x)"

definition derefString :: "string option \<Rightarrow> string" where
  "derefString p = (case p of None \<Rightarrow> '''' | Some x \<Rightarrow> x)"

definition segments :: "storedSegment list \<Rightarrow> TranscriptSegment list" where
  "segments stored = map (\<lambda>s. \<lparr>ts_AtMs = ss_AtMs s, ts_Text = ss_Text s\<rparr>) stored"

definition emptyTranscript :: storedTranscript where
  "emptyTranscript = \<lparr>st_Text = None, st_WordCount = None, st_Segments = [], st_Engine = None, st_Language = None, st_ETASec = None\<rparr>"

definition decodeStoredTranscript :: "transcript_decoder \<Rightarrow> string option \<Rightarrow> storedTranscript" where
  "decodeStoredTranscript unmarshal raw =
     (case raw of None \<Rightarrow> emptyTranscript | Some s \<Rightarrow> if s = '''' then emptyTranscript else unmarshal s)"

definition transcript :: "transcript_decoder \<Rightarrow> AttachmentRow \<Rightarrow> Transcript" where
  "transcript unmarshal a =
     (let st = decodeStoredTranscript unmarshal (ar_TranscriptJSON a)
      in \<lparr>tr_State = derefString (ar_TranscriptState a), tr_Text = st_Text st, tr_WordCount = st_WordCount st,
          tr_Segments = segments (st_Segments st), tr_Engine = st_Engine st, tr_Language = st_Language st,
          tr_ETASec = st_ETASec st\<rparr>)"

definition attachment :: "transcript_decoder \<Rightarrow> (string \<Rightarrow> string) \<Rightarrow> AttachmentRow \<Rightarrow> Attachment option" where
  "attachment unmarshal mediaURL a =
     (if ar_Kind a = ''voice'' then
        Some (Voice \<lparr>va_URL = mediaURL (ar_StorageKey a), va_DurationMs = deref (ar_DurationMs a),
          va_Peaks = (case ar_Peaks a of None \<Rightarrow> [] | Some ps \<Rightarrow> ps), va_Transcript = transcript unmarshal a\<rparr>)
      else if ar_Kind a = ''image'' then
        Some (Image \<lparr>ia_URL = mediaURL (ar_StorageKey a), ia_Filename = derefString (ar_Filename a),
          ia_Width = deref (ar_Width a), ia_Height = deref (ar_Height a), ia_Bytes = deref (ar_Bytes a),
          ia_Placeholder = ar_Placeholder a\<rparr>)
      else if ar_Kind a = ''link'' then
        (case ar_LinkURL a of
           None \<Rightarrow> None
         | Some u \<Rightarrow>
             let blob = ar_StorageKey a \<noteq> ''''
             in Some (Link \<lparr>la_URL = u, la_Title = ar_LinkTitle a, la_Description = ar_LinkDescription a,
                  la_SiteName = ar_LinkSiteName a, la_ImageURL = (if blob then Some (mediaURL (ar_StorageKey a)) else None),
                  la_ImageWidth = (if blob then ar_Width a else None), la_ImageHeight = (if blob then ar_Height a else None),
                  la_ImagePlaceholder = (if blob then ar_Placeholder a else None), la_FinalHost = ar_LinkFinalHost a\<rparr>))
      else None)"

definition sourceText :: "transcript_decoder \<Rightarrow> ReplySource \<Rightarrow> string" where
  "sourceText unmarshal src =
     (if rs_Text src \<noteq> None \<and> rs_Text src \<noteq> Some '''' then the (rs_Text src)
      else case rs_FirstAttachment src of
        None \<Rightarrow> ''''
      | Some a \<Rightarrow> if ar_Kind a = ''voice'' then derefString (st_Text (decodeStoredTranscript unmarshal (ar_TranscriptJSON a))) else '''')"

definition replyRef :: "transcript_decoder \<Rightarrow> (string \<Rightarrow> string) \<Rightarrow> ReplySource \<Rightarrow> ReplyRef" where
  "replyRef unmarshal mediaURL src =
     (let kind = (case rs_FirstAttachment src of
                    None \<Rightarrow> ''text''
                  | Some a \<Rightarrow> if ar_Kind a \<in> {''voice'', ''image'', ''link''} then ar_Kind a else ''text'')
      in \<lparr>rr_MessageID = rs_MessageID src, rr_AuthorID = rs_AuthorID src, rr_Kind = kind,
          rr_Preview = preview (sourceText unmarshal src),
          rr_DurationMs = (case rs_FirstAttachment src of
             None \<Rightarrow> None | Some a \<Rightarrow> if ar_Kind a = ''voice'' then ar_DurationMs a else None),
          rr_URL = (case rs_FirstAttachment src of
             None \<Rightarrow> None | Some a \<Rightarrow> if ar_Kind a = ''image'' then Some (mediaURL (ar_StorageKey a)) else None)\<rparr>)"

definition wireMessage ::
  "transcript_decoder \<Rightarrow> MessageRow \<Rightarrow> AttachmentRow list \<Rightarrow> ReplySource option \<Rightarrow> Viewer \<Rightarrow> Message option" where
  "wireMessage unmarshal m atts src v =
     (case vw_MediaURL v of
        None \<Rightarrow> None
      | Some mediaURL \<Rightarrow> Some
          \<lparr>m_ID = mr_ID m, m_Seq = mr_Seq m, m_LogSeq = mr_LogSeq m, m_ConversationID = mr_ConversationID m,
           m_AuthorID = mr_AuthorID m, m_At = formatWire (mr_At m), m_Text = mr_Text m,
           m_Attachments = List.map_filter (attachment unmarshal mediaURL) (sort_key ar_Position atts),
           m_ReplyTo = map_option (replyRef unmarshal mediaURL) src,
           m_State = vw_State v, m_ReadBy = vw_ReadBy v,
           m_ClientID = (if mr_AuthorID m = vw_UserID v then mr_ClientID m else None),
           m_EditedAt = map_option formatWire (mr_EditedAt m),
           m_Deleted = (if mr_Deleted m then Some True else None)\<rparr>)"

section \<open>Conversations, users, devices\<close>

definition wireConversation :: "ConversationRow \<Rightarrow> Conversation" where
  "wireConversation c =
     \<lparr>c_ID = cr_ID c, c_Kind = cr_Kind c,
      c_Name = (case cr_Name c of Some n \<Rightarrow> n | None \<Rightarrow> derefString (cr_OtherMemberName c)),
      c_OtherMemberID = (if cr_Kind c = ''direct'' then cr_OtherMemberID c else None),
      c_MemberCount = cr_MemberCount c, c_Muted = Some (cr_Muted c), c_FirstUnreadSeq = cr_FirstUnreadSeq c,
      c_HeadSeq = cr_LastSeq c, c_RetentionDays = cr_RetentionDays c\<rparr>"

definition wireInitials :: "UnicodeTables \<Rightarrow> string \<Rightarrow> string option" where
  "wireInitials ut name = (let i = initials ut name in if i = '''' then None else Some i)"

definition wireUser :: "UnicodeTables \<Rightarrow> UserRow \<Rightarrow> User" where
  "wireUser ut u =
     \<lparr>u_ID = ur_ID u, u_Name = ur_DisplayName u, u_Initials = wireInitials ut (ur_DisplayName u),
      u_Deactivated = (if ur_Deactivated u then Some True else None)\<rparr>"

record wireRosterEntry =
  re_ID :: uuid
  re_Name :: string
  re_Handle :: string
  re_Initials :: "string option"

definition RosterEntry :: "UnicodeTables \<Rightarrow> RosterRow \<Rightarrow> wireRosterEntry" where
  "RosterEntry ut r =
     \<lparr>re_ID = ro_ID r, re_Name = ro_DisplayName r, re_Handle = ro_Handle r, re_Initials = wireInitials ut (ro_DisplayName r)\<rparr>"

record DeviceRow =
  dr_ID :: uuid
  dr_Name :: string
  dr_CreatedAt :: gotime
  dr_RevokedAt :: "gotime option"

record wireDevice =
  wd_ID :: uuid
  wd_Name :: string
  wd_CreatedAt :: string
  wd_RevokedAt :: "string option"

text \<open>\<open>store.DevicesFor\<close>: the caller's own devices, oldest first, revoked ones included.\<close>

definition DevicesFor :: "'h DB \<Rightarrow> uuid \<Rightarrow> DeviceRow list" where
  "DevicesFor db user =
     map (\<lambda>d. \<lparr>dr_ID = dv_id d, dr_Name = dv_name d, dr_CreatedAt = dv_created_at d, dr_RevokedAt = dv_revoked_at d\<rparr>)
       (sort_key (\<lambda>d. (dv_created_at d, dv_id d)) (filter (\<lambda>d. dv_user_id d = user) (db_devices db)))"

definition Device :: "DeviceRow \<Rightarrow> wireDevice" where
  "Device d = \<lparr>wd_ID = dr_ID d, wd_Name = dr_Name d, wd_CreatedAt = formatWire (dr_CreatedAt d),
     wd_RevokedAt = map_option formatWire (dr_RevokedAt d)\<rparr>"

definition DeviceList :: "DeviceRow list \<Rightarrow> wireDevice list" where
  "DeviceList rows = map Device rows"

section \<open>A page\<close>

record SyncViewer =
  sv_UserID :: uuid
  sv_MediaURL :: "(string \<Rightarrow> string) option"

definition sameConversation :: "MessageRow \<Rightarrow> ReplySource \<Rightarrow> bool" where
  "sameConversation m src \<longleftrightarrow> rs_ConversationID src = mr_ConversationID m"

definition DeliveryState :: "MessageRow \<Rightarrow> uuid \<Rightarrow> int \<Rightarrow> int \<Rightarrow> string" where
  "DeliveryState m viewer viewerReadSeq readByCount =
     (if mr_AuthorID m = viewer then (if 1 < readByCount then ''read'' else ''sent'')
      else if mr_Seq m \<le> viewerReadSeq then ''read'' else ''delivered'')"

definition pageSource :: "SyncPage \<Rightarrow> MessageRow \<Rightarrow> ReplySource option" where
  "pageSource page m =
     (case mr_ReplyTo m of
        None \<Rightarrow> None
      | Some r \<Rightarrow>
          (case map_of (sp_ReplySources page) r of
             None \<Rightarrow> None
           | Some s \<Rightarrow> if rs_MessageID s \<noteq> uuid_Nil \<and> sameConversation m s then Some s else None))"

text \<open>A map read at an absent key is the zero value: nothing read, no attachments, a count of 0.\<close>

definition pageReadSeq :: "SyncPage \<Rightarrow> uuid \<Rightarrow> int" where
  "pageReadSeq page conv =
     (case map_of (rev (map (\<lambda>c. (cr_ID c, cr_ReadSeq c)) (sp_Conversations page))) conv of None \<Rightarrow> 0 | Some s \<Rightarrow> s)"

definition pageMessage :: "transcript_decoder \<Rightarrow> SyncViewer \<Rightarrow> SyncPage \<Rightarrow> MessageRow \<Rightarrow> Message option" where
  "pageMessage unmarshal v page m =
     (let count = (case map_of (sp_ReadBy page) (mr_ID m) of None \<Rightarrow> 0 | Some n \<Rightarrow> n);
          atts = (case map_of (sp_Attachments page) (mr_ID m) of None \<Rightarrow> [] | Some as \<Rightarrow> as)
      in wireMessage unmarshal m atts (pageSource page m)
           \<lparr>vw_UserID = sv_UserID v,
            vw_State = DeliveryState m (sv_UserID v) (pageReadSeq page (mr_ConversationID m)) count,
            vw_ReadBy = Some count, vw_MediaURL = sv_MediaURL v\<rparr>)"

definition wireSync ::
  "transcript_decoder \<Rightarrow> UnicodeTables \<Rightarrow> SyncPage \<Rightarrow> SyncViewer \<Rightarrow> string \<Rightarrow> SyncResponse option" where
  "wireSync unmarshal ut page v serverTime =
     map_option (\<lambda>msgs.
        \<lparr>sr_LogSeq = sp_HighWater page, sr_Messages = msgs,
         sr_Conversations = map wireConversation (sp_Conversations page),
         sr_Users = map (wireUser ut) (sp_Users page),
         sr_HasMore = sp_HasMore page, sr_ServerTime = serverTime\<rparr>)
       (those (map (pageMessage unmarshal v page) (sp_Messages page)))"

section \<open>Decoding a cut text\<close>

text \<open>The decoder reads no byte after the rune it returns, and a byte that starts a rune ends the one before it.\<close>

lemma runeClass:
  obtains "b < 128" | "194 \<le> b" "b \<le> 223" | "224 \<le> b" "b \<le> (239 :: nat)" | "240 \<le> b" "b \<le> 244"
  | "128 \<le> b" "b < 194" | "244 < b"
  by linarith

lemma decodeRune_take:
  assumes "snd (decodeRune bs) \<le> n"
  shows "decodeRune (take n bs) = decodeRune bs"
proof (cases bs)
  case (Cons b r)
  then obtain k where n: "n = Suc k" using assms decodeRune_width [of bs] by (cases n) auto
  have w: "snd (decodeRune (b # r)) \<le> Suc k" using assms Cons n by simp
  have "decodeRune (b # take k r) = decodeRune (b # r)"
  proof (rule runeClass [of b])
    assume "194 \<le> b" "b \<le> 223"
    then show ?thesis using w by (cases r; cases k) (auto split: if_splits)
  next
    assume "224 \<le> b" "b \<le> 239"
    then show ?thesis using w by (cases r; cases "tl r"; cases k; cases "k - 1") (auto split: if_splits)
  next
    assume "240 \<le> b" "b \<le> 244"
    then show ?thesis
      using w by (cases r; cases "tl r"; cases "tl (tl r)"; cases k; cases "k - 1"; cases "k - 2") (auto split: if_splits)
  qed auto
  then show ?thesis by (simp add: Cons n)
qed simp

lemma decodeRune_append:
  assumes "xs \<noteq> []" "ys = [] \<or> RuneStart (hd ys)"
  shows "decodeRune (xs @ ys) = decodeRune xs"
proof (cases xs)
  case (Cons b r)
  have y: "ys = [] \<or> \<not> cont_byte (hd ys)" using assms(2) by (simp add: RuneStart_def)
  have "decodeRune (b # r @ ys) = decodeRune (b # r)"
  proof (rule runeClass [of b])
    assume "194 \<le> b" "b \<le> 223"
    then show ?thesis using y by (cases r; cases ys) (auto split: if_splits)
  next
    assume "224 \<le> b" "b \<le> 239"
    then show ?thesis using y
      by (cases r; cases "tl r"; cases ys; cases "tl ys") (auto simp: cont_byte_def)
  next
    assume "240 \<le> b" "b \<le> 244"
    then show ?thesis using y
      by (cases r; cases "tl r"; cases "tl (tl r)"; cases ys; cases "tl ys"; cases "tl (tl ys)") (auto simp: cont_byte_def)
  qed auto
  then show ?thesis by (simp add: Cons)
qed (use assms in simp)

lemma runes_append:
  assumes "ys = [] \<or> RuneStart (hd ys)"
  shows "runes (xs @ ys) = runes xs @ runes ys"
proof (induction xs rule: runes.induct)
  case (1 xs)
  show ?case
  proof (cases "xs = []")
    case False
    obtain r w where d: "decodeRune xs = (r, w)" by fastforce
    then have "w \<le> length xs" using decodeRune_width [OF False] by simp
    then show ?thesis using 1 [OF False d [symmetric]] False d decodeRune_append [OF False assms] by simp
  qed simp
qed

lemma runeBytes_runes [simp]: "runeBytes (runes bs) = bs"
  by (simp add: runeBytes_def runes_concat)

lemma runeBytes_take_prefix: "runeBytes (take k (runes bs)) = take (length (runeBytes (take k (runes bs)))) bs"
proof -
  have "bs = runeBytes (take k (runes bs)) @ runeBytes (drop k (runes bs))"
    by (metis append_take_drop_id concat_append map_append runeBytes_def runeBytes_runes)
  then show ?thesis by (metis append_eq_conv_conj)
qed

lemma runes_take: "runes (runeBytes (take k (runes bs))) = take k (runes bs)"
proof (induction bs arbitrary: k rule: runes.induct)
  case (1 bs)
  show ?case
  proof (cases "bs = [] \<or> k = 0")
    case False
    then obtain j where k: "k = Suc j" and ne: "bs \<noteq> []" by (cases k) auto
    obtain r w where d: "decodeRune bs = (r, w)" by fastforce
    let ?R = "runeBytes (take j (runes (drop w bs)))"
    have w: "1 \<le> w" "w \<le> length bs" using decodeRune_width [OF ne] d by simp_all
    have all: "take w bs @ ?R = take (w + length ?R) bs"
      using runeBytes_take_prefix [of j "drop w bs"] w by (simp add: take_add)
    have "decodeRune (take (w + length ?R) bs) = (r, w)" using decodeRune_take [of bs "w + length ?R"] d by simp
    moreover have "take (w + length ?R) bs \<noteq> []" using w ne by auto
    ultimately have "runes (take w bs @ ?R) = (r, take w bs) # runes ?R"
      using w unfolding all [symmetric] by simp
    then show ?thesis using 1 [OF ne d [symmetric], of j] ne d by (simp add: k runeBytes_def)
  qed (auto simp: runeBytes_def)
qed

section \<open>The preview and its reference definition\<close>

text \<open>The last space among the runes 1 to 47, or 47 runes of a single long word.\<close>

definition previewCut :: "(nat \<times> nat list) list \<Rightarrow> nat" where
  "previewCut rs =
     (let js = filter (\<lambda>j. fst (rs ! j) = 32) [1..<previewRunes]
      in if js = [] then previewRunes - 1 else last js)"

lemma previewScan_eq:
  "previewScan rs b i n c =
     (let js = filter (\<lambda>j. fst (rs ! j) = 32) [0..<min (length rs) (Suc b - n)]
      in if js = [] then c else i + length (runeBytes (take (last js) rs)))"
proof (induction rs arbitrary: i n c)
  case (Cons rb rs)
  obtain r bs where rb: "rb = (r, bs)" by fastforce
  show ?case
  proof (cases "b < n")
    case False
    then have "Suc b - n = Suc (Suc b - Suc n)" by simp
    then have "[0..<min (length (rb # rs)) (Suc b - n)] = 0 # map Suc [0..<min (length rs) (Suc b - Suc n)]"
      by (simp add: upt_conv_Cons map_Suc_upt del: upt_Suc)
    then show ?thesis
      using False by (auto simp: Cons.IH rb Let_def filter_map comp_def last_map runeBytes_def)
  qed (simp add: rb)
qed simp

lemma runeIndexLoop_eq:
  "count \<le> n \<Longrightarrow> runeIndexLoop rs n count i = i + length (runeBytes (take (n - count) rs))"
  by (induction rs n count i rule: runeIndexLoop.induct) (auto simp: runeBytes_def Suc_diff_le [symmetric] take_Cons' dest: le_neq_implies_less)

lemma runeBytes_take_0: "runeBytes (take j (runes bs)) = [] \<Longrightarrow> j = 0 \<or> bs = []"
  by (metis length_0_conv runes_simps(1) runes_take take_eq_Nil runeBytes_runes)

lemma preview_cut:
  assumes "previewRunes < RuneCountInString s"
  shows "(let c = previewScan (runes (bytes s)) (previewRunes - 1) 0 0 0
          in if c = 0 then runeIndex s (previewRunes - 1) else c)
    = length (runeBytes (take (previewCut (runes (bytes s))) (runes (bytes s))))"
proof -
  let ?rs = "runes (bytes s)"
  let ?js = "filter (\<lambda>j. fst (?rs ! j) = 32) [0..<previewRunes]" and ?ks = "filter (\<lambda>j. fst (?rs ! j) = 32) [1..<previewRunes]"
  have len: "previewRunes < length ?rs" using assms by (simp add: RuneCountInString_def)
  then have ne: "bytes s \<noteq> []" by auto
  have scan: "previewScan ?rs (previewRunes - 1) 0 0 0 = (if ?js = [] then 0 else length (runeBytes (take (last ?js) ?rs)))"
    using len by (simp add: previewScan_eq Let_def min_def previewRunes_def)
  have js: "?js = (if fst (?rs ! 0) = 32 then [0] else []) @ ?ks"
    by (simp add: upt_conv_Cons previewRunes_def)
  have index: "runeIndex s (previewRunes - 1) = length (runeBytes (take (previewRunes - 1) ?rs))"
    by (simp add: runeIndex_def runeIndexLoop_eq)
  show ?thesis
  proof (cases "?ks = []")
    case True
    then have "previewScan ?rs (previewRunes - 1) 0 0 0 = 0" unfolding scan js by (auto simp: runeBytes_def)
    then show ?thesis using True index by (simp add: previewCut_def)
  next
    case False
    then have "last ?ks \<noteq> 0" using last_in_set [OF False] by auto
    moreover have "last ?js = last ?ks" using False by (simp add: js)
    ultimately show ?thesis
      using False ne runeBytes_take_0 [of "last ?ks" "bytes s"] scan js by (auto simp: previewCut_def Let_def)
  qed
qed

text \<open>
  C40. The preview of a reply: the text with its white space collapsed when that has at most 48
  runes, otherwise its longest prefix of at most 47 runes that ends before a space (47 runes of a
  first word longer than that) and an ellipsis. It never has more than 48 runes, for any bytes.
\<close>

theorem preview_is_reference:
  "(let s = join '' '' (Fields text); rs = runes (bytes s)
    in preview text = (if length rs \<le> 48 then s else of_bytes (runeBytes (take (previewCut rs) rs)) @ ellipsis)) \<and>
   RuneCountInString (preview text) \<le> 48"
proof -
  let ?s = "join '' '' (Fields text)"
  let ?rs = "runes (bytes ?s)"
  let ?p = "runeBytes (take (previewCut ?rs) ?rs)"
  have eq: "preview text = (if length ?rs \<le> 48 then ?s else of_bytes ?p @ ellipsis)"
  proof (cases "length ?rs \<le> 48")
    case False
    then have "previewRunes < RuneCountInString ?s" by (simp add: RuneCountInString_def previewRunes_def)
    from preview_cut [OF this] this
    have "preview text = take (length ?p) ?s @ ellipsis" by (simp add: preview_def Let_def split: if_splits)
    also have "take (length ?p) ?s = of_bytes (take (length ?p) (bytes ?s))"
      by (metis of_bytes_bytes of_bytes_def take_map)
    also have "take (length ?p) (bytes ?s) = ?p" by (rule runeBytes_take_prefix [symmetric])
    finally show ?thesis using False by simp
  qed (simp add: preview_def RuneCountInString_def previewRunes_def Let_def)
  have k: "previewCut rs \<le> 47" for rs
    using last_in_set [of "filter (\<lambda>j. fst (rs ! j) = 32) [1..<48]"] by (auto simp: previewCut_def previewRunes_def Let_def)
  have "RuneCountInString (of_bytes ?p @ ellipsis) \<le> 48"
  proof -
    have "\<forall>b \<in> set ?p. b < 256"
      by (subst runeBytes_take_prefix) (auto simp: bytes_def dest!: in_set_takeD intro: nat_of_char_less_256)
    then have b: "bytes (of_bytes ?p @ ellipsis) = ?p @ [226, 128, 166]"
      by (simp add: bytes_def of_bytes_def ellipsis_def map_idI)
    have "runes (?p @ [226, 128, 166]) = take (previewCut ?rs) ?rs @ runes [226, 128, 166]"
      by (subst runes_append) (simp_all add: RuneStart_def cont_byte_def runes_take)
    also have "length \<dots> \<le> 48" using k [of ?rs] by (simp add: cont_byte_def)
    finally show ?thesis by (simp add: RuneCountInString_def b)
  qed
  then show ?thesis using eq by (simp add: Let_def RuneCountInString_def)
qed

end
