(* ===== verification/Hub.thy ===== *)
theory Hub
  imports Store_Fanout Wireview Store_Errors
begin

text \<open>
  \<open>internal/hub/hub.go\<close>: the sessions of one instance. A \<open>*session\<close> is its position in \<open>hb_objs\<close>;
  \<open>hb_sessions\<close> is the index by user. A session carries its outbox (\<open>hs_out\<close>), what its
  goroutine has written (\<open>hs_sent\<close>) and the calls of \<open>Close\<close> and \<open>CloseNow\<close> on its connection.
  Each definition is what runs under one hold of \<open>Hub.mu\<close>; the store's answers, the clock and
  whether the context is cancelled are arguments, so a failed read is a value. Ranging over a
  Go set is ranging over a list: the sessions of one fan-out do not affect each other.
\<close>

section \<open>State\<close>

datatype CloseCall = Close int | CloseNow

definition StatusGoingAway :: int where "StatusGoingAway = 1001"
definition StatusPolicyViolation :: int where "StatusPolicyViolation = 1008"
definition StatusServiceRestart :: int where "StatusServiceRestart = 1012"
definition StatusRevoked :: int where "StatusRevoked = 4001"

definition outboxBound :: nat where "outboxBound = 256"
definition readNotifyCap :: nat where "readNotifyCap = 64"
definition loadBudget :: duration where "loadBudget = 3 * second"
definition headBudget :: duration where "headBudget = 5 * second"
definition revokeBudget :: duration where "revokeBudget = 5 * second"
definition retryInitial :: duration where "retryInitial = 100000000"
definition retryMax :: duration where "retryMax = second"

record HubConn =
  hc_SessionID :: uuid
  hc_UserID :: uuid
  hc_DeviceID :: uuid

record session =
  hs_conn :: HubConn
  hs_out :: "ServerFrame list"
  hs_outClosed :: bool
  hs_dead :: bool
  hs_sent :: "ServerFrame list"
  hs_closes :: "CloseCall list"

record Hub =
  hb_objs :: "session list"
  hb_sessions :: "(uuid, nat list) gomap"
  hb_count :: int
  hb_typing :: "(uuid, (nat, gotime) gomap) gomap"
  hb_closing :: bool
  hb_drained :: nat
  hb_burst :: "(uuid \<times> (uuid, nat) gomap) option"

text \<open>What \<open>New\<close> is given and the tables the mapping uses; a missing deriver is refused there.\<close>

record HubEnv =
  he_unmarshal :: transcript_decoder
  he_tables :: UnicodeTables
  he_mediaURL :: "string \<Rightarrow> string"

definition newHub :: Hub where
  "newHub = \<lparr>hb_objs = [], hb_sessions = [], hb_count = 0, hb_typing = [], hb_closing = False, hb_drained = 0, hb_burst = None\<rparr>"

definition Attached :: "Hub \<Rightarrow> int" where "Attached h = hb_count h"

abbreviation obj :: "Hub \<Rightarrow> nat \<Rightarrow> session" where "obj h p \<equiv> hb_objs h ! p"

abbreviation userOf :: "Hub \<Rightarrow> nat \<Rightarrow> uuid" where "userOf h p \<equiv> hc_UserID (hs_conn (obj h p))"

definition upd :: "nat \<Rightarrow> (session \<Rightarrow> session) \<Rightarrow> Hub \<Rightarrow> Hub" where
  "upd p f h = h\<lparr>hb_objs := (hb_objs h)[p := f (obj h p)]\<rparr>"

definition closeConn :: "CloseCall \<Rightarrow> nat \<Rightarrow> Hub \<Rightarrow> Hub" where
  "closeConn c p h = upd p (\<lambda>s. s\<lparr>hs_closes := hs_closes s @ [c]\<rparr>) h"

definition sessionsOf :: "Hub \<Rightarrow> uuid \<Rightarrow> nat list" where
  "sessionsOf h u = (case map_of (hb_sessions h) u of None \<Rightarrow> [] | Some ps \<Rightarrow> ps)"

definition allSessions :: "Hub \<Rightarrow> nat list" where
  "allSessions h = concat (map snd (hb_sessions h))"

section \<open>The index and the outbox\<close>

definition removeLocked :: "nat \<Rightarrow> Hub \<Rightarrow> Hub \<times> bool" where
  "removeLocked p h =
     (let u = userOf h p; ps = sessionsOf h u
      in if p \<notin> set ps then (h, False)
         else let rest = removeAll p ps;
                  h1 = h\<lparr>hb_sessions := (if rest = [] then AList.delete u (hb_sessions h) else AList.update u rest (hb_sessions h)),
                         hb_count := hb_count h - 1\<rparr>;
                  h2 = upd p (\<lambda>s. s\<lparr>hs_outClosed := True\<rparr>) h1
              in (if hb_closing h2 \<and> hb_count h2 = 0 then h2\<lparr>hb_drained := hb_drained h2 + 1\<rparr> else h2, True))"

definition enqueueLocked :: "nat \<Rightarrow> ServerFrame \<Rightarrow> Hub \<Rightarrow> Hub" where
  "enqueueLocked p f h =
     (if hs_outClosed (obj h p) then h
      else if length (hs_out (obj h p)) < outboxBound then upd p (\<lambda>s. s\<lparr>hs_out := hs_out s @ [f]\<rparr>) h
      else closeConn CloseNow p (fst (removeLocked p h)))"

text \<open>The frames of one fan-out for one session, in order; and for the sessions of one user.\<close>

definition enqueueFrames :: "ServerFrame list \<Rightarrow> nat \<Rightarrow> Hub \<Rightarrow> Hub" where
  "enqueueFrames fs p h = fold (enqueueLocked p) fs h"

definition enqueueUser :: "ServerFrame list \<Rightarrow> uuid \<Rightarrow> Hub \<Rightarrow> Hub" where
  "enqueueUser fs u h = fold (enqueueFrames fs) (sessionsOf h u) h"

definition broadcastLocked :: "uuid list \<Rightarrow> ServerFrame \<Rightarrow> nat option \<Rightarrow> Hub \<Rightarrow> Hub" where
  "broadcastLocked members f except h =
     fold (\<lambda>u h. fold (enqueueFrames [f]) (filter (\<lambda>p. Some p \<noteq> except) (sessionsOf h u)) h) members h"

text \<open>One turn of a session's outbox goroutine; \<open>ok\<close> says whether the write succeeded.\<close>

definition run :: "bool \<Rightarrow> nat \<Rightarrow> Hub \<Rightarrow> Hub" where
  "run ok p h =
     (case hs_out (obj h p) of
        [] \<Rightarrow> h
      | f # fs \<Rightarrow> upd p (\<lambda>s.
          if hs_dead s then s\<lparr>hs_out := fs\<rparr>
          else if ok then s\<lparr>hs_out := fs, hs_sent := hs_sent s @ [f]\<rparr>
          else s\<lparr>hs_out := fs, hs_dead := True\<rparr>) h)"

section \<open>Attaching and detaching\<close>

definition newSession :: "HubConn \<Rightarrow> session" where
  "newSession c = \<lparr>hs_conn = c, hs_out = [], hs_outClosed = False, hs_dead = False, hs_sent = [], hs_closes = []\<rparr>"

text \<open>The first half of \<open>Attach\<close>, up to the liveness read; the new session is \<open>length (hb_objs h)\<close>.\<close>

definition Attach :: "HubConn \<Rightarrow> Hub \<Rightarrow> Hub" where
  "Attach c h =
     (let p = length (hb_objs h); h1 = h\<lparr>hb_objs := hb_objs h @ [newSession c]\<rparr>
      in if hb_closing h then closeConn (Close StatusGoingAway) p h1
         else h1\<lparr>hb_sessions := AList.update (hc_UserID c) (sessionsOf h (hc_UserID c) @ [p]) (hb_sessions h),
                 hb_count := hb_count h + 1\<rparr>)"

definition severIfDead :: "nat \<Rightarrow> store_error + uuid list \<Rightarrow> Hub \<Rightarrow> Hub" where
  "severIfDead p answer h =
     (case answer of
        Inl e \<Rightarrow> h
      | Inr dead \<Rightarrow>
          if dead = [] then h
          else case removeLocked p h of
            (h', removed) \<Rightarrow> if removed then closeConn (Close StatusRevoked) p h' else h')"

definition typingEntries :: "Hub \<Rightarrow> uuid \<Rightarrow> (nat, gotime) gomap" where
  "typingEntries h conv = (case map_of (hb_typing h) conv of None \<Rightarrow> [] | Some es \<Rightarrow> es)"

definition setTyping :: "uuid \<Rightarrow> (nat, gotime) gomap \<Rightarrow> Hub \<Rightarrow> Hub" where
  "setTyping conv es h =
     h\<lparr>hb_typing := (if es = [] then AList.delete conv (hb_typing h) else AList.update conv es (hb_typing h))\<rparr>"

text \<open>A user is typing while one of their sessions is, ordered by the earliest start.\<close>

definition earliestStart :: "Hub \<Rightarrow> (nat, gotime) gomap \<Rightarrow> uuid \<Rightarrow> gotime" where
  "earliestStart h es u = Min (snd ` set (filter (\<lambda>(p, _). userOf h p = u) es))"

definition typingListLocked :: "Hub \<Rightarrow> uuid \<Rightarrow> uuid list" where
  "typingListLocked h conv =
     (let es = typingEntries h conv
      in sort_key (\<lambda>u. (earliestStart h es u, u)) (remdups (map (userOf h \<circ> fst) es)))"

definition dropTypingLocked :: "nat \<Rightarrow> Hub \<Rightarrow> Hub \<times> uuid list" where
  "dropTypingLocked p h =
     fold (\<lambda>conv (h, changed).
        if p \<notin> fst ` set (typingEntries h conv) then (h, changed)
        else let h' = setTyping conv (AList.delete p (typingEntries h conv)) h
             in (h', if typingListLocked h conv = typingListLocked h' conv then changed else changed @ [conv]))
       (map fst (hb_typing h)) (h, [])"

definition detach :: "nat \<Rightarrow> Hub \<Rightarrow> Hub \<times> uuid list" where
  "detach p h = dropTypingLocked p (fst (removeLocked p h))"

definition emitTyping :: "uuid \<Rightarrow> store_error + uuid list \<Rightarrow> nat option \<Rightarrow> Hub \<Rightarrow> Hub" where
  "emitTyping conv answer except h =
     (case answer of
        Inl e \<Rightarrow> h
      | Inr members \<Rightarrow> broadcastLocked members (FTyping conv (typingListLocked h conv)) except h)"

section \<open>Notifications\<close>

definition viewFor :: "HubEnv \<Rightarrow> uuid \<Rightarrow> string \<Rightarrow> int \<Rightarrow> Viewer" where
  "viewFor env user state count =
     \<lparr>vw_UserID = user, vw_State = state, vw_ReadBy = Some count, vw_MediaURL = Some (he_mediaURL env)\<rparr>"

definition messageFrame :: "HubEnv \<Rightarrow> MessageRow \<Rightarrow> AttachmentRow list \<Rightarrow> ReplySource option \<Rightarrow> Viewer \<Rightarrow> ServerFrame list" where
  "messageFrame env m atts src v =
     (case wireMessage (he_unmarshal env) m atts src v of None \<Rightarrow> [] | Some w \<Rightarrow> [FMessage w])"

text \<open>What one member of the room is sent: the introduction on a first message, then the message.\<close>

definition fanoutFrames :: "HubEnv \<Rightarrow> FanoutMessage \<Rightarrow> FanoutMember \<Rightarrow> ServerFrame list" where
  "fanoutFrames env fm mem =
     (let m = fm_Message fm;
          src = (case fm_ReplySource fm of
                   None \<Rightarrow> None
                 | Some s \<Rightarrow> if rs_ConversationID s = mr_ConversationID m then Some s else None);
          frame = messageFrame env m (fm_Attachments fm) src
            (viewFor env (fx_UserID mem) (DeliveryState m (fx_UserID mem) (fx_ReadSeq mem) (fm_ReadBy fm)) (fm_ReadBy fm));
          intro = (if mr_Seq m \<noteq> FirstMessageSeq then []
                   else case map_of (fm_Conversations fm) (fx_UserID mem) of
                     None \<Rightarrow> []
                   | Some row \<Rightarrow> FConversation (wireConversation row) # map (FUser \<circ> wireUser (he_tables env)) (fm_Users fm))
      in intro @ frame)"

definition fanout :: "HubEnv \<Rightarrow> FanoutMessage \<Rightarrow> Hub \<Rightarrow> Hub" where
  "fanout env fm h = fold (\<lambda>mem. enqueueUser (fanoutFrames env fm mem) (fx_UserID mem)) (fm_Members fm) h"

definition ResyncReasonCursorTooOld :: string where "ResyncReasonCursorTooOld = ''cursor_too_old''"

definition gap :: "bool \<Rightarrow> store_error + int \<Rightarrow> Hub \<Rightarrow> Hub" where
  "gap cancelled head h =
     (if cancelled then h
      else case head of
        Inl e \<Rightarrow> fold (closeConn (Close StatusServiceRestart)) (allSessions h) h
      | Inr n \<Rightarrow> fold (enqueueFrames [FResyncRequired ResyncReasonCursorTooOld n]) (allSessions h) h)"

definition budgetLocked :: "uuid option \<Rightarrow> Hub \<Rightarrow> Hub" where
  "budgetLocked batch h =
     (case batch of
        None \<Rightarrow> h
      | Some b \<Rightarrow> if map_option fst (hb_burst h) = Some b then h else h\<lparr>hb_burst := Some (b, [])\<rparr>)"

definition spentBy :: "Hub \<Rightarrow> uuid \<Rightarrow> nat" where
  "spentBy h a = (case hb_burst h of None \<Rightarrow> 0 | Some (_, m) \<Rightarrow> (case map_of m a of None \<Rightarrow> 0 | Some n \<Rightarrow> n))"

definition spendOne :: "uuid \<Rightarrow> Hub \<Rightarrow> Hub" where
  "spendOne a h = h\<lparr>hb_burst := map_option (\<lambda>(b, m). (b, AList.update a (spentBy h a + 1) m)) (hb_burst h)\<rparr>"

definition reemitFrame :: "HubEnv \<Rightarrow> ReadNotifyMessage \<Rightarrow> ServerFrame list" where
  "reemitFrame env rm =
     (let m = rn_Message rm; a = mr_AuthorID m
      in messageFrame env m (rn_Attachments rm) (rn_ReplySource rm)
           (viewFor env a (DeliveryState m a 0 (rn_ReadBy rm)) (rn_ReadBy rm)))"

definition reemitOne :: "HubEnv \<Rightarrow> bool \<Rightarrow> ReadNotifyMessage \<Rightarrow> Hub \<Rightarrow> Hub" where
  "reemitOne env batched rm h =
     (let a = mr_AuthorID (rn_Message rm)
      in if sessionsOf h a = [] then h
         else if batched \<and> readNotifyCap \<le> spentBy h a then h
         else enqueueUser (reemitFrame env rm) a (if batched then spendOne a h else h))"

definition onReadNotify :: "HubEnv \<Rightarrow> bool \<Rightarrow> store_error + ReadNotifyMessage list \<Rightarrow> uuid option \<Rightarrow> Hub \<Rightarrow> Hub" where
  "onReadNotify env cancelled answer batch h =
     (if cancelled then h
      else case answer of
        Inl e \<Rightarrow> h
      | Inr msgs \<Rightarrow> fold (reemitOne env (batch \<noteq> None)) msgs (budgetLocked batch h))"

text \<open>
  A message notification with the answer of its load, and the answer of the head read should the
  load have failed.
\<close>

definition OnNotify :: "HubEnv \<Rightarrow> bool \<Rightarrow> store_error + FanoutMessage \<Rightarrow> bool \<Rightarrow> store_error + int \<Rightarrow> Hub \<Rightarrow> Hub" where
  "OnNotify env cancelled answer cancelled' head h =
     (if cancelled then h
      else case answer of
        Inl e \<Rightarrow> if e = ErrNotFound then h else gap cancelled' head h
      | Inr fm \<Rightarrow> fanout env fm h)"

definition OnGap :: "bool \<Rightarrow> store_error + int \<Rightarrow> Hub \<Rightarrow> Hub" where
  "OnGap cancelled head h = gap cancelled head h"

section \<open>Revocations\<close>

definition sever :: "CloseCall \<Rightarrow> nat list \<Rightarrow> Hub \<Rightarrow> Hub" where
  "sever c ps h = fold (closeConn c) ps (fold (\<lambda>p. fst \<circ> removeLocked p) ps h)"

definition doomedBy :: "uuid option \<Rightarrow> uuid option \<Rightarrow> Hub \<Rightarrow> nat list" where
  "doomedBy device user h =
     remdups ((case user of None \<Rightarrow> [] | Some u \<Rightarrow> sessionsOf h u) @
       (case device of None \<Rightarrow> [] | Some d \<Rightarrow> filter (\<lambda>p. hc_DeviceID (hs_conn (obj h p)) = d) (allSessions h)))"

definition OnRevocation :: "uuid option \<Rightarrow> uuid option \<Rightarrow> Hub \<Rightarrow> Hub" where
  "OnRevocation device user h = sever (Close StatusRevoked) (doomedBy device user h) h"

text \<open>
  The re-check after a gap of the revocation channel: the sessions collected under the first hold
  of the lock, the answer for their devices, what the second hold severs.
\<close>

definition OnRevocationGap :: "nat list \<Rightarrow> bool \<Rightarrow> store_error + uuid list \<Rightarrow> Hub \<Rightarrow> Hub" where
  "OnRevocationGap all cancelled answer h =
     (if all = [] \<or> cancelled then h
      else case answer of
        Inl e \<Rightarrow> sever (Close StatusServiceRestart) all h
      | Inr dead \<Rightarrow>
          sever (Close StatusRevoked)
            (concat (map (\<lambda>d. filter (\<lambda>p. hc_DeviceID (hs_conn (obj h p)) = d) all) dead)) h)"

section \<open>Frames of the peers\<close>

definition findLocked :: "HubConn \<Rightarrow> Hub \<Rightarrow> nat option" where
  "findLocked c h = find (\<lambda>p. hc_SessionID (hs_conn (obj h p)) = hc_SessionID c) (sessionsOf h (hc_UserID c))"

definition read :: "nat \<Rightarrow> uuid \<Rightarrow> (store_error + SendError) + ReadReceipt \<Rightarrow> store_error + uuid list \<Rightarrow> Hub \<Rightarrow> Hub" where
  "read p conv marked members h =
     (case marked of
        Inl e \<Rightarrow> if e = Inl ErrSeqOutOfRange then closeConn (Close StatusPolicyViolation) p h else h
      | Inr r \<Rightarrow>
          if \<not> rp_Advanced r then h
          else case members of
            Inl e \<Rightarrow> h
          | Inr us \<Rightarrow> broadcastLocked us
              (FReceipt \<lparr>rc_ConversationID = conv, rc_UserID = userOf h p, rc_UpToSeq = rp_UpToSeq r\<rparr>) None h)"

definition typingFrame :: "HubConn \<Rightarrow> uuid \<Rightarrow> bool \<Rightarrow> gotime \<Rightarrow> store_error + uuid list \<Rightarrow> Hub \<Rightarrow> Hub" where
  "typingFrame c conv start now members h =
     (case members of
        Inl e \<Rightarrow> h
      | Inr us \<Rightarrow>
          if hc_UserID c \<notin> set us then h
          else case findLocked c h of
            None \<Rightarrow> h
          | Some p \<Rightarrow>
              let es = typingEntries h conv;
                  h1 = (if start then (if p \<in> fst ` set es then h else setTyping conv (es @ [(p, now)]) h)
                        else setTyping conv (AList.delete p es) h)
              in broadcastLocked us (FTyping conv (typingListLocked h1 conv)) (Some p) h1)"

section \<open>Shutdown\<close>

definition Shutdown :: "Hub \<Rightarrow> Hub" where
  "Shutdown h =
     (let h1 = h\<lparr>hb_closing := True\<rparr>;
          h2 = (if hb_count h1 = 0 \<and> hb_drained h1 = 0 then h1\<lparr>hb_drained := 1\<rparr> else h1)
      in fold (closeConn (Close StatusGoingAway)) (allSessions h) h2)"

section \<open>Retrying a read\<close>

text \<open>
  One attempt: whether the context is done before it, its outcome, whether it is done after it,
  the clock then, and whether it is done while waiting. \<open>None\<close> is running out of fuel.
\<close>

record 'a Attempt =
  ap_done :: bool
  ap_result :: "store_error + 'a"
  ap_doneAfter :: bool
  ap_now :: gotime
  ap_doneWaiting :: bool

fun retry :: "nat \<Rightarrow> (nat \<Rightarrow> 'a Attempt) \<Rightarrow> gotime \<Rightarrow> duration \<Rightarrow> nat \<Rightarrow> (store_error + 'a) option" where
  "retry 0 att deadline backoff k = None"
| "retry (Suc fuel) att deadline backoff k =
     (let a = att k
      in if ap_done a then Some (Inl Canceled)
         else case ap_result a of
           Inr x \<Rightarrow> Some (Inr x)
         | Inl e \<Rightarrow>
             if ap_doneAfter a \<or> \<not> isTransient e then Some (Inl e)
             else if deadline < ap_now a + backoff then Some (Inl e)
             else if ap_doneWaiting a then Some (Inl Canceled)
             else retry fuel att deadline (if retryMax < backoff * 2 then retryMax else backoff * 2) (k + 1))"

end
