(* ===== verification/Api_Socket.thy ===== *)
theory Api_Socket
  imports Credential_System Hub
begin

text \<open>
  \<open>internal/api/socket.go\<close>: the door of the socket. The upgrade authenticates, the handshake binds
  the connection to an account and a device, the read loop answers pings and sends and hands the
  rest to the hub, and the watchdog severs a session that stops pinging. \<open>Deps\<close> is the struct of
  functions the handler is given; the store and the hub behind them are a state of type \<open>'s\<close>.
  A connection is the list of what its reads return, each with its time and with what everybody
  else did to that state meanwhile; a timer has fired when the next read is not before it. Frames
  arrive decoded (\<open>wire.DecodeClientFrame\<close> is generated code), a write may fail.
\<close>

section \<open>Frames from the client\<close>

record ClientHello =
  ch_WireVersion :: int
  ch_DeviceID :: string
  ch_ResumeFromLogSeq :: "int option"
  ch_ClientInfo :: "string option"

record OutboundAttachment =
  oa_Kind :: string
  oa_UploadID :: string

record ClientSend =
  cs_ClientID :: string
  cs_ConversationID :: string
  cs_Text :: "string option"
  cs_Attachments :: "OutboundAttachment list"
  cs_ReplyToMessageID :: "string option"

datatype ClientFrame =
  CPing string | CPong string | CHello ClientHello | CSend ClientSend | CRead string int | CTyping string string

section \<open>Constants\<close>

definition subprotocolV1 :: string where "subprotocolV1 = ''catenary.v1''"
definition tokenSubprotocolPrefix :: string where "tokenSubprotocolPrefix = ''catenary.token.''"
definition wireVersionMin :: int where "wireVersionMin = 1"
definition WireVersion :: int where "WireVersion = 1"
definition DefaultHeartbeatIntervalSec :: int where "DefaultHeartbeatIntervalSec = 35"
definition DefaultMissedPongLimit :: int where "DefaultMissedPongLimit = 2"
definition DefaultHelloTimeout :: duration where "DefaultHelloTimeout = 10 * second"
definition statusHeartbeatTimeout :: int where "statusHeartbeatTimeout = 4000"
definition statusHelloTimeout :: int where "statusHelloTimeout = 4002"

definition heartbeatWindow :: "int \<Rightarrow> int \<Rightarrow> duration" where
  "heartbeatWindow intervalSec missedPongLimit =
     wrap64 (wrap64 (intervalSec * second) * wrap64 (missedPongLimit + 1))"

section \<open>What the handler is given\<close>

text \<open>\<open>dp_parse\<close> is \<open>uuid.Parse\<close>, which the handler applies to ids the decoder has checked.\<close>

record 's Deps =
  dp_parse :: "string \<Rightarrow> uuid option"
  dp_Authenticate :: "'s \<Rightarrow> token \<Rightarrow> store_error + Caller"
  dp_Hello :: "'s \<Rightarrow> int option \<Rightarrow> store_error + HelloResult"
  dp_Send :: "NewMessage \<Rightarrow> 's \<Rightarrow> 's \<times> (SendError + Sent)"
  dp_Attach :: "(HubConn \<Rightarrow> 's \<Rightarrow> 's) option"
  dp_Detach :: "HubConn \<Rightarrow> 's \<Rightarrow> 's"
  dp_Handle :: "(HubConn \<Rightarrow> ClientFrame \<Rightarrow> 's \<Rightarrow> 's) option"
  dp_HelloTimeout :: duration
  dp_HeartbeatIntervalSec :: int
  dp_MissedPongLimit :: int

section \<open>The connection\<close>

datatype read_result = ReadFrame ClientFrame | ReadUnknown | ReadMalformed string | ReadError int

record 's Inbound =
  ib_at :: gotime
  ib_env :: "'s \<Rightarrow> 's"
  ib_read :: read_result

text \<open>
  The state behind the handler, the frames written, the first close, whether the connection is
  gone, and how the next writes end (\<open>[]\<close> is that they succeed).
\<close>

record 's Sock =
  sk_world :: 's
  sk_out :: "ServerFrame list"
  sk_closed :: "(int \<times> string) option"
  sk_gone :: bool
  sk_writes :: "bool list"

definition onWorld :: "('s \<Rightarrow> 's) \<Rightarrow> 's Sock \<Rightarrow> 's Sock" where
  "onWorld f sk = sk\<lparr>sk_world := f (sk_world sk)\<rparr>"

definition writeFrame :: "ServerFrame \<Rightarrow> 's Sock \<Rightarrow> 's Sock \<times> bool" where
  "writeFrame f sk =
     (if sk_closed sk \<noteq> None then (sk, False)
      else case sk_writes sk of
        [] \<Rightarrow> (sk\<lparr>sk_out := sk_out sk @ [f]\<rparr>, True)
      | w # ws \<Rightarrow> if w then (sk\<lparr>sk_out := sk_out sk @ [f], sk_writes := ws\<rparr>, True)
                  else (sk\<lparr>sk_writes := ws\<rparr>, False))"

definition maxReason :: nat where "maxReason = 123"

definition closeWith :: "int \<Rightarrow> string \<Rightarrow> 's Sock \<Rightarrow> 's Sock" where
  "closeWith status reason sk =
     (if sk_closed sk \<noteq> None then sk else sk\<lparr>sk_closed := Some (status, take maxReason reason)\<rparr>)"

definition refuseSession :: "ServerError \<Rightarrow> 's Sock \<Rightarrow> 's Sock" where
  "refuseSession e sk = closeWith StatusPolicyViolation (se_Code e) (fst (writeFrame (FError e) sk))"

text \<open>\<open>endSession\<close>: a malformed frame is answered with a close that names it, a transport error with nothing.\<close>

definition endSession :: "read_result \<Rightarrow> 's Sock \<Rightarrow> 's Sock" where
  "endSession r sk =
     (case r of
        ReadMalformed m \<Rightarrow> closeWith StatusPolicyViolation (''malformed frame: '' @ m) sk
      | _ \<Rightarrow> sk)"

definition serverError :: "store_error \<Rightarrow> string \<Rightarrow> ServerError" where
  "serverError e message = sendErrorWire (Some (sendErrorFor e)) message"

section \<open>The hello\<close>

fun awaitHello ::
  "gotime \<Rightarrow> 's Inbound list \<Rightarrow> 's Sock \<Rightarrow> 's Sock \<times> (ClientHello \<times> gotime \<times> 's Inbound list) option" where
  "awaitHello deadline [] sk = (closeWith statusHelloTimeout ''hello expected'' sk, None)"
| "awaitHello deadline (e # es) sk =
     (if deadline \<le> ib_at e then (closeWith statusHelloTimeout ''hello expected'' sk, None)
      else
        let sk = onWorld (ib_env e) sk in
        case ib_read e of
          ReadUnknown \<Rightarrow> awaitHello deadline es sk
        | ReadFrame f \<Rightarrow>
            (case f of
               CHello h \<Rightarrow> (sk, Some (h, ib_at e, es))
             | _ \<Rightarrow> (closeWith StatusPolicyViolation ''first frame must be hello'' sk, None))
        | r \<Rightarrow> (endSession r sk, None))"

section \<open>A send\<close>

definition mustUUID :: "'s Deps \<Rightarrow> string \<Rightarrow> uuid" where
  "mustUUID d u = (case dp_parse d u of None \<Rightarrow> uuid_Nil | Some i \<Rightarrow> i)"

definition sendRequest :: "'s Deps \<Rightarrow> HubConn \<Rightarrow> ClientSend \<Rightarrow> NewMessage" where
  "sendRequest d sess v =
     \<lparr>nm_ConversationID = mustUUID d (cs_ConversationID v), nm_AuthorID = hc_UserID sess,
      nm_ClientID = mustUUID d (cs_ClientID v), nm_SenderDeviceID = Some (hc_DeviceID sess),
      nm_ReplyTo = map_option (mustUUID d) (cs_ReplyToMessageID v), nm_Text = cs_Text v,
      nm_Attachments = map (\<lambda>a. \<lparr>na_Kind = oa_Kind a, na_UploadID = mustUUID d (oa_UploadID a)\<rparr>) (cs_Attachments v)\<rparr>"

definition sendAnswer :: "ClientSend \<Rightarrow> SendError + Sent \<Rightarrow> ServerFrame" where
  "sendAnswer v r =
     (case r of
        Inl se \<Rightarrow> FError ((sendErrorWire (Some se) ''send failed'')\<lparr>se_ClientID := Some (cs_ClientID v)\<rparr>)
      | Inr sent \<Rightarrow> FAck \<lparr>ak_ClientID = cs_ClientID v, ak_MessageID = so_ID sent, ak_ConversationID = so_ConversationID sent,
            ak_Seq = so_Seq sent, ak_LogSeq = so_LogSeq sent, ak_At = formatWire (so_At sent),
            ak_Duplicate = (if so_Duplicate sent then Some True else None)\<rparr>)"

definition handleSend :: "'s Deps \<Rightarrow> HubConn \<Rightarrow> ClientSend \<Rightarrow> 's Sock \<Rightarrow> 's Sock \<times> bool" where
  "handleSend d sess v sk =
     (case dp_Send d (sendRequest d sess v) (sk_world sk) of
        (w, r) \<Rightarrow> writeFrame (sendAnswer v r) (sk\<lparr>sk_world := w\<rparr>))"

section \<open>The read loop\<close>

text \<open>\<open>deadline\<close> is when the watchdog fires; only a ping moves it.\<close>

definition heartbeatReason :: string where
  "heartbeatReason = ''heartbeat timeout: no ping within the announced window''"

fun readLoop :: "'s Deps \<Rightarrow> HubConn \<Rightarrow> duration \<Rightarrow> gotime \<Rightarrow> 's Inbound list \<Rightarrow> 's Sock \<Rightarrow> 's Sock" where
  "readLoop d sess window deadline [] sk = closeWith statusHeartbeatTimeout heartbeatReason sk"
| "readLoop d sess window deadline (e # es) sk =
     (if deadline \<le> ib_at e then closeWith statusHeartbeatTimeout heartbeatReason sk
      else
        let sk = onWorld (ib_env e) sk in
        case ib_read e of
          ReadUnknown \<Rightarrow> readLoop d sess window deadline es sk
        | ReadFrame f \<Rightarrow>
            (case f of
               CPing i \<Rightarrow>
                 (case writeFrame (FPong i) sk of
                    (sk', ok) \<Rightarrow> if ok then readLoop d sess window (ib_at e + window) es sk' else sk')
             | CPong i \<Rightarrow> readLoop d sess window deadline es sk
             | CHello h \<Rightarrow> closeWith StatusPolicyViolation ''hello already received'' sk
             | CSend v \<Rightarrow>
                 (case handleSend d sess v sk of
                    (sk', ok) \<Rightarrow> if ok then readLoop d sess window deadline es sk' else sk')
             | _ \<Rightarrow> readLoop d sess window deadline es
                 (case dp_Handle d of None \<Rightarrow> sk | Some handle \<Rightarrow> onWorld (handle sess f) sk))
        | r \<Rightarrow> endSession r sk)"

section \<open>A session\<close>

definition heartbeatDial :: "'s Deps \<Rightarrow> int \<times> int" where
  "heartbeatDial d =
     (if dp_HeartbeatIntervalSec d \<le> 0 then DefaultHeartbeatIntervalSec else dp_HeartbeatIntervalSec d,
      if dp_MissedPongLimit d \<le> 0 then DefaultMissedPongLimit else dp_MissedPongLimit d)"

definition readyFrame :: "'s Deps \<Rightarrow> uuid \<Rightarrow> gotime \<Rightarrow> HelloResult \<Rightarrow> ServerReady" where
  "readyFrame d sid now res =
     \<lparr>rd_SessionID = sid, rd_WireVersion = Some WireVersion, rd_ServerTime = formatWire now,
      rd_HeartbeatIntervalSec = fst (heartbeatDial d), rd_MissedPongLimit = snd (heartbeatDial d),
      rd_LogSeq = hl_Head res, rd_Resumed = False\<rparr>"

text \<open>From the accepted hello on: attach, ready, the loop, and the deferred detach.\<close>

definition openSession ::
  "'s Deps \<Rightarrow> HubConn \<Rightarrow> gotime \<Rightarrow> HelloResult \<Rightarrow> 's Inbound list \<Rightarrow> 's Sock \<Rightarrow> 's Sock" where
  "openSession d sess now res es sk =
     (let sk1 = (case dp_Attach d of None \<Rightarrow> sk | Some attach \<Rightarrow> onWorld (attach sess) sk);
          (interval, limit) = heartbeatDial d;
          window = heartbeatWindow interval limit;
          sk3 = (case writeFrame (FReady (readyFrame d (hc_SessionID sess) now res)) sk1 of
                   (sk2, ok) \<Rightarrow> if ok then readLoop d sess window (now + window) es sk2 else sk2)
      in if dp_Attach d = None then sk3 else onWorld (dp_Detach d sess) sk3)"

definition versionError :: ServerError where
  "versionError = \<lparr>se_Code = ErrorCodeWireVersionUnsupported,
     se_Message = ''this server speaks wire versions '' @ decimal (nat wireVersionMin) @ '' to '' @ decimal (nat WireVersion),
     se_Retryable = False, se_ClientID = None, se_RetryAfterSec = None\<rparr>"

definition deviceError :: ServerError where
  "deviceError = \<lparr>se_Code = ErrorCodeUnauthorized, se_Message = ''device_id does not match the credential's device'',
     se_Retryable = False, se_ClientID = None, se_RetryAfterSec = None\<rparr>"

definition helloTimeout :: "'s Deps \<Rightarrow> duration" where
  "helloTimeout d = (if dp_HelloTimeout d \<le> 0 then DefaultHelloTimeout else dp_HelloTimeout d)"

definition serveSession ::
  "'s Deps \<Rightarrow> uuid \<Rightarrow> Caller \<Rightarrow> gotime \<Rightarrow> 's Inbound list \<Rightarrow> 's Sock \<Rightarrow> 's Sock" where
  "serveSession d sid caller now es sk =
     (case awaitHello (now + helloTimeout d) es sk of
        (sk1, None) \<Rightarrow> sk1
      | (sk1, Some (hello, at, rest)) \<Rightarrow>
          if ch_WireVersion hello < wireVersionMin \<or> WireVersion < ch_WireVersion hello then refuseSession versionError sk1
          else if dp_parse d (ch_DeviceID hello) \<noteq> Some (ca_DeviceID caller) then refuseSession deviceError sk1
          else case dp_Hello d (sk_world sk1) (ch_ResumeFromLogSeq hello) of
            Inl e \<Rightarrow>
              if e = ErrNegativeCursor
              then closeWith StatusPolicyViolation ''resume_from_log_seq must not be negative'' sk1
              else refuseSession (serverError e ''hello failed'') sk1
          | Inr res \<Rightarrow>
              openSession d \<lparr>hc_SessionID = sid, hc_UserID = ca_UserID caller, hc_DeviceID = ca_DeviceID caller\<rparr>
                at res rest sk1)\<lparr>sk_gone := True\<rparr>"

section \<open>The upgrade\<close>

text \<open>\<open>strings.Split\<close> at a comma.\<close>

fun splitComma :: "string \<Rightarrow> string list" where
  "splitComma [] = [[]]"
| "splitComma (c # cs) =
     (if c = CHR '','' then [] # splitComma cs
      else case splitComma cs of [] \<Rightarrow> [[c]] | w # ws \<Rightarrow> (c # w) # ws)"

definition offeredSubprotocols :: "string list \<Rightarrow> string list" where
  "offeredSubprotocols lines = filter (\<lambda>v. v \<noteq> '''') (map TrimSpace (concat (map splitComma lines)))"

definition offeredTokens :: "string list \<Rightarrow> token list" where
  "offeredTokens offered =
     map (drop (length tokenSubprotocolPrefix))
       (filter (\<lambda>p. p \<noteq> subprotocolV1 \<and> has_prefix p tokenSubprotocolPrefix) offered)"

text \<open>
  How an upgrade is answered: with a status and a body before the switch of protocols, by the
  library when it refuses the switch, or with the one subprotocol that is echoed and a session.
\<close>

datatype refusal_body = CodeBody string | ErrorBody string | FrameBody ServerError

datatype 's upgrade = Refused int refusal_body | NotAccepted | Upgraded string "'s Sock"

definition unauthorizedAnswer :: "'s upgrade" where
  "unauthorizedAnswer = Refused 401 (CodeBody ''unauthorized'')"

definition socketHandler ::
  "'s Deps \<Rightarrow> bool \<Rightarrow> uuid \<Rightarrow> string list \<Rightarrow> gotime \<Rightarrow> 's Inbound list \<Rightarrow> 's Sock \<Rightarrow> 's upgrade" where
  "socketHandler d accepts sid headers now es sk =
     (let offered = offeredSubprotocols headers;
          tokens = offeredTokens offered
      in if 1 < length tokens then Refused 400 (ErrorBody ''offer one catenary.token.<token> subprotocol, not several'')
         else if length tokens = 1 \<and> \<not> validToken (hd tokens)
         then Refused 400 (ErrorBody ''catenary.token.<token> is not shaped like a token'')
         else if length tokens = 0 then unauthorizedAnswer
         else if subprotocolV1 \<notin> set offered then Refused 400 (ErrorBody (''subprotocol '' @ subprotocolV1 @ '' is required''))
         else case dp_Authenticate d (sk_world sk) (hd tokens) of
           Inl e \<Rightarrow>
             if e = ErrUnauthorized then unauthorizedAnswer
             else Refused 500 (FrameBody (serverError e ''authentication failed''))
         | Inr caller \<Rightarrow>
             if IsBot caller then unauthorizedAnswer
             else if \<not> accepts then NotAccepted
             else Upgraded subprotocolV1 (serveSession d sid caller now es sk))"

section \<open>As the server wires it\<close>

text \<open>
  \<open>cmd/catenary/main.go\<close>: the functions of \<open>Deps\<close> are the store's and the hub's. What a deployment
  decides is a record: the limits, the ids and times a send draws, what its unlocked reads saw,
  the digest, the clocks and the dial.
\<close>

record 'h Wiring =
  wr_limits :: Limits
  wr_draws :: "'h DB \<Rightarrow> SendDraws"
  wr_stale :: "'h DB \<Rightarrow> 'h DB"
  wr_hash :: "token \<Rightarrow> 'h"
  wr_now :: gotime
  wr_parse :: "string \<Rightarrow> uuid option"
  wr_heartbeat :: "int \<times> int"

type_synonym 'h Served = "'h DB \<times> Hub"

text \<open>The position of a connection among the hub's objects: a conn reaches itself also when it is no longer indexed.\<close>

definition connPos :: "HubConn \<Rightarrow> Hub \<Rightarrow> nat option" where
  "connPos c h = find (\<lambda>p. hs_conn (obj h p) = c) [0..<length (hb_objs h)]"

definition hubHandle :: "'h Wiring \<Rightarrow> HubConn \<Rightarrow> ClientFrame \<Rightarrow> 'h Served \<Rightarrow> 'h Served" where
  "hubHandle wr c f = (\<lambda>(db, h).
     case f of
       CRead conv n \<Rightarrow>
         (let conv = (case wr_parse wr conv of None \<Rightarrow> uuid_Nil | Some u \<Rightarrow> u)
          in case MarkRead db conv (hc_UserID c) n of
               (db', marked) \<Rightarrow> (db', case connPos c h of None \<Rightarrow> h | Some p \<Rightarrow> read p conv marked (Inr (Members db' conv)) h))
     | CTyping conv state \<Rightarrow>
         (let conv = (case wr_parse wr conv of None \<Rightarrow> uuid_Nil | Some u \<Rightarrow> u)
          in (db, typingFrame c conv (state = ''start'') (wr_now wr) (Inr (Members db conv)) h))
     | _ \<Rightarrow> (db, h))"

definition hubAttach :: "HubConn \<Rightarrow> 'h Served \<Rightarrow> 'h Served" where
  "hubAttach c = (\<lambda>(db, h). let p = length (hb_objs h); h1 = Attach c h in
     (db, if hb_closing h then h1 else severIfDead p (Inr (DeadDevices db [hc_DeviceID c])) h1))"

definition hubDetach :: "HubConn \<Rightarrow> 'h Served \<Rightarrow> 'h Served" where
  "hubDetach c = (\<lambda>(db, h).
     case connPos c h of
       None \<Rightarrow> (db, h)
     | Some p \<Rightarrow> (case detach p h of (h1, changed) \<Rightarrow>
         (db, fold (\<lambda>conv. emitTyping conv (Inr (Members db conv)) None) changed h1)))"

definition wiredDeps :: "gotime \<Rightarrow> 'h Wiring \<Rightarrow> 'h Served Deps" where
  "wiredDeps dbnow wr =
     \<lparr>dp_parse = wr_parse wr,
      dp_Authenticate = (\<lambda>(db, h). Authenticate (wr_hash wr) (wr_now wr) db),
      dp_Hello = (\<lambda>(db, h). Hello db),
      dp_Send = (\<lambda>m (db, h).
        case SendMessage (wr_limits wr) (PostgresUploads dbnow) (wr_draws wr db) (wr_stale wr db) db m of
          (db', r) \<Rightarrow> ((db', h), r)),
      dp_Attach = Some hubAttach,
      dp_Detach = hubDetach,
      dp_Handle = Some (hubHandle wr),
      dp_HelloTimeout = 0,
      dp_HeartbeatIntervalSec = fst (wr_heartbeat wr),
      dp_MissedPongLimit = snd (wr_heartbeat wr)\<rparr>"

end
