(* ===== verification/Store_Rooms.thy ===== *)
theory Store_Rooms
  imports Store_Sync Store_Tokens Go_Text
begin

text \<open>
  The rest of \<open>internal/store/metadata.go\<close> and \<open>offboard.go\<close>: finding or creating a direct, a group
  and a self conversation, and ending a person's access. What an operation reads without a
  lock it reads from \<open>db0\<close>; its writes run on \<open>db\<close>. \<open>uuid.New()\<close> is the argument \<open>i\<close>. The
  test-only fault hooks are nil, as in every store the composition root builds.
\<close>

section \<open>Writing a conversation\<close>

text \<open>
  \<open>INSERT ... ON CONFLICT DO NOTHING\<close>: no row for any unique violation of the table, the
  primary key and the three partial indexes.
\<close>

definition conflicts :: "ConversationT \<Rightarrow> ConversationT \<Rightarrow> bool" where
  "conflicts new c \<longleftrightarrow> cv_id c = cv_id new \<or>
     (cv_kind c = ''direct'' \<and> cv_kind new = ''direct'' \<and> cv_direct_key c = cv_direct_key new) \<or>
     (cv_kind c = ''self'' \<and> cv_kind new = ''self'' \<and> cv_direct_key c = cv_direct_key new) \<or>
     (cv_create_key new \<noteq> None \<and> cv_create_key c = cv_create_key new)"

definition insertConversation :: "ConversationT \<Rightarrow> 'h DB \<Rightarrow> 'h DB option" where
  "insertConversation new db =
     (if list_ex (conflicts new) (db_conversations db) then None
      else Some (db\<lparr>db_conversations := db_conversations db @ [new]\<rparr>))"

definition insertMembers :: "uuid \<Rightarrow> uuid list \<Rightarrow> 'h DB \<Rightarrow> store_error + 'h DB" where
  "insertMembers conv users db =
     (if \<not> distinct users \<or> list_ex (isMember db conv) users then Inl (PgError ''23505'' ''conversation_members_pkey'')
      else if list_ex (\<lambda>u. userByID db u = None) users then Inl (PgError ''23503'' ''conversation_members_user_id_fkey'')
      else Inr (db\<lparr>db_members := db_members db @
             map (\<lambda>u. \<lparr>mb_conversation_id = conv, mb_user_id = u, mb_read_seq = 0, mb_muted = False,
                        mb_metadata_log_seq = 0\<rparr>) users\<rparr>))"

text \<open>
  The tail three creations share: the members, the row read back before the bump, the one
  bump of the conversation and every member, the commit.
\<close>

definition finishCreate ::
  "'h DB \<Rightarrow> 'h DB \<Rightarrow> uuid \<Rightarrow> uuid list \<Rightarrow> uuid \<Rightarrow> 'h DB \<times> (store_error + ConversationRow)" where
  "finishCreate db db1 i members viewer =
     (case insertMembers i members db1 of
        Inl e \<Rightarrow> (db, Inl e)
      | Inr db2 \<Rightarrow>
     (case conversationRowOne db2 i viewer of
        Inl e \<Rightarrow> (db, Inl e)
      | Inr out \<Rightarrow>
     (case applyBump \<lparr>bp_convs = [i], bp_members = map (Pair i) members, bp_users = []\<rparr> db2 of
        Inl e \<Rightarrow> (db, Inl e)
      | Inr (db3, _) \<Rightarrow> (db3, Inr out))))"

definition readBack ::
  "'h DB \<Rightarrow> ConversationT option \<Rightarrow> uuid \<Rightarrow> 'h DB \<times> (store_error + ConversationRow)" where
  "readBack db found viewer =
     (case found of
        None \<Rightarrow> (db, Inl DriverError)
      | Some c \<Rightarrow> (db, conversationRowOne db (cv_id c) viewer))"

section \<open>A direct\<close>

definition directKey :: "uuid \<Rightarrow> uuid \<Rightarrow> string" where
  "directKey a b = (if b < a then b @ ''|'' @ a else a @ ''|'' @ b)"

definition findOrCreateDirect ::
  "uuid \<Rightarrow> 'h DB \<Rightarrow> 'h DB \<Rightarrow> uuid \<Rightarrow> string \<Rightarrow> 'h DB \<times> (store_error + ConversationRow)" where
  "findOrCreateDirect i db0 db viewer targetHandle =
     (case find (\<lambda>u. us_handle u = targetHandle) (db_users db0) of
        None \<Rightarrow> (db, Inl ErrTargetNotFound)
      | Some t \<Rightarrow>
          if us_deactivated_at t \<noteq> None then (db, Inl ErrTargetDeactivated)
          else if us_id t = viewer then (db, Inl ErrSelfDirect)
          else
            let key = directKey viewer (us_id t) in
            (case insertConversation \<lparr>cv_id = i, cv_kind = ''direct'', cv_name = None, cv_direct_key = Some key,
                    cv_create_key = None, cv_last_seq = 0, cv_retention_days = None, cv_metadata_log_seq = 0\<rparr> db of
               Some db1 \<Rightarrow> finishCreate db db1 i [viewer, us_id t] viewer
             | None \<Rightarrow> readBack db (find (\<lambda>c. cv_direct_key c = Some key \<and> cv_kind c = ''direct'') (db_conversations db)) viewer))"

definition FindOrCreateDirect ::
  "uuid \<Rightarrow> 'h DB \<Rightarrow> 'h DB \<Rightarrow> uuid \<Rightarrow> string \<Rightarrow> 'h DB \<times> (SendError + ConversationRow)" where
  "FindOrCreateDirect i db0 db viewer targetHandle =
     (case findOrCreateDirect i db0 db viewer targetHandle of
        (db', Inr c) \<Rightarrow> (db', Inr c)
      | (db', Inl e) \<Rightarrow> (db', Inl (sendErrorFor e)))"

section \<open>A group\<close>

definition maxGroupNameRunes :: nat where "maxGroupNameRunes = 80"
definition maxGroupMembers :: nat where "maxGroupMembers = 49"

definition validateGroupRequest :: "string \<Rightarrow> string list \<Rightarrow> store_error + string" where
  "validateGroupRequest name memberHandles =
     (let name = TrimSpace name;
          n = RuneCountInString name
      in if n < 1 \<or> maxGroupNameRunes < n then Inl ErrInvalidGroup
         else if length memberHandles < 1 \<or> maxGroupMembers < length memberHandles then Inl ErrInvalidGroup
         else if '''' \<in> set memberHandles \<or> \<not> distinct memberHandles then Inl ErrInvalidGroup
         else Inr name)"

text \<open>The loop over the resolved handles: the refusal so far and the ids so far.\<close>

fun resolveMembers :: "uuid \<Rightarrow> UserT list \<Rightarrow> store_error option \<Rightarrow> uuid list \<Rightarrow> store_error option \<times> uuid list" where
  "resolveMembers creator [] refusal ids = (refusal, ids)"
| "resolveMembers creator (u # us) refusal ids =
     (if us_deactivated_at u \<noteq> None then resolveMembers creator us (Some ErrTargetDeactivated) ids
      else if us_id u = creator \<or> us_kind u \<noteq> ''person'' then
        resolveMembers creator us (if refusal = None then Some ErrInvalidGroup else refusal) ids
      else resolveMembers creator us refusal (ids @ [us_id u]))"

definition groupKey :: "uuid \<Rightarrow> uuid \<Rightarrow> string" where
  "groupKey creator requestID = creator @ ''|'' @ requestID"

definition byCreateKey :: "'h DB \<Rightarrow> string option \<Rightarrow> ConversationT option" where
  "byCreateKey db key =
     (case key of None \<Rightarrow> None | Some k \<Rightarrow> find (\<lambda>c. cv_create_key c = Some k) (db_conversations db))"

definition createGroup ::
  "uuid \<Rightarrow> 'h DB \<Rightarrow> 'h DB \<Rightarrow> uuid \<Rightarrow> string \<Rightarrow> string list \<Rightarrow> uuid option \<Rightarrow>
   'h DB \<times> (store_error + ConversationRow \<times> bool)" where
  "createGroup i db0 db creator name memberHandles requestID =
     (let key = map_option (groupKey creator) requestID;
          answer = (\<lambda>created (db', r). (db', map_sum id (\<lambda>c. (c, created)) r))
      in case byCreateKey db0 key of
        Some c \<Rightarrow> (db, map_sum id (\<lambda>r. (r, False)) (conversationRowOne db0 (cv_id c) creator))
      | None \<Rightarrow>
     (case validateGroupRequest name memberHandles of
        Inl e \<Rightarrow> (db, Inl e)
      | Inr name \<Rightarrow>
     (case userByID db0 creator of
        None \<Rightarrow> (db, Inl DriverError)
      | Some u \<Rightarrow>
          if us_kind u \<noteq> ''person'' then (db, Inl ErrBotCannotCreateGroup)
          else
            let rows = filter (\<lambda>u. us_handle u \<in> set memberHandles) (db_users db0);
                (refusal, ids) = resolveMembers creator rows None []
            in if length rows < length memberHandles then (db, Inl ErrTargetNotFound)
               else case refusal of
                 Some e \<Rightarrow> (db, Inl e)
               | None \<Rightarrow>
                   (case insertConversation \<lparr>cv_id = i, cv_kind = ''group'', cv_name = Some name, cv_direct_key = None,
                           cv_create_key = key, cv_last_seq = 0, cv_retention_days = None, cv_metadata_log_seq = 0\<rparr> db of
                      Some db1 \<Rightarrow> answer True (finishCreate db db1 i (creator # sort ids) creator)
                    | None \<Rightarrow> answer False (readBack db (byCreateKey db key) creator)))))"

definition CreateGroup ::
  "uuid \<Rightarrow> 'h DB \<Rightarrow> 'h DB \<Rightarrow> uuid \<Rightarrow> string \<Rightarrow> string list \<Rightarrow> uuid option \<Rightarrow>
   'h DB \<times> ((store_error + SendError) + ConversationRow \<times> bool)" where
  "CreateGroup i db0 db creator name memberHandles requestID =
     (case createGroup i db0 db creator name memberHandles requestID of
        (db', Inr c) \<Rightarrow> (db', Inr c)
      | (db', Inl e) \<Rightarrow>
          (db', Inl (if e = ErrInvalidGroup \<or> e = ErrBotCannotCreateGroup then Inl e else Inr (sendErrorFor e))))"

section \<open>A self conversation\<close>

definition selfConversationName :: string where "selfConversationName = ''Notes''"

definition findOrCreateSelf ::
  "uuid \<Rightarrow> 'h DB \<Rightarrow> 'h DB \<Rightarrow> uuid \<Rightarrow> 'h DB \<times> (store_error + ConversationRow)" where
  "findOrCreateSelf i db0 db viewer =
     (case userByID db0 viewer of
        None \<Rightarrow> (db, Inl DriverError)
      | Some u \<Rightarrow>
          if us_kind u \<noteq> ''person'' then (db, Inl ErrBotCannotCreateSelf)
          else case insertConversation \<lparr>cv_id = i, cv_kind = ''self'', cv_name = Some selfConversationName,
                  cv_direct_key = Some viewer, cv_create_key = None, cv_last_seq = 0, cv_retention_days = None,
                  cv_metadata_log_seq = 0\<rparr> db of
            Some db1 \<Rightarrow> finishCreate db db1 i [viewer] viewer
          | None \<Rightarrow> readBack db (find (\<lambda>c. cv_direct_key c = Some viewer \<and> cv_kind c = ''self'') (db_conversations db)) viewer)"

definition FindOrCreateSelf ::
  "uuid \<Rightarrow> 'h DB \<Rightarrow> 'h DB \<Rightarrow> uuid \<Rightarrow> 'h DB \<times> ((store_error + SendError) + ConversationRow)" where
  "FindOrCreateSelf i db0 db viewer =
     (case findOrCreateSelf i db0 db viewer of
        (db', Inr c) \<Rightarrow> (db', Inr c)
      | (db', Inl e) \<Rightarrow> (db', Inl (if e = ErrBotCannotCreateSelf then Inl e else Inr (sendErrorFor e))))"

section \<open>Ending a person's access\<close>

record CredentialsRevoked =
  cx_RefreshTokens :: nat
  cx_AccessTokens :: nat
  cx_Devices :: nat
  cx_EnrollmentTokens :: nat

definition credentialsChanged :: "CredentialsRevoked \<Rightarrow> bool" where
  "credentialsChanged r \<longleftrightarrow> 0 < cx_RefreshTokens r \<or> 0 < cx_AccessTokens r \<or> 0 < cx_Devices r \<or> 0 < cx_EnrollmentTokens r"

record Offboard =
  ob_UserID :: uuid
  ob_Deactivated :: bool
  ob_Revoked :: CredentialsRevoked
  ob_MarkerLogSeq :: int

definition offboardChanged :: "Offboard \<Rightarrow> bool" where
  "offboardChanged x \<longleftrightarrow> ob_Deactivated x \<or> credentialsChanged (ob_Revoked x)"

definition revokeCredentialsTx :: "gotime \<Rightarrow> uuid \<Rightarrow> 'h DB \<Rightarrow> 'h DB \<times> CredentialsRevoked" where
  "revokeCredentialsTx dbnow user db =
     (let mine = dv_id ` set (filter (\<lambda>d. dv_user_id d = user) (db_devices db));
          R = (\<lambda>r. rt_device_id r \<in> mine \<and> rt_revoked_at r = None);
          A = (\<lambda>a. ac_user_id a = user \<and> ac_revoked_at a = None);
          D = (\<lambda>d. dv_user_id d = user \<and> dv_revoked_at d = None)
      in (db\<lparr>db_refresh_tokens := update_where R (\<lambda>r. r\<lparr>rt_revoked_at := Some dbnow\<rparr>) (db_refresh_tokens db),
             db_access_tokens := update_where A (\<lambda>a. a\<lparr>ac_revoked_at := Some dbnow\<rparr>) (db_access_tokens db),
             db_devices := update_where D (\<lambda>d. d\<lparr>dv_revoked_at := Some dbnow\<rparr>) (db_devices db),
             db_enrollment_tokens := update_where (liveEnrollment user) (\<lambda>e. e\<lparr>en_superseded_at := Some dbnow\<rparr>)
               (db_enrollment_tokens db)\<rparr>,
          \<lparr>cx_RefreshTokens = length (filter R (db_refresh_tokens db)),
           cx_AccessTokens = length (filter A (db_access_tokens db)),
           cx_Devices = length (filter D (db_devices db)),
           cx_EnrollmentTokens = length (filter (liveEnrollment user) (db_enrollment_tokens db))\<rparr>))"

definition lockRoomsOfPerson :: "'h DB \<Rightarrow> 'h DB \<Rightarrow> uuid \<Rightarrow> store_error + uuid list" where
  "lockRoomsOfPerson db0 db user =
     (let rooms = sort (remdups (map mb_conversation_id (filter (\<lambda>m. mb_user_id m = user) (db_members db0))))
      in if list_ex (\<lambda>i. conversationByID db i = None) rooms then Inl DriverError
         else if list_ex (\<lambda>i. \<not> isMember db i user) rooms then Inl DriverError
         else Inr rooms)"

definition deactivatable :: "uuid \<Rightarrow> UserT \<Rightarrow> bool" where
  "deactivatable user u \<longleftrightarrow> us_id u = user \<and> us_deactivated_at u = None"

definition setDeactivatedAt :: "gotime \<Rightarrow> uuid \<Rightarrow> 'h DB \<Rightarrow> 'h DB \<times> bool" where
  "setDeactivatedAt dbnow user db =
     (db\<lparr>db_users := update_where (deactivatable user) (\<lambda>u. u\<lparr>us_deactivated_at := Some dbnow\<rparr>) (db_users db)\<rparr>,
      list_ex (deactivatable user) (db_users db))"

definition clearDeactivatedAt :: "uuid \<Rightarrow> 'h DB \<Rightarrow> 'h DB \<times> bool" where
  "clearDeactivatedAt user db =
     (let P = (\<lambda>u. us_id u = user \<and> us_deactivated_at u \<noteq> None)
      in (db\<lparr>db_users := update_where P (\<lambda>u. u\<lparr>us_deactivated_at := None\<rparr>) (db_users db)\<rparr>, list_ex P (db_users db)))"

definition bumpDeactivationMarkers :: "uuid \<Rightarrow> uuid list \<Rightarrow> 'h DB \<Rightarrow> store_error + 'h DB \<times> int" where
  "bumpDeactivationMarkers user rooms db = applyBump \<lparr>bp_convs = rooms, bp_members = [], bp_users = [user]\<rparr> db"

definition notifyReadSpansOfPerson :: "uuid \<Rightarrow> uuid \<Rightarrow> uuid list \<Rightarrow> 'h DB \<Rightarrow> 'h DB" where
  "notifyReadSpansOfPerson batch user rooms db =
     fold (\<lambda>m. notify (NotifyReceipt (mb_conversation_id m) user 0 (mb_read_seq m) (Some batch)))
       (filter (\<lambda>m. mb_user_id m = user \<and> mb_conversation_id m \<in> set rooms \<and> 0 < mb_read_seq m) (db_members db)) db"

definition publishUserRevocation :: "uuid \<Rightarrow> 'h DB \<Rightarrow> 'h DB" where
  "publishUserRevocation user db = notify (RevokedUser user) db"

definition DeactivateUser ::
  "gotime \<Rightarrow> uuid \<Rightarrow> 'h DB \<Rightarrow> 'h DB \<Rightarrow> uuid \<Rightarrow> 'h DB \<times> (store_error + Offboard)" where
  "DeactivateUser dbnow batch db0 db user =
     (case lockRoomsOfPerson db0 db user of
        Inl e \<Rightarrow> (db, Inl e)
      | Inr rooms \<Rightarrow>
          if \<not> list_ex (\<lambda>u. us_id u = user \<and> us_kind u = ''person'') (db_users db) then (db, Inl ErrPersonNotFound)
          else
            let (db1, deactivated) = setDeactivatedAt dbnow user db;
                (db2, revoked) = revokeCredentialsTx dbnow user db1;
                out = \<lparr>ob_UserID = user, ob_Deactivated = deactivated, ob_Revoked = revoked, ob_MarkerLogSeq = 0\<rparr>;
                db3 = (if offboardChanged out then publishUserRevocation user db2 else db2)
            in if \<not> deactivated then (db3, Inr out)
               else case bumpDeactivationMarkers user rooms (notifyReadSpansOfPerson batch user rooms db3) of
                 Inl e \<Rightarrow> (db, Inl e)
               | Inr (db5, v) \<Rightarrow> (db5, Inr (out\<lparr>ob_MarkerLogSeq := v\<rparr>)))"

definition reactivateTx :: "gotime \<Rightarrow> uuid \<Rightarrow> 'h DB \<Rightarrow> 'h DB \<times> CredentialsRevoked \<times> bool" where
  "reactivateTx dbnow user db =
     (let (db1, revoked) = revokeCredentialsTx dbnow user db;
          db2 = (if credentialsChanged revoked then publishUserRevocation user db1 else db1);
          (db3, cleared) = clearDeactivatedAt user db2
      in (db3, revoked, cleared))"

end
