(* ===== verification/Api_Rest.thy ===== *)
theory Api_Rest
  imports Api_Socket Store_Rooms
begin

text \<open>
  The REST routes: \<open>internal/api/router.go\<close>, \<open>messages.go\<close> and \<open>devices.go\<close>. A handler is a
  function of the request, of its decoded body (\<open>None\<close> when the generated decoder or the size bound
  refuses it) and of the state behind the functions it is given; it returns that state and the
  answer. \<open>RestDeps\<close> holds the optional functions of \<open>Deps\<close>; a route whose functions are missing is
  not registered, and the router's own 404 answers for it.
\<close>

section \<open>Requests\<close>

text \<open>The headers, path values and query parameters a handler reads, the first value of each name.\<close>

record Request =
  hq_Authorization :: string
  hq_id :: string
  hq_query :: "(string \<times> string) list"

record MessageSendRequest =
  ms_ClientID :: string
  ms_Text :: "string option"
  ms_Attachments :: "OutboundAttachment list"
  ms_ReplyToMessageID :: "string option"

record CreateGroupRequest =
  cg_Name :: string
  cg_MemberHandles :: "string list"
  cg_RequestID :: "string option"

record EnrollRequest =
  eq_EnrollmentToken :: token
  eq_DeviceName :: string

section \<open>Answers\<close>

record EnrollResponse =
  ep_UserID :: uuid
  ep_DeviceID :: uuid
  ep_AccessToken :: token
  ep_AccessExpiresAt :: string
  ep_RefreshToken :: token
  ep_RefreshExpiresAt :: string

text \<open>\<open>ErrorOf e\<close> is the body \<open>{"error": e.Error()}\<close>.\<close>

datatype answer_body =
    Refusal refusal_body | ErrorOf store_error | Fields "(string \<times> string) list"
  | MessageBody Message | ConversationBody Conversation | RosterBody "wireRosterEntry list"
  | SyncBody SyncResponse | DevicesBody "wireDevice list" | EnrollBody EnrollResponse | NoBody | NotFound

text \<open>\<open>Aborted\<close> is a panic, after which the server drops the connection.\<close>

datatype answer = Answered int answer_body | Aborted

definition unauthorized :: answer where
  "unauthorized = Answered 401 (Refusal (CodeBody ''unauthorized''))"

definition badRequest :: "string \<Rightarrow> answer" where
  "badRequest why = Answered 400 (Refusal (ErrorBody why))"

definition failed :: "store_error \<Rightarrow> string \<Rightarrow> answer" where
  "failed e message = Answered 500 (Refusal (FrameBody (serverError e message)))"

text \<open>A refusal as the store's table has it: its status and its frame.\<close>

definition refusedWith :: "SendError \<Rightarrow> string \<Rightarrow> answer" where
  "refusedWith se message = Answered (HTTPStatus (Some se)) (Refusal (FrameBody (sendErrorWire (Some se) message)))"

section \<open>What the router is given\<close>

record 's RestDeps =
  ap_deps :: "'s Deps"
  ap_DB :: "('s \<Rightarrow> bool) option"
  ap_Version :: string
  ap_Commit :: string
  ap_Sync :: "(uuid \<Rightarrow> int \<Rightarrow> int \<Rightarrow> 's \<Rightarrow> store_error + SyncResponse option) option"
  ap_CallerID :: "(Request \<Rightarrow> 's \<Rightarrow> uuid option) option"
  ap_Enroll :: "(token \<Rightarrow> string \<Rightarrow> 's \<Rightarrow> 's \<times> (store_error + Enrollment)) option"
  ap_Devices :: "(uuid \<Rightarrow> 's \<Rightarrow> store_error + DeviceRow list) option"
  ap_RevokeOwnDevice :: "(uuid \<Rightarrow> uuid \<Rightarrow> 's \<Rightarrow> 's \<times> (store_error + bool)) option"
  ap_Caller :: "(Request \<Rightarrow> 's \<Rightarrow> Caller option) option"
  ap_MessageForFanout :: "(uuid \<Rightarrow> int \<Rightarrow> 's \<Rightarrow> store_error + FanoutMessage) option"
  ap_FindOrCreateDirect :: "(uuid \<Rightarrow> string \<Rightarrow> 's \<Rightarrow> 's \<times> (SendError + ConversationRow)) option"
  ap_CreateGroup :: "(uuid \<Rightarrow> string \<Rightarrow> string list \<Rightarrow> uuid option \<Rightarrow> 's \<Rightarrow>
     's \<times> ((store_error + SendError) + ConversationRow \<times> bool)) option"
  ap_Roster :: "(uuid \<Rightarrow> 's \<Rightarrow> store_error + RosterRow list) option"
  ap_FindOrCreateSelf :: "(uuid \<Rightarrow> 's \<Rightarrow> 's \<times> ((store_error + SendError) + ConversationRow)) option"
  ap_MediaURL :: "(string \<Rightarrow> string) option"
  ap_unmarshal :: transcript_decoder
  ap_tables :: UnicodeTables

section \<open>Probes\<close>

definition healthz :: "'s RestDeps \<Rightarrow> answer" where
  "healthz d = Answered 200 (Fields ([(''status'', ''ok''), (''version'', ap_Version d)] @
     (if ap_Commit d \<noteq> '''' then [(''commit'', ap_Commit d)] else [])))"

definition readyz :: "'s RestDeps \<Rightarrow> 's \<Rightarrow> answer" where
  "readyz d w =
     (case ap_DB d of
        Some ping \<Rightarrow>
          if \<not> ping w then Answered 503 (Fields [(''status'', ''unready''), (''check'', ''database'')])
          else Answered 200 (Fields [(''status'', ''ready'')])
      | None \<Rightarrow> Answered 200 (Fields [(''status'', ''ready'')]))"

section \<open>The query of a catch-up\<close>

text \<open>\<open>strconv.ParseInt\<close> in base 10 at 64 bits: an optional sign, digits, no overflow.\<close>

definition isDigit :: "char \<Rightarrow> bool" where
  "isDigit c \<longleftrightarrow> CHR ''0'' \<le> c \<and> c \<le> CHR ''9''"

definition ParseInt :: "string \<Rightarrow> int option" where
  "ParseInt s =
     (let neg = (s \<noteq> [] \<and> hd s = CHR ''-'');
          digits = (if s \<noteq> [] \<and> (hd s = CHR ''-'' \<or> hd s = CHR ''+'') then tl s else s);
          v = int (decimalValue digits)
      in if digits = [] \<or> \<not> list_all isDigit digits then None
         else if neg then (if v \<le> 2 ^ 63 then Some (- v) else None)
         else if v < 2 ^ 63 then Some v else None)"

definition intParam :: "Request \<Rightarrow> string \<Rightarrow> int \<Rightarrow> int option" where
  "intParam r name def =
     (let raw = (case map_of (hq_query r) name of None \<Rightarrow> '''' | Some v \<Rightarrow> v)
      in if raw = '''' then Some def
         else case ParseInt raw of
           None \<Rightarrow> None
         | Some v \<Rightarrow> if v < 0 then None else Some v)"

definition syncHandler ::
  "(Request \<Rightarrow> 's \<Rightarrow> uuid option) \<Rightarrow> (uuid \<Rightarrow> int \<Rightarrow> int \<Rightarrow> 's \<Rightarrow> store_error + SyncResponse option) \<Rightarrow>
   Request \<Rightarrow> 's \<Rightarrow> answer" where
  "syncHandler callerID sync r w =
     (case callerID r w of
        None \<Rightarrow> unauthorized
      | Some viewer \<Rightarrow>
          case intParam r ''after'' 0 of
            None \<Rightarrow> badRequest ''after must be a non-negative integer''
          | Some after \<Rightarrow>
              case intParam r ''limit'' 0 of
                None \<Rightarrow> badRequest ''limit must be a non-negative integer''
              | Some limit \<Rightarrow>
                  case sync viewer after limit w of
                    Inl e \<Rightarrow> failed e ''sync failed''
                  | Inr None \<Rightarrow> Aborted
                  | Inr (Some page) \<Rightarrow> Answered 200 (SyncBody page))"

section \<open>Enrollment\<close>

definition enrollHandler ::
  "(token \<Rightarrow> string \<Rightarrow> 's \<Rightarrow> 's \<times> (store_error + Enrollment)) \<Rightarrow> EnrollRequest option \<Rightarrow> 's \<Rightarrow> 's \<times> answer" where
  "enrollHandler enroll body w =
     (case body of
        None \<Rightarrow> (w, badRequest ''enroll request is not a valid EnrollRequest'')
      | Some req \<Rightarrow>
          case enroll (eq_EnrollmentToken req) (eq_DeviceName req) w of
            (w', Inl e) \<Rightarrow>
              (w', if e = ErrDeviceNameRequired then badRequest ''device_name must be 1 to 128 bytes''
                   else if e = ErrUnauthorized then unauthorized
                   else failed e ''enrollment failed'')
          | (w', Inr x) \<Rightarrow>
              (w', Answered 200 (EnrollBody
                 \<lparr>ep_UserID = er_UserID x, ep_DeviceID = er_DeviceID x,
                  ep_AccessToken = it_Plaintext (er_Access x), ep_AccessExpiresAt = formatWire (it_ExpiresAt (er_Access x)),
                  ep_RefreshToken = it_Plaintext (er_Refresh x),
                  ep_RefreshExpiresAt = formatWire (it_ExpiresAt (er_Refresh x))\<rparr>)))"

section \<open>Devices\<close>

definition devicesHandler ::
  "(Request \<Rightarrow> 's \<Rightarrow> uuid option) \<Rightarrow> (uuid \<Rightarrow> 's \<Rightarrow> store_error + DeviceRow list) \<Rightarrow> Request \<Rightarrow> 's \<Rightarrow> answer" where
  "devicesHandler callerID devices r w =
     (case callerID r w of
        None \<Rightarrow> unauthorized
      | Some viewer \<Rightarrow>
          case devices viewer w of
            Inl e \<Rightarrow> failed e ''device list failed''
          | Inr rows \<Rightarrow> Answered 200 (DevicesBody (DeviceList rows)))"

definition revokeDeviceHandler ::
  "(string \<Rightarrow> uuid option) \<Rightarrow> (Request \<Rightarrow> 's \<Rightarrow> uuid option) \<Rightarrow>
   (uuid \<Rightarrow> uuid \<Rightarrow> 's \<Rightarrow> 's \<times> (store_error + bool)) \<Rightarrow> Request \<Rightarrow> 's \<Rightarrow> 's \<times> answer" where
  "revokeDeviceHandler parse callerID revoke r w =
     (case callerID r w of
        None \<Rightarrow> (w, unauthorized)
      | Some viewer \<Rightarrow>
          case parse (hq_id r) of
            None \<Rightarrow> (w, badRequest ''id is not a valid device id'')
          | Some deviceID \<Rightarrow>
              case revoke viewer deviceID w of
                (w', Inl e) \<Rightarrow> (w', failed e ''device revoke failed'')
              | (w', Inr revoked) \<Rightarrow> (w', Answered 204 NoBody))"

section \<open>Sending a message\<close>

definition restMessage :: "'s Deps \<Rightarrow> Caller \<Rightarrow> uuid \<Rightarrow> MessageSendRequest \<Rightarrow> NewMessage" where
  "restMessage d caller convID req =
     \<lparr>nm_ConversationID = convID, nm_AuthorID = ca_UserID caller, nm_ClientID = mustUUID d (ms_ClientID req),
      nm_SenderDeviceID = (if ca_DeviceID caller \<noteq> uuid_Nil then Some (ca_DeviceID caller) else None),
      nm_ReplyTo = map_option (mustUUID d) (ms_ReplyToMessageID req), nm_Text = ms_Text req,
      nm_Attachments = map (\<lambda>a. \<lparr>na_Kind = oa_Kind a, na_UploadID = mustUUID d (oa_UploadID a)\<rparr>) (ms_Attachments req)\<rparr>"

text \<open>The stored row as its author sees it.\<close>

definition restView :: "'s RestDeps \<Rightarrow> Caller \<Rightarrow> FanoutMessage \<Rightarrow> Message option" where
  "restView d caller fm =
     (let m = fm_Message fm;
          src = (case fm_ReplySource fm of
                   None \<Rightarrow> None
                 | Some s \<Rightarrow> if rs_ConversationID s = mr_ConversationID m then Some s else None)
      in wireMessage (ap_unmarshal d) m (fm_Attachments fm) src
           \<lparr>vw_UserID = ca_UserID caller, vw_State = DeliveryState m (ca_UserID caller) 0 (fm_ReadBy fm),
            vw_ReadBy = Some (fm_ReadBy fm), vw_MediaURL = ap_MediaURL d\<rparr>)"

text \<open>\<open>meanwhile\<close> is what others do between the commit of the send and the read of its row.\<close>

definition messagesHandler ::
  "'s RestDeps \<Rightarrow> (Request \<Rightarrow> 's \<Rightarrow> Caller option) \<Rightarrow> (uuid \<Rightarrow> int \<Rightarrow> 's \<Rightarrow> store_error + FanoutMessage) \<Rightarrow>
   ('s \<Rightarrow> 's) \<Rightarrow> Request \<Rightarrow> MessageSendRequest option \<Rightarrow> 's \<Rightarrow> 's \<times> answer" where
  "messagesHandler d callerOf readRow meanwhile r body w =
     (case callerOf r w of
        None \<Rightarrow> (w, unauthorized)
      | Some caller \<Rightarrow>
          case dp_parse (ap_deps d) (hq_id r) of
            None \<Rightarrow> (w, badRequest ''id is not a valid conversation id'')
          | Some convID \<Rightarrow>
              case body of
                None \<Rightarrow> (w, badRequest ''request body is not a valid MessageSendRequest'')
              | Some req \<Rightarrow>
                  case dp_Send (ap_deps d) (restMessage (ap_deps d) caller convID req) w of
                    (w1, Inl se) \<Rightarrow>
                      (w1, Answered (HTTPStatus (Some se)) (Refusal (FrameBody
                         ((sendErrorWire (Some se) ''send failed'')\<lparr>se_ClientID := Some (ms_ClientID req)\<rparr>))))
                  | (w1, Inr sent) \<Rightarrow>
                      case readRow (so_ConversationID sent) (so_Seq sent) (meanwhile w1) of
                        Inl e \<Rightarrow> (meanwhile w1, failed e ''message sent, but could not be read back'')
                      | Inr fm \<Rightarrow>
                          (meanwhile w1, case restView d caller fm of
                             None \<Rightarrow> Aborted
                           | Some msg \<Rightarrow> Answered 200 (MessageBody msg)))"

section \<open>Rooms and the roster\<close>

definition selfConversationHandler ::
  "(Request \<Rightarrow> 's \<Rightarrow> Caller option) \<Rightarrow> (uuid \<Rightarrow> 's \<Rightarrow> 's \<times> ((store_error + SendError) + ConversationRow)) \<Rightarrow>
   Request \<Rightarrow> 's \<Rightarrow> 's \<times> answer" where
  "selfConversationHandler callerOf findOrCreate r w =
     (case callerOf r w of
        None \<Rightarrow> (w, unauthorized)
      | Some caller \<Rightarrow>
          case findOrCreate (ca_UserID caller) w of
            (w', Inl (Inl e)) \<Rightarrow>
              (w', if e = ErrBotCannotCreateSelf then Answered 403 (ErrorOf e)
                   else refusedWith (sendErrorFor e) ''find-or-create self failed'')
          | (w', Inl (Inr se)) \<Rightarrow> (w', refusedWith se ''find-or-create self failed'')
          | (w', Inr c) \<Rightarrow> (w', Answered 200 (ConversationBody (wireConversation c))))"

definition directConversationHandler ::
  "(Request \<Rightarrow> 's \<Rightarrow> Caller option) \<Rightarrow> (uuid \<Rightarrow> string \<Rightarrow> 's \<Rightarrow> 's \<times> (SendError + ConversationRow)) \<Rightarrow>
   Request \<Rightarrow> string option \<Rightarrow> 's \<Rightarrow> 's \<times> answer" where
  "directConversationHandler callerOf findOrCreate r body w =
     (case callerOf r w of
        None \<Rightarrow> (w, unauthorized)
      | Some caller \<Rightarrow>
          case body of
            None \<Rightarrow> (w, badRequest ''request body is not a valid DirectConversationRequest'')
          | Some handle \<Rightarrow>
              case findOrCreate (ca_UserID caller) handle w of
                (w', Inl se) \<Rightarrow> (w', refusedWith se ''find-or-create direct failed'')
              | (w', Inr c) \<Rightarrow> (w', Answered 200 (ConversationBody (wireConversation c))))"

definition createGroupHandler ::
  "(string \<Rightarrow> uuid option) \<Rightarrow> (Request \<Rightarrow> 's \<Rightarrow> Caller option) \<Rightarrow>
   (uuid \<Rightarrow> string \<Rightarrow> string list \<Rightarrow> uuid option \<Rightarrow> 's \<Rightarrow> 's \<times> ((store_error + SendError) + ConversationRow \<times> bool)) \<Rightarrow>
   Request \<Rightarrow> CreateGroupRequest option \<Rightarrow> 's \<Rightarrow> 's \<times> answer" where
  "createGroupHandler parse callerOf create r body w =
     (case callerOf r w of
        None \<Rightarrow> (w, unauthorized)
      | Some caller \<Rightarrow>
          case body of
            None \<Rightarrow> (w, badRequest ''request body is not a valid CreateGroupRequest'')
          | Some req \<Rightarrow>
              case (case cg_RequestID req of None \<Rightarrow> Some None | Some i \<Rightarrow> map_option Some (parse i)) of
                None \<Rightarrow> (w, badRequest ''request_id is not a uuid'')
              | Some requestID \<Rightarrow>
                  case create (ca_UserID caller) (cg_Name req) (cg_MemberHandles req) requestID w of
                    (w', Inl (Inl e)) \<Rightarrow>
                      (w', if e = ErrInvalidGroup then Answered 400 (ErrorOf e)
                           else if e = ErrBotCannotCreateGroup then Answered 403 (ErrorOf e)
                           else refusedWith (sendErrorFor e) ''create group failed'')
                  | (w', Inl (Inr se)) \<Rightarrow> (w', refusedWith se ''create group failed'')
                  | (w', Inr (c, created)) \<Rightarrow>
                      (w', Answered (if created then 201 else 200) (ConversationBody (wireConversation c))))"

definition rosterHandler ::
  "UnicodeTables \<Rightarrow> (Request \<Rightarrow> 's \<Rightarrow> Caller option) \<Rightarrow> (uuid \<Rightarrow> 's \<Rightarrow> store_error + RosterRow list) \<Rightarrow>
   Request \<Rightarrow> 's \<Rightarrow> answer" where
  "rosterHandler ut callerOf roster r w =
     (case callerOf r w of
        None \<Rightarrow> unauthorized
      | Some caller \<Rightarrow>
          case roster (ca_UserID caller) w of
            Inl e \<Rightarrow> Answered 500 (Refusal (ErrorBody ''roster failed''))
          | Inr rows \<Rightarrow> Answered 200 (RosterBody (map (RosterEntry ut) rows)))"

section \<open>The router\<close>

text \<open>
  The routes by pattern, with their decoded bodies. \<^verbatim>\<open>GET /ws\<close> is the socket's, \<^verbatim>\<open>POST /refresh\<close>
  is \<^verbatim>\<open>refreshHandler\<close>; \<^verbatim>\<open>dp_Send\<close> is always given here. Uploads, link previews, media and the
  web client have no route in this model.
\<close>

datatype route =
    GetHealthz | GetReadyz | GetSync | PostEnroll "EnrollRequest option" | GetDevices | PostRevoke
  | PostMessage "MessageSendRequest option" | PostDirect "string option" | PostSelf
  | PostGroup "CreateGroupRequest option" | GetUsers

definition notFound :: answer where "notFound = Answered 404 NotFound"

definition NewRouter :: "'s RestDeps \<Rightarrow> ('s \<Rightarrow> 's) \<Rightarrow> route \<Rightarrow> Request \<Rightarrow> 's \<Rightarrow> 's \<times> answer" where
  "NewRouter d meanwhile route r w =
     (case route of
        GetHealthz \<Rightarrow> (w, healthz d)
      | GetReadyz \<Rightarrow> (w, readyz d w)
      | GetSync \<Rightarrow>
          (case (ap_Sync d, ap_CallerID d) of
             (Some sync, Some callerID) \<Rightarrow> (w, syncHandler callerID sync r w)
           | _ \<Rightarrow> (w, notFound))
      | PostEnroll body \<Rightarrow>
          (case ap_Enroll d of
             Some enroll \<Rightarrow> enrollHandler enroll body w
           | None \<Rightarrow> (w, notFound))
      | GetDevices \<Rightarrow>
          (case (ap_Devices d, ap_CallerID d) of
             (Some devices, Some callerID) \<Rightarrow> (w, devicesHandler callerID devices r w)
           | _ \<Rightarrow> (w, notFound))
      | PostRevoke \<Rightarrow>
          (case (ap_RevokeOwnDevice d, ap_CallerID d) of
             (Some revoke, Some callerID) \<Rightarrow> revokeDeviceHandler (dp_parse (ap_deps d)) callerID revoke r w
           | _ \<Rightarrow> (w, notFound))
      | PostMessage body \<Rightarrow>
          (case (ap_Caller d, ap_MessageForFanout d) of
             (Some callerOf, Some readRow) \<Rightarrow> messagesHandler d callerOf readRow meanwhile r body w
           | _ \<Rightarrow> (w, notFound))
      | PostDirect body \<Rightarrow>
          (case (ap_FindOrCreateDirect d, ap_Caller d) of
             (Some direct, Some callerOf) \<Rightarrow> directConversationHandler callerOf direct r body w
           | _ \<Rightarrow> (w, notFound))
      | PostSelf \<Rightarrow>
          (case (ap_FindOrCreateSelf d, ap_Caller d) of
             (Some self, Some callerOf) \<Rightarrow> selfConversationHandler callerOf self r w
           | _ \<Rightarrow> (w, notFound))
      | PostGroup body \<Rightarrow>
          (case (ap_CreateGroup d, ap_Caller d) of
             (Some create, Some callerOf) \<Rightarrow> createGroupHandler (dp_parse (ap_deps d)) callerOf create r body w
           | _ \<Rightarrow> (w, notFound))
      | GetUsers \<Rightarrow>
          (case (ap_Roster d, ap_Caller d) of
             (Some roster, Some callerOf) \<Rightarrow> (w, rosterHandler (ap_tables d) callerOf roster r w)
           | _ \<Rightarrow> (w, notFound)))"

section \<open>As the server wires it\<close>

text \<open>
  \<open>strings.EqualFold\<close> with \<open>Bearer\<close> and a space: the letters of that word fold with no character
  but their other case.
\<close>

definition lowerASCII :: "char \<Rightarrow> char" where
  "lowerASCII c = (if CHR ''A'' \<le> c \<and> c \<le> CHR ''Z'' then char_of (of_char c + 32 :: nat) else c)"

definition bearer :: "Request \<Rightarrow> token" where
  "bearer r =
     (let prefix = ''Bearer ''; h = hq_Authorization r
      in if length h < length prefix \<or> map lowerASCII (take (length prefix) h) \<noteq> map lowerASCII prefix then ''''
         else drop (length prefix) h)"

text \<open>What a deployment decides beyond the socket's part: the snapshots of a page, the ids and stale reads of a room, the clocks and draws of an enrollment, the media deriver.\<close>

record 'h RestWiring =
  rw_socket :: "'h Wiring"
  rw_snaps :: "'h DB \<Rightarrow> nat \<Rightarrow> 'h DB"
  rw_roomID :: "'h DB \<Rightarrow> uuid"
  rw_roomStale :: "'h DB \<Rightarrow> 'h DB"
  rw_enrollDraws :: "'h DB \<Rightarrow> Draws"
  rw_ping :: "'h DB \<Rightarrow> bool"
  rw_version :: string
  rw_commit :: string
  rw_env :: HubEnv

definition serveSyncWith :: "HubEnv \<Rightarrow> gotime \<Rightarrow> (nat \<Rightarrow> 'h DB) \<Rightarrow> uuid \<Rightarrow> int \<Rightarrow> int \<Rightarrow> store_error + SyncResponse option" where
  "serveSyncWith env now snap viewer after limit =
     Inr (wireSync (he_unmarshal env) (he_tables env) (Sync snap viewer after limit)
       \<lparr>sv_UserID = viewer, sv_MediaURL = Some (he_mediaURL env)\<rparr> (formatWire now))"

definition wiredCaller :: "'h Wiring \<Rightarrow> Request \<Rightarrow> 'h Served \<Rightarrow> Caller option" where
  "wiredCaller wr r = (\<lambda>(db, h). case Authenticate (wr_hash wr) (wr_now wr) db (bearer r) of Inl e \<Rightarrow> None | Inr c \<Rightarrow> Some c)"

definition onDB :: "('h DB \<Rightarrow> 'h DB \<times> 'a) \<Rightarrow> 'h Served \<Rightarrow> 'h Served \<times> 'a" where
  "onDB f = (\<lambda>(db, h). case f db of (db', x) \<Rightarrow> ((db', h), x))"

definition wiredRest :: "gotime \<Rightarrow> 'h RestWiring \<Rightarrow> 'h Served RestDeps" where
  "wiredRest dbnow rw =
     (let wr = rw_socket rw; env = rw_env rw in
      \<lparr>ap_deps = wiredDeps dbnow wr,
       ap_DB = Some (\<lambda>(db, h). rw_ping rw db),
       ap_Version = rw_version rw, ap_Commit = rw_commit rw,
       ap_Sync = Some (\<lambda>viewer after limit (db, h). serveSyncWith env (wr_now wr) (rw_snaps rw db) viewer after limit),
       ap_CallerID = Some (\<lambda>r w. map_option ca_UserID (wiredCaller wr r w)),
       ap_Enroll = Some (\<lambda>tok name. onDB (\<lambda>db. RedeemEnrollment (wr_hash wr) dbnow (wr_now wr) (rw_enrollDraws rw db) db tok name)),
       ap_Devices = Some (\<lambda>viewer (db, h). Inr (DevicesFor db viewer)),
       ap_RevokeOwnDevice = Some (\<lambda>viewer device. onDB (\<lambda>db. apsnd Inr (RevokeOwnDevice dbnow db viewer device))),
       ap_Caller = Some (wiredCaller wr),
       ap_MessageForFanout = Some (\<lambda>conv seq (db, h). MessageForFanout db conv seq),
       ap_FindOrCreateDirect = Some (\<lambda>viewer handle. onDB (\<lambda>db. FindOrCreateDirect (rw_roomID rw db) (rw_roomStale rw db) db viewer handle)),
       ap_CreateGroup = Some (\<lambda>creator name handles request.
         onDB (\<lambda>db. CreateGroup (rw_roomID rw db) (rw_roomStale rw db) db creator name handles request)),
       ap_Roster = Some (\<lambda>viewer (db, h). Inr (Roster db viewer)),
       ap_FindOrCreateSelf = Some (\<lambda>viewer. onDB (\<lambda>db. FindOrCreateSelf (rw_roomID rw db) (rw_roomStale rw db) db viewer)),
       ap_MediaURL = Some (he_mediaURL env),
       ap_unmarshal = he_unmarshal env, ap_tables = he_tables env\<rparr>)"

end
