(* ===== verification/Hub_Props.thy ===== *)
theory Hub_Props
  imports Hub "HOL-Library.Multiset"
begin

text \<open>
  What the hub guarantees: its index stays consistent and no channel is closed twice; every
  operation that puts frames on outboxes delivers them, in order and to whom they are for, or
  severs the session; a revocation takes every session it names.
\<close>

section \<open>The invariant\<close>

definition indexed :: "Hub \<Rightarrow> nat \<Rightarrow> bool" where
  "indexed h p \<longleftrightarrow> p \<in> set (allSessions h)"

definition hub_inv :: "Hub \<Rightarrow> bool" where
  "hub_inv h \<longleftrightarrow> wf_gomap (hb_sessions h) \<and> distinct (allSessions h) \<and>
     (\<forall>(u, ps) \<in> set (hb_sessions h). \<forall>p \<in> set ps. p < length (hb_objs h) \<and> userOf h p = u \<and> \<not> hs_outClosed (obj h p)) \<and>
     hb_count h = int (length (allSessions h)) \<and>
     (\<forall>s \<in> set (hb_objs h). length (hs_out s) \<le> outboxBound) \<and>
     hb_drained h \<le> 1 \<and> (hb_drained h = 1 \<longrightarrow> hb_closing h \<and> hb_count h = 0) \<and>
     (\<forall>a. spentBy h a \<le> readNotifyCap)"

lemma indexed_iff: "indexed h p \<longleftrightarrow> (\<exists>(u, ps) \<in> set (hb_sessions h). p \<in> set ps)"
  by (force simp: indexed_def allSessions_def)

lemma inv_indexed: "hub_inv h \<Longrightarrow> indexed h p \<Longrightarrow> p < length (hb_objs h) \<and> \<not> hs_outClosed (obj h p)"
  by (force simp: hub_inv_def indexed_iff)

lemma sessionsOf_in: "hub_inv h \<Longrightarrow> p \<in> set (sessionsOf h u) \<longleftrightarrow> indexed h p \<and> userOf h p = u"
proof -
  assume i: "hub_inv h"
  then have "map_of (hb_sessions h) u = Some ps \<longleftrightarrow> (u, ps) \<in> set (hb_sessions h)" for ps
    by (simp add: hub_inv_def)
  then show ?thesis
    using i by (force simp: hub_inv_def indexed_iff sessionsOf_def split: option.splits)
qed

lemma distinct_concat_map_snd:
  "distinct (concat (map snd m)) \<Longrightarrow> (k, ps) \<in> set m \<Longrightarrow> distinct ps"
  by (induction m) auto

lemma sessionsOf_distinct: "hub_inv h \<Longrightarrow> distinct (sessionsOf h u)"
  by (auto simp: hub_inv_def allSessions_def sessionsOf_def dest: map_of_SomeD intro: distinct_concat_map_snd split: option.splits)

lemma upd_simps [simp]:
  "length (hb_objs (upd p f h)) = length (hb_objs h)" "hb_sessions (upd p f h) = hb_sessions h"
  "hb_count (upd p f h) = hb_count h" "hb_typing (upd p f h) = hb_typing h" "hb_closing (upd p f h) = hb_closing h"
  "hb_drained (upd p f h) = hb_drained h" "hb_burst (upd p f h) = hb_burst h"
  "p < length (hb_objs h) \<Longrightarrow> obj (upd p f h) q = (if q = p then f (obj h p) else obj h q)"
  "allSessions (upd p f h) = allSessions h" "sessionsOf (upd p f h) u = sessionsOf h u" "spentBy (upd p f h) a = spentBy h a"
  by (simp_all add: upd_def allSessions_def sessionsOf_def spentBy_def nth_list_update)

lemma upd_indexed [simp]: "indexed (upd p f h) q = indexed h q"
  by (simp add: indexed_def)

lemma upd_set: "s \<in> set (hb_objs (upd p f h)) \<Longrightarrow> s \<in> set (hb_objs h) \<or> (p < length (hb_objs h) \<and> s = f (obj h p))"
  by (cases "p < length (hb_objs h)") (auto simp: upd_def list_update_beyond dest: set_update_subset_insert [THEN subsetD])

text \<open>A change of one session that keeps its owner, its open outbox and the bound keeps the invariant.\<close>

lemma upd_inv:
  assumes i: "hub_inv h" and p: "p < length (hb_objs h)"
    and f: "hs_conn (f (obj h p)) = hs_conn (obj h p)" "length (hs_out (f (obj h p))) \<le> outboxBound"
      "indexed h p \<Longrightarrow> \<not> hs_outClosed (f (obj h p))"
  shows "hub_inv (upd p f h)"
  using i f(1,2) upd_set [of _ p f h] p f(3) unfolding hub_inv_def
  by (auto simp: indexed_iff nth_list_update case_prod_beta) force+

section \<open>Removing a session\<close>

lemma delete_or_update:
  fixes m :: "(uuid, nat list) gomap" and p q :: nat
  assumes "wf_gomap m" "map_of m u = Some ps"
  defines "m' \<equiv> (if removeAll p ps = [] then AList.delete u m else AList.update u (removeAll p ps) m)"
  shows "wf_gomap m'" "(v, qs) \<in> set m' \<Longrightarrow> (v \<noteq> u \<and> (v, qs) \<in> set m) \<or> (v = u \<and> qs = removeAll p ps)"
    "(\<exists>(v, qs) \<in> set m'. q \<in> set qs) \<longleftrightarrow> (\<exists>(v, qs) \<in> set m. q \<in> set (if v = u then removeAll p qs else qs))"
proof -
  show wf: "wf_gomap m'" using assms(1) by (simp add: m'_def distinct_delete distinct_update)
  have look: "map_of m' v = (if v = u then (if removeAll p ps = [] then None else Some (removeAll p ps)) else map_of m v)" for v
    by (simp add: m'_def delete_conv')
  show mem: "(v, qs) \<in> set m' \<Longrightarrow> (v \<noteq> u \<and> (v, qs) \<in> set m) \<or> (v = u \<and> qs = removeAll p ps)" for v qs
    using look [of v] map_of_eq_Some_wf [OF wf, of v qs] map_of_eq_Some_wf [OF assms(1), of v qs] by (auto split: if_splits)
  show "(\<exists>(v, qs) \<in> set m'. q \<in> set qs) \<longleftrightarrow> (\<exists>(v, qs) \<in> set m. q \<in> set (if v = u then removeAll p qs else qs))"
  proof
    assume "\<exists>(v, qs) \<in> set m'. q \<in> set qs"
    then obtain v qs where "(v, qs) \<in> set m'" "q \<in> set qs" by auto
    then show "\<exists>(v, qs) \<in> set m. q \<in> set (if v = u then removeAll p qs else qs)"
      using mem [of v qs] map_of_SomeD [OF assms(2)] by (auto intro: bexI [of _ "(v, qs)"] bexI [of _ "(u, ps)"])
  next
    assume "\<exists>(v, qs) \<in> set m. q \<in> set (if v = u then removeAll p qs else qs)"
    then obtain v qs where v: "(v, qs) \<in> set m" "q \<in> set (if v = u then removeAll p qs else qs)" by auto
    have qs: "map_of m v = Some qs" using v(1) assms(1) by simp
    moreover have "v = u \<Longrightarrow> removeAll p ps \<noteq> []" using v(2) qs assms(2) by (metis list.distinct(1) list.set_cases option.inject)
    ultimately have "map_of m' v = Some (if v = u then removeAll p ps else qs)" using look [of v] assms(2) by (simp split: if_splits)
    then have "(v, if v = u then removeAll p ps else qs) \<in> set m'" by (rule map_of_SomeD)
    then show "\<exists>(v, qs) \<in> set m'. q \<in> set qs"
      using v(2) qs assms(2) by (intro bexI) (auto split: if_splits)
  qed
qed

lemma distinct_concat_update:
  "distinct (concat (map snd m)) \<Longrightarrow> map_of m u = Some ps \<Longrightarrow> distinct qs \<Longrightarrow> set qs \<subseteq> set ps \<Longrightarrow>
   distinct (concat (map snd (AList.update u qs m))) \<and> set (concat (map snd (AList.update u qs m))) \<subseteq> set (concat (map snd m))"
proof (induction m)
  case (Cons e m)
  obtain v rs where e: "e = (v, rs)" by fastforce
  show ?case
  proof (cases "v = u")
    case True
    then show ?thesis using Cons.prems e by auto
  next
    case False
    then have "map_of m u = Some ps" "distinct (concat (map snd m))" "set rs \<inter> set (concat (map snd m)) = {}" "distinct rs"
      using Cons.prems e by auto
    then show ?thesis using Cons.IH Cons.prems(3,4) False e by (simp only: AList.update.simps) (auto simp del: set_concat)
  qed
qed simp

lemma distinct_concat_filter:
  "distinct (concat (map snd m)) \<Longrightarrow> distinct (concat (map snd (filter P m)))"
  by (induction m) auto

lemma removeLocked_effect:
  assumes i: "hub_inv h" and p: "indexed h p"
  defines "h' \<equiv> fst (removeLocked p h)"
  shows "snd (removeLocked p h)" "hub_inv h'" "length (hb_objs h') = length (hb_objs h)"
    "\<And>q. indexed h' q \<longleftrightarrow> indexed h q \<and> q \<noteq> p"
    "\<And>q. q \<noteq> p \<Longrightarrow> obj h' q = obj h q" "obj h' p = (obj h p)\<lparr>hs_outClosed := True\<rparr>"
    "hb_burst h' = hb_burst h" "hb_typing h' = hb_typing h" "hb_closing h' = hb_closing h"
proof -
  let ?u = "userOf h p"
  let ?ps = "sessionsOf h ?u"
  let ?m = "if removeAll p ?ps = [] then AList.delete ?u (hb_sessions h) else AList.update ?u (removeAll p ?ps) (hb_sessions h)"
  have pin: "p \<in> set ?ps" using sessionsOf_in [OF i] p by simp
  then have look: "map_of (hb_sessions h) ?u = Some ?ps"
    unfolding sessionsOf_def by (cases "map_of (hb_sessions h) ?u") simp_all
  have wf: "wf_gomap (hb_sessions h)" using i by (simp add: hub_inv_def)
  note du = delete_or_update [OF wf look, where p = p]
  define h1 where "h1 = upd p (\<lambda>s. s\<lparr>hs_outClosed := True\<rparr>) (h\<lparr>hb_sessions := ?m, hb_count := hb_count h - 1\<rparr>)"
  have h': "h' = (if hb_closing h \<and> hb_count h = 1 then h1\<lparr>hb_drained := hb_drained h + 1\<rparr> else h1)"
    and "snd (removeLocked p h)"
    using pin by (simp_all add: h'_def removeLocked_def h1_def Let_def)
  then show "snd (removeLocked p h)" by simp
  have pl: "p < length (hb_objs h)" using inv_indexed [OF i p] by simp
  have s: "hb_sessions h' = ?m" "hb_count h' = hb_count h - 1" "hb_objs h' = hb_objs h1"
    by (simp_all add: h' h1_def)
  show len: "length (hb_objs h') = length (hb_objs h)" by (simp add: s h1_def)
  show o1: "q \<noteq> p \<Longrightarrow> obj h' q = obj h q" for q using pl by (simp add: s h1_def)
  show o2: "obj h' p = (obj h p)\<lparr>hs_outClosed := True\<rparr>" using pl by (simp add: s h1_def)
  show "hb_burst h' = hb_burst h" "hb_typing h' = hb_typing h" "hb_closing h' = hb_closing h" by (simp_all add: h' h1_def)
  have one: "(u, ps) \<in> set (hb_sessions h) \<Longrightarrow> q \<in> set ps \<Longrightarrow> userOf h q = u" for u ps q
    using i by (force simp: hub_inv_def)
  show ix: "indexed h' q \<longleftrightarrow> indexed h q \<and> q \<noteq> p" for q
  proof -
    have "indexed h' q \<longleftrightarrow> (\<exists>(v, qs) \<in> set (hb_sessions h). q \<in> set (if v = ?u then removeAll p qs else qs))"
      unfolding indexed_iff s(1) by (rule du(3))
    also have "\<dots> \<longleftrightarrow> indexed h q \<and> q \<noteq> p" unfolding indexed_iff using one by (auto split: if_splits)
    finally show ?thesis .
  qed
  have d: "distinct (allSessions h')"
    using i look distinct_concat_update [of "hb_sessions h" ?u ?ps "removeAll p ?ps"] sessionsOf_distinct [OF i, of ?u]
    by (auto simp: allSessions_def s hub_inv_def distinct_concat_filter AList.delete_eq distinct_removeAll)
  have "set (allSessions h') = set (allSessions h) - {p}" using ix by (auto simp: indexed_def)
  then have cnt: "int (length (allSessions h')) = int (length (allSessions h)) - 1"
    using d i p distinct_card [of "allSessions h'"] distinct_card [of "allSessions h"]
    by (simp add: hub_inv_def indexed_def) (metis One_nat_def Suc_pred card_gt_0_iff empty_iff finite_set int_ops(2) of_nat_diff less_eq_Suc_le of_nat_Suc)
  show "hub_inv h'"
    unfolding hub_inv_def
  proof (intro conjI)
    show "wf_gomap (hb_sessions h')" unfolding s by (rule du(1))
    show "distinct (allSessions h')" by (rule d)
    show "\<forall>(u, ps) \<in> set (hb_sessions h'). \<forall>q \<in> set ps. q < length (hb_objs h') \<and> userOf h' q = u \<and> \<not> hs_outClosed (obj h' q)"
    proof (intro ballI, clarify)
      fix u ps q assume a: "(u, ps) \<in> set (hb_sessions h')" "q \<in> set ps"
      then have "indexed h' q" by (auto simp: indexed_iff)
      then have q: "indexed h q" "q \<noteq> p" by (simp_all add: ix)
      have "userOf h q = u" using du(2) [OF a(1) [unfolded s(1)]] a(2) one map_of_SomeD [OF look] by auto
      then show "q < length (hb_objs h') \<and> userOf h' q = u \<and> \<not> hs_outClosed (obj h' q)"
        using inv_indexed [OF i q(1)] o1 [OF q(2)] len by simp
    qed
    show "hb_count h' = int (length (allSessions h'))" using i cnt by (simp add: s hub_inv_def)
    show "\<forall>s \<in> set (hb_objs h'). length (hs_out s) \<le> outboxBound"
    proof
      have b: "\<forall>s \<in> set (hb_objs h). length (hs_out s) \<le> outboxBound" using i by (simp add: hub_inv_def)
      fix s assume "s \<in> set (hb_objs h')"
      from upd_set [OF this [unfolded s(3) h1_def]] have "s \<in> set (hb_objs h) \<or> s = (obj h p)\<lparr>hs_outClosed := True\<rparr>" by auto
      then show "length (hs_out s) \<le> outboxBound" using b nth_mem [OF pl] by auto
    qed
    have "hb_count h \<noteq> 0" using i p by (auto simp: hub_inv_def indexed_def)
    then show "hb_drained h' \<le> 1" "hb_drained h' = 1 \<longrightarrow> hb_closing h' \<and> hb_count h' = 0"
      using i by (auto simp: h' h1_def hub_inv_def)
    show "\<forall>a. spentBy h' a \<le> readNotifyCap" using i by (simp add: hub_inv_def spentBy_def h' h1_def)
  qed
qed

section \<open>Delivery\<close>

text \<open>
  \<open>delivers fs h h'\<close>: every session of the index has the frames \<open>fs p\<close> on its outbox after what it
  held, or was dropped as a slow consumer; a session for which there is no frame, or that is not
  in the index, is as it was. Deliveries compose.
\<close>

definition got :: "ServerFrame list \<Rightarrow> bool \<Rightarrow> session \<Rightarrow> bool \<Rightarrow> session \<Rightarrow> bool" where
  "got fs ix s ix' s' \<longleftrightarrow> hs_conn s' = hs_conn s \<and>
     (if ix then
        (ix' \<and> s' = s\<lparr>hs_out := hs_out s @ fs\<rparr>) \<or>
        (\<not> ix' \<and> fs \<noteq> [] \<and> hs_outClosed s' \<and> CloseNow \<in> set (hs_closes s'))
      else \<not> ix' \<and> s' = s)"

lemma got_trans: "got fs ix s ix1 s1 \<Longrightarrow> got gs ix1 s1 ix2 s2 \<Longrightarrow> got (fs @ gs) ix s ix2 s2"
  by (cases ix; cases ix1) (auto simp: got_def)

definition delivers :: "(nat \<Rightarrow> ServerFrame list) \<Rightarrow> Hub \<Rightarrow> Hub \<Rightarrow> bool" where
  "delivers fs h h' \<longleftrightarrow> hub_inv h' \<and> length (hb_objs h') = length (hb_objs h) \<and> hb_closing h' = hb_closing h \<and>
     hb_burst h' = hb_burst h \<and> hb_typing h' = hb_typing h \<and>
     (\<forall>p. got (fs p) (indexed h p) (obj h p) (indexed h' p) (obj h' p))"

lemma delivers_inv: "delivers fs h h' \<Longrightarrow> hub_inv h'"
  by (simp add: delivers_def)

lemma delivers_conn: "delivers fs h h' \<Longrightarrow> hs_conn (obj h' p) = hs_conn (obj h p)"
  by (simp add: delivers_def got_def)

lemma delivers_none [simp]: "hub_inv h \<Longrightarrow> delivers (\<lambda>_. []) h h"
  by (simp add: delivers_def got_def)

lemma delivers_trans:
  assumes "delivers fs h h1" "delivers gs h1 h2"
  shows "delivers (\<lambda>p. fs p @ gs p) h h2"
  using assms unfolding delivers_def by (auto intro: got_trans)

lemma delivers_cong: "delivers fs h h' \<Longrightarrow> (\<And>p. indexed h p \<Longrightarrow> gs p = fs p) \<Longrightarrow> delivers gs h h'"
  by (auto simp: delivers_def got_def)

lemma closeConn_inv: "hub_inv h \<Longrightarrow> p < length (hb_objs h) \<Longrightarrow> hub_inv (closeConn c p h)"
  unfolding closeConn_def by (rule upd_inv) (auto simp: inv_indexed, simp add: hub_inv_def)

lemma enqueueLocked_delivers:
  assumes i: "hub_inv h" and p: "indexed h p \<or> (p < length (hb_objs h) \<and> hs_outClosed (obj h p))"
  shows "delivers (\<lambda>q. if q = p then [f] else []) h (enqueueLocked p f h)"
proof (cases "hs_outClosed (obj h p)")
  case True
  then have "\<not> indexed h p" using inv_indexed [OF i] by blast
  then show ?thesis using True i by (auto simp: enqueueLocked_def delivers_def got_def)
next
  case False
  then have ix: "indexed h p" and pl: "p < length (hb_objs h)" using p inv_indexed [OF i] by auto
  show ?thesis
  proof (cases "length (hs_out (obj h p)) < outboxBound")
    case True
    have "hub_inv (upd p (\<lambda>s. s\<lparr>hs_out := hs_out s @ [f]\<rparr>) h)"
      by (rule upd_inv [OF i pl]) (use True False in simp_all)
    then show ?thesis using False True pl ix by (auto simp: enqueueLocked_def delivers_def got_def)
  next
    case full: False
    note r = removeLocked_effect [OF i ix]
    have "hub_inv (closeConn CloseNow p (fst (removeLocked p h)))" using r pl by (intro closeConn_inv) simp_all
    then show ?thesis using False full pl ix r by (auto simp: enqueueLocked_def delivers_def got_def closeConn_def)
  qed
qed

text \<open>A session the enqueues of one fan-out may name: in the index, or severed from it.\<close>

definition known :: "Hub \<Rightarrow> nat \<Rightarrow> bool" where
  "known h p \<longleftrightarrow> p < length (hb_objs h) \<and> (indexed h p \<or> hs_outClosed (obj h p))"

lemma known_indexed: "hub_inv h \<Longrightarrow> indexed h p \<Longrightarrow> known h p"
  by (auto simp: known_def dest: inv_indexed)

lemma delivers_known: "delivers fs h h' \<Longrightarrow> known h p \<Longrightarrow> known h' p"
  by (auto simp: delivers_def known_def got_def split: if_splits)

lemma enqueueFrames_delivers:
  "hub_inv h \<Longrightarrow> known h p \<Longrightarrow> delivers (\<lambda>q. if q = p then fs else []) h (enqueueFrames fs p h)"
proof (induction fs arbitrary: h)
  case Nil
  then show ?case by (simp add: enqueueFrames_def if_distrib [of "\<lambda>x. x"])
next
  case (Cons f fs)
  have d: "delivers (\<lambda>q. if q = p then [f] else []) h (enqueueLocked p f h)"
    using Cons.prems by (intro enqueueLocked_delivers) (auto simp: known_def)
  from delivers_trans [OF d Cons.IH [OF delivers_inv [OF d] delivers_known [OF d Cons.prems(2)]]]
  show ?case by (simp add: enqueueFrames_def) (erule delivers_cong, simp)
qed

lemma fold_enqueue_delivers:
  "hub_inv h \<Longrightarrow> (\<And>p. p \<in> set ps \<Longrightarrow> known h p) \<Longrightarrow> distinct ps \<Longrightarrow>
   delivers (\<lambda>q. if q \<in> set ps then fs else []) h (fold (enqueueFrames fs) ps h)"
proof (induction ps arbitrary: h)
  case (Cons p ps)
  have d: "delivers (\<lambda>q. if q = p then fs else []) h (enqueueFrames fs p h)"
    using Cons.prems by (intro enqueueFrames_delivers) simp_all
  have "delivers (\<lambda>q. if q \<in> set ps then fs else []) (enqueueFrames fs p h) (fold (enqueueFrames fs) ps (enqueueFrames fs p h))"
    using Cons.prems delivers_inv [OF d] delivers_known [OF d] by (intro Cons.IH) simp_all
  from delivers_trans [OF d this] Cons.prems(3) show ?case by simp (erule delivers_cong, auto)
qed simp

lemma enqueueUser_delivers:
  assumes "hub_inv h"
  shows "delivers (\<lambda>q. if userOf h q = u then fs else []) h (enqueueUser fs u h)"
  unfolding enqueueUser_def
  by (rule delivers_cong [OF fold_enqueue_delivers [OF assms]])
     (use assms in \<open>auto simp: sessionsOf_in sessionsOf_distinct intro: known_indexed\<close>)

lemma fold_users_delivers:
  assumes "hub_inv h"
  shows "delivers (\<lambda>q. concat (map (\<lambda>x. if userOf h q = u x then fs x else []) xs)) h
    (fold (\<lambda>x. enqueueUser (fs x) (u x)) xs h)"
  using assms
proof (induction xs arbitrary: h)
  case (Cons x xs)
  have d: "delivers (\<lambda>q. if userOf h q = u x then fs x else []) h (enqueueUser (fs x) (u x) h)"
    by (rule enqueueUser_delivers [OF Cons.prems])
  from delivers_trans [OF d Cons.IH [OF delivers_inv [OF d]]] delivers_conn [OF d]
  show ?case by simp
qed simp

lemma fanout_delivers:
  "hub_inv h \<Longrightarrow> delivers (\<lambda>q. concat (map (\<lambda>mem. if userOf h q = fx_UserID mem then fanoutFrames env fm mem else []) (fm_Members fm)))
     h (fanout env fm h)"
  unfolding fanout_def by (rule fold_users_delivers)

lemma broadcast_delivers:
  "hub_inv h \<Longrightarrow> delivers (\<lambda>q. concat (map (\<lambda>u. if userOf h q = u \<and> Some q \<noteq> except then [f] else []) members))
     h (broadcastLocked members f except h)"
proof (induction members arbitrary: h)
  case (Cons u us)
  let ?ps = "filter (\<lambda>p. Some p \<noteq> except) (sessionsOf h u)"
  have d: "delivers (\<lambda>q. if userOf h q = u \<and> Some q \<noteq> except then [f] else []) h (fold (enqueueFrames [f]) ?ps h)"
    by (rule delivers_cong [OF fold_enqueue_delivers [OF Cons.prems]])
       (use Cons.prems in \<open>auto simp: sessionsOf_in sessionsOf_distinct intro: known_indexed\<close>)
  from delivers_trans [OF d Cons.IH [OF delivers_inv [OF d]]] delivers_conn [OF d]
  show ?case by (simp add: broadcastLocked_def)
qed (simp add: broadcastLocked_def)

lemma resync_delivers:
  "hub_inv h \<Longrightarrow> delivers (\<lambda>q. [FResyncRequired ResyncReasonCursorTooOld n]) h (gap False (Inr n) h)"
  unfolding gap_def
  by simp (rule delivers_cong [OF fold_enqueue_delivers], auto simp: indexed_def hub_inv_def intro!: known_indexed [unfolded hub_inv_def indexed_def])

section \<open>Severing\<close>

lemma removeLocked_absent: "hub_inv h \<Longrightarrow> \<not> indexed h p \<Longrightarrow> removeLocked p h = (h, False)"
  by (simp add: removeLocked_def Let_def sessionsOf_in)

lemma removeLocked_inv: "hub_inv h \<Longrightarrow> hub_inv (fst (removeLocked p h))"
  by (cases "indexed h p") (simp_all add: removeLocked_effect(2) removeLocked_absent)

lemma removeAll_sessions:
  fixes ps :: "nat list"
  assumes "hub_inv h"
  defines "h' \<equiv> fold (\<lambda>p. fst \<circ> removeLocked p) ps h"
  shows "hub_inv h' \<and> length (hb_objs h') = length (hb_objs h) \<and> (\<forall>q. indexed h' q \<longleftrightarrow> indexed h q \<and> q \<notin> set ps) \<and>
    (\<forall>q. q \<notin> set ps \<longrightarrow> obj h' q = obj h q) \<and> (\<forall>q. hs_conn (obj h' q) = hs_conn (obj h q) \<and> hs_closes (obj h' q) = hs_closes (obj h q))"
  using assms(1) unfolding h'_def
proof (induction ps arbitrary: h)
  case (Cons p ps)
  show ?case
  proof (cases "indexed h p")
    case True
    note r = removeLocked_effect [OF Cons.prems True]
    have "hs_conn (obj (fst (removeLocked p h)) q) = hs_conn (obj h q) \<and> hs_closes (obj (fst (removeLocked p h)) q) = hs_closes (obj h q)" for q
      using r(5,6) by (cases "q = p") simp_all
    then show ?thesis using Cons.IH [OF r(2)] r(3-5) by auto
  next
    case False
    then show ?thesis using Cons.IH [OF Cons.prems] Cons.prems by (auto simp: removeLocked_absent)
  qed
qed simp

lemma closeAll:
  fixes ps :: "nat list" and c :: CloseCall
  assumes "hub_inv h" "\<forall>p \<in> set ps. p < length (hb_objs h)"
  defines "h' \<equiv> fold (closeConn c) ps h"
  shows "hub_inv h' \<and> length (hb_objs h') = length (hb_objs h) \<and> (\<forall>q. indexed h' q = indexed h q) \<and>
    (\<forall>q. q \<notin> set ps \<longrightarrow> obj h' q = obj h q) \<and>
    (\<forall>q. hs_conn (obj h' q) = hs_conn (obj h q) \<and> hs_out (obj h' q) = hs_out (obj h q) \<and>
       set (hs_closes (obj h q)) \<subseteq> set (hs_closes (obj h' q)) \<and>
       set (hs_closes (obj h' q)) \<subseteq> insert c (set (hs_closes (obj h q))) \<and> (q \<in> set ps \<longrightarrow> c \<in> set (hs_closes (obj h' q))))"
  using assms(1,2) unfolding h'_def
proof (induction ps arbitrary: h)
  case (Cons p ps)
  have pl: "p < length (hb_objs h)" using Cons.prems by simp
  let ?h = "closeConn c p h"
  have o: "obj ?h q = (if q = p then (obj h p)\<lparr>hs_closes := hs_closes (obj h p) @ [c]\<rparr> else obj h q)" for q
    using pl by (simp add: closeConn_def)
  have e: "length (hb_objs ?h) = length (hb_objs h)" "indexed ?h q = indexed h q" for q by (simp_all add: closeConn_def)
  have "\<forall>q \<in> set ps. q < length (hb_objs ?h)" using Cons.prems e by simp
  note ih = Cons.IH [OF closeConn_inv [OF Cons.prems(1) pl] this]
  show ?case using ih by (simp add: e o split: if_splits) (auto split: if_splits)
qed auto

lemma sever_effect:
  assumes "hub_inv h" "\<forall>p \<in> set ps. p < length (hb_objs h)"
  shows "hub_inv (sever c ps h)" "length (hb_objs (sever c ps h)) = length (hb_objs h)"
    "\<And>q. indexed (sever c ps h) q \<longleftrightarrow> indexed h q \<and> q \<notin> set ps"
    "\<And>q. q \<notin> set ps \<Longrightarrow> obj (sever c ps h) q = obj h q"
    "\<And>q. hs_conn (obj (sever c ps h) q) = hs_conn (obj h q)"
    "\<And>q. q \<in> set ps \<Longrightarrow> c \<in> set (hs_closes (obj (sever c ps h) q))"
    "\<And>q. set (hs_closes (obj (sever c ps h) q)) \<subseteq> insert c (set (hs_closes (obj h q)))"
proof -
  let ?h = "fold (\<lambda>p. fst \<circ> removeLocked p) ps h"
  note r = removeAll_sessions [OF assms(1), of ps]
  have "\<forall>p \<in> set ps. p < length (hb_objs ?h)" using r assms(2) by simp
  note k = closeAll [OF conjunct1 [OF r] this, where c = c]
  show "hub_inv (sever c ps h)" "length (hb_objs (sever c ps h)) = length (hb_objs h)"
    "\<And>q. indexed (sever c ps h) q \<longleftrightarrow> indexed h q \<and> q \<notin> set ps"
    "\<And>q. q \<notin> set ps \<Longrightarrow> obj (sever c ps h) q = obj h q"
    "\<And>q. hs_conn (obj (sever c ps h) q) = hs_conn (obj h q)"
    "\<And>q. q \<in> set ps \<Longrightarrow> c \<in> set (hs_closes (obj (sever c ps h) q))"
    "\<And>q. set (hs_closes (obj (sever c ps h) q)) \<subseteq> insert c (set (hs_closes (obj h q)))"
    using r k unfolding sever_def by auto
qed

section \<open>The hub as a state machine\<close>

text \<open>
  One step is one hold of the lock, or one turn of an outbox goroutine. What the store answered is
  arbitrary; the sessions a gap collected earlier are any that were attached by then.
\<close>

inductive hub_step :: "HubEnv \<Rightarrow> Hub \<Rightarrow> Hub \<Rightarrow> bool" for env where
  attach: "hub_step env h (Attach c h)"
| attachCheck: "p < length (hb_objs h) \<Longrightarrow> hub_step env h (severIfDead p answer h)"
| detaching: "p < length (hb_objs h) \<Longrightarrow> hub_step env h (fst (detach p h))"
| typingList: "hub_step env h (emitTyping conv answer except h)"
| outbox: "p < length (hb_objs h) \<Longrightarrow> hub_step env h (run ok p h)"
| message: "hub_step env h (OnNotify env cancelled answer cancelled' head h)"
| receipt: "hub_step env h (onReadNotify env cancelled msgs batch h)"
| listenerGap: "hub_step env h (OnGap cancelled head h)"
| revocation: "hub_step env h (OnRevocation device user h)"
| revocationGap: "(\<forall>p \<in> set all. p < length (hb_objs h)) \<Longrightarrow> hub_step env h (OnRevocationGap all cancelled answer h)"
| markingRead: "p < length (hb_objs h) \<Longrightarrow> hub_step env h (read p conv marked members h)"
| typing: "hub_step env h (typingFrame c conv start now members h)"
| shutdown: "hub_step env h (Shutdown h)"

definition hub_reach :: "HubEnv \<Rightarrow> Hub \<Rightarrow> bool" where
  "hub_reach env h \<longleftrightarrow> (hub_step env)\<^sup>*\<^sup>* newHub h"

lemma hub_inv_typing [simp]: "hub_inv (h\<lparr>hb_typing := t\<rparr>) = hub_inv h"
  by (simp add: hub_inv_def allSessions_def spentBy_def)

lemma setTyping_inv [simp]: "hub_inv (setTyping conv es h) = hub_inv h"
  by (simp add: setTyping_def)

lemma dropTyping_inv: "hub_inv h \<Longrightarrow> hub_inv (fst (dropTypingLocked p h))"
proof -
  let ?f = "\<lambda>conv (h, changed). if p \<notin> fst ` set (typingEntries h conv) then (h, changed)
        else let h' = setTyping conv (AList.delete p (typingEntries h conv)) h
             in (h', if typingListLocked h conv = typingListLocked h' conv then changed else changed @ [conv])"
  have "hub_inv (fst x) \<Longrightarrow> hub_inv (fst (fold ?f cs x))" for cs and x :: "Hub \<times> uuid list"
    by (induction cs arbitrary: x) (auto simp: Let_def split: prod.splits)
  then show "hub_inv h \<Longrightarrow> ?thesis" unfolding dropTypingLocked_def by force
qed

lemma Attach_inv:
  assumes "hub_inv h"
  shows "hub_inv (Attach c h)"
proof -
  let ?p = "length (hb_objs h)" and ?h1 = "h\<lparr>hb_objs := hb_objs h @ [newSession c]\<rparr>" and ?u = "hc_UserID c"
  have old: "obj ?h1 q = obj h q" if "indexed h q" for q
    using inv_indexed [OF assms that] by (simp add: nth_append)
  have ix: "(v, qs) \<in> set (hb_sessions h) \<Longrightarrow> q \<in> set qs \<Longrightarrow> indexed h q" for v qs q by (auto simp: indexed_iff)
  have sess: "\<forall>(v, qs) \<in> set (hb_sessions h). \<forall>q \<in> set qs. q < length (hb_objs h) \<and> userOf h q = v \<and> \<not> hs_outClosed (obj h q)"
    using assms by (simp add: hub_inv_def)
  show ?thesis
  proof (cases "hb_closing h")
    case True
    have "hub_inv ?h1"
      using assms sess old ix unfolding hub_inv_def
      by (auto simp: allSessions_def spentBy_def newSession_def less_Suc_eq) force+
    then have "hub_inv (closeConn (Close StatusGoingAway) ?p ?h1)" by (intro closeConn_inv) simp_all
    then show ?thesis using True by (simp add: Attach_def Let_def)
  next
    case False
    let ?m = "AList.update ?u (sessionsOf h ?u @ [?p]) (hb_sessions h)"
    have mem: "(v, qs) \<in> set ?m \<Longrightarrow> (v \<noteq> ?u \<and> (v, qs) \<in> set (hb_sessions h)) \<or> (v = ?u \<and> qs = sessionsOf h ?u @ [?p])" for v qs
      using assms map_of_eq_Some_wf [of "hb_sessions h" v qs] map_of_eq_Some_wf [of ?m v qs]
      by (auto simp: hub_inv_def split: if_splits)
    have fresh: "?p \<notin> set (allSessions h)" using inv_indexed [OF assms, of ?p] by (auto simp: indexed_def)
    have perm: "mset (concat (map snd (AList.update u (qs @ [p]) m))) = mset (concat (map snd m)) + {#p#}"
      if "(case map_of m u of None \<Rightarrow> [] | Some ps \<Rightarrow> ps) = qs" for u qs p and m :: "(uuid, nat list) gomap"
      using that by (induction m) (auto split: if_splits)
    have ms: "mset (concat (map snd ?m)) = mset (allSessions h) + {#?p#}"
      unfolding allSessions_def by (rule perm) (simp add: sessionsOf_def)
    then have "mset (concat (map snd ?m)) = mset (?p # allSessions h)" by simp
    then have d: "distinct (concat (map snd ?m))"
      using assms fresh by (subst mset_eq_imp_distinct_iff [of _ "?p # allSessions h"]) (simp_all add: hub_inv_def)
    have len: "length (concat (map snd ?m)) = length (allSessions h) + 1"
      using arg_cong [OF ms, of size] by simp
    let ?h = "?h1\<lparr>hb_sessions := ?m, hb_count := hb_count h + 1\<rparr>"
    have "hub_inv ?h"
      unfolding hub_inv_def
    proof (intro conjI)
      show "wf_gomap (hb_sessions ?h)" using assms by (simp add: hub_inv_def distinct_update)
      show "distinct (allSessions ?h)" using d by (simp add: allSessions_def)
      show "\<forall>(v, qs) \<in> set (hb_sessions ?h). \<forall>q \<in> set qs. q < length (hb_objs ?h) \<and> userOf ?h q = v \<and> \<not> hs_outClosed (obj ?h q)"
      proof (intro ballI, clarify)
        fix v qs q assume a: "(v, qs) \<in> set (hb_sessions ?h)" "q \<in> set qs"
        then consider "q = ?p" "v = ?u" | "indexed h q" "userOf h q = v"
          using mem [of v qs] sess ix sessionsOf_in [OF assms, of q ?u] by fastforce
        then show "q < length (hb_objs ?h) \<and> userOf ?h q = v \<and> \<not> hs_outClosed (obj ?h q)"
          by cases (use inv_indexed [OF assms, of q] in \<open>simp_all add: newSession_def nth_append\<close>)
      qed
      show "hb_count ?h = int (length (allSessions ?h))" using assms len by (simp add: hub_inv_def allSessions_def)
      show "\<forall>s \<in> set (hb_objs ?h). length (hs_out s) \<le> outboxBound" using assms by (auto simp: hub_inv_def newSession_def)
      show "hb_drained ?h \<le> 1" "hb_drained ?h = 1 \<longrightarrow> hb_closing ?h \<and> hb_count ?h = 0" using assms False by (auto simp: hub_inv_def)
      show "\<forall>a. spentBy ?h a \<le> readNotifyCap" using assms by (simp add: hub_inv_def spentBy_def)
    qed
    then show ?thesis using False by (simp add: Attach_def Let_def)
  qed
qed

lemma severIfDead_inv: "hub_inv h \<Longrightarrow> p < length (hb_objs h) \<Longrightarrow> hub_inv (severIfDead p answer h)"
  using removeLocked_inv [of h p] removeLocked_effect(3) [of h p] removeLocked_absent [of h p]
  by (cases "indexed h p") (auto simp: severIfDead_def intro!: closeConn_inv split: sum.splits prod.splits)

lemma run_inv:
  assumes "hub_inv h" "p < length (hb_objs h)"
  shows "hub_inv (run ok p h)"
proof (cases "hs_out (obj h p)")
  case (Cons f fs)
  have b: "length (hs_out (obj h p)) \<le> outboxBound" using assms nth_mem [OF assms(2)] by (simp add: hub_inv_def)
  show ?thesis
    unfolding run_def Cons list.case by (rule upd_inv [OF assms]) (use b Cons inv_indexed [OF assms(1), of p] in auto)
qed (simp add: run_def assms)

lemma gap_inv: "hub_inv h \<Longrightarrow> hub_inv (gap cancelled head h)"
proof (cases "cancelled")
  case False
  assume i: "hub_inv h"
  have "\<forall>p \<in> set (allSessions h). p < length (hb_objs h)" using inv_indexed [OF i] by (simp add: indexed_def)
  note k = closeAll [OF i this, where c = "Close StatusServiceRestart"]
  show ?thesis
  proof (cases head)
    case (Inr n)
    then show ?thesis using False delivers_inv [OF resync_delivers [OF i]] by simp
  qed (use False k in \<open>simp add: gap_def\<close>)
qed (simp add: gap_def)

subsection \<open>The budget of a batch\<close>

lemma hub_inv_burst:
  "hub_inv h \<Longrightarrow> (\<And>a. spentBy (h\<lparr>hb_burst := b\<rparr>) a \<le> readNotifyCap) \<Longrightarrow> hub_inv (h\<lparr>hb_burst := b\<rparr>)"
proof -
  have "allSessions (h\<lparr>hb_burst := b\<rparr>) = allSessions h" by (simp add: allSessions_def)
  then show "hub_inv h \<Longrightarrow> (\<And>a. spentBy (h\<lparr>hb_burst := b\<rparr>) a \<le> readNotifyCap) \<Longrightarrow> hub_inv (h\<lparr>hb_burst := b\<rparr>)"
    unfolding hub_inv_def by auto
qed

lemma spendOne_spent: "spentBy (spendOne a h) b = (if hb_burst h \<noteq> None \<and> b = a then spentBy h a + 1 else spentBy h b)"
  by (auto simp: spendOne_def spentBy_def split: option.splits)

lemma spendOne_frame [simp]:
  "hb_objs (spendOne a h) = hb_objs h" "hb_sessions (spendOne a h) = hb_sessions h" "allSessions (spendOne a h) = allSessions h"
  "sessionsOf (spendOne a h) u = sessionsOf h u" "hb_closing (spendOne a h) = hb_closing h" "hb_typing (spendOne a h) = hb_typing h"
  "indexed (spendOne a h) p = indexed h p" "hb_burst (spendOne a h) = None \<longleftrightarrow> hb_burst h = None"
  by (simp_all add: spendOne_def allSessions_def sessionsOf_def indexed_def)

lemma spendOne_inv: "hub_inv h \<Longrightarrow> spentBy h a < readNotifyCap \<Longrightarrow> hub_inv (spendOne a h)"
proof -
  assume i: "hub_inv h" and lt: "spentBy h a < readNotifyCap"
  have "spentBy h b \<le> readNotifyCap" for b using i by (simp add: hub_inv_def)
  then have "spentBy (spendOne a h) b \<le> readNotifyCap" for b using lt by (simp add: spendOne_spent)
  then show "hub_inv (spendOne a h)" using i unfolding spendOne_def by (intro hub_inv_burst)
qed

lemma budgetLocked_inv: "hub_inv h \<Longrightarrow> hub_inv (budgetLocked batch h)"
  by (auto simp: budgetLocked_def spentBy_def intro!: hub_inv_burst split: option.splits)

text \<open>
  One message of a receipt: on the outboxes of its author's sessions, once, unless the batch has
  spent the author's budget.
\<close>

lemma reemitOne_effect:
  fixes rm :: ReadNotifyMessage and batched :: bool
  assumes i: "hub_inv h" and b: "batched \<longrightarrow> hb_burst h \<noteq> None"
  defines "a \<equiv> mr_AuthorID (rn_Message rm)"
  defines "sent \<equiv> sessionsOf h a \<noteq> [] \<and> \<not> (batched \<and> readNotifyCap \<le> spentBy h a)"
  shows "\<exists>h0. hub_inv h0 \<and> hb_objs h0 = hb_objs h \<and> allSessions h0 = allSessions h \<and>
      (\<forall>x. spentBy h0 x = (if sent \<and> batched \<and> x = a then spentBy h x + 1 else spentBy h x)) \<and>
      (hb_burst h0 = None \<longleftrightarrow> hb_burst h = None) \<and>
      delivers (\<lambda>q. if sent \<and> userOf h q = a then reemitFrame env rm else []) h0 (reemitOne env batched rm h)"
proof (cases sent)
  case False
  have "delivers (\<lambda>_. []) h (reemitOne env batched rm h)"
    using False i by (auto simp: reemitOne_def sent_def a_def Let_def)
  then show ?thesis using i False by (intro exI [of _ h]) simp
next
  case True
  let ?h0 = "if batched then spendOne a h else h"
  have "hub_inv ?h0" using i True by (auto simp: sent_def intro: spendOne_inv)
  then have "delivers (\<lambda>q. if userOf ?h0 q = a then reemitFrame env rm else []) ?h0 (enqueueUser (reemitFrame env rm) a ?h0)"
    by (rule enqueueUser_delivers)
  then have "delivers (\<lambda>q. if sent \<and> userOf h q = a then reemitFrame env rm else []) ?h0 (reemitOne env batched rm h)"
    using True by (simp add: reemitOne_def sent_def a_def Let_def split: if_splits)
  then show ?thesis
    using \<open>hub_inv ?h0\<close> True b by (intro exI [of _ ?h0]) (auto simp: spendOne_spent simp del: not_None_eq)
qed

lemma reemitOne_inv:
  assumes "hub_inv h" "batched \<longrightarrow> hb_burst h \<noteq> None"
  shows "hub_inv (reemitOne env batched rm h)" "batched \<longrightarrow> hb_burst (reemitOne env batched rm h) \<noteq> None"
proof -
  obtain h0 fs where "hb_burst h0 = None \<longleftrightarrow> hb_burst h = None" "delivers fs h0 (reemitOne env batched rm h)"
    using reemitOne_effect [OF assms, where rm = rm and env = env] by (elim exE conjE) (rule that)
  then show "hub_inv (reemitOne env batched rm h)" "batched \<longrightarrow> hb_burst (reemitOne env batched rm h) \<noteq> None"
    using assms(2) by (auto simp: delivers_def simp del: not_None_eq)
qed

lemma budgetLocked_burst: "batch \<noteq> None \<Longrightarrow> hb_burst (budgetLocked batch h) \<noteq> None"
  by (auto simp: budgetLocked_def)

lemma reemitAll_inv:
  "hub_inv h \<Longrightarrow> batched \<longrightarrow> hb_burst h \<noteq> None \<Longrightarrow> hub_inv (fold (reemitOne env batched) rms h)"
proof (induction rms arbitrary: h)
  case (Cons rm rms)
  from Cons.IH [OF reemitOne_inv [OF Cons.prems]] show ?case by simp
qed simp

lemma onReadNotify_inv: "hub_inv h \<Longrightarrow> hub_inv (onReadNotify env cancelled answer batch h)"
  using budgetLocked_burst [of batch h] unfolding onReadNotify_def
  by (cases answer; cases cancelled) (auto intro!: reemitAll_inv budgetLocked_inv)

lemma doomedBy_in:
  "hub_inv h \<Longrightarrow> p \<in> set (doomedBy device user h) \<longleftrightarrow>
     indexed h p \<and> (user = Some (userOf h p) \<or> device = Some (hc_DeviceID (hs_conn (obj h p))))"
  by (auto simp: doomedBy_def sessionsOf_in indexed_def split: option.splits)

lemma Shutdown_inv:
  assumes "hub_inv h"
  shows "hub_inv (Shutdown h)"
proof -
  let ?h1 = "h\<lparr>hb_closing := True\<rparr>"
  let ?h2 = "if hb_count ?h1 = 0 \<and> hb_drained ?h1 = 0 then ?h1\<lparr>hb_drained := 1\<rparr> else ?h1"
  have "allSessions ?h2 = allSessions h" "spentBy ?h2 a = spentBy h a" for a by (simp_all add: allSessions_def spentBy_def)
  then have "hub_inv ?h2" using assms unfolding hub_inv_def by auto
  moreover have "\<forall>p \<in> set (allSessions h). p < length (hb_objs ?h2)"
    using inv_indexed [OF assms] by (simp add: indexed_def)
  ultimately show ?thesis
    unfolding Shutdown_def Let_def using closeAll [of ?h2 "allSessions h" "Close StatusGoingAway"] by blast
qed

lemma hub_step_inv: "hub_step env h h' \<Longrightarrow> hub_inv h \<Longrightarrow> hub_inv h'"
proof (induction rule: hub_step.induct)
  case (attach h c) then show ?case by (rule Attach_inv)
next
  case (attachCheck p h answer) then show ?case by (intro severIfDead_inv)
next
  case (detaching p h) then show ?case by (simp add: detach_def dropTyping_inv removeLocked_inv)
next
  case (typingList h conv answer except)
  then show ?case by (auto simp: emitTyping_def intro: delivers_inv broadcast_delivers split: sum.splits)
next
  case (outbox p h ok) then show ?case by (intro run_inv)
next
  case (message h cancelled answer cancelled' head)
  then show ?case by (auto simp: OnNotify_def intro: gap_inv delivers_inv fanout_delivers split: sum.splits)
next
  case (receipt h cancelled msgs batch) then show ?case by (rule onReadNotify_inv)
next
  case (listenerGap h cancelled head) then show ?case by (simp add: OnGap_def gap_inv)
next
  case (revocation h device user)
  then show ?case using doomedBy_in [OF revocation] inv_indexed [OF revocation]
    unfolding OnRevocation_def by (intro sever_effect(1)) auto
next
  case (revocationGap all h cancelled answer)
  then show ?case by (auto simp: OnRevocationGap_def intro!: sever_effect(1) split: sum.splits)
next
  case (markingRead p h conv marked members)
  then show ?case
    by (auto simp: read_def intro: closeConn_inv delivers_inv broadcast_delivers split: sum.splits)
next
  case (typing h c conv start now members)
  then show ?case
    by (auto simp: typingFrame_def Let_def intro!: delivers_inv [OF broadcast_delivers] split: sum.splits option.splits)
next
  case (shutdown h) then show ?case by (rule Shutdown_inv)
qed

lemma hub_inv_new: "hub_inv newHub"
  by (simp add: newHub_def hub_inv_def allSessions_def spentBy_def)

lemma hub_reach_inv: "hub_reach env h \<Longrightarrow> hub_inv h"
  unfolding hub_reach_def by (induction rule: rtranclp_induct) (auto intro: hub_inv_new hub_step_inv)

end
