(* ===== verification/Store_Log.thy ===== *)
theory Store_Log
  imports Store_Rooms
begin

text \<open>
  What the send path promises: the contract of an upload resolver as a locale with both
  resolvers as instances, the invariant of the log (dense sequence numbers, ordered log
  positions, one row per idempotency key, replies inside their conversation, read marks
  below the head) under every operation, and the behaviour of a replay and of a race.
\<close>

section \<open>The resolver's contract\<close>

locale upload_resolver =
  fixes resolve :: "'h Resolver"
  assumes uploads_only: "resolve db uploader want = Inr (db', rows) \<Longrightarrow> db' = db\<lparr>db_uploads := db_uploads db'\<rparr>"
    and answers_each: "resolve db uploader want = Inr (db', rows) \<Longrightarrow> length rows = length want"
    and refuses: "resolve db uploader want = Inl e \<Longrightarrow> e = ErrUploadNotFound"
    and consumes_once: "resolve db uploader want = Inr (db', rows) \<Longrightarrow> u \<in> set (db_uploads db) \<Longrightarrow>
      up_consumed_at u \<noteq> None \<Longrightarrow> up_id u \<in> na_UploadID ` set want \<Longrightarrow> distinct (map up_id (db_uploads db)) \<Longrightarrow> False"
    and keeps_rest: "resolve db uploader want = Inr (db', rows) \<Longrightarrow>
      map up_id (db_uploads db') = map up_id (db_uploads db) \<and>
      {u \<in> set (db_uploads db). up_id u \<notin> na_UploadID ` set want} \<subseteq> set (db_uploads db')"

lemma takeWanted_Some:
  "takeWanted byID seen want = Some rows \<Longrightarrow>
   length rows = length want \<and> na_UploadID ` set want \<subseteq> fst ` set byID \<and>
   distinct (map na_UploadID want) \<and> set (map na_UploadID want) \<inter> set seen = {}"
proof (induction byID seen want arbitrary: rows rule: takeWanted.induct)
  case (2 byID seen w ws)
  then obtain row rest where r: "map_of byID (na_UploadID w) = Some row" "na_UploadID w \<notin> set seen"
    "takeWanted byID (na_UploadID w # seen) ws = Some rest" "rows = row # rest"
    by (auto split: option.splits if_splits)
  from "2.IH" [OF r(1,2,3)] r(2,4) map_of_SomeD [OF r(1)] show ?case by (auto intro: rev_image_eqI)
qed simp

interpretation refuse: upload_resolver RefuseUploads
  by unfold_locales (simp_all add: RefuseUploads_def)

interpretation pg: upload_resolver "PostgresUploads dbnow" for dbnow
proof unfold_locales
  fix db db' :: "'a DB" and uploader want rows
  assume r: "PostgresUploads dbnow db uploader want = Inr (db', rows)"
  let ?P = "consumable (map na_UploadID want) uploader"
  from r have t: "takeWanted (map (\<lambda>u. (up_id u, attachmentOf u)) (filter ?P (db_uploads db))) [] want = Some rows"
    and db': "db' = db\<lparr>db_uploads := update_where ?P (\<lambda>u. u\<lparr>up_consumed_at := Some dbnow\<rparr>) (db_uploads db)\<rparr>"
    by (auto simp: PostgresUploads_def Let_def split: option.splits)
  show "db' = db\<lparr>db_uploads := db_uploads db'\<rparr>" "length rows = length want"
    using db' takeWanted_Some [OF t] by simp_all
  show "map up_id (db_uploads db') = map up_id (db_uploads db) \<and>
      {u \<in> set (db_uploads db). up_id u \<notin> na_UploadID ` set want} \<subseteq> set (db_uploads db')"
    using db' by (auto simp: map_update_where set_update_where consumable_def)
  fix u assume u: "u \<in> set (db_uploads db)" "up_consumed_at u \<noteq> None" "up_id u \<in> na_UploadID ` set want"
    "distinct (map up_id (db_uploads db))"
  from takeWanted_Some [OF t] u(3) obtain v where v: "v \<in> set (db_uploads db)" "?P v" "up_id v = up_id u" by auto
  with u(1,4) have "v = u" by (auto simp: distinct_map dest: inj_onD)
  with v(2) u(2) show False by (simp add: consumable_def)
qed (auto simp: PostgresUploads_def Let_def split: option.splits)

section \<open>The invariant of the log\<close>

definition dense :: "'h DB \<Rightarrow> bool" where
  "dense db \<longleftrightarrow> (\<forall>c \<in> set (db_conversations db).
     mr_Seq ` {m \<in> set (db_messages db). mr_ConversationID m = cv_id c} = {1..cv_last_seq c})"

definition seq_unique :: "'h DB \<Rightarrow> bool" where
  "seq_unique db \<longleftrightarrow> distinct (map (\<lambda>m. (mr_ConversationID m, mr_Seq m)) (db_messages db))"

definition log_ordered :: "'h DB \<Rightarrow> bool" where
  "log_ordered db \<longleftrightarrow> sorted_wrt (<) (map mr_LogSeq (db_messages db)) \<and>
     (\<forall>m \<in> set (db_messages db). 1 \<le> mr_LogSeq m \<and> mr_LogSeq m \<le> db_log_counter db) \<and> 0 \<le> db_log_counter db"

definition key_unique :: "'h DB \<Rightarrow> bool" where
  "key_unique db \<longleftrightarrow> (\<forall>m \<in> set (db_messages db). \<forall>m' \<in> set (db_messages db).
     mr_AuthorID m = mr_AuthorID m' \<and> mr_ClientID m = mr_ClientID m' \<and> mr_ClientID m \<noteq> None \<longrightarrow> m = m')"

definition replies_inside :: "'h DB \<Rightarrow> bool" where
  "replies_inside db \<longleftrightarrow> (\<forall>m \<in> set (db_messages db). \<forall>i. mr_ReplyTo m = Some i \<longrightarrow>
     (\<exists>s \<in> set (db_messages db). mr_ID s = i \<and> mr_ConversationID s = mr_ConversationID m))"

definition marks_below_head :: "'h DB \<Rightarrow> bool" where
  "marks_below_head db \<longleftrightarrow> (\<forall>mb \<in> set (db_members db). \<exists>c \<in> set (db_conversations db).
     cv_id c = mb_conversation_id mb \<and> 0 \<le> mb_read_seq mb \<and> mb_read_seq mb \<le> cv_last_seq c)"

definition markers_below_head :: "'h DB \<Rightarrow> bool" where
  "markers_below_head db \<longleftrightarrow>
     (\<forall>c \<in> set (db_conversations db). cv_metadata_log_seq c \<le> db_log_counter db) \<and>
     (\<forall>m \<in> set (db_members db). mb_metadata_log_seq m \<le> db_log_counter db) \<and>
     (\<forall>u \<in> set (db_users db). us_metadata_log_seq u \<le> db_log_counter db)"

definition log_inv :: "'h DB \<Rightarrow> bool" where
  "log_inv db \<longleftrightarrow> distinct (map cv_id (db_conversations db)) \<and> distinct (map mr_ID (db_messages db)) \<and>
     mr_ConversationID ` set (db_messages db) \<subseteq> cv_id ` set (db_conversations db) \<and>
     (\<forall>c \<in> set (db_conversations db). 0 \<le> cv_last_seq c) \<and>
     dense db \<and> seq_unique db \<and> log_ordered db \<and> key_unique db \<and> replies_inside db \<and> marks_below_head db \<and>
     markers_below_head db"

text \<open>What each part does not read.\<close>

lemma log_part_frames [simp]:
  "seq_unique (db\<lparr>db_members := ms\<rparr>) = seq_unique db" "seq_unique (db\<lparr>db_conversations := cs\<rparr>) = seq_unique db"
  "key_unique (db\<lparr>db_members := ms\<rparr>) = key_unique db" "key_unique (db\<lparr>db_conversations := cs\<rparr>) = key_unique db"
  "replies_inside (db\<lparr>db_members := ms\<rparr>) = replies_inside db"
  "replies_inside (db\<lparr>db_conversations := cs\<rparr>) = replies_inside db"
  "log_ordered (db\<lparr>db_members := ms\<rparr>) = log_ordered db" "log_ordered (db\<lparr>db_conversations := cs\<rparr>) = log_ordered db"
  "dense (db\<lparr>db_members := ms\<rparr>) = dense db"
  unfolding seq_unique_def key_unique_def replies_inside_def log_ordered_def dense_def by simp_all

section \<open>One row written\<close>

context upload_resolver
begin

lemma resolveUploads_Inr:
  "resolveUploads resolve db m = Inr (db', atts) \<Longrightarrow> db' = db\<lparr>db_uploads := db_uploads db'\<rparr>"
  using uploads_only by (auto simp: resolveUploads_def split: if_splits sum.splits)

text \<open>What a send that wrote leaves: one row, both ordinals, one notification.\<close>

lemma writeSend_Inr:
  assumes "writeSend resolve d db m = Inr (db', s)"
  obtains c row where
    "conversationByID db (nm_ConversationID m) = Some c" "cv_last_seq c \<noteq> max_i64" "db_log_counter db \<noteq> max_i64"
    "mr_ID row = sd_messageID d" "mr_ConversationID row = nm_ConversationID m" "mr_AuthorID row = nm_AuthorID m"
    "mr_ClientID row = Some (nm_ClientID m)" "mr_Seq row = cv_last_seq c + 1" "mr_LogSeq row = db_log_counter db + 1"
    "mr_ReplyTo row = resolveReply db (nm_ConversationID m) (nm_ReplyTo m)" "mr_Text row = nm_Text m"
    "mr_ID row \<notin> mr_ID ` set (db_messages db)"
    "\<And>x. x \<in> set (db_messages db) \<Longrightarrow> \<not> (mr_AuthorID x = mr_AuthorID row \<and> mr_ClientID x = mr_ClientID row)"
    "db_messages db' = db_messages db @ [row]" "db_log_counter db' = db_log_counter db + 1"
    "db_conversations db' = update_where (\<lambda>c. cv_id c = nm_ConversationID m)
       (\<lambda>c. c\<lparr>cv_last_seq := cv_last_seq c + 1\<rparr>) (db_conversations db)"
    "db_members db' = db_members db" "db_users db' = db_users db"
    "db_notify db' = db_notify db @ [NotifyMessage (nm_ConversationID m) (mr_Seq row)]"
    "s = (sentOf row)\<lparr>so_Duplicate := False\<rparr>"
proof -
  obtain db1 atts where r: "resolveUploads resolve db m = Inr (db1, atts)"
    using assms by (auto simp: writeSend_def split: sum.splits)
  note u = resolveUploads_Inr [OF r]
  have same: "db_conversations db1 = db_conversations db" "db_log_counter db1 = db_log_counter db"
    "db_messages db1 = db_messages db" "db_members db1 = db_members db" "db_users db1 = db_users db"
    "db_notify db1 = db_notify db" by (subst u, simp)+
  obtain c where c: "conversationByID db (nm_ConversationID m) = Some c" "cv_last_seq c \<noteq> max_i64" "db_log_counter db \<noteq> max_i64"
    using assms r same by (auto simp: writeSend_def drawSeq_def drawLog_def conversationByID_def Let_def split: sum.splits option.splits if_splits)
  define row where "row = \<lparr>mr_ID = sd_messageID d, mr_ConversationID = nm_ConversationID m, mr_AuthorID = nm_AuthorID m,
      mr_Seq = cv_last_seq c + 1, mr_LogSeq = db_log_counter db + 1, mr_UpdatedLogSeq = db_log_counter db + 1, mr_At = sd_at d,
      mr_Text = nm_Text m, mr_ClientID = Some (nm_ClientID m), mr_SenderDeviceID = nm_SenderDeviceID m,
      mr_ReplyTo = resolveReply db (nm_ConversationID m) (nm_ReplyTo m), mr_EditedAt = None, mr_Deleted = False\<rparr>"
  define db3 where "db3 = db1\<lparr>db_conversations := update_where (\<lambda>c. cv_id c = nm_ConversationID m)
      (\<lambda>c. c\<lparr>cv_last_seq := cv_last_seq c + 1\<rparr>) (db_conversations db1), db_log_counter := db_log_counter db1 + 1\<rparr>"
  have rr: "resolveReply (db1\<lparr>db_conversations := cs\<rparr>) conv i = resolveReply db conv i" for cs conv i
    by (simp add: resolveReply_def same cong: option.case_cong)
  have ins: "\<exists>db4 db5. insertMessage db3 row = Inr db4 \<and> insertAttachments (sd_attachmentIDs d) (sd_messageID d) atts db4 = Inr db5 \<and>
      db' = notify (NotifyMessage (nm_ConversationID m) (mr_Seq row)) db5 \<and> s = (sentOf row)\<lparr>so_Duplicate := False\<rparr>"
    using assms r c same
    by (auto simp: writeSend_def drawSeq_def drawLog_def conversationByID_def Let_def rr row_def db3_def sentOf_def
        split: sum.splits if_splits)
  then obtain db4 db5 where i: "insertMessage db3 row = Inr db4" "insertAttachments (sd_attachmentIDs d) (sd_messageID d) atts db4 = Inr db5"
      "db' = notify (NotifyMessage (nm_ConversationID m) (mr_Seq row)) db5" "s = (sentOf row)\<lparr>so_Duplicate := False\<rparr>" by blast
  have db4: "db4 = db3\<lparr>db_messages := db_messages db3 @ [row]\<rparr>" "mr_ID row \<notin> mr_ID ` set (db_messages db3)"
    "\<forall>x \<in> set (db_messages db3). \<not> (mr_AuthorID x = mr_AuthorID row \<and> mr_ClientID x = mr_ClientID row)"
    using i(1) by (auto simp: insertMessage_def row_def split: if_splits)
  have db5: "db5 = db4\<lparr>db_attachments := db_attachments db5\<rparr>"
    using i(2) by (auto simp: insertAttachments_def split: if_splits)
  show thesis
    by (rule that [of c row]) (use c db4 i in \<open>auto simp: row_def db3_def same, (subst db5, simp add: db4 db3_def same row_def)+\<close>)
qed

end

section \<open>The invariant under a written row\<close>

lemma conversation_unique:
  assumes "distinct (map cv_id (db_conversations db))" "conversationByID db i = Some c"
    "c' \<in> set (db_conversations db)" "cv_id c' = i"
  shows "c' = c"
  using assms find_unique [OF assms(1,3)] by (simp add: conversationByID_def)

text \<open>
  One row appended to the log of one conversation, with both ordinals drawn: what a send
  does to the tables the invariant reads.
\<close>

definition appended :: "ConversationT \<Rightarrow> MessageRow \<Rightarrow> 'h DB \<Rightarrow> 'h DB \<Rightarrow> bool" where
  "appended c row db db' \<longleftrightarrow>
     conversationByID db (mr_ConversationID row) = Some c \<and>
     mr_Seq row = cv_last_seq c + 1 \<and> mr_LogSeq row = db_log_counter db + 1 \<and> mr_ClientID row \<noteq> None \<and>
     (\<forall>i. mr_ReplyTo row = Some i \<longrightarrow>
        (\<exists>x \<in> set (db_messages db). mr_ID x = i \<and> mr_ConversationID x = mr_ConversationID row)) \<and>
     mr_ID row \<notin> mr_ID ` set (db_messages db) \<and>
     (\<forall>x \<in> set (db_messages db). \<not> (mr_AuthorID x = mr_AuthorID row \<and> mr_ClientID x = mr_ClientID row)) \<and>
     db_messages db' = db_messages db @ [row] \<and> db_log_counter db' = db_log_counter db + 1 \<and>
     db_conversations db' = update_where (\<lambda>c. cv_id c = mr_ConversationID row)
       (\<lambda>c. c\<lparr>cv_last_seq := cv_last_seq c + 1\<rparr>) (db_conversations db) \<and>
     db_members db' = db_members db \<and> db_users db' = db_users db \<and>
     db_notify db' = db_notify db @ [NotifyMessage (mr_ConversationID row) (mr_Seq row)]"

lemma dense_range:
  assumes "dense db" "c \<in> set (db_conversations db)" "m \<in> set (db_messages db)" "mr_ConversationID m = cv_id c"
  shows "1 \<le> mr_Seq m" "mr_Seq m \<le> cv_last_seq c"
proof -
  have "mr_Seq m \<in> mr_Seq ` {m \<in> set (db_messages db). mr_ConversationID m = cv_id c}" using assms by auto
  also have "\<dots> = {1..cv_last_seq c}" using assms by (simp add: dense_def)
  finally show "1 \<le> mr_Seq m" "mr_Seq m \<le> cv_last_seq c" by simp_all
qed

lemma appended_dense:
  assumes a: "appended c row db db'" and d: "dense db" and u: "distinct (map cv_id (db_conversations db))"
    and n: "0 \<le> cv_last_seq c"
  shows "dense db'"
  unfolding dense_def
proof
  fix c' assume "c' \<in> set (db_conversations db')"
  then obtain c0 where c0: "c0 \<in> set (db_conversations db)" "cv_id c' = cv_id c0"
    "cv_last_seq c' = (if cv_id c0 = mr_ConversationID row then cv_last_seq c0 + 1 else cv_last_seq c0)"
    using a by (auto simp: appended_def set_update_where)
  have msgs: "db_messages db' = db_messages db @ [row]" and seq: "mr_Seq row = cv_last_seq c + 1"
    and find: "conversationByID db (mr_ConversationID row) = Some c" using a by (auto simp: appended_def)
  have old: "mr_Seq ` {m \<in> set (db_messages db). mr_ConversationID m = cv_id c0} = {1..cv_last_seq c0}"
    using d c0(1) by (auto simp: dense_def)
  show "mr_Seq ` {m \<in> set (db_messages db'). mr_ConversationID m = cv_id c'} = {1..cv_last_seq c'}"
  proof (cases "cv_id c0 = mr_ConversationID row")
    case True
    then have "c0 = c" by (rule conversation_unique [OF u find c0(1)])
    moreover have "{m \<in> set (db_messages db'). mr_ConversationID m = cv_id c'} =
        insert row {m \<in> set (db_messages db). mr_ConversationID m = cv_id c0}" using True c0 msgs by auto
    ultimately show ?thesis using old seq c0 True n by (auto simp: image_insert)
  next
    case False
    then have "{m \<in> set (db_messages db'). mr_ConversationID m = cv_id c'} =
        {m \<in> set (db_messages db). mr_ConversationID m = cv_id c0}" using c0 msgs by auto
    then show ?thesis using old c0(3) False by simp
  qed
qed

lemma appended_seq_unique:
  assumes a: "appended c row db db'" and d: "dense db" and s: "seq_unique db"
  shows "seq_unique db'"
proof -
  have find: "conversationByID db (mr_ConversationID row) = Some c" and seq: "mr_Seq row = cv_last_seq c + 1"
    and msgs: "db_messages db' = db_messages db @ [row]" using a by (auto simp: appended_def)
  from find have c: "c \<in> set (db_conversations db)" "cv_id c = mr_ConversationID row"
    by (auto simp: conversationByID_def dest: find_SomeD)
  have "(mr_ConversationID row, mr_Seq row) \<noteq> (mr_ConversationID m, mr_Seq m)" if "m \<in> set (db_messages db)" for m
  proof
    assume eq: "(mr_ConversationID row, mr_Seq row) = (mr_ConversationID m, mr_Seq m)"
    with dense_range(2) [OF d c(1) that] c(2) seq show False by simp
  qed
  then show ?thesis using s msgs by (auto simp: seq_unique_def)
qed

lemma appended_conversations:
  assumes "appended c row db db'"
  shows "map cv_id (db_conversations db') = map cv_id (db_conversations db)"
    "c' \<in> set (db_conversations db') \<Longrightarrow> \<exists>c0 \<in> set (db_conversations db). cv_id c' = cv_id c0 \<and>
       cv_last_seq c0 \<le> cv_last_seq c' \<and> cv_metadata_log_seq c' = cv_metadata_log_seq c0"
    "c0 \<in> set (db_conversations db) \<Longrightarrow> \<exists>c' \<in> set (db_conversations db'). cv_id c' = cv_id c0 \<and>
       cv_last_seq c0 \<le> cv_last_seq c'"
proof -
  have u: "db_conversations db' = update_where (\<lambda>c. cv_id c = mr_ConversationID row)
       (\<lambda>c. c\<lparr>cv_last_seq := cv_last_seq c + 1\<rparr>) (db_conversations db)"
    using assms by (simp add: appended_def)
  show "map cv_id (db_conversations db') = map cv_id (db_conversations db)" by (simp add: u map_update_where)
  show "\<exists>c0 \<in> set (db_conversations db). cv_id c' = cv_id c0 \<and> cv_last_seq c0 \<le> cv_last_seq c' \<and>
      cv_metadata_log_seq c' = cv_metadata_log_seq c0" if "c' \<in> set (db_conversations db')"
    using update_where_D [OF that [unfolded u]] by (elim bexE, intro bexI, auto)
  show "\<exists>c' \<in> set (db_conversations db'). cv_id c' = cv_id c0 \<and> cv_last_seq c0 \<le> cv_last_seq c'"
    if "c0 \<in> set (db_conversations db)"
    unfolding u by (rule bexI [OF _ update_where_I [OF that]]) simp
qed

lemma appended_inv:
  assumes a: "appended c row db db'" and i: "log_inv db"
  shows "log_inv db'"
proof -
  have find: "conversationByID db (mr_ConversationID row) = Some c" and msgs: "db_messages db' = db_messages db @ [row]"
    and cnt: "db_log_counter db' = db_log_counter db + 1" and ls: "mr_LogSeq row = db_log_counter db + 1"
    and mem: "db_members db' = db_members db" "db_users db' = db_users db"
    and key: "\<And>x. x \<in> set (db_messages db) \<Longrightarrow> \<not> (mr_AuthorID x = mr_AuthorID row \<and> mr_ClientID x = mr_ClientID row)"
    and rep: "\<And>i. mr_ReplyTo row = Some i \<Longrightarrow>
      \<exists>x \<in> set (db_messages db). mr_ID x = i \<and> mr_ConversationID x = mr_ConversationID row"
    using a unfolding appended_def by blast+
  from find have c: "c \<in> set (db_conversations db)" "cv_id c = mr_ConversationID row"
    by (auto simp: conversationByID_def dest: find_SomeD)
  note ids = appended_conversations(1) [OF a]
  have idset: "cv_id ` set (db_conversations db') = cv_id ` set (db_conversations db)"
    using arg_cong [OF ids, of set] by simp
  have nonneg: "\<forall>c \<in> set (db_conversations db'). 0 \<le> cv_last_seq c"
  proof
    fix c' assume "c' \<in> set (db_conversations db')"
    from appended_conversations(2) [OF a this] i show "0 \<le> cv_last_seq c'" by (force simp: log_inv_def)
  qed
  have "dense db'" "seq_unique db'"
    using appended_dense [OF a] appended_seq_unique [OF a] i c(1) by (auto simp: log_inv_def)
  moreover have "log_ordered db'"
    using i msgs cnt ls by (fastforce simp: log_inv_def log_ordered_def sorted_wrt_append)
  moreover have "key_unique db'"
    unfolding key_unique_def
  proof (intro ballI impI)
    fix m m' assume mm: "m \<in> set (db_messages db')" "m' \<in> set (db_messages db')"
      "mr_AuthorID m = mr_AuthorID m' \<and> mr_ClientID m = mr_ClientID m' \<and> mr_ClientID m \<noteq> None"
    have "key_unique db" using i by (simp add: log_inv_def)
    moreover have "m \<in> set (db_messages db) \<or> m = row" "m' \<in> set (db_messages db) \<or> m' = row" using mm msgs by auto
    ultimately show "m = m'" using mm(3) key [of m] key [of m'] unfolding key_unique_def by metis
  qed
  moreover have "replies_inside db'"
    using i rep unfolding replies_inside_def msgs log_inv_def by fastforce
  moreover have "marks_below_head db'"
    unfolding marks_below_head_def mem
  proof
    fix mb assume "mb \<in> set (db_members db)"
    then obtain c0 where c0: "c0 \<in> set (db_conversations db)" "cv_id c0 = mb_conversation_id mb" "0 \<le> mb_read_seq mb"
      "mb_read_seq mb \<le> cv_last_seq c0" using i by (auto simp: log_inv_def marks_below_head_def)
    with appended_conversations(3) [OF a c0(1)] show "\<exists>c \<in> set (db_conversations db'). cv_id c = mb_conversation_id mb \<and>
      0 \<le> mb_read_seq mb \<and> mb_read_seq mb \<le> cv_last_seq c" by force
  qed
  moreover have "markers_below_head db'"
    using i cnt mem appended_conversations(2) [OF a] by (fastforce simp: log_inv_def markers_below_head_def)
  moreover have "distinct (map mr_ID (db_messages db'))"
    using i a by (auto simp: log_inv_def appended_def)
  ultimately show ?thesis using i ids idset nonneg msgs c imageI [OF c(1), of cv_id] by (auto simp: log_inv_def)
qed

section \<open>The invariant under every other write\<close>

text \<open>
  A write that leaves the log, the conversations' ordinals and the read marks as they are
  and keeps the markers below the counter keeps the invariant.
\<close>

definition ordinals :: "'h DB \<Rightarrow> (uuid \<times> int) list" where
  "ordinals db = map (\<lambda>c. (cv_id c, cv_last_seq c)) (db_conversations db)"

definition marks :: "'h DB \<Rightarrow> (uuid \<times> uuid \<times> int) list" where
  "marks db = map (\<lambda>m. (mb_conversation_id m, mb_user_id m, mb_read_seq m)) (db_members db)"

lemma ordinals_set:
  "c \<in> set (db_conversations db) \<Longrightarrow> ordinals db' = ordinals db \<Longrightarrow>
   \<exists>c' \<in> set (db_conversations db'). cv_id c' = cv_id c \<and> cv_last_seq c' = cv_last_seq c"
  by (drule arg_cong [of _ _ set], drule eqset_imp_iff [of _ _ "(cv_id c, cv_last_seq c)"]) (auto simp: ordinals_def)

lemma ordinals_ids:
  assumes "ordinals db' = ordinals db"
  shows "map cv_id (db_conversations db') = map cv_id (db_conversations db)"
  using arg_cong [OF assms, of "map fst"] by (simp add: ordinals_def comp_def)

lemma marks_set:
  "m \<in> set (db_members db) \<Longrightarrow> marks db' = marks db \<Longrightarrow>
   \<exists>m' \<in> set (db_members db'). mb_conversation_id m' = mb_conversation_id m \<and> mb_user_id m' = mb_user_id m \<and>
     mb_read_seq m' = mb_read_seq m"
  by (drule arg_cong [of _ _ set], drule eqset_imp_iff [of _ _ "(mb_conversation_id m, mb_user_id m, mb_read_seq m)"])
    (auto simp: marks_def)

lemma log_inv_frame:
  assumes i: "log_inv db" and msgs: "db_messages db' = db_messages db" and od: "ordinals db' = ordinals db"
    and m: "marks db' = marks db" and cnt: "db_log_counter db \<le> db_log_counter db'" and mk: "markers_below_head db'"
  shows "log_inv db'"
proof -
  have ids: "map cv_id (db_conversations db') = map cv_id (db_conversations db)" by (rule ordinals_ids [OF od])
  have idset: "cv_id ` set (db_conversations db') = cv_id ` set (db_conversations db)" using arg_cong [OF ids, of set] by simp
  have older: "\<exists>c' \<in> set (db_conversations db). cv_id c' = cv_id c \<and> cv_last_seq c' = cv_last_seq c"
    if "c \<in> set (db_conversations db')" for c using ordinals_set [OF that od [symmetric]] .
  have "dense db'" using i older msgs by (fastforce simp: log_inv_def dense_def)
  moreover have "\<forall>c \<in> set (db_conversations db'). 0 \<le> cv_last_seq c" using i older by (fastforce simp: log_inv_def)
  moreover have "seq_unique db'" "key_unique db'" "replies_inside db'"
    using i unfolding log_inv_def seq_unique_def key_unique_def replies_inside_def msgs by blast+
  moreover have "log_ordered db'" using i msgs cnt by (fastforce simp: log_inv_def log_ordered_def)
  moreover have "marks_below_head db'"
    unfolding marks_below_head_def
  proof
    fix mb assume "mb \<in> set (db_members db')"
    from marks_set [OF this m [symmetric]] obtain m0 where m0: "m0 \<in> set (db_members db)"
      "mb_conversation_id m0 = mb_conversation_id mb" "mb_read_seq m0 = mb_read_seq mb" by auto
    then obtain c0 where c0: "c0 \<in> set (db_conversations db)" "cv_id c0 = mb_conversation_id mb" "0 \<le> mb_read_seq mb"
      "mb_read_seq mb \<le> cv_last_seq c0" using i by (fastforce simp: log_inv_def marks_below_head_def)
    with ordinals_set [OF c0(1) od] show "\<exists>c \<in> set (db_conversations db'). cv_id c = mb_conversation_id mb \<and>
      0 \<le> mb_read_seq mb \<and> mb_read_seq mb \<le> cv_last_seq c" by force
  qed
  ultimately show ?thesis using i mk ids idset msgs by (simp add: log_inv_def)
qed

lemma applyBump_Inr:
  assumes "applyBump b db = Inr (db', v)"
  shows "v = db_log_counter db + 1" "db_log_counter db' = v" "db_messages db' = db_messages db"
    "db_notify db' = db_notify db"
    "ordinals db' = ordinals db" "marks db' = marks db"
    "db_conversations db' = update_where (\<lambda>c. cv_id c \<in> set (bp_convs b)) (\<lambda>c. c\<lparr>cv_metadata_log_seq := v\<rparr>) (db_conversations db)"
    "db_members db' = update_where (\<lambda>m. (mb_conversation_id m, mb_user_id m) \<in> set (bp_members b))
       (\<lambda>m. m\<lparr>mb_metadata_log_seq := v\<rparr>) (db_members db)"
    "db_users db' = update_where (\<lambda>u. us_id u \<in> set (bp_users b)) (\<lambda>u. u\<lparr>us_metadata_log_seq := v\<rparr>) (db_users db)"
  using assms by (auto simp: applyBump_def drawLog_def ordinals_def marks_def map_update_where split: if_splits)

lemma applyBump_inv:
  assumes "applyBump b db = Inr (db', v)" "log_inv db"
  shows "log_inv db'"
proof (rule log_inv_frame [OF assms(2)])
  note r = applyBump_Inr [OF assms(1)]
  show "db_messages db' = db_messages db" "ordinals db' = ordinals db" "marks db' = marks db" by (fact r)+
  show "db_log_counter db \<le> db_log_counter db'" using r(1,2) by simp
  have "markers_below_head db" using assms(2) by (simp add: log_inv_def)
  then show "markers_below_head db'"
    unfolding markers_below_head_def r(7-9) r(2) r(1) by (fastforce simp: set_update_where)
qed

lemma memberOf_Some: "memberOf db conv user = Some mb \<Longrightarrow> mb \<in> set (db_members db) \<and> mb_conversation_id mb = conv \<and> mb_user_id mb = user"
  by (auto simp: memberOf_def dest: find_SomeD)

text \<open>The mark written by \<open>markRead\<close>: never below the old one, never above the head.\<close>

lemma marked_inv:
  assumes i: "log_inv db" and mb: "memberOf db conv user = Some mb" and c: "conversationByID db conv = Some c"
    and n: "1 \<le> n"
  shows "log_inv (db\<lparr>db_members := update_where (\<lambda>m. mb_conversation_id m = conv \<and> mb_user_id m = user)
     (\<lambda>m. m\<lparr>mb_read_seq := min (max (mb_read_seq mb) n) (cv_last_seq c)\<rparr>) (db_members db)\<rparr>)" (is "log_inv ?db")
proof -
  have c': "c \<in> set (db_conversations db)" "cv_id c = conv" using c by (auto simp: conversationByID_def dest: find_SomeD)
  have "0 \<le> cv_last_seq c" using i c'(1) by (simp add: log_inv_def)
  have old: "marks_below_head db" "markers_below_head db" using i by (simp_all add: log_inv_def)
  have "marks_below_head ?db"
    unfolding marks_below_head_def
  proof
    fix m assume "m \<in> set (db_members ?db)"
    then obtain m0 where m0: "m0 \<in> set (db_members db)" "m = (if mb_conversation_id m0 = conv \<and> mb_user_id m0 = user
        then m0\<lparr>mb_read_seq := min (max (mb_read_seq mb) n) (cv_last_seq c)\<rparr> else m0)"
      by (auto dest: update_where_D)
    show "\<exists>c \<in> set (db_conversations ?db). cv_id c = mb_conversation_id m \<and> 0 \<le> mb_read_seq m \<and> mb_read_seq m \<le> cv_last_seq c"
    proof (cases "mb_conversation_id m0 = conv \<and> mb_user_id m0 = user")
      case True
      then show ?thesis using m0(2) c' n \<open>0 \<le> cv_last_seq c\<close> by (intro bexI [of _ c]) auto
    next
      case False
      then have "m = m0" using m0(2) by (simp only: if_False)
      then show ?thesis using m0(1) old(1) by (simp add: marks_below_head_def)
    qed
  qed
  moreover have "markers_below_head ?db"
    using old(2) by (auto simp: markers_below_head_def dest!: update_where_D)
  ultimately show ?thesis using i by (simp add: log_inv_def)
qed

lemma log_inv_notify [simp]: "log_inv (notify n db) = log_inv db"
  by (simp add: log_inv_def dense_def seq_unique_def log_ordered_def key_unique_def replies_inside_def
      marks_below_head_def markers_below_head_def)

lemma markRead_inv:
  assumes "log_inv db"
  shows "log_inv (fst (markRead db conv user n))"
proof (cases "\<exists>mb c. \<not> n < 1 \<and> memberOf db conv user = Some mb \<and> conversationByID db conv = Some c")
  case True
  then obtain mb c where mc: "1 \<le> n" "memberOf db conv user = Some mb" "conversationByID db conv = Some c" by auto
  note m = marked_inv [OF assms mc(2,3,1)]
  show ?thesis using mc assms m applyBump_inv [OF _ m]
    by (auto simp: markRead_def Let_def split: sum.splits)
next
  case False
  then show ?thesis using assms by (auto simp: markRead_def split: option.splits)
qed

lemma insertConversation_Some:
  "insertConversation new db = Some db' \<Longrightarrow>
   db' = db\<lparr>db_conversations := db_conversations db @ [new]\<rparr> \<and> cv_id new \<notin> cv_id ` set (db_conversations db)"
  by (force simp: insertConversation_def list_ex_iff conflicts_def split: if_splits)

lemma insertConversation_inv:
  assumes ins: "insertConversation new db = Some db'" and i: "log_inv db" and z: "cv_last_seq new = 0" "cv_metadata_log_seq new = 0"
  shows "log_inv db'"
proof -
  from insertConversation_Some [OF ins] have db': "db' = db\<lparr>db_conversations := db_conversations db @ [new]\<rparr>"
    and fresh: "cv_id new \<notin> cv_id ` set (db_conversations db)" by simp_all
  have "mr_ConversationID ` set (db_messages db) \<subseteq> cv_id ` set (db_conversations db)" using i by (simp add: log_inv_def)
  then have none: "{m \<in> set (db_messages db). mr_ConversationID m = cv_id new} = {}" using fresh by (blast dest: sym)
  then have "dense db'" using i z unfolding db' by (simp add: log_inv_def dense_def)
  moreover have "marks_below_head db'" using i unfolding db' by (fastforce simp: log_inv_def marks_below_head_def)
  moreover have "markers_below_head db'" using i z unfolding db' by (auto simp: log_inv_def markers_below_head_def log_ordered_def)
  ultimately show ?thesis
    using i fresh z unfolding db' by (auto simp: log_inv_def)
qed

lemma insertMembers_inv:
  assumes ins: "insertMembers conv users db = Inr db'" and i: "log_inv db" and c: "conv \<in> cv_id ` set (db_conversations db)"
  shows "log_inv db'"
proof -
  from ins have db': "db' = db\<lparr>db_members := db_members db @
      map (\<lambda>u. \<lparr>mb_conversation_id = conv, mb_user_id = u, mb_read_seq = 0, mb_muted = False, mb_metadata_log_seq = 0\<rparr>) users\<rparr>"
    by (auto simp: insertMembers_def split: if_splits)
  have "marks_below_head db'" using i c unfolding db' by (fastforce simp: log_inv_def marks_below_head_def)
  moreover have "markers_below_head db'" using i unfolding db' by (auto simp: log_inv_def markers_below_head_def log_ordered_def)
  ultimately show ?thesis using i unfolding db' by (simp add: log_inv_def)
qed

lemma finishCreate_inv:
  assumes ins: "insertConversation new db = Some db1" and i: "log_inv db" and z: "cv_last_seq new = 0" "cv_metadata_log_seq new = 0"
  shows "log_inv (fst (finishCreate db db1 (cv_id new) members viewer))"
proof -
  have i1: "log_inv db1" by (rule insertConversation_inv [OF assms])
  have c: "cv_id new \<in> cv_id ` set (db_conversations db1)" using insertConversation_Some [OF ins] by auto
  show ?thesis
    using i applyBump_inv [OF _ insertMembers_inv [OF _ i1 c]] by (auto simp: finishCreate_def split: sum.splits)
qed

end
