(* ===== verification/Store_Persons.thy ===== *)
theory Store_Persons
  imports Store_Rooms
begin

text \<open>
  \<open>internal/store/persons.go\<close> and the accounts of \<open>bots.go\<close>: the person an email names, created
  once or reactivated, the handle assigned to it, \<open>SetEmail\<close>, and the service accounts. \<open>low\<close> is
  Unicode's lower-case table and \<open>lower\<close> PostgreSQL's function of that name. An attempt of
  \<open>EnsurePerson\<close> is one READ COMMITTED transaction: each unlocked read has a snapshot of its own,
  a row read under a lock is the version the transaction commits against, and the writes apply
  to the database of the commit. The fault switches of the tests (\<open>personGuardFault\<close>) are off.
\<close>

section \<open>Errors and results\<close>

datatype person_error =
  ErrInvalidEmail | ErrNoSuchUser | ErrCannotEmailBot | ErrPersonAlreadyHasEmail | ErrEmailTaken
| ErrHandleTaken | ErrNoSuchBot | HandleRequired
| ReversalRacedAnOffboard | NoFreeHandle string | GaveUp "person_error option"
| PersonStore store_error

definition PersonStatusActive :: string where "PersonStatusActive = ''active''"
definition PersonStatusDeactivated :: string where "PersonStatusDeactivated = ''deactivated''"

record PersonAccount =
  pa_UserID :: uuid
  pa_Email :: string
  pa_Handle :: string
  pa_DisplayName :: string
  pa_Status :: string

record PersonLookup =
  pl_Account :: PersonAccount
  pl_LiveDevices :: nat

datatype PersonOutcome = PersonCreated | PersonExisting | PersonReactivated

record EnsuredPerson =
  ep_Account :: PersonAccount
  ep_Token :: IssuedToken
  ep_Outcome :: PersonOutcome
  ep_Note :: string

section \<open>Email\<close>

definition normalizeEmail :: "(nat \<Rightarrow> nat) \<Rightarrow> string \<Rightarrow> person_error + string" where
  "normalizeEmail low raw =
     (let e = TrimSpace raw in
      if e = '''' then Inl ErrInvalidEmail
      else if list_ex (\<lambda>c. c \<in> {CHR '' '', CHR 0x09, CHR 0x0D, CHR 0x0A}) e \<or> Count (CHR ''@'') e \<noteq> 1
      then Inl ErrInvalidEmail
      else case Cut (CHR ''@'') e of
        (local, domain, _) \<Rightarrow>
          if local = '''' \<or> domain = '''' \<or> CHR ''.'' \<notin> set domain then Inl ErrInvalidEmail
          else Inr (ToLower low e))"

section \<open>The handle\<close>

definition maxHandleLength :: nat where "maxHandleLength = 32"

definition handleRune :: "nat \<Rightarrow> bool" where
  "handleRune r \<longleftrightarrow> (97 \<le> r \<and> r \<le> 122) \<or> (48 \<le> r \<and> r \<le> 57) \<or> r = 46 \<or> r = 95 \<or> r = 45"

definition handlePunct :: "char \<Rightarrow> bool" where
  "handlePunct c \<longleftrightarrow> c \<in> set ''._-''"

definition deriveHandle :: "(nat \<Rightarrow> nat) \<Rightarrow> string \<Rightarrow> string" where
  "deriveHandle low email =
     (let local = fst (Cut (CHR ''@'') email);
          local = takeWhile (\<lambda>c. c \<noteq> CHR ''+'') local;
          local = ToLower low local;
          b = of_bytes (filter handleRune (map fst (runes (bytes local))));
          stem = Trim handlePunct b;
          stem = (if maxHandleLength < length stem then TrimRight handlePunct (take maxHandleLength stem) else stem)
      in if stem = '''' then ''user'' else stem)"

definition handleCandidate :: "string \<Rightarrow> nat \<Rightarrow> string" where
  "handleCandidate stem n =
     (if n \<le> 1 then stem
      else let suffix = ''-'' @ decimal n;
               max = int maxHandleLength - int (length suffix);
               max = (if max < 1 then 1 else max);
               stem = (if max < int (length stem) then TrimRight handlePunct (take (nat max) stem) else stem)
           in stem @ suffix)"

definition handleConflict :: "(string \<Rightarrow> string) \<Rightarrow> 'h DB \<Rightarrow> string \<Rightarrow> UserT option" where
  "handleConflict lower db candidate = find (\<lambda>u. lower (us_handle u) = lower candidate) (db_users db)"

definition handleNote :: "string \<Rightarrow> string \<Rightarrow> string" where
  "handleNote candidate collided =
     ''assigned '' @ candidate @ '' because '' @ collided @
     '' has no email; if that is the same person, run `catenary user set-email`''"

text \<open>The loop over the candidates, the \<open>n\<close>-th asked of the snapshot \<open>dbs n\<close>.\<close>

fun chooseLoop ::
  "(string \<Rightarrow> string) \<Rightarrow> (nat \<Rightarrow> 'h DB) \<Rightarrow> string \<Rightarrow> nat list \<Rightarrow> string \<Rightarrow> person_error + string \<times> string" where
  "chooseLoop lower dbs stem [] collided = Inl (NoFreeHandle stem)"
| "chooseLoop lower dbs stem (n # ns) collided =
     (let candidate = handleCandidate stem n in
      case handleConflict lower (dbs n) candidate of
        None \<Rightarrow> Inr (candidate, if collided \<noteq> '''' then handleNote candidate collided else '''')
      | Some u \<Rightarrow> chooseLoop lower dbs stem ns
          (if n = 1 \<and> us_kind u = ''person'' \<and> us_email u = None then us_handle u else collided))"

definition maxCandidates :: nat where "maxCandidates = 1000"

definition chooseHandle ::
  "(string \<Rightarrow> string) \<Rightarrow> (nat \<Rightarrow> 'h DB) \<Rightarrow> string \<Rightarrow> person_error + string \<times> string" where
  "chooseHandle lower dbs stem = chooseLoop lower dbs stem [1..<Suc maxCandidates] ''''"

section \<open>Constraints of the users table\<close>

definition usersHandleKeyConstraint :: string where "usersHandleKeyConstraint = ''users_handle_key''"
definition usersEmailLowerIndexConstraint :: string where "usersEmailLowerIndexConstraint = ''users_email_lower_idx''"
definition usersBotHasNoEmailConstraint :: string where "usersBotHasNoEmailConstraint = ''users_bot_has_no_email''"

definition isHandleCollision :: "store_error \<Rightarrow> bool" where
  "isHandleCollision e \<longleftrightarrow> e = PgError ''23505'' usersHandleKeyConstraint"

definition isEmailCollision :: "store_error \<Rightarrow> bool" where
  "isEmailCollision e \<longleftrightarrow> e = PgError ''23505'' usersEmailLowerIndexConstraint"

definition holdsEmail :: "(string \<Rightarrow> string) \<Rightarrow> string \<Rightarrow> UserT \<Rightarrow> bool" where
  "holdsEmail lower email u \<longleftrightarrow> (case us_email u of None \<Rightarrow> False | Some e \<Rightarrow> lower e = lower email)"

text \<open>The insert of a person's row: the primary key, then the two unique indexes in the order they were created.\<close>

definition insertUser :: "(string \<Rightarrow> string) \<Rightarrow> UserT \<Rightarrow> 'h DB \<Rightarrow> store_error + 'h DB" where
  "insertUser lower row db =
     (if us_kind row = ''bot'' \<and> us_email row \<noteq> None then Inl (PgError ''23514'' usersBotHasNoEmailConstraint)
      else if us_id row \<in> us_id ` set (db_users db) then Inl (PgError ''23505'' ''users_pkey'')
      else if us_handle row \<in> us_handle ` set (db_users db) then Inl (PgError ''23505'' usersHandleKeyConstraint)
      else if (case us_email row of None \<Rightarrow> False | Some e \<Rightarrow> list_ex (holdsEmail lower e) (db_users db))
      then Inl (PgError ''23505'' usersEmailLowerIndexConstraint)
      else Inr (db\<lparr>db_users := db_users db @ [row]\<rparr>))"

section \<open>The lookups by email\<close>

definition isPerson :: "(string \<Rightarrow> string) \<Rightarrow> string \<Rightarrow> UserT \<Rightarrow> bool" where
  "isPerson lower email u \<longleftrightarrow> holdsEmail lower email u \<and> us_kind u = ''person''"

definition personLookup :: "(string \<Rightarrow> string) \<Rightarrow> 'h DB \<Rightarrow> string \<Rightarrow> UserT option" where
  "personLookup lower db email = find (isPerson lower email) (db_users db)"

text \<open>
  A \<open>SELECT ... FOR NO KEY UPDATE\<close>: the row is found in the statement's snapshot, waited for, and
  checked again as it is then. Nobody changes it before this transaction commits.
\<close>

definition lockedSelect :: "(UserT \<Rightarrow> bool) \<Rightarrow> 'h DB \<Rightarrow> 'h DB \<Rightarrow> UserT option" where
  "lockedSelect P dbl db =
     (case find P (db_users dbl) of
        None \<Rightarrow> None
      | Some u \<Rightarrow> find (\<lambda>v. us_id v = us_id u \<and> P v) (db_users db))"

definition peekForReversal :: "(string \<Rightarrow> string) \<Rightarrow> 'h DB \<Rightarrow> string \<Rightarrow> uuid \<times> bool" where
  "peekForReversal lower db email =
     (case personLookup lower db email of
        None \<Rightarrow> (uuid_Nil, False)
      | Some u \<Rightarrow> (us_id u, us_deactivated_at u \<noteq> None))"

definition accountOf :: "UserT \<Rightarrow> string \<Rightarrow> PersonAccount" where
  "accountOf u status = \<lparr>pa_UserID = us_id u, pa_Email = (case us_email u of None \<Rightarrow> '''' | Some e \<Rightarrow> e),
     pa_Handle = us_handle u, pa_DisplayName = us_display_name u, pa_Status = status\<rparr>"

definition liveDeviceCount :: "'h DB \<Rightarrow> uuid \<Rightarrow> nat" where
  "liveDeviceCount db user = length (filter (\<lambda>d. dv_user_id d = user \<and> dv_revoked_at d = None) (db_devices db))"

definition PersonByEmail ::
  "(nat \<Rightarrow> nat) \<Rightarrow> (string \<Rightarrow> string) \<Rightarrow> 'h DB \<Rightarrow> 'h DB \<Rightarrow> string \<Rightarrow> person_error + PersonLookup" where
  "PersonByEmail low lower db0 db1 raw =
     (let email = ToLower low (TrimSpace raw) in
      if email = '''' then Inl (PersonStore ErrPersonNotFound)
      else case personLookup lower db0 email of
        None \<Rightarrow> Inl (PersonStore ErrPersonNotFound)
      | Some u \<Rightarrow> Inr \<lparr>pl_Account = accountOf u
            (if us_deactivated_at u \<noteq> None then PersonStatusDeactivated else PersonStatusActive),
          pl_LiveDevices = liveDeviceCount db1 (us_id u)\<rparr>)"

section \<open>EnsurePerson\<close>

text \<open>
  What one attempt meets: the snapshot of the peek and of the room list, of the locked lookup,
  of each question about a handle, the database it commits against, the clocks and the draws.
\<close>

record 'h Attempt =
  am_peek :: "'h DB"
  am_look :: "'h DB"
  am_handles :: "nat \<Rightarrow> 'h DB"
  am_db :: "'h DB"
  am_dbnow :: gotime
  am_now :: gotime
  am_newID :: uuid
  am_batch :: uuid
  am_enrollID :: uuid
  am_mint :: "token option"

text \<open>
  The branch of a person that was found, from the locked row to the commit: sweep, publish, clear,
  the read spans, the invitation, the markers. \<open>rooms\<close> were locked from the peek.
\<close>

definition ensureFound ::
  "(token \<Rightarrow> 'h) \<Rightarrow> 'h Attempt \<Rightarrow> uuid list \<Rightarrow> UserT \<Rightarrow> 'h DB \<times> (person_error + EnsuredPerson)" where
  "ensureFound hash a rooms u =
     (let db = am_db a;
          (db1, outcome, cleared) =
            (if us_deactivated_at u \<noteq> None
             then case reactivateTx (am_dbnow a) (us_id u) db of
               (db1, revoked, cleared) \<Rightarrow>
                 (if cleared then notifyReadSpansOfPerson (am_batch a) (us_id u) rooms db1 else db1,
                  PersonReactivated, cleared)
             else (db, PersonExisting, False))
      in case issueEnrollmentTokenTx hash (am_dbnow a) db1 (am_enrollID a) (us_id u) (am_now a) (am_mint a) of
           Inl e \<Rightarrow> (db, Inl (PersonStore e))
         | Inr (db2, token) \<Rightarrow>
             let ep = \<lparr>ep_Account = accountOf u PersonStatusActive, ep_Token = token, ep_Outcome = outcome,
                        ep_Note = ''''\<rparr>
             in if cleared
                then case bumpDeactivationMarkers (us_id u) rooms db2 of
                  Inl e \<Rightarrow> (db, Inl (PersonStore e))
                | Inr (db3, v) \<Rightarrow> (db3, Inr ep)
                else (db2, Inr ep))"

text \<open>The branch of nobody found; the flag is the retry.\<close>

definition ensureCreate ::
  "(nat \<Rightarrow> nat) \<Rightarrow> (string \<Rightarrow> string) \<Rightarrow> (token \<Rightarrow> 'h) \<Rightarrow> 'h Attempt \<Rightarrow> string \<Rightarrow> string \<Rightarrow>
   'h DB \<times> (person_error + EnsuredPerson) \<times> bool" where
  "ensureCreate low lower hash a email displayName =
     (let db = am_db a in
      case chooseHandle lower (am_handles a) (deriveHandle low email) of
        Inl e \<Rightarrow> (db, Inl e, False)
      | Inr (chosen, note) \<Rightarrow>
          let name = (if displayName = '''' then chosen else displayName);
              row = \<lparr>us_id = am_newID a, us_handle = chosen, us_display_name = name, us_kind = ''person'',
                us_email = Some email, us_created_at = am_dbnow a, us_deactivated_at = None, us_metadata_log_seq = 0\<rparr>
          in case insertUser lower row db of
               Inl e \<Rightarrow> (db, Inl (PersonStore e), isHandleCollision e \<or> isEmailCollision e)
             | Inr db1 \<Rightarrow>
                 (case issueEnrollmentTokenTx hash (am_dbnow a) db1 (am_enrollID a) (am_newID a) (am_now a) (am_mint a) of
                    Inl e \<Rightarrow> (db, Inl (PersonStore e), False)
                  | Inr (db2, token) \<Rightarrow>
                      (db2, Inr \<lparr>ep_Account = accountOf row PersonStatusActive, ep_Token = token,
                                 ep_Outcome = PersonCreated, ep_Note = note\<rparr>, False)))"

definition ensurePersonOnce ::
  "(nat \<Rightarrow> nat) \<Rightarrow> (string \<Rightarrow> string) \<Rightarrow> (token \<Rightarrow> 'h) \<Rightarrow> 'h Attempt \<Rightarrow> string \<Rightarrow> string \<Rightarrow>
   'h DB \<times> (person_error + EnsuredPerson) \<times> bool" where
  "ensurePersonOnce low lower hash a email displayName =
     (let (peekID, peekDeactivated) = peekForReversal lower (am_peek a) email in
      case (if peekDeactivated then lockRoomsOfPerson (am_peek a) (am_db a) peekID else Inr []) of
        Inl e \<Rightarrow> (am_db a, Inl (PersonStore e), False)
      | Inr rooms \<Rightarrow>
          (case lockedSelect (isPerson lower email) (am_look a) (am_db a) of
             Some u \<Rightarrow>
               if us_deactivated_at u \<noteq> None \<and> (\<not> peekDeactivated \<or> peekID \<noteq> us_id u)
               then (am_db a, Inl ReversalRacedAnOffboard, True)
               else (case ensureFound hash a rooms u of (db', r) \<Rightarrow> (db', r, False))
           | None \<Rightarrow> ensureCreate low lower hash a email displayName))"

definition maxAttempts :: nat where "maxAttempts = 5"

text \<open>
  The bounded retry, over the attempts the deployment gives it: an attempt that is to be retried
  left its database alone, and \<open>None\<close> as the database is that every attempt rolled back.
\<close>

fun ensureLoop ::
  "(nat \<Rightarrow> nat) \<Rightarrow> (string \<Rightarrow> string) \<Rightarrow> (token \<Rightarrow> 'h) \<Rightarrow> string \<Rightarrow> string \<Rightarrow> 'h Attempt list \<Rightarrow> person_error option \<Rightarrow>
   'h DB option \<times> (person_error + EnsuredPerson)" where
  "ensureLoop low lower hash email name [] lastErr = (None, Inl (GaveUp lastErr))"
| "ensureLoop low lower hash email name (a # as) lastErr =
     (case ensurePersonOnce low lower hash a email name of
        (db', r, retry) \<Rightarrow>
          if \<not> retry then (Some db', r)
          else ensureLoop low lower hash email name as (case r of Inl e \<Rightarrow> Some e | Inr _ \<Rightarrow> None))"

definition EnsurePerson ::
  "(nat \<Rightarrow> nat) \<Rightarrow> (string \<Rightarrow> string) \<Rightarrow> (token \<Rightarrow> 'h) \<Rightarrow> (nat \<Rightarrow> 'h Attempt) \<Rightarrow> string \<Rightarrow> string \<Rightarrow>
   'h DB option \<times> (person_error + EnsuredPerson)" where
  "EnsurePerson low lower hash attempts email displayName =
     (case normalizeEmail low email of
        Inl e \<Rightarrow> (None, Inl e)
      | Inr normalized \<Rightarrow>
          ensureLoop low lower hash normalized (TrimSpace displayName) (map attempts [0..<maxAttempts]) None)"

section \<open>SetEmail\<close>

definition trimHandle :: "string \<Rightarrow> string" where
  "trimHandle h = TrimSpace h"

definition SetEmail ::
  "(nat \<Rightarrow> nat) \<Rightarrow> (string \<Rightarrow> string) \<Rightarrow> 'h DB \<Rightarrow> 'h DB \<Rightarrow> string \<Rightarrow> string \<Rightarrow> 'h DB \<times> (person_error + uuid)" where
  "SetEmail low lower dbl db handle email =
     (case normalizeEmail low email of
        Inl e \<Rightarrow> (db, Inl e)
      | Inr normalized \<Rightarrow>
          let handle = trimHandle handle in
          if handle = '''' then (db, Inl ErrNoSuchUser)
          else case lockedSelect (\<lambda>u. us_handle u = handle) dbl db of
            None \<Rightarrow> (db, Inl ErrNoSuchUser)
          | Some u \<Rightarrow>
              if us_kind u = ''bot'' then (db, Inl ErrCannotEmailBot)
              else if us_email u \<noteq> None then (db, Inl ErrPersonAlreadyHasEmail)
              else if list_ex (\<lambda>v. us_id v \<noteq> us_id u \<and> holdsEmail lower normalized v) (db_users db)
              then (db, Inl ErrEmailTaken)
              else (db\<lparr>db_users := update_where (\<lambda>v. us_id v = us_id u) (\<lambda>v. v\<lparr>us_email := Some normalized\<rparr>)
                        (db_users db)\<rparr>, Inr (us_id u)))"

section \<open>Service accounts\<close>

text \<open>
  \<open>bots.go\<close>. The insert names \<open>handle\<close> as its conflict target, so a taken handle is no row and
  every other violation an error. \<open>collate\<close> is the order of the database's text collation.
\<close>

definition CreateBot ::
  "(string \<Rightarrow> string) \<Rightarrow> gotime \<Rightarrow> uuid \<Rightarrow> 'h DB \<Rightarrow> string \<Rightarrow> string \<Rightarrow> 'h DB \<times> (person_error + uuid)" where
  "CreateBot lower dbnow i db rawHandle rawName =
     (let handle = trimHandle rawHandle in
      if handle = '''' then (db, Inl HandleRequired)
      else let name = TrimSpace rawName;
               row = \<lparr>us_id = i, us_handle = handle, us_display_name = (if name = '''' then handle else name),
                 us_kind = ''bot'', us_email = None, us_created_at = dbnow, us_deactivated_at = None,
                 us_metadata_log_seq = 0\<rparr>
           in if handle \<in> us_handle ` set (db_users db) then (db, Inl ErrHandleTaken)
              else case insertUser lower row db of
                Inl e \<Rightarrow> (db, Inl (PersonStore e))
              | Inr db1 \<Rightarrow> (db1, Inr i))"

definition BotByHandle :: "'h DB \<Rightarrow> string \<Rightarrow> person_error + uuid" where
  "BotByHandle db handle =
     (case find (\<lambda>u. us_handle u = trimHandle handle \<and> us_kind u = ''bot'') (db_users db) of
        None \<Rightarrow> Inl ErrNoSuchBot | Some u \<Rightarrow> Inr (us_id u))"

record BotRow =
  bw_UserID :: uuid
  bw_Handle :: string
  bw_DisplayName :: string
  bw_CreatedAt :: gotime
  bw_LiveTokens :: nat

definition Bots :: "(string \<Rightarrow> nat list) \<Rightarrow> 'h DB \<Rightarrow> BotRow list" where
  "Bots collate db =
     map (\<lambda>u. \<lparr>bw_UserID = us_id u, bw_Handle = us_handle u, bw_DisplayName = us_display_name u,
            bw_CreatedAt = us_created_at u,
            bw_LiveTokens = length (filter (\<lambda>a. ac_user_id a = us_id u \<and> ac_device_id a = None \<and> ac_revoked_at a = None)
              (db_access_tokens db))\<rparr>)
       (sort_key (\<lambda>u. (us_created_at u, collate (us_handle u)))
          (filter (\<lambda>u. us_kind u = ''bot'') (db_users db)))"

section \<open>What an assigned handle looks like\<close>

definition handleShape :: "string \<Rightarrow> bool" where
  "handleShape h \<longleftrightarrow> h \<noteq> [] \<and> length h \<le> maxHandleLength \<and> (\<forall>c \<in> set h. handleRune (of_char c)) \<and>
     \<not> handlePunct (hd h) \<and> \<not> handlePunct (last h)"

lemma kept_handleRune: "c \<in> set (of_bytes (filter handleRune rs)) \<Longrightarrow> handleRune (of_char c)"
proof -
  assume "c \<in> set (of_bytes (filter handleRune rs))"
  then obtain r where r: "handleRune r" "c = char_of r" by (auto simp: of_bytes_def)
  then have "r < 256" by (auto simp: handleRune_def)
  with r show ?thesis by (simp add: of_char_of)
qed

lemma TrimRight_shape:
  assumes "s \<noteq> []" "\<forall>c \<in> set s. handleRune (of_char c)" "\<not> handlePunct (hd s)" "0 < k" "k \<le> maxHandleLength"
  shows "handleShape (TrimRight handlePunct (take k s))"
proof -
  from assms have ne: "take k s \<noteq> []" "hd (take k s) = hd s" by (simp_all add: hd_take)
  from ne assms(3) have "\<not> handlePunct (hd (take k s))" by simp
  note t = TrimRight_hd [where P = handlePunct, OF ne(1) this]
  have "set (TrimRight handlePunct (take k s)) \<subseteq> set s" using set_TrimRight set_take_subset by fastforce
  moreover have "length (TrimRight handlePunct (take k s)) \<le> k"
    using TrimRight_length [of handlePunct "take k s"] by simp
  ultimately show ?thesis using t ne(2) assms TrimRight_last [OF t(1)] by (auto simp: handleShape_def)
qed

lemma deriveHandle_shape: "handleShape (deriveHandle low email)"
proof -
  define b where "b = of_bytes (filter handleRune (map fst (runes (bytes
      (ToLower low (takeWhile (\<lambda>c. c \<noteq> CHR ''+'') (fst (Cut (CHR ''@'') email))))))))"
  define stem where "stem = Trim handlePunct b"
  have d: "deriveHandle low email =
      (let s = (if maxHandleLength < length stem then TrimRight handlePunct (take maxHandleLength stem) else stem)
       in if s = '''' then ''user'' else s)"
    by (simp add: deriveHandle_def b_def stem_def Let_def)
  have user: "handleShape ''user''"
    by (simp add: handleShape_def handleRune_def handlePunct_def maxHandleLength_def)
  have stem: "\<forall>c \<in> set stem. handleRune (of_char c)"
    unfolding stem_def b_def using set_Trim kept_handleRune by fast
  show ?thesis
  proof (cases "stem = []")
    case False
    then have edge: "\<not> handlePunct (hd stem)" "\<not> handlePunct (last stem)" by (simp_all add: stem_def Trim_hd Trim_last)
    have "handleShape (TrimRight handlePunct (take maxHandleLength stem))"
      by (rule TrimRight_shape [OF False stem edge(1)]) (simp_all add: maxHandleLength_def)
    then show ?thesis using False edge stem by (auto simp: d handleShape_def Let_def)
  qed (simp add: d user maxHandleLength_def)
qed

lemma of_char_digit: "CHR ''0'' \<le> c \<Longrightarrow> c \<le> CHR ''9'' \<Longrightarrow> 48 \<le> (of_char c :: nat) \<and> (of_char c :: nat) \<le> 57"
  by (simp add: less_eq_char_def)

lemma handleCandidate_shape:
  assumes "handleShape stem" "n < 10 ^ 4"
  shows "handleShape (handleCandidate stem n)"
proof (cases "n \<le> 1")
  case False
  let ?k = "maxHandleLength - Suc (length (decimal n))"
  define s where "s = (if ?k < length stem then TrimRight handlePunct (take ?k stem) else stem)"
  have len: "length (decimal n) \<le> 4" using decimal_length [OF assms(2)] by simp
  then have "(31 - int (length (decimal n)) < int (length stem)) = (31 - length (decimal n) < length stem)" by linarith
  then have c: "handleCandidate stem n = s @ ''-'' @ decimal n"
    using False len by (simp add: handleCandidate_def s_def Let_def maxHandleLength_def nat_diff_distrib')
  have k: "0 < ?k" "?k \<le> maxHandleLength" using len by (simp_all add: maxHandleLength_def)
  have s: "handleShape s" "length s \<le> ?k"
  proof -
    have "handleShape (TrimRight handlePunct (take ?k stem))"
      using assms(1) k by (intro TrimRight_shape) (auto simp: handleShape_def)
    then show "handleShape s" using assms(1) by (simp add: s_def)
    show "length s \<le> ?k" unfolding s_def using TrimRight_length [of handlePunct "take ?k stem"] by auto
  qed
  have digit: "handleRune (of_char c) \<and> \<not> handlePunct c" if "c \<in> set (decimal n)" for c
    using of_char_digit [OF decimal_digits [OF that, THEN conjunct1] decimal_digits [OF that, THEN conjunct2]]
    by (auto simp: handleRune_def handlePunct_def)
  have "length (s @ ''-'' @ decimal n) \<le> maxHandleLength" using s(2) len by (simp add: maxHandleLength_def)
  moreover have "\<not> handlePunct (last (s @ ''-'' @ decimal n))" using digit [of "last (decimal n)"] by simp
  moreover have "\<forall>c \<in> set (s @ ''-'' @ decimal n). handleRune (of_char c)"
    using s(1) digit by (auto simp: handleShape_def handleRune_def)
  moreover have "\<not> handlePunct (hd (s @ ''-'' @ decimal n))" using s(1) by (simp add: handleShape_def)
  ultimately show ?thesis unfolding c handleShape_def by simp
qed (use assms in \<open>simp add: handleCandidate_def\<close>)

text \<open>Two suffixed candidates of a stem differ, whatever their stems were cut to.\<close>

lemma handleCandidate_inject:
  assumes "1 < m" "1 < n" "handleCandidate stem m = handleCandidate stem n"
  shows "m = n"
proof -
  have tail: "\<exists>s. handleCandidate stem k = s @ ''-'' @ decimal k" if "1 < k" for k
    using that by (simp add: handleCandidate_def Let_def)
  then obtain s t where e: "s @ ''-'' @ decimal m = t @ ''-'' @ decimal n"
    using assms(1,2) tail [of m] tail [of n] assms(3) by metis
  have nodash: "CHR ''-'' \<notin> set (decimal k)" for k
    using decimal_digits [of "CHR ''-''" k] by (auto simp: less_eq_char_def)
  have last: "takeWhile (\<lambda>c. c \<noteq> CHR ''-'') (rev (s @ ''-'' @ decimal k)) = rev (decimal k)" for s k
  proof -
    have "\<forall>c \<in> set (rev (decimal k)). c \<noteq> CHR ''-''" using nodash [of k] by auto
    then show ?thesis by (simp add: takeWhile_tail)
  qed
  from last [of s m] last [of t n] e have "rev (decimal m) = rev (decimal n)" by metis
  then show ?thesis by simp
qed

section \<open>What the choice of a handle returns\<close>

lemma chooseLoop_Inr:
  "chooseLoop lower dbs stem ns collided = Inr (h, note) \<Longrightarrow>
   \<exists>n \<in> set ns. h = handleCandidate stem n \<and> handleConflict lower (dbs n) h = None"
  by (induction lower dbs stem ns collided rule: chooseLoop.induct) (auto simp: Let_def split: option.splits)

lemma chooseLoop_Inl:
  "chooseLoop lower dbs stem ns collided = Inl e \<Longrightarrow>
   e = NoFreeHandle stem \<and> (\<forall>n \<in> set ns. handleConflict lower (dbs n) (handleCandidate stem n) \<noteq> None)"
  by (induction lower dbs stem ns collided rule: chooseLoop.induct) (auto simp: Let_def split: option.splits)

text \<open>
  A handle is found whenever the questions met fewer than 999 distinct handles in all. \<open>lower\<close>
  leaves the characters of a candidate alone.
\<close>

lemma chooseHandle_finds:
  assumes "\<And>h. handleShape h \<Longrightarrow> lower h = h" "handleShape stem"
    and "finite H" "card H < maxCandidates - 1" "\<And>n. lower ` us_handle ` set (db_users (dbs n)) \<subseteq> H"
  shows "\<exists>h note. chooseHandle lower dbs stem = Inr (h, note)"
proof (rule ccontr)
  assume "\<nexists>h note. chooseHandle lower dbs stem = Inr (h, note)"
  then obtain e where "chooseHandle lower dbs stem = Inl e" by (cases "chooseHandle lower dbs stem") auto
  then have busy: "handleConflict lower (dbs n) (handleCandidate stem n) \<noteq> None" if "n \<in> {2..maxCandidates}" for n
    using chooseLoop_Inl [of lower dbs stem "[1..<Suc maxCandidates]" "''''" e] that
    by (simp only: chooseHandle_def set_upt atLeastLessThan_iff atLeastAtMost_iff) simp
  have "handleCandidate stem n \<in> H" if n: "n \<in> {2..maxCandidates}" for n
  proof -
    have "handleShape (handleCandidate stem n)"
      using n by (intro handleCandidate_shape [OF assms(2)]) (simp add: maxCandidates_def)
    then have "lower (handleCandidate stem n) = handleCandidate stem n" by (rule assms(1))
    moreover obtain u where "u \<in> set (db_users (dbs n))" "lower (us_handle u) = lower (handleCandidate stem n)"
      using busy [OF n] by (auto simp: handleConflict_def find_None_iff)
    ultimately show ?thesis using assms(5) by (metis image_eqI subsetD)
  qed
  then have "handleCandidate stem ` {2..maxCandidates} \<subseteq> H" by blast
  moreover have "inj_on (handleCandidate stem) {2..maxCandidates}"
    by (rule inj_onI) (auto intro: handleCandidate_inject)
  ultimately have "card {2..maxCandidates} \<le> card H"
    using assms(3) by (metis card_image card_mono)
  with assms(4) show False by (simp add: maxCandidates_def)
qed

end
