(* ===== verification/Account_Effects.thy ===== *)
theory Account_Effects
  imports Store_Log Store_Persons
begin

text \<open>
  What the operations on accounts do to the tables: an offboard (\<open>offboard.go\<close>) and the ensuring of
  a person (\<open>persons.go\<close>), as case analyses over their branches that the invariants and the
  properties share.
\<close>

section \<open>The message notifications\<close>

definition messageNotifications :: "notification list \<Rightarrow> (uuid \<times> int) list" where
  "messageNotifications ns = List.map_filter (\<lambda>n. case n of NotifyMessage c s \<Rightarrow> Some (c, s) | _ \<Rightarrow> None) ns"

lemma messageNotifications_append [simp]:
  "messageNotifications (ns @ ns') = messageNotifications ns @ messageNotifications ns'"
  by (simp add: messageNotifications_def map_filter_def)

lemma messageNotifications_single [simp]:
  "messageNotifications [NotifyMessage c s] = [(c, s)]" "messageNotifications [NotifyReceipt c u a b t] = []"
  "messageNotifications [RevokedUser u] = []" "messageNotifications [RevokedDevice v] = []"
  by (simp_all add: messageNotifications_def map_filter_def)

section \<open>What an offboard does\<close>

lemma revokeCredentialsTx_frame:
  assumes "revokeCredentialsTx dbnow user db = (db', r)"
  shows "db_messages db' = db_messages db" "db_conversations db' = db_conversations db" "db_members db' = db_members db"
    "db_users db' = db_users db" "db_log_counter db' = db_log_counter db" "db_notify db' = db_notify db"
  using assms by (auto simp: revokeCredentialsTx_def Let_def)

lemma fold_notify_frame: "(\<And>n d. g (notify n d) = g d) \<Longrightarrow> g (fold (\<lambda>m. notify (N m)) ms db) = g db"
  by (induction ms arbitrary: db) simp_all

lemma notifyReadSpans_frame [simp]:
  "db_messages (notifyReadSpansOfPerson b user rooms db) = db_messages db"
  "db_conversations (notifyReadSpansOfPerson b user rooms db) = db_conversations db"
  "db_members (notifyReadSpansOfPerson b user rooms db) = db_members db"
  "db_users (notifyReadSpansOfPerson b user rooms db) = db_users db"
  "db_devices (notifyReadSpansOfPerson b user rooms db) = db_devices db"
  "db_access_tokens (notifyReadSpansOfPerson b user rooms db) = db_access_tokens db"
  "db_refresh_tokens (notifyReadSpansOfPerson b user rooms db) = db_refresh_tokens db"
  "db_enrollment_tokens (notifyReadSpansOfPerson b user rooms db) = db_enrollment_tokens db"
  "db_log_counter (notifyReadSpansOfPerson b user rooms db) = db_log_counter db"
  unfolding notifyReadSpansOfPerson_def by (rule fold_notify_frame, simp)+

lemma notifyReadSpans_messages [simp]:
  "messageNotifications (db_notify (notifyReadSpansOfPerson b user rooms db)) = messageNotifications (db_notify db)"
proof -
  have "messageNotifications (db_notify (fold (\<lambda>m. notify (NotifyReceipt (c m) user 0 (r m) (Some b))) ms db)) =
      messageNotifications (db_notify db)" for c r and ms :: "MemberT list"
    by (induction ms arbitrary: db) simp_all
  then show ?thesis by (simp add: notifyReadSpansOfPerson_def)
qed

text \<open>
  An offboard that acted leaves the chat tables but for the person's own column, and
  announces it with one bump when the column moved.
\<close>

lemma DeactivateUser_cases:
  obtains (refused) e where "DeactivateUser dbnow batch db0 db user = (db, Inl e)"
  | (repaired) db' out where "DeactivateUser dbnow batch db0 db user = (db', Inr out)" "\<not> ob_Deactivated out"
      "\<not> list_ex (deactivatable user) (db_users db)"
      "db_messages db' = db_messages db" "db_conversations db' = db_conversations db" "db_members db' = db_members db"
      "db_users db' = db_users db" "db_log_counter db' = db_log_counter db"
      "messageNotifications (db_notify db') = messageNotifications (db_notify db)"
  | (offboarded) db' out rooms dbm where "DeactivateUser dbnow batch db0 db user = (db', Inr out)" "ob_Deactivated out"
      "lockRoomsOfPerson db0 db user = Inr rooms"
      "applyBump \<lparr>bp_convs = rooms, bp_members = [], bp_users = [user]\<rparr> dbm = Inr (db', ob_MarkerLogSeq out)"
      "db_messages dbm = db_messages db" "db_conversations dbm = db_conversations db" "db_members dbm = db_members db"
      "db_users dbm = update_where (deactivatable user) (\<lambda>u. u\<lparr>us_deactivated_at := Some dbnow\<rparr>) (db_users db)"
      "db_log_counter dbm = db_log_counter db"
      "messageNotifications (db_notify dbm) = messageNotifications (db_notify db)"
proof (cases "lockRoomsOfPerson db0 db user")
  case (Inl e)
  then show thesis using refused by (simp add: DeactivateUser_def)
next
  case (Inr rooms)
  obtain db1 dea where s: "setDeactivatedAt dbnow user db = (db1, dea)" by fastforce
  obtain db2 rev where r: "revokeCredentialsTx dbnow user db1 = (db2, rev)" by fastforce
  note fr = revokeCredentialsTx_frame [OF r]
  have db1: "db_messages db1 = db_messages db" "db_conversations db1 = db_conversations db" "db_members db1 = db_members db"
    "db_users db1 = update_where (deactivatable user) (\<lambda>u. u\<lparr>us_deactivated_at := Some dbnow\<rparr>) (db_users db)"
    "db_log_counter db1 = db_log_counter db" "db_notify db1 = db_notify db" "dea = list_ex (deactivatable user) (db_users db)"
    using s by (auto simp: setDeactivatedAt_def)
  define out where "out = \<lparr>ob_UserID = user, ob_Deactivated = dea, ob_Revoked = rev, ob_MarkerLogSeq = 0\<rparr>"
  define db3 where "db3 = (if offboardChanged out then publishUserRevocation user db2 else db2)"
  have db3: "db_messages db3 = db_messages db" "db_conversations db3 = db_conversations db" "db_members db3 = db_members db"
    "db_users db3 = update_where (deactivatable user) (\<lambda>u. u\<lparr>us_deactivated_at := Some dbnow\<rparr>) (db_users db)"
    "db_log_counter db3 = db_log_counter db" "messageNotifications (db_notify db3) = messageNotifications (db_notify db)"
    by (simp_all add: db3_def publishUserRevocation_def fr db1)
  show thesis
  proof (cases "list_ex (\<lambda>u. us_id u = user \<and> us_kind u = ''person'') (db_users db)")
    case False
    then show thesis using refused Inr by (simp add: DeactivateUser_def)
  next
    case True
    then have eq: "DeactivateUser dbnow batch db0 db user =
        (if \<not> dea then (db3, Inr out)
         else case bumpDeactivationMarkers user rooms (notifyReadSpansOfPerson batch user rooms db3) of
           Inl e \<Rightarrow> (db, Inl e) | Inr (db5, v) \<Rightarrow> (db5, Inr (out\<lparr>ob_MarkerLogSeq := v\<rparr>)))"
      unfolding DeactivateUser_def Let_def Inr s prod.case r sum.case out_def db3_def by (simp only: not_True_eq_False if_False)
    show thesis
    proof (cases dea)
      case False
      then have "db_users db3 = db_users db"
        using db1(7) db3(4) by (metis (no_types, lifting) list_ex_iff update_where_none)
      then show thesis using False eq db1(7) db3 by (intro repaired [of db3 out]) (simp_all add: out_def)
    next
      case True
      note dea = this
      show thesis
      proof (cases "bumpDeactivationMarkers user rooms (notifyReadSpansOfPerson batch user rooms db3)")
        case (Inl e)
        then show thesis using dea eq refused by simp
      next
        case (Inr p)
        then show thesis using dea eq db3 \<open>lockRoomsOfPerson db0 db user = Inr rooms\<close>
          by (cases p) (auto simp: bumpDeactivationMarkers_def out_def intro!: offboarded)
      qed
    qed
  qed
qed

section \<open>What ensuring a person does\<close>

lemma issueEnrollmentTokenTx_frame:
  assumes "issueEnrollmentTokenTx hash dbnow db i user now mint = Inr (db', t)"
  shows "db_messages db' = db_messages db" "db_conversations db' = db_conversations db" "db_members db' = db_members db"
    "db_users db' = db_users db" "db_log_counter db' = db_log_counter db" "db_notify db' = db_notify db"
    "db_devices db' = db_devices db" "db_refresh_tokens db' = db_refresh_tokens db" "db_access_tokens db' = db_access_tokens db"
  using assms by (auto simp: issueEnrollmentTokenTx_def Let_def split: option.splits if_splits)

definition reactivatable :: "uuid \<Rightarrow> UserT \<Rightarrow> bool" where
  "reactivatable user u \<longleftrightarrow> us_id u = user \<and> us_deactivated_at u \<noteq> None"

lemma reactivateTx_frame:
  assumes "reactivateTx dbnow user db = (db', revoked, cleared)"
  shows "db_messages db' = db_messages db" "db_conversations db' = db_conversations db" "db_members db' = db_members db"
    "db_users db' = update_where (reactivatable user) (\<lambda>u. u\<lparr>us_deactivated_at := None\<rparr>) (db_users db)"
    "db_log_counter db' = db_log_counter db" "messageNotifications (db_notify db') = messageNotifications (db_notify db)"
    "cleared \<longleftrightarrow> list_ex (reactivatable user) (db_users db)"
    "\<exists>dbr. revokeCredentialsTx dbnow user db = (dbr, revoked) \<and> db_devices db' = db_devices dbr \<and>
       db_refresh_tokens db' = db_refresh_tokens dbr \<and> db_access_tokens db' = db_access_tokens dbr \<and>
       db_enrollment_tokens db' = db_enrollment_tokens dbr"
proof -
  obtain dbr rv where r: "revokeCredentialsTx dbnow user db = (dbr, rv)" by fastforce
  have P: "(\<lambda>u. us_id u = user \<and> (\<exists>y. us_deactivated_at u = Some y)) = reactivatable user" by (simp add: reactivatable_def fun_eq_iff)
  note d = assms [unfolded reactivateTx_def r Let_def prod.case clearDeactivatedAt_def]
  show "db_messages db' = db_messages db" "db_conversations db' = db_conversations db" "db_members db' = db_members db"
    "db_users db' = update_where (reactivatable user) (\<lambda>u. u\<lparr>us_deactivated_at := None\<rparr>) (db_users db)"
    "db_log_counter db' = db_log_counter db" "messageNotifications (db_notify db') = messageNotifications (db_notify db)"
    "cleared \<longleftrightarrow> list_ex (reactivatable user) (db_users db)"
    "\<exists>dbr. revokeCredentialsTx dbnow user db = (dbr, revoked) \<and> db_devices db' = db_devices dbr \<and>
       db_refresh_tokens db' = db_refresh_tokens dbr \<and> db_access_tokens db' = db_access_tokens dbr \<and>
       db_enrollment_tokens db' = db_enrollment_tokens dbr"
    using d r revokeCredentialsTx_frame [OF r] P by (auto simp: publishUserRevocation_def split: if_splits)
qed

text \<open>
  The branch of a person that was found: refused, an invitation for an active person, or the
  reversal of an offboard, which is one transaction up to its bump.
\<close>

lemma ensureFound_cases:
  assumes "lockedSelect P (am_look a) (am_db a) = Some u"
  obtains (refused) e where "ensureFound hash a rooms u = (am_db a, Inl (PersonStore e))"
  | (existing) db' t where "us_deactivated_at u = None"
      "issueEnrollmentTokenTx hash (am_dbnow a) (am_db a) (am_enrollID a) (us_id u) (am_now a) (am_mint a) = Inr (db', t)"
      "ensureFound hash a rooms u = (db', Inr \<lparr>ep_Account = accountOf u PersonStatusActive, ep_Token = t,
         ep_Outcome = PersonExisting, ep_Note = ''''\<rparr>)"
  | (reactivated) db1 revoked db2 t db' v where "us_deactivated_at u \<noteq> None"
      "reactivateTx (am_dbnow a) (us_id u) (am_db a) = (db1, revoked, True)"
      "issueEnrollmentTokenTx hash (am_dbnow a) (notifyReadSpansOfPerson (am_batch a) (us_id u) rooms db1)
         (am_enrollID a) (us_id u) (am_now a) (am_mint a) = Inr (db2, t)"
      "applyBump \<lparr>bp_convs = rooms, bp_members = [], bp_users = [us_id u]\<rparr> db2 = Inr (db', v)"
      "ensureFound hash a rooms u = (db', Inr \<lparr>ep_Account = accountOf u PersonStatusActive, ep_Token = t,
         ep_Outcome = PersonReactivated, ep_Note = ''''\<rparr>)"
proof (cases "us_deactivated_at u = None")
  case True
  then show thesis using refused existing by (fastforce simp: ensureFound_def Let_def split: sum.splits prod.splits)
next
  case False
  obtain db1 revoked cleared where r: "reactivateTx (am_dbnow a) (us_id u) (am_db a) = (db1, revoked, cleared)"
    using prod_cases3 by blast
  have "u \<in> set (db_users (am_db a))"
    using assms by (auto simp: lockedSelect_def split: option.splits dest: find_SomeD)
  with False reactivateTx_frame(7) [OF r] have "cleared" by (auto simp: list_ex_iff reactivatable_def)
  with r False show thesis
    using refused reactivated
    by (cases "issueEnrollmentTokenTx hash (am_dbnow a) (notifyReadSpansOfPerson (am_batch a) (us_id u) rooms db1)
         (am_enrollID a) (us_id u) (am_now a) (am_mint a)")
      (force simp: ensureFound_def bumpDeactivationMarkers_def Let_def split: sum.splits prod.splits)+
qed

lemma ensureCreate_cases:
  obtains (refused) e retry where "ensureCreate low lower hash a email name = (am_db a, Inl e, retry)"
  | (created) chosen nt row db1 db' t where
      "chooseHandle lower (am_handles a) (deriveHandle low email) = Inr (chosen, nt)"
      "row = \<lparr>us_id = am_newID a, us_handle = chosen, us_display_name = (if name = '''' then chosen else name),
         us_kind = ''person'', us_email = Some email, us_created_at = am_dbnow a, us_deactivated_at = None,
         us_metadata_log_seq = 0\<rparr>"
      "insertUser lower row (am_db a) = Inr db1" "db1 = (am_db a)\<lparr>db_users := db_users (am_db a) @ [row]\<rparr>"
      "issueEnrollmentTokenTx hash (am_dbnow a) db1 (am_enrollID a) (am_newID a) (am_now a) (am_mint a) = Inr (db', t)"
      "ensureCreate low lower hash a email name = (db', Inr \<lparr>ep_Account = accountOf row PersonStatusActive, ep_Token = t,
         ep_Outcome = PersonCreated, ep_Note = nt\<rparr>, False)"
proof (cases "chooseHandle lower (am_handles a) (deriveHandle low email)")
  case (Inl e)
  then show thesis using refused [of e False] by (simp add: ensureCreate_def)
next
  case (Inr c)
  obtain chosen nt where c: "c = (chosen, nt)" by fastforce
  define row where "row = \<lparr>us_id = am_newID a, us_handle = chosen, us_display_name = (if name = '''' then chosen else name),
         us_kind = ''person'', us_email = Some email, us_created_at = am_dbnow a, us_deactivated_at = None,
         us_metadata_log_seq = 0\<rparr>"
  note d = ensureCreate_def [of low lower hash a email name, unfolded Inr c Let_def sum.case prod.case, folded row_def]
  show thesis
  proof (cases "insertUser lower row (am_db a)")
    case (Inl e)
    then show thesis using refused d by simp
  next
    case i: (Inr db1)
    then have "db1 = (am_db a)\<lparr>db_users := db_users (am_db a) @ [row]\<rparr>" by (auto simp: insertUser_def split: if_splits)
    with i Inr c d row_def show thesis using refused created
      by (cases "issueEnrollmentTokenTx hash (am_dbnow a) db1 (am_enrollID a) (am_newID a) (am_now a) (am_mint a)") auto
  qed
qed

lemma ensurePersonOnce_cases:
  obtains (refused) e retry where "ensurePersonOnce low lower hash a email name = (am_db a, Inl e, retry)"
  | (found) rooms u db' r where "lockedSelect (isPerson lower email) (am_look a) (am_db a) = Some u"
      "us_deactivated_at u \<noteq> None \<Longrightarrow> lockRoomsOfPerson (am_peek a) (am_db a) (us_id u) = Inr rooms"
      "ensureFound hash a rooms u = (db', r)" "ensurePersonOnce low lower hash a email name = (db', r, False)"
  | (absent) "lockedSelect (isPerson lower email) (am_look a) (am_db a) = None"
      "ensurePersonOnce low lower hash a email name = ensureCreate low lower hash a email name"
proof -
  obtain pid pd where pk: "peekForReversal lower (am_peek a) email = (pid, pd)" by fastforce
  note d = ensurePersonOnce_def [of low lower hash a email name, unfolded pk Let_def prod.case]
  show thesis
  proof (cases "if pd then lockRoomsOfPerson (am_peek a) (am_db a) pid else Inr []")
    case (Inl e)
    then show thesis using refused [of "PersonStore e" False] d by simp
  next
    case (Inr rooms)
    show thesis
    proof (cases "lockedSelect (isPerson lower email) (am_look a) (am_db a)")
      case None
      then show thesis using absent d Inr by simp
    next
      case (Some u)
      obtain db' r where f: "ensureFound hash a rooms u = (db', r)" by fastforce
      show thesis
      proof (cases "us_deactivated_at u \<noteq> None \<and> (\<not> pd \<or> pid \<noteq> us_id u)")
        case True
        then show thesis using refused [of ReversalRacedAnOffboard True] d Inr Some by simp
      next
        case False
        have "ensurePersonOnce low lower hash a email name = (db', r, False)"
          using False d Inr Some f by (simp only: sum.case option.case if_False prod.case)
        then show thesis using found [OF Some _ f] False Inr by (auto split: if_splits)
      qed
    qed
  qed
qed

end
