(* ===== verification/Log_Reach.thy ===== *)
theory Log_Reach
  imports Account_Effects
begin

text \<open>
  The chat tables as a state machine: every operation of the store that writes them as a step,
  with whatever its unlocked reads saw, the invariant of the log in every reachable
  database, and the properties of a send, a replay and a receipt.
\<close>

section \<open>What a send does\<close>

lemma resolveReply_Some:
  "resolveReply db conv r = Some i \<Longrightarrow> \<exists>x \<in> set (db_messages db). mr_ID x = i \<and> mr_ConversationID x = conv"
  by (auto simp: resolveReply_def list_ex_iff split: option.splits if_splits)

context upload_resolver
begin

lemma writeSend_appended:
  assumes "writeSend resolve d db m = Inr (db', s)"
  obtains c row where "appended c row db db'" "s = (sentOf row)\<lparr>so_Duplicate := False\<rparr>"
    "mr_AuthorID row = nm_AuthorID m" "mr_ClientID row = Some (nm_ClientID m)" "mr_ConversationID row = nm_ConversationID m"
    "mr_ID row = sd_messageID d" "mr_Text row = nm_Text m"
    "mr_ReplyTo row = resolveReply db (nm_ConversationID m) (nm_ReplyTo m)"
proof (rule writeSend_Inr [OF assms], goal_cases)
  case (1 c row)
  show ?case
  proof (rule that [of c row])
    show "appended c row db db'"
      unfolding appended_def using 1 by (auto dest: resolveReply_Some)
  qed (use 1 in simp_all)
qed

lemma attemptSend_cases:
  obtains (answered) row where "messageByKey db0 (nm_AuthorID m) (nm_ClientID m) = Some row"
      "attemptSend resolve d db0 db m = (db, Inr (sentOf row))"
  | (refused) e where "messageByKey db0 (nm_AuthorID m) (nm_ClientID m) = None" "attemptSend resolve d db0 db m = (db, Inl e)"
      "e = ErrConversationNotFound \<and> conversationByID db0 (nm_ConversationID m) = None \<or>
       e = ErrNotAMember \<and> \<not> isMember db0 (nm_ConversationID m) (nm_AuthorID m) \<or> writeSend resolve d db m = Inl e"
  | (wrote) db' s where "messageByKey db0 (nm_AuthorID m) (nm_ClientID m) = None"
      "isMember db0 (nm_ConversationID m) (nm_AuthorID m)"
      "attemptSend resolve d db0 db m = (db', Inr s)" "writeSend resolve d db m = Inr (db', s)"
proof (cases "messageByKey db0 (nm_AuthorID m) (nm_ClientID m)")
  case None
  show thesis
  proof (cases "conversationByID db0 (nm_ConversationID m) = None \<or> \<not> isMember db0 (nm_ConversationID m) (nm_AuthorID m)")
    case True
    then show thesis using refused None by (cases "conversationByID db0 (nm_ConversationID m) = None") (auto simp: attemptSend_def)
  next
    case False
    then show thesis using refused wrote None
      by (cases "writeSend resolve d db m") (auto simp: attemptSend_def split: prod.splits)
  qed
qed (use answered in \<open>auto simp: attemptSend_def\<close>)

text \<open>A send leaves the database as it was or appends one row to it.\<close>

lemma send_cases:
  obtains (same) "fst (send l resolve d db0 db m) = db"
  | (wrote) c row where "appended c row db (fst (send l resolve d db0 db m))"
      "snd (send l resolve d db0 db m) = Inr ((sentOf row)\<lparr>so_Duplicate := False\<rparr>)"
      "messageByKey db0 (nm_AuthorID m) (nm_ClientID m) = None"
      "isMember db0 (nm_ConversationID m) (nm_AuthorID m)"
      "mr_AuthorID row = nm_AuthorID m" "mr_ClientID row = Some (nm_ClientID m)" "mr_ConversationID row = nm_ConversationID m"
      "mr_Text row = nm_Text m"
proof (cases "nm_ClientID m = uuid_Nil \<or> checkBounds l m \<noteq> None")
  case True
  then show ?thesis using same by (auto simp: send_def)
next
  case False
  show ?thesis
  proof (cases rule: attemptSend_cases [of db0 m d db])
    case (wrote db' s)
    then have "send l resolve d db0 db m = (db', Inr s)" using False by (simp add: send_def)
    then show ?thesis using writeSend_appended [OF wrote(4)] that(2) wrote by (metis fst_conv snd_conv)
  qed (use False same in \<open>auto simp: send_def split: sum.splits\<close>)
qed

lemma send_inv: "log_inv db \<Longrightarrow> log_inv (fst (send l resolve d db0 db m))"
  by (cases rule: send_cases [of l d db0 db m]) (auto intro: appended_inv)

end

section \<open>The chat tables as a state machine\<close>

text \<open>
  \<open>other\<close> is what the rest of the package writes: credentials, uploads, accounts (a new
  account's marker is 0). It raises no message notification.
\<close>

inductive chat_step :: "'h DB \<Rightarrow> 'h DB \<Rightarrow> bool" where
  sendPlain: "chat_step db (fst (send l RefuseUploads d db0 db m))"
| sendUploads: "chat_step db (fst (send l (PostgresUploads dbnow) d db0 db m))"
| read: "chat_step db (fst (markRead db conv user n))"
| direct: "chat_step db (fst (findOrCreateDirect i db0 db viewer handle))"
| group: "chat_step db (fst (createGroup i db0 db creator name handles req))"
| self: "chat_step db (fst (findOrCreateSelf i db0 db viewer))"
| offboard: "chat_step db (fst (DeactivateUser dbnow batch db0 db user))"
| ensure: "am_db a = db \<Longrightarrow> chat_step db (fst (ensurePersonOnce low lower hash a email name))"
| other: "db_messages db' = db_messages db \<Longrightarrow> db_conversations db' = db_conversations db \<Longrightarrow>
    db_members db' = db_members db \<Longrightarrow> db_log_counter db' = db_log_counter db \<Longrightarrow>
    (\<forall>u \<in> set (db_users db'). us_metadata_log_seq u \<le> db_log_counter db) \<Longrightarrow>
    messageNotifications (db_notify db') = messageNotifications (db_notify db) \<Longrightarrow> chat_step db db'"

definition chat_reach :: "'h DB \<Rightarrow> bool" where
  "chat_reach db \<longleftrightarrow> chat_step\<^sup>*\<^sup>* emptyDB db"

text \<open>
  What every step does to the log: nothing, with the counter where it was or further, or
  one appended row.
\<close>

text \<open>What of a conversation never changes, and how the rooms of two moments compare.\<close>

definition roomKey :: "ConversationT \<Rightarrow> uuid \<times> string \<times> string option \<times> string option" where
  "roomKey c = (cv_id c, cv_kind c, cv_direct_key c, cv_create_key c)"

definition memberKeys :: "'h DB \<Rightarrow> (uuid \<times> uuid) list" where
  "memberKeys db = map (\<lambda>m. (mb_conversation_id m, mb_user_id m)) (db_members db)"

definition rooms_grow :: "'h DB \<Rightarrow> 'h DB \<Rightarrow> bool" where
  "rooms_grow db db' \<longleftrightarrow> (\<exists>new. map roomKey (db_conversations db') = map roomKey (db_conversations db) @ new) \<and>
     (\<forall>conv user. isMember db conv user \<longrightarrow> isMember db' conv user) \<and>
     (\<forall>conv user. conv \<in> cv_id ` set (db_conversations db) \<longrightarrow> isMember db' conv user \<longrightarrow> isMember db conv user) \<and>
     (distinct (memberKeys db) \<longrightarrow> distinct (memberKeys db'))"

lemma rooms_grow_refl [simp]: "rooms_grow db db"
  by (simp add: rooms_grow_def)

lemma rooms_grow_ids: "rooms_grow db db' \<Longrightarrow> cv_id ` set (db_conversations db) \<subseteq> cv_id ` set (db_conversations db')"
proof -
  assume "rooms_grow db db'"
  then obtain new where "map roomKey (db_conversations db') = map roomKey (db_conversations db) @ new" by (auto simp: rooms_grow_def)
  then have "map fst (map roomKey (db_conversations db')) = map fst (map roomKey (db_conversations db)) @ map fst new" by simp
  then have "map cv_id (db_conversations db') = map cv_id (db_conversations db) @ map fst new"
    by (simp add: comp_def roomKey_def)
  from arg_cong [OF this, of set] show ?thesis by auto
qed

lemma rooms_grow_trans: "rooms_grow a b \<Longrightarrow> rooms_grow b c \<Longrightarrow> rooms_grow a c"
proof -
  assume g: "rooms_grow a b" "rooms_grow b c"
  then obtain n1 n2 where "map roomKey (db_conversations b) = map roomKey (db_conversations a) @ n1"
    "map roomKey (db_conversations c) = map roomKey (db_conversations b) @ n2" by (auto simp: rooms_grow_def)
  then have "\<exists>new. map roomKey (db_conversations c) = map roomKey (db_conversations a) @ new" by simp
  then show "rooms_grow a c"
    using g rooms_grow_ids [OF g(1)] unfolding rooms_grow_def by (intro conjI) (assumption, simp, metis subsetD, simp)
qed

lemma isMember_keys: "isMember db conv user \<longleftrightarrow> (conv, user) \<in> set (memberKeys db)"
  by (auto simp: isMember_def list_ex_iff memberKeys_def)

lemma rooms_grow_same:
  assumes "map roomKey (db_conversations db') = map roomKey (db_conversations db)" "memberKeys db' = memberKeys db"
  shows "rooms_grow db db'"
  unfolding rooms_grow_def isMember_keys assms by simp

definition quiet :: "'h DB \<Rightarrow> 'h DB \<Rightarrow> bool" where
  "quiet db db' \<longleftrightarrow> db_messages db' = db_messages db \<and> db_log_counter db \<le> db_log_counter db' \<and>
     messageNotifications (db_notify db') = messageNotifications (db_notify db) \<and> rooms_grow db db'"

lemma quiet_refl [simp]: "quiet db db"
  by (simp add: quiet_def)

lemma memberKeys_marks: "memberKeys db = map (\<lambda>(c, u, _). (c, u)) (marks db)"
  by (simp add: memberKeys_def marks_def)

lemma applyBump_rooms: "applyBump b db = Inr (db', v) \<Longrightarrow> rooms_grow db db'"
  by (rule rooms_grow_same)
    (simp_all add: memberKeys_marks applyBump_Inr(6) applyBump_Inr(7) map_update_where roomKey_def)

lemma applyBump_quiet: "applyBump b db = Inr (db', v) \<Longrightarrow> quiet db db'"
  using applyBump_Inr [of b db db' v] applyBump_rooms [of b db db' v] by (simp add: quiet_def)

lemma quiet_trans: "quiet a b \<Longrightarrow> quiet b c \<Longrightarrow> quiet a c"
  unfolding quiet_def by (elim conjE, intro conjI) (simp, linarith, simp, erule (1) rooms_grow_trans)

lemma finishCreate_quiet:
  assumes "insertConversation new db = Some db1"
  shows "quiet db (fst (finishCreate db db1 (cv_id new) members viewer))"
proof (cases "insertMembers (cv_id new) members db1")
  case (Inl e)
  then show ?thesis by (simp add: finishCreate_def)
next
  case (Inr db2)
  have "distinct (memberKeys db) \<longrightarrow> distinct (memberKeys db2)"
  proof -
    have "memberKeys db2 = memberKeys db @ map (Pair (cv_id new)) members" "distinct members"
      "\<forall>u \<in> set members. (cv_id new, u) \<notin> set (memberKeys db)"
      using Inr insertConversation_Some [OF assms]
      by (auto simp: insertMembers_def memberKeys_def isMember_keys list_ex_iff comp_def split: if_splits)
    then show ?thesis by (auto simp: distinct_map inj_on_def)
  qed
  then have "quiet db db2"
    using Inr insertConversation_Some [OF assms]
    by (auto simp: quiet_def rooms_grow_def isMember_def insertMembers_def list_ex_iff split: if_splits)
  then show ?thesis
    using Inr quiet_trans [OF _ applyBump_quiet] by (auto simp: finishCreate_def split: sum.splits)
qed

lemma findOrCreateDirect_step:
  "quiet db (fst (findOrCreateDirect i db0 db viewer handle)) \<and>
   (log_inv db \<longrightarrow> log_inv (fst (findOrCreateDirect i db0 db viewer handle)))"
proof -
  let ?new = "\<lambda>key. \<lparr>cv_id = i, cv_kind = ''direct'', cv_name = None, cv_direct_key = Some key,
                    cv_create_key = None, cv_last_seq = 0, cv_retention_days = None, cv_metadata_log_seq = 0\<rparr>"
  have "quiet db (fst (finishCreate db db1 i ms viewer)) \<and> (log_inv db \<longrightarrow> log_inv (fst (finishCreate db db1 i ms viewer)))"
    if "insertConversation (?new key) db = Some db1" for db1 key ms
    using finishCreate_quiet [OF that] finishCreate_inv [OF that] by auto
  then show ?thesis
    by (auto simp: findOrCreateDirect_def readBack_def Let_def split: option.splits)
qed

lemma findOrCreateSelf_step:
  "quiet db (fst (findOrCreateSelf i db0 db viewer)) \<and> (log_inv db \<longrightarrow> log_inv (fst (findOrCreateSelf i db0 db viewer)))"
proof -
  let ?new = "\<lparr>cv_id = i, cv_kind = ''self'', cv_name = Some selfConversationName,
                  cv_direct_key = Some viewer, cv_create_key = None, cv_last_seq = 0, cv_retention_days = None,
                  cv_metadata_log_seq = 0\<rparr>"
  have "quiet db (fst (finishCreate db db1 i ms viewer)) \<and> (log_inv db \<longrightarrow> log_inv (fst (finishCreate db db1 i ms viewer)))"
    if "insertConversation ?new db = Some db1" for db1 ms
    using finishCreate_quiet [OF that] finishCreate_inv [OF that] by auto
  then show ?thesis by (auto simp: findOrCreateSelf_def readBack_def split: option.splits)
qed

lemma createGroup_step:
  "quiet db (fst (createGroup i db0 db creator name handles req)) \<and>
   (log_inv db \<longrightarrow> log_inv (fst (createGroup i db0 db creator name handles req)))"
proof -
  let ?new = "\<lambda>name. \<lparr>cv_id = i, cv_kind = ''group'', cv_name = Some name, cv_direct_key = None,
       cv_create_key = map_option (groupKey creator) req, cv_last_seq = 0, cv_retention_days = None, cv_metadata_log_seq = 0\<rparr>"
  have "quiet db x \<and> (log_inv db \<longrightarrow> log_inv x)"
    if "insertConversation (?new nm) db = Some db1" "finishCreate db db1 i ms creator = (x, r)" for db1 ms nm x r
    using finishCreate_quiet [OF that(1), of ms creator] finishCreate_inv [OF that(1), of ms creator] that(2) by auto
  then show ?thesis
    by (auto simp: createGroup_def readBack_def Let_def split: option.splits sum.splits prod.splits)
qed

lemma DeactivateUser_quiet: "quiet db (fst (DeactivateUser dbnow batch db0 db user))"
proof (cases rule: DeactivateUser_cases [of dbnow batch db0 db user])
  case (offboarded db' out rooms dbm)
  then have "quiet db dbm" by (simp add: quiet_def rooms_grow_same memberKeys_def)
  then show ?thesis using applyBump_quiet [OF offboarded(4)] offboarded(1) quiet_trans by auto
qed (auto simp: quiet_def memberKeys_def intro!: rooms_grow_same)

lemma DeactivateUser_inv: "log_inv db \<Longrightarrow> log_inv (fst (DeactivateUser dbnow batch db0 db user))"
proof (cases rule: DeactivateUser_cases [of dbnow batch db0 db user])
  case (repaired db' out)
  assume i: "log_inv db"
  have "log_inv db'"
    by (rule log_inv_frame [OF i]) (use repaired i in \<open>simp_all add: ordinals_def marks_def log_inv_def markers_below_head_def\<close>)
  then show ?thesis using repaired(1) by simp
next
  case (offboarded db' out rooms dbm)
  assume i: "log_inv db"
  have "markers_below_head dbm"
    using i offboarded(6-9) by (auto simp: log_inv_def markers_below_head_def dest!: update_where_D)
  then have "log_inv dbm"
    by (intro log_inv_frame [OF i]) (use offboarded in \<open>simp_all add: ordinals_def marks_def\<close>)
  then show ?thesis using applyBump_inv [OF offboarded(4)] offboarded(1) by simp
qed simp

text \<open>
  An account operation that writes no chat table but the accounts: quiet, and the invariant holds
  when the new markers are not above the head.
\<close>

lemma accounts_only_step:
  assumes "db_messages db' = db_messages db" "db_conversations db' = db_conversations db" "db_members db' = db_members db"
    "db_log_counter db' = db_log_counter db" "messageNotifications (db_notify db') = messageNotifications (db_notify db)"
    "us_metadata_log_seq ` set (db_users db') \<subseteq> insert 0 (us_metadata_log_seq ` set (db_users db))"
  shows "quiet db db' \<and> (log_inv db \<longrightarrow> log_inv db')"
proof
  show "quiet db db'" using assms by (simp add: quiet_def rooms_grow_same memberKeys_def)
  show "log_inv db \<longrightarrow> log_inv db'"
  proof
    assume i: "log_inv db"
    have "markers_below_head db" "0 \<le> db_log_counter db" using i by (simp_all add: log_inv_def log_ordered_def)
    then have "markers_below_head db'"
      unfolding markers_below_head_def assms(2-4) using assms(6) by (fastforce simp: image_subset_iff)
    then show "log_inv db'" by (intro log_inv_frame [OF i]) (use assms in \<open>simp_all add: ordinals_def marks_def\<close>)
  qed
qed

lemma ensurePersonOnce_step:
  "quiet (am_db a) (fst (ensurePersonOnce low lower hash a email name)) \<and>
   (log_inv (am_db a) \<longrightarrow> log_inv (fst (ensurePersonOnce low lower hash a email name)))"
proof (cases rule: ensurePersonOnce_cases [of low lower hash a email name])
  case (found rooms u db' r)
  from found(1) show ?thesis
  proof (cases rule: ensureFound_cases [where hash = hash and rooms = rooms])
    case (existing db'' t)
    then show ?thesis using found accounts_only_step [of db'' "am_db a"] issueEnrollmentTokenTx_frame [OF existing(2)] by auto
  next
    case (reactivated db1 revoked db2 t db'' v)
    note f1 = reactivateTx_frame [OF reactivated(2)] and f2 = issueEnrollmentTokenTx_frame [OF reactivated(3)]
    have "quiet (am_db a) db2 \<and> (log_inv (am_db a) \<longrightarrow> log_inv db2)"
      by (rule accounts_only_step) (use f1 f2 in \<open>auto simp: image_update_where\<close>)
    then show ?thesis
      using quiet_trans [OF _ applyBump_quiet [OF reactivated(4)]] applyBump_inv [OF reactivated(4)] reactivated(5) found by auto
  qed (use found in auto)
next
  case absent
  then show ?thesis
  proof (cases rule: ensureCreate_cases [of low lower hash a email name])
    case (created chosen nt row db1 db' t)
    have "quiet (am_db a) db' \<and> (log_inv (am_db a) \<longrightarrow> log_inv db')"
      by (rule accounts_only_step) (use issueEnrollmentTokenTx_frame [OF created(5)] created(2,4) in auto)
    then show ?thesis using absent created by simp
  qed simp
qed simp

lemma markRead_quiet: "quiet db (fst (markRead db conv user n))"
proof -
  let ?marked = "\<lambda>f. db\<lparr>db_members := update_where (\<lambda>m. mb_conversation_id m = conv \<and> mb_user_id m = user)
     (\<lambda>m. m\<lparr>mb_read_seq := f\<rparr>) (db_members db)\<rparr>"
  have q: "quiet db (?marked f)" for f
    by (simp add: quiet_def memberKeys_def map_update_where rooms_grow_same)
  have "quiet db (notify (NotifyReceipt conv user a b None) db2)" if "applyBump bmp (?marked f) = Inr (db2, v)" for a b bmp f db2 v
    using quiet_trans [OF q applyBump_quiet [OF that]] by (simp add: quiet_def rooms_grow_def isMember_def memberKeys_def)
  then show ?thesis using q by (auto simp: markRead_def Let_def split: option.splits sum.splits)
qed

lemma chat_step_cases:
  assumes "chat_step db db'"
  obtains "quiet db db'" | c row where "appended c row db db'"
  using assms
proof cases
  case (sendPlain l d db0 m)
  then show ?thesis using that by (cases rule: refuse.send_cases [of l d db0 db m]) auto
next
  case (sendUploads l dbnow d db0 m)
  then show ?thesis using that by (cases rule: pg.send_cases [of l dbnow d db0 db m]) auto
next
  case other
  then show ?thesis using that by (simp add: quiet_def rooms_grow_same memberKeys_def)
next
  case (read conv user n)
  show ?thesis by (rule that(1) [unfolded read, OF markRead_quiet])
next
  case (direct i db0 viewer handle)
  show ?thesis by (rule that(1) [unfolded direct, OF findOrCreateDirect_step [THEN conjunct1]])
next
  case (group i db0 creator name handles req)
  show ?thesis by (rule that(1) [unfolded group, OF createGroup_step [THEN conjunct1]])
next
  case (self i db0 viewer)
  show ?thesis by (rule that(1) [unfolded self, OF findOrCreateSelf_step [THEN conjunct1]])
next
  case (offboard dbnow batch db0 user)
  show ?thesis by (rule that(1) [unfolded offboard, OF DeactivateUser_quiet])
next
  case (ensure a low lower hash email name)
  show ?thesis by (rule that(1)) (use ensurePersonOnce_step [of a low lower hash email name] ensure in simp)
qed

lemma chat_step_inv:
  assumes "chat_step db db'" "log_inv db"
  shows "log_inv db'"
  using assms(1)
proof cases
  case (sendPlain l d db0 m)
  then show ?thesis using refuse.send_inv [OF assms(2)] by simp
next
  case (sendUploads l dbnow d db0 m)
  then show ?thesis using pg.send_inv [OF assms(2)] by simp
next
  case (read conv user n)
  then show ?thesis using markRead_inv [OF assms(2)] by simp
next
  case (direct i db0 viewer handle)
  then show ?thesis using findOrCreateDirect_step [of db i db0 viewer handle] assms(2) by simp
next
  case (group i db0 creator name handles req)
  then show ?thesis using createGroup_step [of db i db0 creator name handles req] assms(2) by simp
next
  case (self i db0 viewer)
  then show ?thesis using findOrCreateSelf_step [of db i db0 viewer] assms(2) by simp
next
  case (offboard dbnow batch db0 user)
  then show ?thesis using DeactivateUser_inv [OF assms(2)] by simp
next
  case (ensure a low lower hash email name)
  then show ?thesis using ensurePersonOnce_step [of a low lower hash email name] assms(2) by simp
next
  case other
  show ?thesis
    by (rule log_inv_frame [OF assms(2)]) (use other assms(2) in \<open>simp_all add: ordinals_def marks_def log_inv_def markers_below_head_def\<close>)
qed

lemma log_inv_empty: "log_inv emptyDB"
  by (simp add: emptyDB_def log_inv_def dense_def seq_unique_def log_ordered_def key_unique_def replies_inside_def
      marks_below_head_def markers_below_head_def)

lemma chat_steps_inv: "chat_step\<^sup>*\<^sup>* db db' \<Longrightarrow> log_inv db \<Longrightarrow> log_inv db'"
  by (induction rule: rtranclp_induct) (auto intro: chat_step_inv)

lemma chat_reach_inv: "chat_reach db \<Longrightarrow> log_inv db"
  unfolding chat_reach_def using chat_steps_inv log_inv_empty by blast

text \<open>Every committed row was announced once, in the order of the log.\<close>

definition announced :: "'h DB \<Rightarrow> bool" where
  "announced db \<longleftrightarrow> messageNotifications (db_notify db) = map (\<lambda>m. (mr_ConversationID m, mr_Seq m)) (db_messages db)"

lemma chat_step_announced: "chat_step db db' \<Longrightarrow> announced db \<Longrightarrow> announced db'"
  by (erule chat_step_cases) (auto simp: announced_def quiet_def appended_def)

lemma chat_reach_announced: "chat_reach db \<Longrightarrow> announced db"
  unfolding chat_reach_def
proof (induction rule: rtranclp_induct)
  case base
  show ?case by (simp add: announced_def emptyDB_def messageNotifications_def map_filter_def)
qed (rule chat_step_announced)

section \<open>Histories\<close>

text \<open>
  How two moments of one deployment compare: the log of the first is a prefix of the
  log of the second, what was added lies above the first counter, and rooms and
  memberships stay.
\<close>

definition later :: "'h DB \<Rightarrow> 'h DB \<Rightarrow> bool" where
  "later db db' \<longleftrightarrow> db_log_counter db \<le> db_log_counter db' \<and>
     (\<exists>new. db_messages db' = db_messages db @ new \<and> (\<forall>m \<in> set new. db_log_counter db < mr_LogSeq m)) \<and>
     rooms_grow db db'"

lemma quiet_later: "quiet db db' \<Longrightarrow> later db db'"
  by (simp add: later_def quiet_def)

lemma appended_later: "appended c row db db' \<Longrightarrow> later db db'"
  unfolding later_def by (auto simp: appended_def memberKeys_def map_update_where roomKey_def intro!: rooms_grow_same)

lemma later_refl [simp]: "later db db"
  by (simp add: later_def)

lemma later_trans:
  assumes "later a b" "later b c"
  shows "later a c"
proof -
  obtain n1 n2 where n: "db_messages b = db_messages a @ n1" "\<forall>m \<in> set n1. db_log_counter a < mr_LogSeq m"
    "db_messages c = db_messages b @ n2" "\<forall>m \<in> set n2. db_log_counter b < mr_LogSeq m"
    using assms by (auto simp: later_def)
  have "\<forall>m \<in> set (n1 @ n2). db_log_counter a < mr_LogSeq m" using n assms by (force simp: later_def)
  then have "\<exists>new. db_messages c = db_messages a @ new \<and> (\<forall>m \<in> set new. db_log_counter a < mr_LogSeq m)"
    using n by (intro exI [of _ "n1 @ n2"]) simp
  moreover have "rooms_grow a c" using assms rooms_grow_trans [of a b c] by (simp add: later_def)
  moreover have "db_log_counter a \<le> db_log_counter c" using assms by (simp add: later_def)
  ultimately show ?thesis unfolding later_def by (intro conjI)
qed

lemma chat_step_later: "chat_step db db' \<Longrightarrow> later db db'"
  by (erule chat_step_cases) (blast intro: quiet_later appended_later)+

lemma chat_steps_later: "chat_step\<^sup>*\<^sup>* db db' \<Longrightarrow> later db db'"
  by (induction rule: rtranclp_induct) (blast intro: later_refl later_trans chat_step_later)+

text \<open>The primary key of \<open>conversation_members\<close> holds in every reachable database.\<close>

lemma chat_reach_members: "chat_reach db \<Longrightarrow> distinct (memberKeys db)"
proof -
  assume "chat_reach db"
  then have "distinct (memberKeys (emptyDB :: 'a DB)) \<longrightarrow> distinct (memberKeys db)"
    unfolding chat_reach_def by (auto dest!: chat_steps_later simp: later_def rooms_grow_def)
  then show ?thesis by (simp add: memberKeys_def [of emptyDB] emptyDB_def [THEN arg_cong [of _ _ db_members]])
qed

end
