(* ===== verification/Log_Props.thy ===== *)
theory Log_Props
  imports Log_Reach
begin

text \<open>
  The properties of the message store: the log of every reachable database, exactly one row
  per idempotency key whatever a retry or a race does, the notifications, the read mark,
  and uploads that are attached once.
\<close>

section \<open>A replay\<close>

lemma messageByKey_Some:
  assumes "messageByKey db a c = Some r"
  shows "r \<in> set (db_messages db)" "mr_AuthorID r = a" "mr_ClientID r = Some c"
  using assms by (auto simp: messageByKey_def dest: find_SomeD)

lemma messageByKey_row:
  assumes "log_inv db" "row \<in> set (db_messages db)" "mr_AuthorID row = a" "mr_ClientID row = Some c"
  shows "messageByKey db a c = Some row"
proof (cases "messageByKey db a c")
  case None
  then show ?thesis using assms by (auto simp: messageByKey_def find_None_iff)
next
  case (Some r)
  have "key_unique db" using assms(1) by (simp add: log_inv_def)
  with messageByKey_Some [OF Some] assms have "r = row" by (metis key_unique_def option.distinct(1))
  with Some show ?thesis by simp
qed

lemma placeAttachments_Inl: "placeAttachments i ws rs = Inl e \<Longrightarrow> e = ErrUploadNotFound"
  by (induction i ws rs rule: placeAttachments.induct) (auto split: if_splits sum.splits)

context upload_resolver
begin

lemma resolveUploads_Inl: "resolveUploads resolve db m = Inl e \<Longrightarrow> e = ErrUploadNotFound"
  using refuses answers_each
  by (auto simp: resolveUploads_def split: if_splits sum.splits dest: placeAttachments_Inl)

text \<open>
  A write under a key that is stored already fails on the key, or on an upload the first
  send consumed; the ordinals it drew roll back with it.
\<close>

lemma writeSend_replay:
  assumes i: "log_inv db" and row: "row \<in> set (db_messages db)" "mr_AuthorID row = nm_AuthorID m" "mr_ClientID row = Some (nm_ClientID m)"
    and c: "conversationByID db (nm_ConversationID m) = Some c" "cv_last_seq c \<noteq> max_i64" "db_log_counter db \<noteq> max_i64"
    and fresh: "sd_messageID d \<notin> mr_ID ` set (db_messages db)"
  shows "writeSend resolve d db m = Inl ErrUploadNotFound \<or> writeSend resolve d db m = Inl (PgError ''23505'' dedupConstraint)"
proof (cases "resolveUploads resolve db m")
  case (Inl e)
  then show ?thesis using resolveUploads_Inl [OF Inl] by (simp add: writeSend_def)
next
  case (Inr p)
  obtain db1 atts where p: "p = (db1, atts)" by fastforce
  with Inr have r: "resolveUploads resolve db m = Inr (db1, atts)" by simp
  note u = resolveUploads_Inr [OF r]
  have same: "db_conversations db1 = db_conversations db" "db_log_counter db1 = db_log_counter db"
    "db_messages db1 = db_messages db" by (subst u, simp)+
  have c': "c \<in> set (db_conversations db)" "cv_id c = nm_ConversationID m"
    using c by (auto simp: conversationByID_def dest: find_SomeD)
  have seq: "\<not> (\<exists>x \<in> set (db_messages db). mr_ConversationID x = nm_ConversationID m \<and> mr_Seq x = cv_last_seq c + 1)"
    using dense_range(2) [of db c] i c' by (force simp: log_inv_def)
  have log: "\<not> (\<exists>x \<in> set (db_messages db). mr_LogSeq x = db_log_counter db + 1)"
    using i by (force simp: log_inv_def log_ordered_def)
  have "drawSeq db1 (nm_ConversationID m) = Inr (db1\<lparr>db_conversations := update_where (\<lambda>c. cv_id c = nm_ConversationID m)
      (\<lambda>c. c\<lparr>cv_last_seq := cv_last_seq c + 1\<rparr>) (db_conversations db1)\<rparr>, cv_last_seq c + 1)"
    using c same by (simp add: drawSeq_def conversationByID_def)
  then show ?thesis
    using r c(3) same seq log fresh row
    by (simp add: writeSend_def drawLog_def Let_def insertMessage_def dedupConstraint_def) blast
qed

lemma send_replay_same:
  assumes i: "log_inv db" and row: "row \<in> set (db_messages db)" "mr_AuthorID row = nm_AuthorID m" "mr_ClientID row = Some (nm_ClientID m)"
    and seen: "\<And>r. messageByKey db0 (nm_AuthorID m) (nm_ClientID m) = Some r \<Longrightarrow> r = row"
  shows "fst (send l resolve d db0 db m) = db" "snd (send l resolve d db0 db m) = Inr s \<Longrightarrow> s = sentOf row"
proof -
  show f: "fst (send l resolve d db0 db m) = db"
    using row by (cases rule: send_cases [of l d db0 db m]) (auto simp: appended_def)
  assume s: "snd (send l resolve d db0 db m) = Inr s"
  have key: "sentByKey db (nm_AuthorID m) (nm_ClientID m) = Inr (sentOf row)"
    using messageByKey_row [OF i row] by (simp add: sentByKey_def)
  have b: "nm_ClientID m \<noteq> uuid_Nil" "checkBounds l m = None" using s by (auto simp: send_def split: if_splits option.splits)
  show "s = sentOf row"
  proof (cases rule: attemptSend_cases [of db0 m d db])
    case (answered r)
    then show ?thesis using seen s b by (simp add: send_def)
  next
    case (refused e)
    then show ?thesis using s b key by (auto simp: send_def split: if_splits)
  next
    case (wrote db' s')
    from writeSend_appended [OF wrote(4)] show ?thesis using row by (metis appended_def)
  qed
qed

lemma send_replay_answers:
  assumes i: "log_inv db" and row: "row \<in> set (db_messages db)" "mr_AuthorID row = nm_AuthorID m" "mr_ClientID row = Some (nm_ClientID m)"
    and seen: "\<And>r. messageByKey db0 (nm_AuthorID m) (nm_ClientID m) = Some r \<Longrightarrow> r = row"
    and b: "nm_ClientID m \<noteq> uuid_Nil" "checkBounds l m = None"
    and reads: "conversationByID db0 (nm_ConversationID m) \<noteq> None" "isMember db0 (nm_ConversationID m) (nm_AuthorID m)"
    and c: "conversationByID db (nm_ConversationID m) = Some c" "cv_last_seq c \<noteq> max_i64" "db_log_counter db \<noteq> max_i64"
    and fresh: "sd_messageID d \<notin> mr_ID ` set (db_messages db)"
  shows "send l resolve d db0 db m = (db, Inr (sentOf row))"
proof -
  have key: "sentByKey db (nm_AuthorID m) (nm_ClientID m) = Inr (sentOf row)"
    using messageByKey_row [OF i row] by (simp add: sentByKey_def)
  show ?thesis
  proof (cases "messageByKey db0 (nm_AuthorID m) (nm_ClientID m)")
    case (Some r)
    then show ?thesis using seen b by (simp add: send_def attemptSend_def)
  next
    case None
    then show ?thesis using writeSend_replay [OF i row c fresh] b reads key
      by (auto simp: send_def attemptSend_def isUniqueViolation_def)
  qed
qed

lemma send_wrote:
  assumes "send l resolve d db0 db m = (db', Inr s)" "\<not> so_Duplicate s"
  obtains c row where "appended c row db db'" "s = (sentOf row)\<lparr>so_Duplicate := False\<rparr>" "nm_ClientID m \<noteq> uuid_Nil"
    "mr_AuthorID row = nm_AuthorID m" "mr_ClientID row = Some (nm_ClientID m)" "mr_ConversationID row = nm_ConversationID m"
    "mr_Text row = nm_Text m" "isMember db0 (nm_ConversationID m) (nm_AuthorID m)" "writeSend resolve d db m = Inr (db', s)"
proof -
  have b: "nm_ClientID m \<noteq> uuid_Nil" "checkBounds l m = None" using assms(1) by (auto simp: send_def split: if_splits option.splits)
  have dup: "so_Duplicate x" if "sentByKey db1 a c = Inr x" for db1 :: "'a DB" and a c x
    using that by (auto simp: sentByKey_def sentOf_def split: option.splits)
  show thesis
  proof (cases rule: attemptSend_cases [of db0 m d db])
    case (answered r)
    then show thesis using assms b by (auto simp: send_def sentOf_def)
  next
    case (refused e)
    then show thesis using assms b dup by (auto simp: send_def split: if_splits sum.splits)
  next
    case (wrote db'' s'')
    then have "db'' = db'" "s'' = s" using assms(1) b by (simp_all add: send_def)
    with wrote show thesis using b that by (metis writeSend_appended)
  qed
qed

end

lemma conversationByID_exists: "i \<in> cv_id ` set (db_conversations db) \<longleftrightarrow> (\<exists>c. conversationByID db i = Some c)"
  by (cases "conversationByID db i") (auto simp: conversationByID_def find_None_iff dest: find_SomeD)

lemma later_rows: "later db db' \<Longrightarrow> set (db_messages db) \<subseteq> set (db_messages db')"
  by (auto simp: later_def)

text \<open>
  C4. One row per idempotency key. After a send wrote a row, any later send of the same
  author under the same key, with any body, limits and draws, at any later moment, with
  unlocked reads as stale as they may be, leaves the database exactly as it was (no second
  row, no ordinal, no notification, no upload consumed), and what it answers, if it is an
  answer and no refusal, is the first send's row marked as a duplicate. It does answer that
  when the sender is a member and no counter is at its end.
\<close>

theorem send_exactly_once:
  assumes "chat_reach db"
    and "send l (PostgresUploads t) d db0 db m = (db1, Inr s)" "\<not> so_Duplicate s"
    and "chat_step\<^sup>*\<^sup>* db1 db2" "chat_step\<^sup>*\<^sup>* dbr db2"
    and "nm_AuthorID m' = nm_AuthorID m" "nm_ClientID m' = nm_ClientID m"
  shows "fst (send l' (PostgresUploads t') d' dbr db2 m') = db2 \<and>
    (\<forall>s'. snd (send l' (PostgresUploads t') d' dbr db2 m') = Inr s' \<longrightarrow> s' = s\<lparr>so_Duplicate := True\<rparr>) \<and>
    (checkBounds l' m' = None \<and> conversationByID dbr (nm_ConversationID m') \<noteq> None \<and>
     isMember dbr (nm_ConversationID m') (nm_AuthorID m') \<and> sd_messageID d' \<notin> mr_ID ` set (db_messages db2) \<and>
     (\<forall>c \<in> set (db_conversations db2). cv_last_seq c < max_i64) \<and> db_log_counter db2 < max_i64 \<longrightarrow>
       snd (send l' (PostgresUploads t') d' dbr db2 m') = Inr (s\<lparr>so_Duplicate := True\<rparr>))"
proof -
  obtain c row where w: "appended c row db db1" "s = (sentOf row)\<lparr>so_Duplicate := False\<rparr>" "nm_ClientID m \<noteq> uuid_Nil"
    "mr_AuthorID row = nm_AuthorID m" "mr_ClientID row = Some (nm_ClientID m)"
    using assms(2,3) by (rule pg.send_wrote)
  have i: "log_inv db2"
    using chat_steps_inv [OF assms(4)] appended_inv [OF w(1) chat_reach_inv [OF assms(1)]] .
  have row: "row \<in> set (db_messages db2)" "mr_AuthorID row = nm_AuthorID m'" "mr_ClientID row = Some (nm_ClientID m')"
    using w later_rows [OF chat_steps_later [OF assms(4)]] assms(6,7) by (auto simp: appended_def)
  have lr: "later dbr db2" by (rule chat_steps_later [OF assms(5)])
  have seen: "r = row" if "messageByKey dbr (nm_AuthorID m') (nm_ClientID m') = Some r" for r
  proof -
    note r = messageByKey_Some [OF that]
    have "messageByKey db2 (nm_AuthorID m') (nm_ClientID m') = Some r"
      using messageByKey_row [OF i _ r(2,3)] r(1) later_rows [OF lr] by auto
    then show "r = row" using messageByKey_row [OF i row] by simp
  qed
  have s: "s\<lparr>so_Duplicate := True\<rparr> = sentOf row" by (simp add: w(2) sentOf_def)
  have "snd (send l' (PostgresUploads t') d' dbr db2 m') = Inr (s\<lparr>so_Duplicate := True\<rparr>)"
    if h: "checkBounds l' m' = None" "conversationByID dbr (nm_ConversationID m') \<noteq> None"
     "isMember dbr (nm_ConversationID m') (nm_AuthorID m')" "sd_messageID d' \<notin> mr_ID ` set (db_messages db2)"
     "\<forall>c \<in> set (db_conversations db2). cv_last_seq c < max_i64" "db_log_counter db2 < max_i64"
  proof -
    obtain c0 where "c0 \<in> set (db_conversations dbr)" "cv_id c0 = nm_ConversationID m'"
      using h(2) by (auto simp: conversationByID_def dest: find_SomeD)
    moreover have "cv_id ` set (db_conversations dbr) \<subseteq> cv_id ` set (db_conversations db2)" using lr by (simp add: later_def rooms_grow_ids)
    ultimately have "nm_ConversationID m' \<in> cv_id ` set (db_conversations db2)" by (metis imageI subsetD)
    then obtain c2 where c2: "conversationByID db2 (nm_ConversationID m') = Some c2"
      using conversationByID_exists by blast
    then have "cv_last_seq c2 < max_i64" using h(5) by (auto simp: conversationByID_def dest: find_SomeD)
    then have "send l' (PostgresUploads t') d' dbr db2 m' = (db2, Inr (sentOf row))"
      using pg.send_replay_answers [OF i row seen _ h(1) h(2,3) c2 _ _ h(4)] w(3) h(6) assms(7) by simp
    then show ?thesis by (simp add: s)
  qed
  then show ?thesis using pg.send_replay_same [OF i row seen] s by auto
qed

section \<open>A small deployment\<close>

definition alice :: UserT where
  "alice = \<lparr>us_id = ''a'', us_handle = ''alice'', us_display_name = ''Alice'', us_kind = ''person'', us_email = None, us_created_at = 0,
     us_deactivated_at = None, us_metadata_log_seq = 0\<rparr>"

definition bob :: UserT where
  "bob = \<lparr>us_id = ''b'', us_handle = ''bob'', us_display_name = ''Bob'', us_kind = ''person'', us_email = None, us_created_at = 0,
     us_deactivated_at = None, us_metadata_log_seq = 0\<rparr>"

definition picture :: UploadT where
  "picture = \<lparr>up_id = ''p'', up_uploader = ''a'', up_kind = ''image'', up_storage_key = Some ''k'', up_thumb_key = None,
     up_bytes = 9, up_width = Some 3, up_height = Some 3, up_placeholder = None, up_filename = Some ''f'',
     up_duration_ms = None, up_peaks = None, up_link_url = None, up_link_title = None, up_link_description = None,
     up_link_site_name = None, up_link_final_host = None, up_consumed_at = None\<rparr>"

definition chatUsers :: "unit DB" where
  "chatUsers = emptyDB\<lparr>db_users := [alice, bob], db_uploads := [picture]\<rparr>"

definition chatRoom :: "unit DB" where
  "chatRoom = fst (findOrCreateDirect ''r'' chatUsers chatUsers ''a'' ''bob'')"

definition helloMsg :: NewMessage where
  "helloMsg = \<lparr>nm_ConversationID = ''r'', nm_AuthorID = ''a'', nm_ClientID = ''k1'', nm_SenderDeviceID = None,
     nm_ReplyTo = None, nm_Text = Some ''hello'', nm_Attachments = [\<lparr>na_Kind = ''image'', na_UploadID = ''p''\<rparr>]\<rparr>"

definition helloDraws :: SendDraws where
  "helloDraws = \<lparr>sd_messageID = ''m1'', sd_attachmentIDs = (\<lambda>_. ''x''), sd_at = 5\<rparr>"

definition helloDraws2 :: SendDraws where
  "helloDraws2 = \<lparr>sd_messageID = ''m2'', sd_attachmentIDs = (\<lambda>_. ''y''), sd_at = 6\<rparr>"

definition chatOne :: "unit DB" where
  "chatOne = fst (send DefaultLimits (PostgresUploads 5) helloDraws chatRoom chatRoom helloMsg)"

definition helloSent :: Sent where
  "helloSent = \<lparr>so_ID = ''m1'', so_ConversationID = ''r'', so_Seq = 1, so_LogSeq = 2, so_At = 5, so_Duplicate = False\<rparr>"

lemma chatRoom_eq: "chatRoom = chatUsers\<lparr>
    db_conversations := [\<lparr>cv_id = ''r'', cv_kind = ''direct'', cv_name = None, cv_direct_key = Some ''a|b'', cv_create_key = None,
      cv_last_seq = 0, cv_retention_days = None, cv_metadata_log_seq = 1\<rparr>],
    db_members := [\<lparr>mb_conversation_id = ''r'', mb_user_id = ''a'', mb_read_seq = 0, mb_muted = False, mb_metadata_log_seq = 1\<rparr>,
      \<lparr>mb_conversation_id = ''r'', mb_user_id = ''b'', mb_read_seq = 0, mb_muted = False, mb_metadata_log_seq = 1\<rparr>],
    db_log_counter := 1\<rparr>"
  by code_simp

lemma chatOne_send: "send DefaultLimits (PostgresUploads 5) helloDraws chatRoom chatRoom helloMsg = (chatOne, Inr helloSent)"
  by code_simp

lemma chatOne_eq: "chatOne = chatRoom\<lparr>
    db_conversations := [\<lparr>cv_id = ''r'', cv_kind = ''direct'', cv_name = None, cv_direct_key = Some ''a|b'', cv_create_key = None,
      cv_last_seq = 1, cv_retention_days = None, cv_metadata_log_seq = 1\<rparr>],
    db_messages := [\<lparr>mr_ID = ''m1'', mr_ConversationID = ''r'', mr_AuthorID = ''a'', mr_Seq = 1, mr_LogSeq = 2,
      mr_UpdatedLogSeq = 2, mr_At = 5, mr_Text = Some ''hello'', mr_ClientID = Some ''k1'', mr_SenderDeviceID = None,
      mr_ReplyTo = None, mr_EditedAt = None, mr_Deleted = False\<rparr>],
    db_attachments := [\<lparr>at_id = ''x'', at_message_id = ''m1'', at_row = attachmentOf picture\<rparr>],
    db_uploads := [picture\<lparr>up_consumed_at := Some 5\<rparr>],
    db_log_counter := 2, db_notify := [NotifyMessage ''r'' 1]\<rparr>"
  by code_simp

lemma chatRoom_reach: "chat_reach chatRoom"
proof -
  have "chat_step emptyDB chatUsers"
    by (rule chat_step.other) (simp_all add: chatUsers_def emptyDB_def alice_def bob_def)
  moreover have "chat_step chatUsers chatRoom" unfolding chatRoom_def by (rule chat_step.direct)
  ultimately show ?thesis unfolding chat_reach_def by auto
qed

lemma chatOne_step: "chat_step chatRoom chatOne"
  unfolding chatOne_def by (rule chat_step.sendUploads)

lemma chatOne_reach: "chat_reach chatOne"
  using chatRoom_reach chatOne_step unfolding chat_reach_def by (rule rtranclp.rtrancl_into_rtrancl)

theorem send_exactly_once_witness:
  "send DefaultLimits (PostgresUploads 9) helloDraws2 chatRoom chatOne helloMsg = (chatOne, Inr (helloSent\<lparr>so_Duplicate := True\<rparr>))"
proof -
  have h: "\<not> so_Duplicate helloSent" by (simp add: helloSent_def)
  have c: "checkBounds DefaultLimits helloMsg = None" "conversationByID chatRoom (nm_ConversationID helloMsg) \<noteq> None"
    "isMember chatRoom (nm_ConversationID helloMsg) (nm_AuthorID helloMsg)"
    by (simp_all add: checkBounds_def DefaultLimits_def helloMsg_def chatRoom_eq conversationByID_def isMember_def)
  have d: "sd_messageID helloDraws2 \<notin> mr_ID ` set (db_messages chatOne)"
    "\<forall>c \<in> set (db_conversations chatOne). cv_last_seq c < max_i64" "db_log_counter chatOne < max_i64"
    by (simp_all add: chatOne_eq helloDraws2_def max_i64_def)
  note once = send_exactly_once [OF chatRoom_reach chatOne_send h rtranclp.rtrancl_refl
      r_into_rtranclp [of chat_step, OF chatOne_step] refl refl, of DefaultLimits 9 helloDraws2]
  have "snd (send DefaultLimits (PostgresUploads 9) helloDraws2 chatRoom chatOne helloMsg) = Inr (helloSent\<lparr>so_Duplicate := True\<rparr>)"
    using c d by (intro once [THEN conjunct2, THEN conjunct2, THEN mp] conjI)
  then show ?thesis using once [THEN conjunct1] by (intro prod_eqI) (simp_all only: fst_conv snd_conv)
qed

section \<open>The log of a reachable database\<close>

text \<open>
  C5. In every database the operations can reach, under any interleaving and any stale
  read: the sequence numbers of a conversation are exactly \<open>1..last_seq\<close>, each once; the
  log's positions increase strictly and none is above the counter; a sender's key has one
  row; a reply points into its own conversation; no read mark is above its
  conversation's head; and every row was announced exactly once, in the order of the log.
\<close>

theorem reachable_log:
  assumes "chat_reach db"
  shows "(\<forall>c \<in> set (db_conversations db).
            mr_Seq ` {m \<in> set (db_messages db). mr_ConversationID m = cv_id c} = {1..cv_last_seq c}) \<and>
         distinct (map (\<lambda>m. (mr_ConversationID m, mr_Seq m)) (db_messages db)) \<and>
         sorted_wrt (<) (map mr_LogSeq (db_messages db)) \<and>
         (\<forall>m \<in> set (db_messages db). 1 \<le> mr_LogSeq m \<and> mr_LogSeq m \<le> db_log_counter db) \<and>
         key_unique db \<and> replies_inside db \<and> marks_below_head db \<and> announced db"
  using chat_reach_inv [OF assms] chat_reach_announced [OF assms]
  by (simp add: log_inv_def dense_def seq_unique_def log_ordered_def)

theorem reachable_log_witness:
  "mr_Seq ` {m \<in> set (db_messages chatOne). mr_ConversationID m = ''r''} = {1..1} \<and> announced chatOne"
  using reachable_log [OF chatOne_reach] by (simp add: chatOne_eq)

text \<open>
  The log is append-only and nothing arrives below a head that was read: between two
  moments of a deployment the earlier log is a prefix of the later one, and everything
  added lies above the earlier counter and at or below the later one.
\<close>

theorem log_append_only:
  assumes "chat_reach db" "chat_step\<^sup>*\<^sup>* db db'"
  shows "\<exists>new. db_messages db' = db_messages db @ new \<and>
    (\<forall>m \<in> set new. db_log_counter db < mr_LogSeq m \<and> mr_LogSeq m \<le> db_log_counter db')"
proof -
  obtain new where new: "db_messages db' = db_messages db @ new" "\<forall>m \<in> set new. db_log_counter db < mr_LogSeq m"
    using chat_steps_later [OF assms(2)] by (auto simp: later_def)
  have "log_ordered db'" using chat_steps_inv [OF assms(2) chat_reach_inv [OF assms(1)]] by (simp add: log_inv_def)
  then have "\<forall>m \<in> set new. mr_LogSeq m \<le> db_log_counter db'" using new(1) by (simp add: log_ordered_def)
  with new show ?thesis by blast
qed

theorem log_append_only_witness:
  "\<exists>new. db_messages chatOne = db_messages chatRoom @ new \<and> (\<forall>m \<in> set new. 1 < mr_LogSeq m \<and> mr_LogSeq m \<le> 2)"
  using log_append_only [OF chatRoom_reach r_into_rtranclp [of chat_step, OF chatOne_step]]
  by (simp add: chatOne_eq chatRoom_eq)

section \<open>The read mark\<close>

lemma memberOf_update:
  "memberOf (db\<lparr>db_members := update_where (\<lambda>m. mb_conversation_id m = conv \<and> mb_user_id m = user)
     (\<lambda>m. m\<lparr>mb_read_seq := v\<rparr>) (db_members db)\<rparr>) c u =
   map_option (\<lambda>m. if c = conv \<and> u = user then m\<lparr>mb_read_seq := v\<rparr> else m) (memberOf db c u)"
  unfolding memberOf_def by (simp add: find_update_where) (auto dest: find_SomeD simp: map_option_case split: option.splits)

lemma memberOf_bump:
  assumes "applyBump b db = Inr (db', v)"
  shows "map_option mb_read_seq (memberOf db' c u) = map_option mb_read_seq (memberOf db c u)"
  unfolding memberOf_def applyBump_Inr(8) [OF assms]
  by (subst find_update_where) (auto simp: option.map_comp comp_def intro!: option.map_cong)

text \<open>
  A receipt. The mark becomes \<open>min (max old upTo) head\<close>: it never moves back, never
  passes the head, and is what the receipt reports; every other mark stays. A receipt that
  advances draws one position of the log and raises one notification with the span it
  covers; one that does not draws nothing and raises nothing.
\<close>

theorem markRead_moves_forward:
  assumes "chat_reach db" "memberOf db conv user = Some mb" "markRead db conv user n = (db', Inr r)"
  shows "\<exists>c. conversationByID db conv = Some c \<and> rp_UpToSeq r = min (max (mb_read_seq mb) n) (cv_last_seq c) \<and>
      mb_read_seq mb \<le> rp_UpToSeq r \<and>
      map_option mb_read_seq (memberOf db' conv user) = Some (rp_UpToSeq r) \<and>
      (\<forall>c u. (c, u) \<noteq> (conv, user) \<longrightarrow> map_option mb_read_seq (memberOf db' c u) = map_option mb_read_seq (memberOf db c u)) \<and>
      (rp_Advanced r \<longleftrightarrow> mb_read_seq mb < rp_UpToSeq r) \<and>
      (if rp_Advanced r
       then db_log_counter db' = db_log_counter db + 1 \<and>
            db_notify db' = db_notify db @ [NotifyReceipt conv user (mb_read_seq mb) (rp_UpToSeq r) None]
       else db_log_counter db' = db_log_counter db \<and> db_notify db' = db_notify db)"
proof -
  obtain c where c: "conversationByID db conv = Some c"
    using assms(2,3) by (cases "conversationByID db conv") (auto simp: markRead_def split: if_splits)
  define aft where "aft = min (max (mb_read_seq mb) n) (cv_last_seq c)"
  let ?db = "db\<lparr>db_members := update_where (\<lambda>m. mb_conversation_id m = conv \<and> mb_user_id m = user)
                            (\<lambda>m. m\<lparr>mb_read_seq := aft\<rparr>) (db_members db)\<rparr>"
  have "marks_below_head db" "distinct (map cv_id (db_conversations db))"
    using chat_reach_inv [OF assms(1)] by (simp_all add: log_inv_def)
  then have "mb_read_seq mb \<le> cv_last_seq c"
    using memberOf_Some [OF assms(2)] conversation_unique [OF _ c] by (metis marks_below_head_def)
  then have le: "mb_read_seq mb \<le> aft" by (simp add: aft_def)
  let ?r = "\<lparr>rp_ConversationID = conv, rp_UserID = user, rp_UpToSeq = aft, rp_Advanced = mb_read_seq mb < aft\<rparr>"
  have mk: "markRead db conv user n =
      (if mb_read_seq mb < aft then
         (case applyBump \<lparr>bp_convs = [], bp_members = [(conv, user)], bp_users = []\<rparr> ?db of
            Inl e \<Rightarrow> (db, Inl e)
          | Inr (db2, _) \<Rightarrow> (notify (NotifyReceipt conv user (mb_read_seq mb) aft None) db2, Inr ?r))
       else (?db, Inr ?r))"
  proof -
    have "\<not> n < 1" using assms(3) by (auto simp: markRead_def)
    then show ?thesis unfolding markRead_def Let_def assms(2) c aft_def option.case by (simp only: if_False)
  qed
  then have r: "r = ?r" using assms(3) by (auto split: if_splits sum.splits)
  have eff: "(\<forall>c u. map_option mb_read_seq (memberOf db' c u) = map_option mb_read_seq (memberOf ?db c u)) \<and>
      (if mb_read_seq mb < aft
       then db_log_counter db' = db_log_counter db + 1 \<and>
            db_notify db' = db_notify db @ [NotifyReceipt conv user (mb_read_seq mb) aft None]
       else db_log_counter db' = db_log_counter db \<and> db_notify db' = db_notify db)"
  proof (cases "mb_read_seq mb < aft")
    case False
    then have "db' = ?db" using mk assms(3) by simp
    then show ?thesis using False by simp
  next
    case True
    then obtain db2 v where b: "applyBump \<lparr>bp_convs = [], bp_members = [(conv, user)], bp_users = []\<rparr> ?db = Inr (db2, v)"
      "db' = notify (NotifyReceipt conv user (mb_read_seq mb) aft None) db2"
      using mk assms(3) by (auto split: sum.splits)
    have "map_option mb_read_seq (memberOf db' c u) = map_option mb_read_seq (memberOf ?db c u)" for c u
      using memberOf_bump [OF b(1)] by (simp add: b(2) memberOf_def)
    then show ?thesis using True applyBump_Inr(1,2,4) [OF b(1)] b(2) by simp
  qed
  have own: "map_option mb_read_seq (memberOf db' conv user) = Some aft"
    using eff assms(2) by (simp only: memberOf_update) simp
  have rest: "map_option mb_read_seq (memberOf db' c' u) = map_option mb_read_seq (memberOf db c' u)" if "(c', u) \<noteq> (conv, user)" for c' u
  proof -
    have "memberOf ?db c' u = memberOf db c' u" using that by (cases "memberOf db c' u") (auto simp: memberOf_update)
    then show ?thesis using eff by simp
  qed
  have rp: "rp_UpToSeq r = aft" "rp_Advanced r \<longleftrightarrow> mb_read_seq mb < aft" by (simp_all add: r)
  show ?thesis
    unfolding rp using c le own rest conjunct2 [OF eff] by (intro exI [of _ c] conjI allI impI) (simp_all only: aft_def refl)
qed

definition bobMember :: MemberT where
  "bobMember = \<lparr>mb_conversation_id = ''r'', mb_user_id = ''b'', mb_read_seq = 0, mb_muted = False, mb_metadata_log_seq = 1\<rparr>"

definition bobReceipt :: ReadReceipt where
  "bobReceipt = \<lparr>rp_ConversationID = ''r'', rp_UserID = ''b'', rp_UpToSeq = 1, rp_Advanced = True\<rparr>"

definition chatRead :: "unit DB" where "chatRead = fst (markRead chatOne ''r'' ''b'' 7)"

lemma chatRead_eq: "markRead chatOne ''r'' ''b'' 7 = (chatRead, Inr bobReceipt)"
  by code_simp

lemma chatRead_reach: "chat_reach chatRead"
  using chatOne_reach chat_step.read [of chatOne "''r''" "''b''" 7] unfolding chat_reach_def chatRead_def
  by (rule rtranclp.rtrancl_into_rtrancl)

theorem markRead_moves_forward_witness:
  "map_option mb_read_seq (memberOf chatRead ''r'' ''b'') = Some 1 \<and> db_log_counter chatRead = db_log_counter chatOne + 1"
proof -
  have "memberOf chatOne ''r'' ''b'' = Some bobMember" by code_simp
  from markRead_moves_forward [OF chatOne_reach this chatRead_eq] show ?thesis by (auto simp: bobReceipt_def)
qed

section \<open>Uploads\<close>

lemma takeWanted_ids:
  "takeWanted byID seen want = Some rows \<Longrightarrow> length rows = length want \<and> set (map na_UploadID want) \<subseteq> fst ` set byID"
  using takeWanted_Some [of byID seen want rows] by auto

lemma PostgresUploads_consumes:
  assumes "PostgresUploads t db uploader want = Inr (db', rows)" "w \<in> set want"
  shows "\<exists>u \<in> set (db_uploads db'). up_id u = na_UploadID w \<and> up_consumed_at u \<noteq> None"
proof -
  let ?P = "consumable (map na_UploadID want) uploader"
  from assms(1) have t: "takeWanted (map (\<lambda>u. (up_id u, attachmentOf u)) (filter ?P (db_uploads db))) [] want = Some rows"
    and db': "db_uploads db' = update_where ?P (\<lambda>u. u\<lparr>up_consumed_at := Some t\<rparr>) (db_uploads db)"
    by (auto simp: PostgresUploads_def Let_def split: option.splits)
  from takeWanted_ids [OF t] assms(2) obtain u where u: "u \<in> set (db_uploads db)" "?P u" "up_id u = na_UploadID w" by force
  then show ?thesis unfolding db' by (intro bexI [OF _ update_where_I [OF u(1)]]) simp_all
qed

text \<open>
  C28. An upload is attached once. A send that wrote with attachments leaves every upload it
  named consumed, and no transaction attaches an upload that is consumed: it is refused as
  not found before it draws anything, whoever asks.
\<close>

theorem upload_attached_once:
  assumes "send l (PostgresUploads t) d db0 db m = (db1, Inr s)" "\<not> so_Duplicate s" "w \<in> set (nm_Attachments m)"
  shows "(\<exists>u \<in> set (db_uploads db1). up_id u = na_UploadID w \<and> up_consumed_at u \<noteq> None) \<and>
    (\<forall>t' d' (db2 :: 'h DB) m' w' u. distinct (map up_id (db_uploads db2)) \<and> u \<in> set (db_uploads db2) \<and> up_consumed_at u \<noteq> None \<and>
       w' \<in> set (nm_Attachments m') \<and> na_UploadID w' = up_id u \<longrightarrow>
       writeSend (PostgresUploads t') d' db2 m' = Inl ErrUploadNotFound)"
proof
  obtain c row where "writeSend (PostgresUploads t) d db m = Inr (db1, s)"
    using assms(1,2) by (rule pg.send_wrote)
  then obtain db' atts where r: "resolveUploads (PostgresUploads t) db m = Inr (db', atts)" and up: "db_uploads db1 = db_uploads db'"
    by (auto simp: writeSend_def drawSeq_def drawLog_def insertMessage_def insertAttachments_def Let_def split: sum.splits option.splits if_splits)
  from r assms(3) obtain rows where "PostgresUploads t db (nm_AuthorID m) (nm_Attachments m) = Inr (db', rows)"
    by (auto simp: resolveUploads_def split: if_splits sum.splits)
  from PostgresUploads_consumes [OF this assms(3)]
  show "\<exists>u \<in> set (db_uploads db1). up_id u = na_UploadID w \<and> up_consumed_at u \<noteq> None" by (simp add: up)
  show "\<forall>t' d' (db2 :: 'h DB) m' w' u. distinct (map up_id (db_uploads db2)) \<and> u \<in> set (db_uploads db2) \<and> up_consumed_at u \<noteq> None \<and>
       w' \<in> set (nm_Attachments m') \<and> na_UploadID w' = up_id u \<longrightarrow>
       writeSend (PostgresUploads t') d' db2 m' = Inl ErrUploadNotFound"
  proof (intro allI impI, elim conjE)
    fix t' d' and db2 :: "'h DB" and m' :: NewMessage and w' :: NewAttachment and u :: UploadT
    assume h: "distinct (map up_id (db_uploads db2))" "u \<in> set (db_uploads db2)" "up_consumed_at u \<noteq> None"
      "w' \<in> set (nm_Attachments m')" "na_UploadID w' = up_id u"
    have "PostgresUploads t' db2 (nm_AuthorID m') (nm_Attachments m') \<noteq> Inr p" for p
      using pg.consumes_once [of t' db2 _ "nm_Attachments m'" _ _ u] h by (cases p) (metis imageI)
    then obtain e where "PostgresUploads t' db2 (nm_AuthorID m') (nm_Attachments m') = Inl e" by (meson sum.exhaust)
    then show "writeSend (PostgresUploads t') d' db2 m' = Inl ErrUploadNotFound"
      using pg.refuses h(4) by (auto simp: writeSend_def resolveUploads_def)
  qed
qed

theorem upload_attached_once_witness:
  "writeSend (PostgresUploads 9) helloDraws2 chatOne helloMsg = Inl ErrUploadNotFound"
proof -
  let ?u = "picture\<lparr>up_consumed_at := Some 5\<rparr>" and ?w = "\<lparr>na_Kind = ''image'', na_UploadID = ''p''\<rparr>"
  have d: "\<not> so_Duplicate helloSent" by (simp add: helloSent_def)
  have w: "?w \<in> set (nm_Attachments helloMsg)" by (simp add: helloMsg_def)
  have h: "distinct (map up_id (db_uploads chatOne)) \<and> ?u \<in> set (db_uploads chatOne) \<and> up_consumed_at ?u \<noteq> None \<and>
      ?w \<in> set (nm_Attachments helloMsg) \<and> na_UploadID ?w = up_id ?u"
    by (simp add: chatOne_eq helloMsg_def picture_def)
  from upload_attached_once [OF chatOne_send d w] h show ?thesis by blast
qed

end
