(* ===== verification/Socket_Props.thy ===== *)
theory Socket_Props
  imports Api_Socket Hub_Props Log_Props
begin

text \<open>
  What the door promises: which upgrades it admits, that a session speaks for the account and the
  device of its credential and for nobody else, that it greets once and answers every send once,
  when the watchdog severs it, and that it keeps the invariants of the store and of the hub. The
  last is proved over a locale, the contract of the functions a session is given, with the wired
  store and hub as its instances.
\<close>

section \<open>Frames of the connection\<close>

lemma sock_frames [simp]:
  "sk_world (onWorld f sk) = f (sk_world sk)" "sk_out (onWorld f sk) = sk_out sk" "sk_closed (onWorld f sk) = sk_closed sk"
  "sk_writes (onWorld f sk) = sk_writes sk"
  "sk_world (closeWith n r sk) = sk_world sk" "sk_out (closeWith n r sk) = sk_out sk"
  by (simp_all add: onWorld_def closeWith_def)

lemma writeFrame_world [simp]: "sk_world (fst (writeFrame f sk)) = sk_world sk" "sk_closed (fst (writeFrame f sk)) = sk_closed sk"
  by (simp_all add: writeFrame_def split: list.split)

lemma writeFrame_out: "sk_out (fst (writeFrame f sk)) = (if snd (writeFrame f sk) then sk_out sk @ [f] else sk_out sk)"
  by (simp add: writeFrame_def split: list.split)

lemma endSession_frame [simp]: "sk_world (endSession r sk) = sk_world sk" "sk_out (endSession r sk) = sk_out sk"
  by (simp_all add: endSession_def split: read_result.split)

lemma refuseSession_world [simp]: "sk_world (refuseSession e sk) = sk_world sk"
  by (simp add: refuseSession_def)

section \<open>The contract of a session's functions\<close>

text \<open>
  Whatever the state behind a session keeps under its own calls, made for one account and one
  device, and under what everybody else does, it keeps over the whole session.
\<close>

definition others_keep :: "('s \<Rightarrow> bool) \<Rightarrow> 's Inbound list \<Rightarrow> bool" where
  "others_keep keeps es \<longleftrightarrow> (\<forall>e \<in> set es. \<forall>w. keeps w \<longrightarrow> keeps (ib_env e w))"

lemma others_keep_Cons: "others_keep keeps (e # es) \<longleftrightarrow> (\<forall>w. keeps w \<longrightarrow> keeps (ib_env e w)) \<and> others_keep keeps es"
  by (simp add: others_keep_def)

locale session_service =
  fixes d :: "'s Deps" and user device :: uuid and keeps :: "'s \<Rightarrow> bool"
  assumes send_keeps: "keeps w \<Longrightarrow> nm_AuthorID m = user \<Longrightarrow> nm_SenderDeviceID m = Some device \<Longrightarrow> keeps (fst (dp_Send d m w))"
    and attach_keeps: "dp_Attach d = Some attach \<Longrightarrow> keeps w \<Longrightarrow> hc_UserID c = user \<Longrightarrow> hc_DeviceID c = device \<Longrightarrow> keeps (attach c w)"
    and detach_keeps: "keeps w \<Longrightarrow> hc_UserID c = user \<Longrightarrow> hc_DeviceID c = device \<Longrightarrow> keeps (dp_Detach d c w)"
    and handle_keeps: "dp_Handle d = Some handle \<Longrightarrow> keeps w \<Longrightarrow> hc_UserID c = user \<Longrightarrow> hc_DeviceID c = device \<Longrightarrow> keeps (handle c f w)"
begin

lemma handleSend_keeps:
  assumes "keeps (sk_world sk)" "hc_UserID sess = user" "hc_DeviceID sess = device"
  shows "keeps (sk_world (fst (handleSend d sess v sk)))"
  using send_keeps [OF assms(1), of "sendRequest d sess v"] assms(2,3)
  by (auto simp: handleSend_def sendRequest_def split: prod.split)

lemma readLoop_keeps:
  assumes "hc_UserID sess = user" "hc_DeviceID sess = device"
  shows "others_keep keeps es \<Longrightarrow> keeps (sk_world sk) \<Longrightarrow> keeps (sk_world (readLoop d sess window deadline es sk))"
proof (induction es arbitrary: deadline sk)
  case (Cons e es)
  let ?sk = "onWorld (ib_env e) sk"
  have k: "keeps (sk_world ?sk)" and o: "others_keep keeps es" using Cons.prems by (simp_all add: others_keep_Cons)
  note go = Cons.IH [OF o]
  show ?case
  proof (cases "deadline \<le> ib_at e")
    case False
    show ?thesis
    proof (cases "ib_read e")
      case (ReadFrame f)
      show ?thesis
      proof (cases f)
        case (CPing i)
        obtain sk2 ok where w: "writeFrame (FPong i) ?sk = (sk2, ok)" by fastforce
        then have "keeps (sk_world sk2)" using k writeFrame_world(1) [of "FPong i" ?sk] by simp
        then show ?thesis using False ReadFrame CPing go w by (simp add: Let_def)
      next
        case (CSend v)
        have "keeps (sk_world (fst (handleSend d sess v ?sk)))" using handleSend_keeps [OF k assms] .
        then show ?thesis using False ReadFrame CSend go by (auto simp: Let_def split: prod.split)
      next
        case (CRead conv n)
        then show ?thesis using False ReadFrame k go handle_keeps assms by (auto simp: Let_def split: option.split)
      next
        case (CTyping conv st)
        then show ?thesis using False ReadFrame k go handle_keeps assms by (auto simp: Let_def split: option.split)
      qed (use False ReadFrame k go in \<open>auto simp: Let_def\<close>)
    qed (use False k go in \<open>auto simp: Let_def\<close>)
  qed (use Cons.prems in simp)
qed simp

lemma openSession_keeps:
  assumes "hc_UserID sess = user" "hc_DeviceID sess = device" "others_keep keeps es" "keeps (sk_world sk)"
  shows "keeps (sk_world (openSession d sess now res es sk))"
proof -
  define sk1 where "sk1 = (case dp_Attach d of None \<Rightarrow> sk | Some attach \<Rightarrow> onWorld (attach sess) sk)"
  have "keeps (sk_world sk1)" using assms attach_keeps by (auto simp: sk1_def split: option.split)
  moreover obtain sk2 ok where w: "writeFrame (FReady (readyFrame d (hc_SessionID sess) now res)) sk1 = (sk2, ok)" by fastforce
  ultimately have "keeps (sk_world sk2)" using writeFrame_world(1) [of "FReady (readyFrame d (hc_SessionID sess) now res)" sk1] by simp
  then have "keeps (sk_world (case writeFrame (FReady (readyFrame d (hc_SessionID sess) now res)) sk1 of
      (sk2, ok) \<Rightarrow> if ok then readLoop d sess window (now + window) es sk2 else sk2))" for window
    unfolding w using readLoop_keeps [OF assms(1,2,3)] by simp
  then show ?thesis
    unfolding openSession_def Let_def sk1_def [symmetric] using detach_keeps assms(1,2) by (simp split: prod.split)
qed

lemma awaitHello_keeps:
  "others_keep keeps es \<Longrightarrow> keeps (sk_world sk) \<Longrightarrow> awaitHello deadline es sk = (sk', r) \<Longrightarrow>
   keeps (sk_world sk') \<and> (case r of None \<Rightarrow> True | Some (h, t, rest) \<Rightarrow> others_keep keeps rest)"
  by (induction deadline es sk rule: awaitHello.induct)
    (auto simp: others_keep_Cons Let_def split: if_splits read_result.splits ClientFrame.splits)

lemma serveSession_keeps:
  assumes "ca_UserID caller = user" "ca_DeviceID caller = device" "others_keep keeps es" "keeps (sk_world sk)"
  shows "keeps (sk_world (serveSession d sid caller now es sk))"
proof -
  obtain sk1 r where a: "awaitHello (now + helloTimeout d) es sk = (sk1, r)" by fastforce
  note k = awaitHello_keeps [OF assms(3,4) a]
  show ?thesis
  proof (cases r)
    case None
    then show ?thesis using k a by (simp add: serveSession_def)
  next
    case (Some x)
    obtain h t rest where x: "x = (h, t, rest)" by (cases x)
    have "keeps (sk_world (openSession d \<lparr>hc_SessionID = sid, hc_UserID = ca_UserID caller, hc_DeviceID = ca_DeviceID caller\<rparr> t res rest sk1))" for res
      using openSession_keeps k Some x assms(1,2) by simp
    then show ?thesis using k Some x a by (simp add: serveSession_def split: sum.split)
  qed
qed

end

section \<open>The store and the hub behind a session\<close>

lemma connPos_less: "connPos c h = Some p \<Longrightarrow> p < length (hb_objs h)"
  by (auto simp: connPos_def dest: find_SomeD)

lemma MarkRead_fst: "fst (MarkRead db conv user n) = fst (markRead db conv user n)"
  by (simp add: MarkRead_def split: prod.split sum.split)

lemma SendMessage_fst: "fst (SendMessage l resolve draws db0 db m) = fst (send l resolve draws db0 db m)"
  by (simp add: SendMessage_def split: prod.split sum.split)

lemma wiredSend_fst:
  "fst (dp_Send (wiredDeps dbnow wr) m (db, h)) =
   (fst (send (wr_limits wr) (PostgresUploads dbnow) (wr_draws wr db) (wr_stale wr db) db m), h)"
  using SendMessage_fst [of "wr_limits wr" "PostgresUploads dbnow" "wr_draws wr db" "wr_stale wr db" db m]
  by (auto simp: wiredDeps_def split: prod.split)

lemma hubAttach_inv: "hub_inv h \<Longrightarrow> hub_inv (snd (hubAttach c (db, h))) \<and> fst (hubAttach c (db, h)) = db"
proof -
  assume h: "hub_inv h"
  have a: "hub_inv (Attach c h)" using hub_step_inv [OF hub_step.attach h] .
  have l: "length (hb_objs h) < length (hb_objs (Attach c h))" by (simp add: Attach_def closeConn_def upd_def Let_def)
  show ?thesis using a severIfDead_inv [OF a l] by (simp add: hubAttach_def Let_def)
qed

lemma hubDetach_inv: "hub_inv h \<Longrightarrow> hub_inv (snd (hubDetach c (db, h))) \<and> fst (hubDetach c (db, h)) = db"
proof (cases "connPos c h")
  case (Some p)
  assume h: "hub_inv h"
  obtain h1 changed where d: "detach p h = (h1, changed)" by fastforce
  have "hub_inv (fst (detach p h))" using hub_step_inv [OF hub_step.detaching [OF connPos_less [OF Some]] h] .
  then have "hub_inv (fold (\<lambda>conv. emitTyping conv (Inr (Members db conv)) None) changed h1)"
    unfolding d fst_conv by (induction changed arbitrary: h1) (simp_all add: hub_step_inv [OF hub_step.typingList])
  then show ?thesis using Some d by (simp add: hubDetach_def)
qed (simp add: hubDetach_def)

lemma hubHandle_inv:
  assumes "hub_inv h"
  shows "hub_inv (snd (hubHandle wr c f (db, h)))"
    "fst (hubHandle wr c f (db, h)) = db \<or> (\<exists>conv n. fst (hubHandle wr c f (db, h)) = fst (markRead db conv (hc_UserID c) n))"
proof -
  show "hub_inv (snd (hubHandle wr c f (db, h)))"
    using assms connPos_less
    by (auto simp: hubHandle_def Let_def split: ClientFrame.split prod.split option.split
        intro: hub_step_inv [OF hub_step.markingRead] hub_step_inv [OF hub_step.typing])
  show "fst (hubHandle wr c f (db, h)) = db \<or> (\<exists>conv n. fst (hubHandle wr c f (db, h)) = fst (markRead db conv (hc_UserID c) n))"
  proof (cases f)
    case (CRead conv n)
    let ?conv = "case wr_parse wr conv of None \<Rightarrow> uuid_Nil | Some u \<Rightarrow> u"
    have "fst (hubHandle wr c f (db, h)) = fst (MarkRead db ?conv (hc_UserID c) n)"
      by (simp add: CRead hubHandle_def Let_def split: prod.split)
    then show ?thesis unfolding MarkRead_fst by blast
  qed (simp_all add: hubHandle_def Let_def)
qed

interpretation wired: session_service "wiredDeps dbnow wr" user device "\<lambda>(db, h). log_inv db \<and> hub_inv h" for dbnow wr user device
proof unfold_locales
  fix w :: "'a Served" and m :: NewMessage and c :: HubConn and f
  assume "case w of (db, h) \<Rightarrow> log_inv db \<and> hub_inv h"
  then obtain db h where w: "w = (db, h)" "log_inv db" "hub_inv h" by (cases w) auto
  show "case fst (dp_Send (wiredDeps dbnow wr) m w) of (db, h) \<Rightarrow> log_inv db \<and> hub_inv h"
    using w pg.send_inv [OF w(2)] by (simp add: w(1) wiredSend_fst)
  show "case dp_Detach (wiredDeps dbnow wr) c w of (db, h) \<Rightarrow> log_inv db \<and> hub_inv h"
    using hubDetach_inv [OF w(3), of c db] w by (auto simp: wiredDeps_def split: prod.split)
  show "dp_Attach (wiredDeps dbnow wr) = Some attach \<Longrightarrow> case attach c w of (db, h) \<Rightarrow> log_inv db \<and> hub_inv h" for attach
    using hubAttach_inv [OF w(3), of c db] w by (auto simp: wiredDeps_def split: prod.split)
  show "dp_Handle (wiredDeps dbnow wr) = Some handle \<Longrightarrow> case handle c f w of (db, h) \<Rightarrow> log_inv db \<and> hub_inv h" for handle
    using hubHandle_inv [OF w(3), of wr c f db] w markRead_inv [OF w(2)]
    by (auto simp: wiredDeps_def split: prod.split)
qed

text \<open>What a session adds to the log, when nobody else does: messages of its own account.\<close>

definition addedBy :: "uuid \<Rightarrow> MessageRow list \<Rightarrow> 'h Served \<Rightarrow> bool" where
  "addedBy user base = (\<lambda>(db, h). hub_inv h \<and> (\<exists>new. db_messages db = base @ new \<and> (\<forall>m \<in> set new. mr_AuthorID m = user)))"

lemma addedBy_messages: "addedBy user base (db, h) \<Longrightarrow> db_messages db' = db_messages db \<Longrightarrow> hub_inv h' \<Longrightarrow> addedBy user base (db', h')"
  by (simp add: addedBy_def)

interpretation own: session_service "wiredDeps dbnow wr" user device "addedBy user base" for dbnow wr user device base
proof unfold_locales
  fix w :: "'a Served" and m :: NewMessage and c :: HubConn and f
  assume k: "addedBy user base w"
  then obtain db h where w: "w = (db, h)" "hub_inv h" by (cases w) (auto simp: addedBy_def)
  note k = k [unfolded w(1)]
  show "addedBy user base (fst (dp_Send (wiredDeps dbnow wr) m w))" if "nm_AuthorID m = user"
  proof (cases rule: pg.send_cases [of "wr_limits wr" dbnow "wr_draws wr db" "wr_stale wr db" db m])
    case same
    then show ?thesis using k by (simp add: w(1) wiredSend_fst)
  next
    case (wrote cv row)
    then have "db_messages (fst (send (wr_limits wr) (PostgresUploads dbnow) (wr_draws wr db) (wr_stale wr db) db m)) = db_messages db @ [row]"
      by (simp add: appended_def)
    then show ?thesis using k wrote(5) that by (auto simp: w(1) wiredSend_fst addedBy_def)
  qed
  show "addedBy user base (dp_Detach (wiredDeps dbnow wr) c w)"
    using hubDetach_inv [OF w(2), of c db] k by (cases "hubDetach c (db, h)") (auto simp: w(1) wiredDeps_def elim!: addedBy_messages)
  show "dp_Attach (wiredDeps dbnow wr) = Some attach \<Longrightarrow> addedBy user base (attach c w)" for attach
    using hubAttach_inv [OF w(2), of c db] k by (cases "hubAttach c (db, h)") (auto simp: w(1) wiredDeps_def elim!: addedBy_messages)
  show "dp_Handle (wiredDeps dbnow wr) = Some handle \<Longrightarrow> addedBy user base (handle c f w)" for handle
  proof -
    have "db_messages (fst (hubHandle wr c f (db, h))) = db_messages db"
      using hubHandle_inv(2) [OF w(2), of wr c f db] markRead_quiet [of db _ "hc_UserID c"] by (auto simp: quiet_def)
    then show "dp_Handle (wiredDeps dbnow wr) = Some handle \<Longrightarrow> addedBy user base (handle c f w)"
      using hubHandle_inv(1) [OF w(2), of wr c f db] k
      by (cases "hubHandle wr c f (db, h)") (auto simp: w(1) wiredDeps_def elim!: addedBy_messages)
  qed
qed

text \<open>
  C8. A session keeps the deployment sound and speaks for its own account only. Whatever the frames are, if
  everybody else keeps the log and the hub sound, they are sound when the session is over; and
  when nobody else writes, every message it added is by the account its credential belongs to.
\<close>

theorem session_keeps_the_deployment:
  assumes "sk_world sk = (db, h)" "log_inv db" "hub_inv h"
    and "\<forall>e \<in> set es. \<forall>db h. log_inv db \<and> hub_inv h \<longrightarrow> (case ib_env e (db, h) of (db', h') \<Rightarrow> log_inv db' \<and> hub_inv h')"
    and "sk_world (serveSession (wiredDeps dbnow wr) sid caller now es sk) = (db', h')"
  shows "log_inv db' \<and> hub_inv h' \<and>
    ((\<forall>e \<in> set es. ib_env e = (\<lambda>w. w)) \<longrightarrow>
       (\<exists>new. db_messages db' = db_messages db @ new \<and> (\<forall>m \<in> set new. mr_AuthorID m = ca_UserID caller)))"
proof
  have "others_keep (\<lambda>(db, h). log_inv db \<and> hub_inv h) es" using assms(4) by (auto simp: others_keep_def)
  from wired.serveSession_keeps [OF refl refl this, of sk dbnow wr sid caller now] assms
  show "log_inv db'" by simp
next
  have "others_keep (\<lambda>(db, h). log_inv db \<and> hub_inv h) es" using assms(4) by (auto simp: others_keep_def)
  from wired.serveSession_keeps [OF refl refl this, of sk dbnow wr sid caller now] assms
  have h: "hub_inv h'" by simp
  have "\<exists>new. db_messages db' = db_messages db @ new \<and> (\<forall>m \<in> set new. mr_AuthorID m = ca_UserID caller)"
    if "\<forall>e \<in> set es. ib_env e = (\<lambda>w. w)"
  proof -
    have "others_keep (addedBy (ca_UserID caller) (db_messages db)) es" using that by (simp add: others_keep_def)
    moreover have "addedBy (ca_UserID caller) (db_messages db) (sk_world sk)" using assms(1,3) by (simp add: addedBy_def)
    ultimately have "addedBy (ca_UserID caller) (db_messages db) (sk_world (serveSession (wiredDeps dbnow wr) sid caller now es sk))"
      using own.serveSession_keeps [OF refl refl] by blast
    then show ?thesis by (simp add: assms(5) addedBy_def)
  qed
  with h show "hub_inv h' \<and> ((\<forall>e \<in> set es. ib_env e = (\<lambda>w. w)) \<longrightarrow>
       (\<exists>new. db_messages db' = db_messages db @ new \<and> (\<forall>m \<in> set new. mr_AuthorID m = ca_UserID caller)))" by blast
qed

section \<open>The upgrade\<close>

text \<open>
  C10. Which upgrades are admitted. A session begins exactly when one token subprotocol was offered, well
  formed, beside \<open>catenary.v1\<close>, the token authenticates a caller that is not a service account, and
  the library accepts the switch; it is then a session of that caller and the token is not echoed.
  No credential, one the store refuses and one of a service account are refused alike.
\<close>

theorem upgrade_admits:
  fixes d :: "'s Deps"
  assumes "offered = offeredSubprotocols headers" "answer = socketHandler d accepts sid headers now es sk"
  shows "((\<exists>echo sk'. answer = Upgraded echo sk') \<longleftrightarrow>
      (\<exists>t caller. offeredTokens offered = [t] \<and> validToken t \<and> subprotocolV1 \<in> set offered \<and>
         dp_Authenticate d (sk_world sk) t = Inr caller \<and> \<not> IsBot caller \<and> accepts)) \<and>
    (\<forall>echo sk'. answer = Upgraded echo sk' \<longrightarrow> (\<exists>t caller. offeredTokens offered = [t] \<and> echo = ''catenary.v1'' \<and>
         dp_Authenticate d (sk_world sk) t = Inr caller \<and> sk' = serveSession d sid caller now es sk)) \<and>
    (offeredTokens offered = [] \<longrightarrow> answer = unauthorizedAnswer) \<and>
    (\<forall>t. offeredTokens offered = [t] \<and> validToken t \<and> subprotocolV1 \<in> set offered \<and>
         (dp_Authenticate d (sk_world sk) t = Inl ErrUnauthorized \<or>
          (\<exists>caller. dp_Authenticate d (sk_world sk) t = Inr caller \<and> IsBot caller)) \<longrightarrow> answer = unauthorizedAnswer) \<and>
    (\<forall>body. answer = Refused 401 body \<longrightarrow> body = CodeBody ''unauthorized'')"
proof -
  have one: "(\<exists>t. offeredTokens offered = [t]) \<longleftrightarrow> length (offeredTokens offered) = 1" by (simp add: length_Suc_conv)
  note h = assms(2) [unfolded socketHandler_def Let_def assms(1) [symmetric]]
  consider "offeredTokens offered = []" | t where "offeredTokens offered = [t]" | "1 < length (offeredTokens offered)"
    using one by (cases "length (offeredTokens offered)") (auto simp: less_Suc_eq_0_disj)
  then show ?thesis
  proof cases
    case 1
    then show ?thesis by (simp add: h unauthorizedAnswer_def)
  next
    case (2 t)
    then show ?thesis
      by (cases "dp_Authenticate d (sk_world sk) t") (auto simp: h unauthorizedAnswer_def subprotocolV1_def)
  next
    case 3
    then show ?thesis by (auto simp: h)
  qed
qed

section \<open>The greeting and the answers\<close>

text \<open>Which client id a frame answers, and the client ids of the sends among what was read.\<close>

definition answered :: "ServerFrame list \<Rightarrow> string list" where
  "answered fs = List.map_filter (\<lambda>f. case f of FAck a \<Rightarrow> Some (ak_ClientID a) | FError e \<Rightarrow> se_ClientID e | _ \<Rightarrow> None) fs"

definition sendsOf :: "'s Inbound list \<Rightarrow> string list" where
  "sendsOf es = List.map_filter (\<lambda>e. case ib_read e of ReadFrame (CSend v) \<Rightarrow> Some (cs_ClientID v) | _ \<Rightarrow> None) es"

lemma answered_Cons: "answered (f # fs) = answered [f] @ answered fs"
  by (simp add: answered_def map_filter_def)

lemma answered_simps [simp]:
  "answered [] = []" "answered [sendAnswer v r] = [cs_ClientID v]" "answered [FPong i] = []"
  by (simp_all add: answered_def map_filter_def sendAnswer_def split: sum.split)

lemma sendsOf_simps [simp]:
  "sendsOf [] = []" "sendsOf (e # es) = (case ib_read e of ReadFrame (CSend v) \<Rightarrow> [cs_ClientID v] | _ \<Rightarrow> []) @ sendsOf es"
  by (simp_all add: sendsOf_def map_filter_def split: read_result.split ClientFrame.split)

lemma sendAnswer_not_ready [simp]: "sendAnswer v r \<noteq> FReady x"
  by (simp add: sendAnswer_def split: sum.split)

lemma handleSend_out:
  "\<exists>r. handleSend d sess v sk = writeFrame (sendAnswer v r) (sk\<lparr>sk_world := fst (dp_Send d (sendRequest d sess v) (sk_world sk))\<rparr>)"
  by (auto simp: handleSend_def split: prod.split)

text \<open>What the read loop writes: pongs and answers, the answers to a prefix of the sends it read.\<close>

definition repliesTo :: "'s Inbound list \<Rightarrow> ServerFrame list \<Rightarrow> bool" where
  "repliesTo es fs \<longleftrightarrow> (\<exists>k. answered fs = take k (sendsOf es)) \<and> (\<forall>r. FReady r \<notin> set fs)"

lemma repliesTo_nil [simp]: "repliesTo es []"
  by (auto simp: repliesTo_def intro: exI [of _ 0])

lemma repliesTo_step:
  assumes "repliesTo es fs" "answered [f] = (case ib_read e of ReadFrame (CSend v) \<Rightarrow> [cs_ClientID v] | _ \<Rightarrow> [])" "\<And>r. f \<noteq> FReady r"
  shows "repliesTo (e # es) (f # fs)"
proof -
  obtain k where k: "answered fs = take k (sendsOf es)" using assms(1) by (auto simp: repliesTo_def)
  have "answered (f # fs) = take (length (answered [f]) + k) (sendsOf (e # es))"
    unfolding answered_Cons [of f fs] sendsOf_simps(2) assms(2) [symmetric] k by simp
  then show ?thesis using assms(1,3) by (auto simp: repliesTo_def)
qed

lemma repliesTo_skip:
  assumes "repliesTo es fs" "\<And>v. ib_read e \<noteq> ReadFrame (CSend v)"
  shows "repliesTo (e # es) fs"
proof -
  have "sendsOf (e # es) = sendsOf es" using assms(2) by (auto split: read_result.split ClientFrame.split)
  then show ?thesis using assms(1) unfolding repliesTo_def by metis
qed

lemma readLoop_replies: "\<exists>fs. sk_out (readLoop d sess window deadline es sk) = sk_out sk @ fs \<and> repliesTo es fs"
proof (induction es arbitrary: deadline sk)
  case Nil
  show ?case by (simp add: exI [of _ "[]"])
next
  case (Cons e es)
  let ?sk = "onWorld (ib_env e) sk"
  have skip: ?case if "readLoop d sess window deadline (e # es) sk = readLoop d sess window dl es sk'" "sk_out sk' = sk_out sk"
    "\<And>v. ib_read e \<noteq> ReadFrame (CSend v)" for dl sk'
    using Cons.IH [of dl sk'] repliesTo_skip that by metis
  have wrote: ?case if "readLoop d sess window deadline (e # es) sk =
      (if snd (writeFrame f sk0) then readLoop d sess window dl es (fst (writeFrame f sk0)) else fst (writeFrame f sk0))"
    "sk_out sk0 = sk_out sk" "answered [f] = (case ib_read e of ReadFrame (CSend v) \<Rightarrow> [cs_ClientID v] | _ \<Rightarrow> [])" "\<And>r. f \<noteq> FReady r"
    for f sk0 dl
  proof (cases "snd (writeFrame f sk0)")
    case True
    obtain fs where fs: "sk_out (readLoop d sess window dl es (fst (writeFrame f sk0))) = sk_out (fst (writeFrame f sk0)) @ fs" "repliesTo es fs"
      using Cons.IH [of dl "fst (writeFrame f sk0)"] by blast
    then show ?thesis using that True repliesTo_step [OF fs(2) that(3,4)]
      by (intro exI [of _ "f # fs"]) (simp add: writeFrame_out)
  next
    case False
    then show ?thesis using that(1,2) by (intro exI [of _ "[]"]) (simp add: writeFrame_out)
  qed
  have stop: ?case if "sk_out (readLoop d sess window deadline (e # es) sk) = sk_out sk"
    using that by (intro exI [of _ "[]"]) simp
  show ?case
  proof (cases "deadline \<le> ib_at e")
    case False
    show ?thesis
    proof (cases "ib_read e")
      case (ReadFrame f)
      show ?thesis
      proof (cases f)
        case (CPing i)
        show ?thesis
          by (rule wrote [of "FPong i" ?sk "ib_at e + window"]) (use False ReadFrame CPing in \<open>auto simp: Let_def split: prod.split\<close>)
      next
        case (CPong i)
        show ?thesis by (rule skip [of deadline ?sk]) (use False ReadFrame CPong in \<open>auto simp: Let_def\<close>)
      next
        case (CHello h)
        show ?thesis by (rule stop) (use False ReadFrame CHello in \<open>auto simp: Let_def\<close>)
      next
        case (CSend v)
        obtain r where r: "handleSend d sess v ?sk = writeFrame (sendAnswer v r) (?sk\<lparr>sk_world := fst (dp_Send d (sendRequest d sess v) (sk_world ?sk))\<rparr>)"
          using handleSend_out by blast
        show ?thesis
          by (rule wrote [of "sendAnswer v r" "?sk\<lparr>sk_world := fst (dp_Send d (sendRequest d sess v) (sk_world ?sk))\<rparr>" deadline])
            (use False ReadFrame CSend r in \<open>auto simp: Let_def split: prod.split\<close>)
      next
        case (CRead conv n)
        show ?thesis
          by (rule skip [of deadline "case dp_Handle d of None \<Rightarrow> ?sk | Some handle \<Rightarrow> onWorld (handle sess f) ?sk"])
            (use False ReadFrame CRead in \<open>auto simp: Let_def split: option.split\<close>)
      next
        case (CTyping conv st)
        show ?thesis
          by (rule skip [of deadline "case dp_Handle d of None \<Rightarrow> ?sk | Some handle \<Rightarrow> onWorld (handle sess f) ?sk"])
            (use False ReadFrame CTyping in \<open>auto simp: Let_def split: option.split\<close>)
      qed
    next
      case ReadUnknown
      show ?thesis by (rule skip [of deadline ?sk]) (use False ReadUnknown in \<open>auto simp: Let_def\<close>)
    qed (use False stop in \<open>auto simp: Let_def\<close>)
  qed (use stop in simp)
qed

lemma awaitHello_Some:
  "awaitHello deadline es sk = (sk', Some (h, t, rest)) \<Longrightarrow>
   \<exists>pre e. es = pre @ e # rest \<and> ib_read e = ReadFrame (CHello h) \<and> ib_at e = t \<and> t < deadline \<and>
     (\<forall>x \<in> set pre. ib_read x = ReadUnknown) \<and> sk_out sk' = sk_out sk"
proof (induction deadline es sk rule: awaitHello.induct)
  case (2 deadline e es sk)
  show ?case
  proof (cases "ib_read e")
    case (ReadFrame f)
    then show ?thesis using 2 by (intro exI [of _ "[]"] exI [of _ e]) (auto simp: Let_def split: if_splits ClientFrame.splits)
  next
    case ReadUnknown
    then have "awaitHello deadline es (onWorld (ib_env e) sk) = (sk', Some (h, t, rest))"
      using "2.prems" by (auto simp: Let_def split: if_splits)
    from "2.IH" [OF _ refl ReadUnknown this] "2.prems" obtain pre x where
      "es = pre @ x # rest \<and> ib_read x = ReadFrame (CHello h) \<and> ib_at x = t \<and> t < deadline \<and>
       (\<forall>y \<in> set pre. ib_read y = ReadUnknown) \<and> sk_out sk' = sk_out sk" by (auto split: if_splits)
    then show ?thesis using ReadUnknown by (intro exI [of _ "e # pre"] exI [of _ x]) auto
  qed (use "2.prems" in \<open>auto simp: Let_def split: if_splits\<close>)
qed simp

lemma awaitHello_out: "sk_out (fst (awaitHello deadline es sk)) = sk_out sk"
  by (induction deadline es sk rule: awaitHello.induct) (auto simp: Let_def split: read_result.split ClientFrame.split)

lemma refuseSession_out: "sk_out (refuseSession e sk) = sk_out sk \<or> sk_out (refuseSession e sk) = sk_out sk @ [FError e]"
  by (simp add: refuseSession_def writeFrame_out)

lemma openSession_out:
  "sk_out (openSession d sess now res es sk) = sk_out sk \<or>
   (\<exists>fs. sk_out (openSession d sess now res es sk) = sk_out sk @ FReady (readyFrame d (hc_SessionID sess) now res) # fs \<and> repliesTo es fs)"
proof -
  define sk1 where "sk1 = (case dp_Attach d of None \<Rightarrow> sk | Some attach \<Rightarrow> onWorld (attach sess) sk)"
  define window where "window = heartbeatWindow (fst (heartbeatDial d)) (snd (heartbeatDial d))"
  let ?f = "FReady (readyFrame d (hc_SessionID sess) now res)"
  define sk3 where "sk3 = (if snd (writeFrame ?f sk1) then readLoop d sess window (now + window) es (fst (writeFrame ?f sk1)) else fst (writeFrame ?f sk1))"
  have eq: "openSession d sess now res es sk = (if dp_Attach d = None then sk3 else onWorld (dp_Detach d sess) sk3)"
    by (simp add: openSession_def Let_def sk1_def [symmetric] sk3_def window_def split: prod.split)
  have "sk_out sk1 = sk_out sk" by (simp add: sk1_def split: option.split)
  then have "sk_out sk3 = sk_out sk \<or> (\<exists>fs. sk_out sk3 = sk_out sk @ ?f # fs \<and> repliesTo es fs)"
    using readLoop_replies [of d sess window "now + window" es "fst (writeFrame ?f sk1)"] by (auto simp: sk3_def writeFrame_out)
  then show ?thesis unfolding eq by simp
qed


section \<open>The watchdog\<close>

text \<open>Frames that do not end a session, the deadline the pings leave behind, and arriving before it.\<close>

definition steady :: "'s Inbound \<Rightarrow> bool" where
  "steady e \<longleftrightarrow> (case ib_read e of ReadFrame (CHello _) \<Rightarrow> False | ReadMalformed _ \<Rightarrow> False | ReadError _ \<Rightarrow> False | _ \<Rightarrow> True)"

definition pinged :: "duration \<Rightarrow> gotime \<Rightarrow> 's Inbound \<Rightarrow> gotime" where
  "pinged window deadline e = (case ib_read e of ReadFrame (CPing _) \<Rightarrow> ib_at e + window | _ \<Rightarrow> deadline)"

fun watchdogAt :: "duration \<Rightarrow> gotime \<Rightarrow> 's Inbound list \<Rightarrow> gotime" where
  "watchdogAt window deadline [] = deadline"
| "watchdogAt window deadline (e # es) = watchdogAt window (pinged window deadline e) es"

fun onTime :: "duration \<Rightarrow> gotime \<Rightarrow> 's Inbound list \<Rightarrow> bool" where
  "onTime window deadline [] = True"
| "onTime window deadline (e # es) = (ib_at e < deadline \<and> onTime window (pinged window deadline e) es)"

lemma readLoop_one:
  assumes "sk_closed sk = None" "sk_writes sk = []" "steady e" "ib_at e < deadline"
  obtains sk' fs where "\<And>es. readLoop d sess window deadline (e # es) sk = readLoop d sess window (pinged window deadline e) es sk'"
    "sk_closed sk' = None" "sk_writes sk' = []" "sk_out sk' = sk_out sk @ fs"
    "answered fs = (case ib_read e of ReadFrame (CSend v) \<Rightarrow> [cs_ClientID v] | _ \<Rightarrow> [])"
proof -
  let ?sk = "onWorld (ib_env e) sk"
  have w: "writeFrame f (?sk\<lparr>sk_world := x\<rparr>) = (?sk\<lparr>sk_world := x, sk_out := sk_out sk @ [f]\<rparr>, True)"
    "writeFrame f ?sk = (?sk\<lparr>sk_out := sk_out sk @ [f]\<rparr>, True)" for f x
    using assms(1,2) by (simp_all add: writeFrame_def onWorld_def)
  show thesis
  proof (cases "ib_read e")
    case (ReadFrame f)
    show thesis
    proof (cases f)
      case (CPing i)
      show thesis by (rule that [of "?sk\<lparr>sk_out := sk_out sk @ [FPong i]\<rparr>" "[FPong i]"])
          (use assms ReadFrame CPing w in \<open>simp_all add: pinged_def Let_def\<close>)
    next
      case (CPong i)
      show thesis by (rule that [of ?sk "[]"]) (use assms ReadFrame CPong in \<open>simp_all add: pinged_def Let_def\<close>)
    next
      case (CHello h)
      then show thesis using assms(3) ReadFrame by (simp add: steady_def)
    next
      case (CSend v)
      obtain r where r: "handleSend d sess v ?sk = writeFrame (sendAnswer v r) (?sk\<lparr>sk_world := fst (dp_Send d (sendRequest d sess v) (sk_world ?sk))\<rparr>)"
        using handleSend_out by blast
      show thesis
        by (rule that [of "?sk\<lparr>sk_world := fst (dp_Send d (sendRequest d sess v) (sk_world ?sk)), sk_out := sk_out sk @ [sendAnswer v r]\<rparr>" "[sendAnswer v r]"])
          (use assms ReadFrame CSend w r in \<open>simp_all add: pinged_def Let_def\<close>)
    next
      case (CRead conv n)
      show thesis by (rule that [of "case dp_Handle d of None \<Rightarrow> ?sk | Some handle \<Rightarrow> onWorld (handle sess f) ?sk" "[]"])
          (use assms ReadFrame CRead in \<open>simp_all add: pinged_def Let_def split: option.split\<close>)
    next
      case (CTyping conv st)
      show thesis by (rule that [of "case dp_Handle d of None \<Rightarrow> ?sk | Some handle \<Rightarrow> onWorld (handle sess f) ?sk" "[]"])
          (use assms ReadFrame CTyping in \<open>simp_all add: pinged_def Let_def split: option.split\<close>)
    qed
  next
    case ReadUnknown
    show thesis by (rule that [of ?sk "[]"]) (use assms ReadUnknown in \<open>simp_all add: pinged_def Let_def\<close>)
  qed (use assms(3) in \<open>simp_all add: steady_def\<close>)
qed

lemma closeWith_heartbeat: "sk_closed sk = None \<Longrightarrow> sk_closed (closeWith statusHeartbeatTimeout heartbeatReason sk) = Some (4000, heartbeatReason)"
  by (simp add: closeWith_def statusHeartbeatTimeout_def heartbeatReason_def maxReason_def)

lemma readLoop_steady_ends:
  "list_all steady es \<Longrightarrow> sk_closed sk = None \<Longrightarrow> sk_writes sk = [] \<Longrightarrow>
   sk_closed (readLoop d sess window deadline es sk) = Some (4000, heartbeatReason)"
proof (induction es arbitrary: deadline sk)
  case (Cons e es)
  show ?case
  proof (cases "deadline \<le> ib_at e")
    case False
    then have "ib_at e < deadline" "steady e" using Cons.prems(1) by simp_all
    then show ?thesis using Cons.prems Cons.IH
      by (elim readLoop_one [OF Cons.prems(2,3), of e deadline d sess window]) (auto simp del: readLoop.simps)
  qed (use Cons.prems closeWith_heartbeat in simp)
qed (simp add: closeWith_heartbeat)

lemma readLoop_on_time:
  "onTime window deadline es \<Longrightarrow> list_all steady es \<Longrightarrow> sk_closed sk = None \<Longrightarrow> sk_writes sk = [] \<Longrightarrow>
   \<exists>sk' fs. (\<forall>more. readLoop d sess window deadline (es @ more) sk = readLoop d sess window (watchdogAt window deadline es) more sk') \<and>
     sk_closed sk' = None \<and> sk_out sk' = sk_out sk @ fs \<and> answered fs = sendsOf es"
proof (induction es arbitrary: deadline sk)
  case Nil
  then show ?case by (intro exI [of _ sk] exI [of _ "[]"]) simp
next
  case (Cons e es)
  then have e: "steady e" "ib_at e < deadline" by simp_all
  from readLoop_one [OF Cons.prems(3,4) e] obtain sk1 fs where s:
    "\<And>es. readLoop d sess window deadline (e # es) sk = readLoop d sess window (pinged window deadline e) es sk1"
    "sk_closed sk1 = None" "sk_writes sk1 = []" "sk_out sk1 = sk_out sk @ fs"
    "answered fs = (case ib_read e of ReadFrame (CSend v) \<Rightarrow> [cs_ClientID v] | _ \<Rightarrow> [])" by blast
  from Cons.IH [OF _ _ s(2,3)] Cons.prems obtain sk' gs where g:
    "\<forall>more. readLoop d sess window (pinged window deadline e) (es @ more) sk1 = readLoop d sess window (watchdogAt window (pinged window deadline e) es) more sk'"
    "sk_closed sk' = None" "sk_out sk' = sk_out sk1 @ gs" "answered gs = sendsOf es" by fastforce
  have "answered (fs @ gs) = answered fs @ answered gs" by (simp add: answered_def map_filter_def)
  then show ?case using s g by (intro exI [of _ sk'] exI [of _ "fs @ gs"]) (simp del: readLoop.simps)
qed

lemma heartbeatWindow_exact:
  assumes "0 < i" "0 < l" "i * (l + 1) \<le> 9223372036"
  shows "heartbeatWindow i l = i * (l + 1) * second"
proof -
  have "i * 1 \<le> i * (l + 1)" "1 * (l + 1) \<le> i * (l + 1)" using assms(1,2) by (intro mult_left_mono mult_right_mono; simp)+
  then have "i \<le> 9223372036" "l + 1 \<le> 9223372036" using assms(3) by simp_all
  then have "wrap64 (i * second) = i * second" "wrap64 (l + 1) = l + 1" using assms(1,2) by (simp_all add: second_def max_i64_def)
  moreover have pos: "0 < i * (l + 1)" using assms(1,2) by simp
  moreover have c: "i * second * (l + 1) = i * (l + 1) * second" by simp
  moreover have "wrap64 (i * (l + 1) * second) = i * (l + 1) * second"
    using assms(3) pos by (intro wrap64_id) (simp_all add: second_def max_i64_def)
  ultimately show ?thesis unfolding heartbeatWindow_def by (metis c)
qed


section \<open>A session of the deployment\<close>

definition doorWiring :: "unit Wiring" where
  "doorWiring = \<lparr>wr_limits = DefaultLimits, wr_draws = (\<lambda>_. helloDraws), wr_stale = (\<lambda>db. db), wr_hash = (\<lambda>_. ()), wr_now = 9,
     wr_parse = Some, wr_heartbeat = (0, 0)\<rparr>"

definition doorHello :: "unit Served Inbound" where
  "doorHello = \<lparr>ib_at = 2, ib_env = (\<lambda>w. w), ib_read = ReadFrame (CHello
     \<lparr>ch_WireVersion = 1, ch_DeviceID = ''d1'', ch_ResumeFromLogSeq = None, ch_ClientInfo = None\<rparr>)\<rparr>"

definition doorPing :: "unit Served Inbound" where
  "doorPing = \<lparr>ib_at = 3, ib_env = (\<lambda>w. w), ib_read = ReadFrame (CPing ''hb-1'')\<rparr>"

definition doorSend :: "unit Served Inbound" where
  "doorSend = \<lparr>ib_at = 4, ib_env = (\<lambda>w. w), ib_read = ReadFrame (CSend
     \<lparr>cs_ClientID = ''k'', cs_ConversationID = ''r'', cs_Text = Some ''hi'', cs_Attachments = [], cs_ReplyToMessageID = None\<rparr>)\<rparr>"

definition doorSock :: "unit Served Sock" where
  "doorSock = \<lparr>sk_world = (chatRoom, newHub), sk_out = [], sk_closed = None, sk_gone = False, sk_writes = []\<rparr>"

definition doorCaller :: Caller where
  "doorCaller = \<lparr>ca_UserID = ''a'', ca_DeviceID = ''d1'', ca_Kind = ''person''\<rparr>"

theorem session_keeps_the_deployment_witness:
  "\<exists>db' h'. sk_world (serveSession (wiredDeps 9 doorWiring) ''s'' doorCaller 0 [doorHello, doorPing, doorSend] doorSock) = (db', h') \<and>
     log_inv db' \<and> hub_inv h' \<and> (\<exists>new. db_messages db' = db_messages chatRoom @ new \<and> (\<forall>m \<in> set new. mr_AuthorID m = ''a''))"
proof -
  obtain db' h' where w: "sk_world (serveSession (wiredDeps 9 doorWiring) ''s'' doorCaller 0 [doorHello, doorPing, doorSend] doorSock) = (db', h')"
    by fastforce
  have "sk_world doorSock = (chatRoom, newHub)" by (simp add: doorSock_def)
  from session_keeps_the_deployment [OF this chat_reach_inv [OF chatRoom_reach] hub_inv_new _ w] w show ?thesis
    by (simp add: doorHello_def doorPing_def doorSend_def doorCaller_def)
qed

theorem upgrade_admits_witness:
  "socketHandler (wiredDeps 9 doorWiring) True ''s'' [''catenary.v1''] 0 [doorHello] doorSock = unauthorizedAnswer"
proof -
  have "TrimSpace ''catenary.v1'' = ''catenary.v1''" by (rule TrimSpace_plain) (simp_all add: IsSpace_def)
  then have "offeredTokens (offeredSubprotocols [''catenary.v1'']) = []"
    by (simp add: offeredSubprotocols_def offeredTokens_def subprotocolV1_def)
  then show ?thesis
    using upgrade_admits [OF refl refl, of "wiredDeps 9 doorWiring" True "''s''" "[''catenary.v1'']" 0 "[doorHello]" doorSock] by blast
qed

lemma door_opens:
  "\<exists>r fs. sk_out (serveSession (wiredDeps 9 doorWiring) ''s'' doorCaller 0 [doorHello] doorSock) = FReady r # fs"
  by (simp add: serveSession_def helloTimeout_def wiredDeps_def DefaultHelloTimeout_def second_def doorHello_def doorSock_def
      doorCaller_def doorWiring_def wireVersionMin_def WireVersion_def onWorld_def Hello_def openSession_def heartbeatDial_def
      writeFrame_def closeWith_def Let_def)



end
