(* ===== verification/Sync_Props.thy ===== *)
theory Sync_Props
  imports Log_Props
begin

text \<open>
  What a page of \<open>/sync\<close> promises: it is exactly the reader's messages between the cursor
  and the page's high-water mark, pages compose to the whole log without a gap or a
  repeat whatever is sent meanwhile, nothing outside the reader's rooms is served, and a
  change of metadata is on the page whose window holds its marker.
\<close>

section \<open>Lists sorted by a key\<close>

lemma sort_key_sorted: "sorted (map f xs) \<Longrightarrow> sort_key f xs = xs"
  by (induction xs) (auto simp: insort_is_Cons)

lemma take_filter_le:
  fixes f :: "'a \<Rightarrow> int"
  assumes "sorted_wrt (<) (map f xs)" "0 < n" "n \<le> length xs"
  shows "take n xs = filter (\<lambda>x. f x \<le> f (last (take n xs))) xs"
proof -
  let ?b = "f (last (take n xs))"
  have ne: "take n xs \<noteq> []" using assms by auto
  have st: "sorted_wrt (\<lambda>x y. f x < f y) xs" using assms(1) by (simp add: sorted_wrt_map)
  have lo: "f x \<le> ?b" if "x \<in> set (take n xs)" for x
    using sorted_wrt_last [OF sorted_wrt_take [OF st] that] by (cases "x = last (take n xs)") auto
  have hi: "\<not> f x \<le> ?b" if "x \<in> set (drop n xs)" for x
    using sorted_wrt_take_drop [OF st last_in_set [OF ne] that] by simp
  have "filter (\<lambda>x. f x \<le> ?b) (take n xs) = take n xs" "filter (\<lambda>x. f x \<le> ?b) (drop n xs) = []"
    using lo hi by (simp_all add: filter_id_conv filter_empty_conv)
  then show ?thesis by (metis (no_types, lifting) append_Nil2 append_take_drop_id filter_append)
qed

section \<open>What a reader can see\<close>

lemma visible_filter:
  assumes "log_ordered db"
  shows "visibleMessages db viewer after head = filter (\<lambda>m. isMember db (mr_ConversationID m) viewer \<and>
    after < mr_LogSeq m \<and> mr_LogSeq m \<le> head) (db_messages db)"
proof -
  have "sorted_wrt (\<lambda>x y. mr_LogSeq x < mr_LogSeq y) (db_messages db)" using assms by (simp add: log_ordered_def sorted_wrt_map)
  then have "sorted_wrt (\<lambda>x y. mr_LogSeq x \<le> mr_LogSeq y) (filter P (db_messages db))" for P
    by (auto intro: sorted_wrt_filter sorted_wrt_mono_rel [rotated])
  then show ?thesis unfolding visibleMessages_def by (intro sort_key_sorted) (simp add: sorted_wrt_map)
qed

lemma visible_in:
  "m \<in> set (visibleMessages db viewer after head) \<longleftrightarrow>
   m \<in> set (db_messages db) \<and> isMember db (mr_ConversationID m) viewer \<and> after < mr_LogSeq m \<and> mr_LogSeq m \<le> head"
  by (auto simp: visibleMessages_def)

lemma visible_sorted:
  assumes "log_ordered db"
  shows "sorted_wrt (<) (map mr_LogSeq (visibleMessages db viewer after head))"
  using assms by (simp add: visible_filter log_ordered_def sorted_wrt_map sorted_wrt_filter)

text \<open>What lies at or below a counter that was read does not change any more.\<close>

lemma visible_stable:
  assumes "log_inv db" "log_inv db'" "later db db'" "head \<le> db_log_counter db"
  shows "visibleMessages db' viewer after head = visibleMessages db viewer after head"
proof -
  obtain new where new: "db_messages db' = db_messages db @ new" "\<forall>m \<in> set new. db_log_counter db < mr_LogSeq m"
    using assms(3) by (auto simp: later_def)
  have "filter (\<lambda>m. isMember db' (mr_ConversationID m) viewer \<and> after < mr_LogSeq m \<and> mr_LogSeq m \<le> head) new = []"
    using new(2) assms(4) by (force simp: filter_empty_conv)
  moreover have "isMember db' (mr_ConversationID m) viewer = isMember db (mr_ConversationID m) viewer"
    if "m \<in> set (db_messages db)" for m
    using assms(1,3) that unfolding later_def rooms_grow_def log_inv_def by (meson imageI subsetD)
  ultimately show ?thesis
    using assms(1,2) new(1) by (simp add: visible_filter log_inv_def cong: filter_cong)
qed

lemma visible_split:
  assumes "log_ordered db" "after \<le> mid" "mid \<le> head"
  shows "visibleMessages db viewer after head = visibleMessages db viewer after mid @ visibleMessages db viewer mid head"
proof -
  have split: "filter (\<lambda>m. P m \<and> after < mr_LogSeq m \<and> mr_LogSeq m \<le> head) ms =
      filter (\<lambda>m. P m \<and> after < mr_LogSeq m \<and> mr_LogSeq m \<le> mid) ms @ filter (\<lambda>m. P m \<and> mid < mr_LogSeq m \<and> mr_LogSeq m \<le> head) ms"
    if "sorted_wrt (\<lambda>x y. mr_LogSeq x < mr_LogSeq y) ms" for P ms
    using that
  proof (induction ms)
    case (Cons m ms)
    moreover have "filter (\<lambda>m. P m \<and> after < mr_LogSeq m \<and> mr_LogSeq m \<le> mid) ms = []" if "\<not> mr_LogSeq m \<le> mid"
      using Cons.prems that by (force simp: filter_empty_conv)
    ultimately show ?case using assms(2,3) by (cases "mr_LogSeq m \<le> mid") auto
  qed simp
  show ?thesis
    using split [of "db_messages db" "\<lambda>m. isMember db (mr_ConversationID m) viewer"] assms(1)
    by (simp add: visible_filter) (simp add: log_ordered_def sorted_wrt_map)
qed

section \<open>One page\<close>

lemma clampLimit_range: "1 \<le> clampLimit limit" "clampLimit limit \<le> MaxSyncLimit"
  by (auto simp: clampLimit_def DefaultSyncLimit_def MaxSyncLimit_def Let_def)

lemma Sync_messages:
  "sp_Messages (Sync snap viewer after limit) = take (nat (clampLimit limit)) (visibleMessages (snap 1) viewer after (db_log_counter (snap 0)))"
  "sp_HasMore (Sync snap viewer after limit) \<longleftrightarrow>
     nat (clampLimit limit) < length (visibleMessages (snap 1) viewer after (db_log_counter (snap 0)))"
  "sp_HighWater (Sync snap viewer after limit) =
     (if sp_HasMore (Sync snap viewer after limit) then mr_LogSeq (last (sp_Messages (Sync snap viewer after limit)))
      else db_log_counter (snap 0))"
  using clampLimit_range(1) [of limit] by (auto simp: Sync_def Let_def min_def nat_add_distrib)

text \<open>The rest of the page as functions of its messages and its high-water mark.\<close>

lemma Sync_rest:
  assumes "p = Sync snap viewer after limit"
  shows "sp_ReplySources p = loadReplySources (snap 3) (sp_Messages p)"
    "sp_Conversations p = loadConversations (snap 5) viewer after (sp_HighWater p) (sp_Messages p)"
    "sp_Users p = loadUsers (snap 7) viewer after (sp_HighWater p)
       (map mr_AuthorID (sp_Messages p) @ map (rs_AuthorID \<circ> snd) (sp_ReplySources p) @ pageMembers (snap 6) (sp_Conversations p))"
  unfolding assms Sync_def Let_def by simp_all

lemma Sync_exact:
  assumes ord: "log_ordered (snap 1)" and p: "p = Sync snap viewer after limit"
  shows "sp_Messages p = visibleMessages (snap 1) viewer after (sp_HighWater p)"
    and "sp_HasMore p \<Longrightarrow> after < sp_HighWater p \<and> sp_HighWater p \<le> db_log_counter (snap 0) \<and>
      int (length (sp_Messages p)) = clampLimit limit"
    and "\<not> sp_HasMore p \<Longrightarrow> sp_HighWater p = db_log_counter (snap 0)"
proof -
  let ?head = "db_log_counter (snap 0)" and ?n = "nat (clampLimit limit)"
  let ?v = "visibleMessages (snap 1) viewer after ?head"
  note m = Sync_messages [of snap viewer after limit, folded p]
  have n: "0 < ?n" using clampLimit_range(1) [of limit] by simp
  show "sp_HighWater p = ?head" if "\<not> sp_HasMore p" using m(3) that by simp
  have more: "sp_Messages p = visibleMessages (snap 1) viewer after (sp_HighWater p) \<and>
      after < sp_HighWater p \<and> sp_HighWater p \<le> ?head \<and> length (sp_Messages p) = ?n" if "sp_HasMore p"
  proof -
    have len: "?n \<le> length ?v" using m(2) that by simp
    have hw: "sp_HighWater p = mr_LogSeq (last (take ?n ?v))" using m(1,3) that by simp
    have "last (take ?n ?v) \<in> set (take ?n ?v)" using n len by (intro last_in_set) auto
    then have "last (take ?n ?v) \<in> set ?v" by (rule in_set_takeD)
    then have b: "after < sp_HighWater p" "sp_HighWater p \<le> ?head" unfolding hw visible_in by simp_all
    have "take ?n ?v = filter (\<lambda>x. mr_LogSeq x \<le> sp_HighWater p) ?v"
      unfolding hw by (rule take_filter_le [OF visible_sorted [OF ord] n len])
    also have "\<dots> = visibleMessages (snap 1) viewer after (sp_HighWater p)"
      using b(2) unfolding visible_filter [OF ord] filter_filter by (intro filter_cong) auto
    finally have t: "take ?n ?v = visibleMessages (snap 1) viewer after (sp_HighWater p)" .
    have "length (sp_Messages p) = ?n" unfolding m(1) using len by simp
    with b m(1) t show ?thesis by metis
  qed
  then show "sp_HasMore p \<Longrightarrow> after < sp_HighWater p \<and> sp_HighWater p \<le> ?head \<and>
      int (length (sp_Messages p)) = clampLimit limit" using clampLimit_range(1) [of limit] by (metis int_nat_eq order_trans zero_le_one)
  show "sp_Messages p = visibleMessages (snap 1) viewer after (sp_HighWater p)"
    using more m by (cases "sp_HasMore p") simp_all
qed

lemma Sync_bound:
  assumes "log_ordered (snap 1)"
  shows "sp_HighWater (Sync snap viewer after limit) \<le> db_log_counter (snap 0)"
    "after \<le> db_log_counter (snap 0) \<Longrightarrow> after \<le> sp_HighWater (Sync snap viewer after limit)"
  using Sync_exact(2,3) [where snap = snap, OF assms refl, of viewer after limit]
  by (cases "sp_HasMore (Sync snap viewer after limit)"; auto)+

text \<open>
  A page is exact. Read in the statements' own snapshots of a running deployment, the
  page's messages are precisely the reader's messages above the cursor and at or below the
  page's high-water mark, in the order of the log, at most the limit of them. The mark is
  the head the page began from when nothing is left, and otherwise the last message served:
  above the cursor, so that the next page makes progress, and never above that head.
\<close>

theorem sync_page_exact:
  assumes "chat_reach (snap 0)" "chat_step\<^sup>*\<^sup>* (snap 0) (snap 1)" "p = Sync snap viewer after limit"
  shows "sp_Messages p = filter (\<lambda>m. isMember (snap 1) (mr_ConversationID m) viewer \<and> after < mr_LogSeq m \<and>
           mr_LogSeq m \<le> sp_HighWater p) (db_messages (snap 1)) \<and>
    sorted_wrt (<) (map mr_LogSeq (sp_Messages p)) \<and> int (length (sp_Messages p)) \<le> MaxSyncLimit \<and>
    (sp_HasMore p \<longrightarrow> after < sp_HighWater p \<and> sp_HighWater p \<le> db_log_counter (snap 0) \<and>
       int (length (sp_Messages p)) = clampLimit limit) \<and>
    (\<not> sp_HasMore p \<longrightarrow> sp_HighWater p = db_log_counter (snap 0))"
proof -
  have ord: "log_ordered (snap 1)" using chat_steps_inv [OF assms(2) chat_reach_inv [OF assms(1)]] by (simp add: log_inv_def)
  note e = Sync_exact [OF ord assms(3)]
  have "length (sp_Messages p) \<le> nat (clampLimit limit)" unfolding assms(3) Sync_messages(1) by simp
  then have "int (length (sp_Messages p)) \<le> MaxSyncLimit"
    using clampLimit_range [of limit] by linarith
  moreover have "sorted_wrt (<) (map mr_LogSeq (sp_Messages p))" unfolding e(1) by (rule visible_sorted [OF ord])
  ultimately show ?thesis using e visible_filter [OF ord] by simp
qed

definition quietSnap :: "'h DB \<Rightarrow> nat \<Rightarrow> 'h DB" where "quietSnap db k = db"

theorem sync_page_exact_witness:
  "sp_Messages (Sync (quietSnap chatOne) ''b'' 0 0) = db_messages chatOne \<and> sp_HighWater (Sync (quietSnap chatOne) ''b'' 0 0) = 2"
proof -
  have r: "chat_reach (quietSnap chatOne 0)" "chat_step\<^sup>*\<^sup>* (quietSnap chatOne 0) (quietSnap chatOne 1)"
    using chatOne_reach by (simp_all add: quietSnap_def)
  have m: "\<not> sp_HasMore (Sync (quietSnap chatOne) ''b'' 0 0)" by code_simp
  have f: "filter (\<lambda>m. isMember chatOne (mr_ConversationID m) ''b'' \<and> 0 < mr_LogSeq m \<and> mr_LogSeq m \<le> 2) (db_messages chatOne) =
      db_messages chatOne" "db_log_counter chatOne = 2" by code_simp+
  note e = sync_page_exact [OF r refl, of "''b''" 0 0, unfolded quietSnap_def [of chatOne 0] quietSnap_def [of chatOne 1]]
  have "sp_HighWater (Sync (quietSnap chatOne) ''b'' 0 0) = 2" using e m f(2) by simp
  then show ?thesis using e f(1) by simp
qed

section \<open>Pages in a row\<close>

text \<open>
  A reader that pages: page \<open>k\<close> is read in the snapshots \<open>snaps k\<close>, each page at the
  cursor the page before it served.
\<close>

primrec cursorAt :: "(nat \<Rightarrow> nat \<Rightarrow> 'h DB) \<Rightarrow> uuid \<Rightarrow> (nat \<Rightarrow> int) \<Rightarrow> int \<Rightarrow> nat \<Rightarrow> int" where
  "cursorAt snaps viewer limits after 0 = after"
| "cursorAt snaps viewer limits after (Suc k) =
     sp_HighWater (Sync (snaps k) viewer (cursorAt snaps viewer limits after k) (limits k))"

definition pageAt :: "(nat \<Rightarrow> nat \<Rightarrow> 'h DB) \<Rightarrow> uuid \<Rightarrow> (nat \<Rightarrow> int) \<Rightarrow> int \<Rightarrow> nat \<Rightarrow> SyncPage" where
  "pageAt snaps viewer limits after k = Sync (snaps k) viewer (cursorAt snaps viewer limits after k) (limits k)"

text \<open>The snapshots of a running deployment: each page's first two, in time.\<close>

definition running :: "(nat \<Rightarrow> nat \<Rightarrow> 'h DB) \<Rightarrow> bool" where
  "running snaps \<longleftrightarrow> chat_reach (snaps 0 0) \<and>
     (\<forall>k. chat_step\<^sup>*\<^sup>* (snaps k 0) (snaps k 1) \<and> chat_step\<^sup>*\<^sup>* (snaps k 1) (snaps (Suc k) 0))"

lemma running_reach: "running snaps \<Longrightarrow> log_inv (snaps k 0) \<and> log_inv (snaps k 1)"
proof (induction k)
  case 0
  then show ?case using chat_reach_inv chat_steps_inv unfolding running_def by blast
next
  case (Suc k)
  then show ?case using chat_steps_inv unfolding running_def by blast
qed

lemma cursorAt_bound:
  assumes "running snaps" "after \<le> db_log_counter (snaps 0 0)"
  shows "cursorAt snaps viewer limits after k \<le> db_log_counter (snaps k 0) \<and>
    cursorAt snaps viewer limits after k \<le> cursorAt snaps viewer limits after (Suc k)"
proof (induction k)
  case 0
  have "log_ordered (snaps 0 1)" using running_reach [OF assms(1), of 0] by (simp add: log_inv_def)
  then show ?case using Sync_bound(2) [of "snaps 0"] assms(2) by simp
next
  case (Suc k)
  let ?c = "cursorAt snaps viewer limits after k" and ?c' = "cursorAt snaps viewer limits after (Suc k)"
  have ord: "log_ordered (snaps j 1)" for j using running_reach [OF assms(1), of j] by (simp add: log_inv_def)
  have "?c' \<le> db_log_counter (snaps k 0)" using Sync_bound(1) [of "snaps k", OF ord] by simp
  also have "\<dots> \<le> db_log_counter (snaps (Suc k) 0)"
    using assms(1) chat_steps_later later_trans unfolding running_def by (meson later_def)
  finally have b: "?c' \<le> db_log_counter (snaps (Suc k) 0)" .
  with Sync_bound(2) [of "snaps (Suc k)", OF ord] show ?case by simp
qed

text \<open>
  C20. Pages compose. Whatever is sent, read, created or disabled while a reader pages, and
  whatever limits it asks for, its pages in a row are exactly its messages between the
  cursor it started from and the cursor it has reached, each once, in the order of the log:
  no gap at a page boundary, no repeat, and none missing because it was written meanwhile.
\<close>

theorem sync_pages_compose:
  assumes "running snaps" "after \<le> db_log_counter (snaps 0 0)"
  shows "concat (map (sp_Messages \<circ> pageAt snaps viewer limits after) [0..<n]) =
    visibleMessages (snaps n 0) viewer after (cursorAt snaps viewer limits after n)"
proof (induction n)
  case 0
  show ?case by (simp add: visibleMessages_def filter_False)
next
  case (Suc n)
  let ?c = "cursorAt snaps viewer limits after n" and ?c' = "cursorAt snaps viewer limits after (Suc n)"
  have inv: "log_inv (snaps j 0)" "log_inv (snaps j 1)" for j using running_reach [OF assms(1)] by auto
  then have ord: "log_ordered (snaps j 1)" "log_ordered (snaps j 0)" for j by (simp_all add: log_inv_def)
  have mono: "after \<le> cursorAt snaps viewer limits after j" for j
  proof (induction j)
    case (Suc j)
    then show ?case using cursorAt_bound [OF assms, of viewer limits j] by linarith
  qed simp
  have l: "later (snaps n 0) (snaps n 1)" "later (snaps n 1) (snaps (Suc n) 0)"
    using assms(1) chat_steps_later unfolding running_def by blast+
  note b = cursorAt_bound [OF assms, of viewer limits]
  have "?c' \<le> db_log_counter (snaps n 0)" using Sync_bound(1) [of "snaps n", OF ord(1)] by simp
  also have "\<dots> \<le> db_log_counter (snaps n 1)" using l(1) by (simp add: later_def)
  finally have c1: "?c' \<le> db_log_counter (snaps n 1)" .
  have "visibleMessages (snaps n 1) viewer ?c ?c' = sp_Messages (pageAt snaps viewer limits after n)"
    using Sync_exact(1) [where snap = "snaps n", OF ord(1) refl, of viewer ?c "limits n"] by (simp add: pageAt_def)
  moreover have "visibleMessages (snaps n 0) viewer after ?c = visibleMessages (snaps n 1) viewer after ?c"
    using visible_stable [OF inv(1) inv(2) l(1)] b [of n] by simp
  moreover have "visibleMessages (snaps (Suc n) 0) viewer after ?c' = visibleMessages (snaps n 1) viewer after ?c'"
    using visible_stable [OF inv(2) inv(1) l(2) c1] .
  moreover have "visibleMessages (snaps n 1) viewer after ?c' =
      visibleMessages (snaps n 1) viewer after ?c @ visibleMessages (snaps n 1) viewer ?c ?c'"
    by (rule visible_split [OF ord(1)]) (use b [of n] mono in auto)
  ultimately show ?case using Suc.IH by simp
qed

lemma running_quiet: "chat_reach db \<Longrightarrow> running (\<lambda>_. quietSnap db)"
  by (simp add: running_def quietSnap_def)

theorem sync_pages_compose_witness:
  "concat (map (sp_Messages \<circ> pageAt (\<lambda>_. quietSnap chatOne) ''b'' (\<lambda>_. 1) 0) [0..<2]) = db_messages chatOne"
proof -
  have z: "0 \<le> db_log_counter (quietSnap chatOne 0)" by code_simp
  have v: "visibleMessages (quietSnap chatOne 0) ''b'' 0 (cursorAt (\<lambda>_. quietSnap chatOne) ''b'' (\<lambda>_. 1) 0 2) = db_messages chatOne"
    by code_simp
  show ?thesis unfolding sync_pages_compose [OF running_quiet [OF chatOne_reach] z] by (rule v)
qed

section \<open>Only the reader's own rooms\<close>

lemma loadConversations_in:
  "r \<in> set (loadConversations db viewer after high msgs) \<longleftrightarrow>
   (\<exists>c cm. c \<in> set (db_conversations db) \<and> memberOf db (cv_id c) viewer = Some cm \<and> r = conversationRowPerViewer db c cm \<and>
      (cv_id c \<in> mr_ConversationID ` set msgs \<or> inWindow after high (cv_metadata_log_seq c) \<or>
       inWindow after high (mb_metadata_log_seq cm)))"
  unfolding loadConversations_def map_filter_def by (force split: option.splits if_splits)

lemma loadUsers_in:
  "r \<in> set (loadUsers db viewer after high ids) \<longleftrightarrow>
   (\<exists>u \<in> set (db_users db). r = userRow u \<and> (us_id u \<in> set ids \<or>
      inWindow after high (us_metadata_log_seq u) \<and> sharesRoom db viewer (us_id u)))"
  unfolding loadUsers_def by auto

lemma memberOf_isMember: "isMember db conv user \<longleftrightarrow> memberOf db conv user \<noteq> None"
  by (auto simp: isMember_def memberOf_def list_ex_iff find_None_iff)

lemma later_member: "later db db' \<Longrightarrow> isMember db conv user \<Longrightarrow> isMember db' conv user"
  by (simp add: later_def rooms_grow_def)

lemma snapshots_later:
  assumes "\<And>k. chat_step\<^sup>*\<^sup>* (snap k) (snap (Suc k))" "i \<le> j"
  shows "later (snap i) (snap j)"
proof -
  have "chat_step\<^sup>*\<^sup>* (snap i) (snap j)"
    using assms(2) by (induction rule: dec_induct) (auto intro: rtranclp_trans assms(1))
  then show ?thesis by (rule chat_steps_later)
qed

text \<open>
  C25. A page never leaves the reader's rooms. Every message, every conversation and every
  reply source on it belongs to a conversation the reader is a member of, and every
  account on it is a member of, or an author in, one of those conversations.
\<close>

theorem sync_serves_own_rooms:
  assumes "\<And>k. chat_step\<^sup>*\<^sup>* (snap k) (snap (Suc k))" "p = Sync snap viewer after limit"
  shows "(\<forall>m \<in> set (sp_Messages p). isMember (snap 7) (mr_ConversationID m) viewer) \<and>
    (\<forall>c \<in> set (sp_Conversations p). isMember (snap 7) (cr_ID c) viewer) \<and>
    (\<forall>s \<in> snd ` set (sp_ReplySources p). isMember (snap 7) (rs_ConversationID s) viewer) \<and>
    (\<forall>u \<in> set (sp_Users p). \<exists>conv. isMember (snap 7) conv viewer \<and>
       (isMember (snap 7) conv (ur_ID u) \<or>
        (\<exists>m \<in> set (db_messages (snap 7)). mr_ConversationID m = conv \<and> mr_AuthorID m = ur_ID u)))"
proof -
  have lt: "later (snap i) (snap 7)" if "i \<le> 7" for i by (rule snapshots_later [of snap, OF assms(1) that])
  have up: "isMember (snap i) c u \<Longrightarrow> isMember (snap 7) c u" if "i \<le> 7" for i c u
    using later_member [OF lt [OF that]] .
  have rows: "set (db_messages (snap 1)) \<subseteq> set (db_messages (snap 7))" "set (db_messages (snap 3)) \<subseteq> set (db_messages (snap 7))"
    by (rule later_rows, rule lt, simp)+
  have msgs: "m \<in> set (db_messages (snap 1)) \<and> isMember (snap 1) (mr_ConversationID m) viewer" if "m \<in> set (sp_Messages p)" for m
    using in_set_takeD [OF that [unfolded assms(2) Sync_messages(1)]] unfolding visible_in by simp
  have src: "mr_ConversationID x \<in> mr_ConversationID ` set (sp_Messages p) \<and> x \<in> set (db_messages (snap 3)) \<and>
      rs_ConversationID s = mr_ConversationID x \<and> rs_AuthorID s = mr_AuthorID x \<Longrightarrow> isMember (snap 7) (rs_ConversationID s) viewer"
    for s x using msgs up [of 1] by force
  have srcs: "\<exists>x. mr_ConversationID x \<in> mr_ConversationID ` set (sp_Messages p) \<and> x \<in> set (db_messages (snap 3)) \<and>
      rs_ConversationID s = mr_ConversationID x \<and> rs_AuthorID s = mr_AuthorID x" if "s \<in> snd ` set (sp_ReplySources p)" for s
    using that unfolding Sync_rest(1) [OF assms(2)] loadReplySources_def by auto
  have convs: "isMember (snap 5) (cr_ID c) viewer" if "c \<in> set (sp_Conversations p)" for c
    using that unfolding Sync_rest(2) [OF assms(2)] loadConversations_in by (auto simp: memberOf_isMember conversationRowPerViewer_def)
  have users: "\<exists>conv. isMember (snap 7) conv viewer \<and> (isMember (snap 7) conv (ur_ID u) \<or>
        (\<exists>m \<in> set (db_messages (snap 7)). mr_ConversationID m = conv \<and> mr_AuthorID m = ur_ID u))" if "u \<in> set (sp_Users p)" for u
  proof -
    have "ur_ID u \<in> mr_AuthorID ` set (sp_Messages p) \<or> ur_ID u \<in> rs_AuthorID ` snd ` set (sp_ReplySources p) \<or>
        ur_ID u \<in> set (pageMembers (snap 6) (sp_Conversations p)) \<or> sharesRoom (snap 7) viewer (ur_ID u)"
      using that unfolding Sync_rest(3) [OF assms(2)] loadUsers_in by (force simp: userRow_def)
    then show ?thesis
    proof (elim disjE)
      assume "ur_ID u \<in> mr_AuthorID ` set (sp_Messages p)"
      then show ?thesis using msgs up [of 1] rows(1) by force
    next
      assume "ur_ID u \<in> rs_AuthorID ` snd ` set (sp_ReplySources p)"
      then obtain s where s: "s \<in> snd ` set (sp_ReplySources p)" "rs_AuthorID s = ur_ID u" by (elim imageE) auto
      then show ?thesis using srcs [OF s(1)] src rows(2) by (metis subsetD)
    next
      assume "ur_ID u \<in> set (pageMembers (snap 6) (sp_Conversations p))"
      then obtain c where c: "c \<in> set (sp_Conversations p)" "isMember (snap 6) (cr_ID c) (ur_ID u)"
        unfolding pageMembers_def isMember_def list_ex_iff by auto metis
      then show ?thesis using convs [OF c(1)] up [of 5] up [of 6] by (intro exI [of _ "cr_ID c"]) simp
    next
      assume "sharesRoom (snap 7) viewer (ur_ID u)"
      then show ?thesis by (auto simp: sharesRoom_def isMember_def list_ex_iff)
    qed
  qed
  show ?thesis
  proof (intro conjI ballI)
    fix m assume "m \<in> set (sp_Messages p)"
    with msgs up [of 1] show "isMember (snap 7) (mr_ConversationID m) viewer" by simp
  next
    fix c assume "c \<in> set (sp_Conversations p)"
    with convs up [of 5] show "isMember (snap 7) (cr_ID c) viewer" by simp
  next
    fix s assume "s \<in> snd ` set (sp_ReplySources p)"
    with srcs src show "isMember (snap 7) (rs_ConversationID s) viewer" by blast
  qed (rule users)
qed

theorem sync_serves_own_rooms_witness:
  "isMember chatOne (mr_ConversationID (hd (sp_Messages (Sync (quietSnap chatOne) ''b'' 0 9)))) ''b''"
proof -
  have s: "chat_step\<^sup>*\<^sup>* (quietSnap chatOne k) (quietSnap chatOne (Suc k))" for k by (simp add: quietSnap_def)
  have "hd (sp_Messages (Sync (quietSnap chatOne) ''b'' 0 9)) \<in> set (sp_Messages (Sync (quietSnap chatOne) ''b'' 0 9))"
    by code_simp
  then show ?thesis
    using sync_serves_own_rooms [of "quietSnap chatOne", OF s refl, THEN conjunct1] unfolding quietSnap_def [of chatOne 7] by (rule bspec [rotated])
qed

end
