(* ===== verification/Wire_Props.thy ===== *)
theory Wire_Props
  imports Wireview Sync_Props
begin

text \<open>
  What a reader is shown: the page of \<open>store.Sync\<close> through \<open>wireview.Sync\<close>, compared with the
  tables it was read from. Shared with the live frames of the hub, which use the same mapping.
\<close>

section \<open>The word and the number\<close>

definition activeUser :: "'h DB \<Rightarrow> uuid \<Rightarrow> bool" where
  "activeUser db user \<longleftrightarrow> (\<exists>u \<in> set (db_users db). us_id u = user \<and> us_deactivated_at u = None)"

lemma activeMembers_in:
  "am \<in> set (activeMembers db conv) \<longleftrightarrow> am \<in> set (db_members db) \<and> mb_conversation_id am = conv \<and> activeUser db (mb_user_id am)"
  by (auto simp: activeMembers_def activeUser_def list_ex_iff)

lemma activeMembers_distinct: "distinct (memberKeys db) \<Longrightarrow> distinct (map mb_user_id (activeMembers db conv))"
proof -
  have "distinct (map (\<lambda>m. (mb_conversation_id m, mb_user_id m)) ms) \<Longrightarrow>
      distinct (map mb_user_id (filter (\<lambda>am. mb_conversation_id am = conv \<and> P am) ms))" for P ms
    by (induction ms) (auto simp: image_iff)
  then show "distinct (memberKeys db) \<Longrightarrow> ?thesis" by (simp add: memberKeys_def activeMembers_def)
qed

text \<open>Another active member's mark has passed the message.\<close>

definition readByAnother :: "'h DB \<Rightarrow> MessageRow \<Rightarrow> bool" where
  "readByAnother db m \<longleftrightarrow> (\<exists>am \<in> set (db_members db). mb_conversation_id am = mr_ConversationID m \<and>
     activeUser db (mb_user_id am) \<and> mb_user_id am \<noteq> mr_AuthorID m \<and> mr_Seq m \<le> mb_read_seq am)"

lemma length_filter_one:
  assumes "distinct (map k xs)" "x \<in> set xs" "P x"
  shows "1 < length (filter P xs) \<longleftrightarrow> (\<exists>y \<in> set xs. P y \<and> k y \<noteq> k x)"
proof -
  have d: "distinct (map k (filter P xs))" using assms(1) by (simp add: distinct_map_filter)
  have x: "x \<in> set (filter P xs)" using assms by simp
  have "1 < length ys \<longleftrightarrow> (\<exists>y \<in> set ys. k y \<noteq> k x)" if "distinct (map k ys)" "x \<in> set ys" for ys
    using that by (cases ys rule: remdups_adj.cases) (auto simp: image_iff)
  from this [OF d x] show ?thesis by auto
qed

lemma readBy_another:
  assumes "distinct (memberKeys db)" "isMember db (mr_ConversationID m) (mr_AuthorID m)" "activeUser db (mr_AuthorID m)"
  shows "1 < readBy db m \<longleftrightarrow> readByAnother db m"
proof -
  obtain a where a: "a \<in> set (activeMembers db (mr_ConversationID m))" "mb_user_id a = mr_AuthorID m"
    using assms(2,3) by (auto simp: isMember_def list_ex_iff activeMembers_in)
  show ?thesis
    using length_filter_one [OF activeMembers_distinct [OF assms(1)] a(1),
        of "\<lambda>am. mb_user_id am = mr_AuthorID m \<or> mr_Seq m \<le> mb_read_seq am"] a(2)
    unfolding readBy_def readByAnother_def by (auto simp: activeMembers_in)
qed

section \<open>The maps of a page\<close>

lemma map_of_map_key:
  assumes "distinct (map k xs)" "x \<in> set xs"
  shows "map_of (map (\<lambda>x. (k x, f x)) xs) (k x) = Some (f x)"
  using assms by (intro map_of_is_SomeI) (auto simp: comp_def)

lemma page_readBy:
  assumes "distinct (map mr_ID (db_messages db))" "m \<in> set msgs" "m \<in> set (db_messages db)"
  shows "map_of (loadReadBy db msgs) (mr_ID m) = Some (readBy db m)"
  unfolding loadReadBy_def by (rule map_of_map_key) (use assms in \<open>auto simp: distinct_map_filter\<close>)

lemma page_source:
  assumes "map_of (loadReplySources db msgs) r = Some s"
  shows "rs_MessageID s = r \<and> (\<exists>x \<in> set (db_messages db). mr_ID x = r \<and> rs_ConversationID s = mr_ConversationID x \<and>
    rs_AuthorID s = mr_AuthorID x \<and> rs_Text s = mr_Text x)"
  using map_of_SomeD [OF assms] by (auto simp: loadReplySources_def)

lemma page_readSeq:
  assumes "distinct (map cv_id (db_conversations db))" "c \<in> set (db_conversations db)" "memberOf db (cv_id c) viewer = Some cm"
    "cv_id c \<in> mr_ConversationID ` set (sp_Messages p)" "sp_Conversations p = loadConversations db viewer after high (sp_Messages p)"
  shows "pageReadSeq p (cv_id c) = mb_read_seq cm"
proof -
  let ?row = "conversationRowPerViewer db c cm"
  have d: "distinct (map cr_ID (sp_Conversations p))"
  proof -
    have "distinct (map cr_ID (List.map_filter f cs))"
      if "distinct (map cv_id cs)" "\<And>c' r. f c' = Some r \<Longrightarrow> cr_ID r = cv_id c'" for f cs
      using that by (induction cs) (force simp: map_filter_def split: option.splits)+
    note keys = this
    show ?thesis
      unfolding assms(5) loadConversations_def
      by (rule keys) (use assms(1) in \<open>auto simp: distinct_map conversationRowPerViewer_def split: option.splits if_splits\<close>)
  qed
  have "?row \<in> set (sp_Conversations p)"
    unfolding assms(5) loadConversations_in using assms(2-4) by auto
  then have "map_of (map (\<lambda>c. (cr_ID c, cr_ReadSeq c)) (rev (sp_Conversations p))) (cr_ID ?row) = Some (cr_ReadSeq ?row)"
    by (intro map_of_map_key) (simp_all add: rev_map [symmetric] d)
  then show ?thesis by (simp add: pageReadSeq_def rev_map conversationRowPerViewer_def)
qed

section \<open>The served page\<close>

lemma those_Some: "(\<And>x. x \<in> set xs \<Longrightarrow> f x = Some (g x)) \<Longrightarrow> those (map f xs) = Some (map g xs)"
  by (induction xs) auto

text \<open>What a reader is entitled to see of one row.\<close>

definition served_as :: "'h DB \<Rightarrow> uuid \<Rightarrow> MessageRow \<Rightarrow> Message \<Rightarrow> bool" where
  "served_as db viewer m w \<longleftrightarrow>
     m_ID w = mr_ID m \<and> m_Seq w = mr_Seq m \<and> m_LogSeq w = mr_LogSeq m \<and> m_ConversationID w = mr_ConversationID m \<and>
     m_AuthorID w = mr_AuthorID m \<and> m_Text w = mr_Text m \<and> m_At w = formatWire (mr_At m) \<and>
     m_ClientID w = (if mr_AuthorID m = viewer then mr_ClientID m else None) \<and>
     m_ReadBy w = Some (readBy db m) \<and>
     (case m_ReplyTo w of
        None \<Rightarrow> True
      | Some r \<Rightarrow> mr_ReplyTo m = Some (rr_MessageID r) \<and>
          (\<exists>x \<in> set (db_messages db). mr_ID x = rr_MessageID r \<and> mr_ConversationID x = mr_ConversationID m \<and> mr_AuthorID x = rr_AuthorID r)) \<and>
     (if mr_AuthorID m = viewer then m_State w = (if readByAnother db m then ''read'' else ''sent'')
      else m_State w = (if mr_Seq m \<le> (case memberOf db (mr_ConversationID m) viewer of Some cm \<Rightarrow> mb_read_seq cm | None \<Rightarrow> 0)
                        then ''read'' else ''delivered''))"

lemma page_message_served:
  assumes r: "chat_reach db" and act: "activeUser db (sv_UserID v)" and url: "sv_MediaURL v = Some url"
    and p: "p = Sync (quietSnap db) (sv_UserID v) after limit" and m: "m \<in> set (sp_Messages p)"
  obtains w where "pageMessage unmarshal v p m = Some w" "served_as db (sv_UserID v) m w"
proof -
  let ?u = "sv_UserID v"
  have inv: "log_inv db" and keys: "distinct (memberKeys db)" using r by (rule chat_reach_inv, rule chat_reach_members)
  have row: "m \<in> set (db_messages db)" and mem: "isMember db (mr_ConversationID m) ?u"
    using in_set_takeD [OF m [unfolded p Sync_messages(1)]] unfolding visible_in by (simp_all add: quietSnap_def)
  have rb: "map_of (sp_ReadBy p) (mr_ID m) = Some (readBy db m)"
    using page_readBy [of db m "sp_Messages p"] inv row m by (simp add: p Sync_def Let_def quietSnap_def log_inv_def)
  obtain c where c: "c \<in> set (db_conversations db)" "cv_id c = mr_ConversationID m"
    using inv row by (force simp: log_inv_def)
  obtain cm where cm: "memberOf db (mr_ConversationID m) ?u = Some cm" using mem memberOf_isMember by blast
  have seq: "pageReadSeq p (mr_ConversationID m) = mb_read_seq cm"
    using page_readSeq [of db c ?u cm p after "sp_HighWater p"] inv c cm m Sync_rest(2) [OF p] by (auto simp: log_inv_def quietSnap_def)
  have own: "mr_AuthorID m = ?u \<Longrightarrow> 1 < readBy db m \<longleftrightarrow> readByAnother db m"
    using readBy_another [OF keys, of m] mem act by simp
  have src: "mr_ReplyTo m = Some (rs_MessageID s) \<and> (\<exists>x \<in> set (db_messages db). mr_ID x = rs_MessageID s \<and>
      mr_ConversationID x = mr_ConversationID m \<and> mr_AuthorID x = rs_AuthorID s)" if "pageSource p m = Some s" for s
  proof -
    from that obtain r where r: "mr_ReplyTo m = Some r" "map_of (sp_ReplySources p) r = Some s" "rs_ConversationID s = mr_ConversationID m"
      by (auto simp: pageSource_def sameConversation_def split: option.splits if_splits)
    from page_source [of db "sp_Messages p" r s] r(2) Sync_rest(1) [OF p] obtain x where
      "rs_MessageID s = r" "x \<in> set (db_messages db)" "mr_ID x = r" "rs_ConversationID s = mr_ConversationID x" "rs_AuthorID s = mr_AuthorID x"
      by (auto simp: quietSnap_def)
    with r show ?thesis by auto
  qed
  obtain w where w: "pageMessage unmarshal v p m = Some w"
    by (simp add: pageMessage_def wireMessage_def url Let_def)
  then have "served_as db ?u m w"
    using own src seq rb cm
    by (auto simp: pageMessage_def wireMessage_def url Let_def served_as_def DeliveryState_def replyRef_def split: option.splits)
  with w show thesis by (rule that)
qed

text \<open>
  C6. What a page shows one reader. Served from a moment of the deployment, the response carries
  the page's messages in their order; each has its row's ids and ordinals, the client id for its
  author alone, the count of active readers, a quote only of a message of the same room, and the
  delivery word: on the reader's own message \<open>read\<close> exactly when another active member's mark has
  passed it, on anybody else's exactly when the reader's own mark has.
\<close>

theorem sync_response_served:
  assumes "chat_reach db" "activeUser db (sv_UserID v)" "sv_MediaURL v = Some url"
    "p = Sync (quietSnap db) (sv_UserID v) after limit"
  shows "\<exists>resp. wireSync unmarshal ut p v now = Some resp \<and>
    list_all2 (served_as db (sv_UserID v)) (sp_Messages p) (sr_Messages resp) \<and>
    map c_ID (sr_Conversations resp) = map cr_ID (sp_Conversations p) \<and>
    sr_LogSeq resp = sp_HighWater p \<and> sr_HasMore resp = sp_HasMore p"
proof -
  let ?w = "\<lambda>m. the (pageMessage unmarshal v p m)"
  have "pageMessage unmarshal v p m = Some (?w m)" "served_as db (sv_UserID v) m (?w m)" if "m \<in> set (sp_Messages p)" for m
    using page_message_served [OF assms that, of unmarshal] by fastforce+
  then show ?thesis
    by (simp add: wireSync_def those_Some [of _ _ ?w] list_all2_conv_all_nth wireConversation_def comp_def)
qed

definition plainTables :: UnicodeTables where
  "plainTables = \<lparr>ut_IsLetter = (\<lambda>r. 65 \<le> r \<and> r \<le> 90 \<or> 97 \<le> r \<and> r \<le> 122), ut_IsNumber = (\<lambda>r. 48 \<le> r \<and> r \<le> 57),
     ut_ToUpper = (\<lambda>r. if 97 \<le> r \<and> r \<le> 122 then r - 32 else r)\<rparr>"

definition aliceView :: SyncViewer where
  "aliceView = \<lparr>sv_UserID = ''a'', sv_MediaURL = Some (\<lambda>k. ''/media/'' @ k)\<rparr>"

theorem sync_response_served_witness:
  "\<exists>resp. wireSync (\<lambda>_. emptyTranscript) plainTables (Sync (quietSnap chatRead) ''a'' 0 9) aliceView ''now'' = Some resp \<and>
     map m_State (sr_Messages resp) = [''read''] \<and> map m_ClientID (sr_Messages resp) = [Some ''k1'']"
proof -
  have v: "sv_UserID aliceView = ''a''" by (simp add: aliceView_def)
  have msgs: "sp_Messages (Sync (quietSnap chatRead) ''a'' 0 9) = [hd (db_messages chatRead)]"
    "mr_AuthorID (hd (db_messages chatRead)) = ''a''" "mr_ClientID (hd (db_messages chatRead)) = Some ''k1''" by code_simp+
  have "activeUser chatRead ''a''" unfolding activeUser_def by code_simp
  then have a: "activeUser chatRead (sv_UserID aliceView)" by (simp add: v)
  have u: "sv_MediaURL aliceView = Some (\<lambda>k. ''/media/'' @ k)" by (simp add: aliceView_def)
  have b: "readByAnother chatRead (hd (db_messages chatRead))" unfolding readByAnother_def activeUser_def by code_simp
  from sync_response_served [OF chatRead_reach a u refl, of "\<lambda>_. emptyTranscript" plainTables 0 9 "''now''"] b
  show ?thesis unfolding v msgs(1) by (auto simp: list_all2_Cons1 served_as_def msgs)
qed

end
