(* ===== verification/Hub_System.thy ===== *)
theory Hub_System
  imports Hub_Props Wire_Props
begin

text \<open>
  The hub over the store: what one notification puts on the outboxes, compared with the tables it
  was read from; revocations; receipts; and the retry of a failed read.
\<close>

lemma delivers_got: "delivers fs h h' \<Longrightarrow> got (fs p) (indexed h p) (obj h p) (indexed h' p) (obj h' p)"
  by (simp add: delivers_def)

section \<open>A message reaches the room\<close>

lemma concat_one:
  "distinct (map k xs) \<Longrightarrow> concat (map (\<lambda>x. if u = k x then f x else []) xs) = (case find (\<lambda>x. k x = u) xs of None \<Rightarrow> [] | Some x \<Rightarrow> f x)"
proof (induction xs)
  case (Cons x xs)
  have "u \<notin> k ` set xs \<Longrightarrow> find (\<lambda>x. k x = u) xs = None" by (auto simp: find_None_iff)
  then show ?case using Cons by auto
qed simp

lemma fanout_Inr:
  assumes "MessageForFanout db conv seq = Inr fm"
  obtains m where "fm_Message fm = m" "m \<in> set (db_messages db)" "mr_ConversationID m = conv" "mr_Seq m = seq"
    "fm_ReadBy fm = readByOf db [m] m" "fm_ReplySource fm = sourceOf db [m] m"
    "fm_Members fm = map (\<lambda>mb. \<lparr>fx_UserID = mb_user_id mb, fx_ReadSeq = mb_read_seq mb\<rparr>)
       (sort_key mb_user_id (filter (\<lambda>mb. mb_conversation_id mb = conv) (db_members db)))"
    "fm_Conversations fm = (if seq = FirstMessageSeq then conversationRowsForMembers db conv else [])"
proof -
  obtain m where f: "find (\<lambda>m. mr_ConversationID m = conv \<and> mr_Seq m = seq) (db_messages db) = Some m"
    using assms by (auto simp: MessageForFanout_def split: option.splits)
  show thesis by (rule that [of m]) (use assms f find_SomeD [OF f] in \<open>auto simp: MessageForFanout_def\<close>)
qed

lemma members_distinct:
  assumes "distinct (memberKeys db)"
  shows "distinct (map mb_user_id (sort_key mb_user_id (filter (\<lambda>mb. mb_conversation_id mb = conv) (db_members db))))"
proof -
  have "distinct (map (\<lambda>m. (mb_conversation_id m, mb_user_id m)) ms) \<Longrightarrow>
      distinct (map mb_user_id (filter (\<lambda>mb. mb_conversation_id mb = conv) ms))" for ms
    by (induction ms) (auto simp: image_iff)
  from this [of "db_members db"] show ?thesis
    using assms by (simp add: memberKeys_def distinct_map [of mb_user_id])
qed

lemma member_row:
  assumes "distinct (memberKeys db)" "mb \<in> set (db_members db)"
  shows "memberOf db (mb_conversation_id mb) (mb_user_id mb) = Some mb"
proof -
  have "find (\<lambda>x. (mb_conversation_id x, mb_user_id x) = (mb_conversation_id mb, mb_user_id mb)) (db_members db) = Some mb"
    using find_unique [of "\<lambda>m. (mb_conversation_id m, mb_user_id m)" "db_members db" mb] assms by (simp add: memberKeys_def)
  then show ?thesis by (simp add: memberOf_def)
qed

lemma conversation_row_for_member:
  assumes "distinct (memberKeys db)" "conversationByID db conv = Some c" "mb \<in> set (db_members db)" "mb_conversation_id mb = conv"
  shows "map_of (conversationRowsForMembers db conv) (mb_user_id mb) = Some (conversationRowPerViewer db c mb)"
  unfolding conversationRowsForMembers_def assms(2) option.case
  by (rule map_of_map_key) (use assms members_distinct [of db conv] in simp_all)

text \<open>The frames one member is sent: the introduction of a new conversation, then the message as that member may see it.\<close>

lemma fanoutFrames_served:
  assumes r: "chat_reach db" and fm: "MessageForFanout db conv seq = Inr fm" and mem: "mem \<in> set (fm_Members fm)"
    and act: "activeUser db (fx_UserID mem)"
  obtains intro w where "fanoutFrames env fm mem = intro @ [FMessage w]" "served_as db (fx_UserID mem) (fm_Message fm) w"
    "if seq = 1 then \<exists>c us. intro = FConversation c # us \<and> c_ID c = conv else intro = []"
proof -
  from fm obtain m where m: "fm_Message fm = m" "m \<in> set (db_messages db)" "mr_ConversationID m = conv" "mr_Seq m = seq"
    "fm_ReadBy fm = readByOf db [m] m" "fm_ReplySource fm = sourceOf db [m] m"
    "fm_Members fm = map (\<lambda>mb. \<lparr>fx_UserID = mb_user_id mb, fx_ReadSeq = mb_read_seq mb\<rparr>)
       (sort_key mb_user_id (filter (\<lambda>mb. mb_conversation_id mb = conv) (db_members db)))"
    "fm_Conversations fm = (if seq = FirstMessageSeq then conversationRowsForMembers db conv else [])" by (rule fanout_Inr)
  have inv: "log_inv db" and keys: "distinct (memberKeys db)" using r by (rule chat_reach_inv, rule chat_reach_members)
  obtain mb where mb: "mb \<in> set (db_members db)" "mb_conversation_id mb = conv" "mem = \<lparr>fx_UserID = mb_user_id mb, fx_ReadSeq = mb_read_seq mb\<rparr>"
    using mem unfolding m(7) by auto
  have row: "memberOf db (mr_ConversationID m) (fx_UserID mem) = Some mb" using member_row [OF keys mb(1)] mb m(3) by simp
  have rb: "readByOf db [m] m = readBy db m"
    using page_readBy [of db m "[m]"] inv m(2) by (simp add: readByOf_def log_inv_def)
  have own: "mr_AuthorID m = fx_UserID mem \<Longrightarrow> 1 < readBy db m \<longleftrightarrow> readByAnother db m"
    using readBy_another [OF keys, of m] row act by (simp add: memberOf_isMember)
  define src where "src = (case fm_ReplySource fm of None \<Rightarrow> None | Some s \<Rightarrow> if rs_ConversationID s = mr_ConversationID m then Some s else None)"
  have srcE: "mr_ReplyTo m = Some (rs_MessageID s) \<and> (\<exists>x \<in> set (db_messages db). mr_ID x = rs_MessageID s \<and>
      mr_ConversationID x = mr_ConversationID m \<and> mr_AuthorID x = rs_AuthorID s)" if "src = Some s" for s
  proof -
    from that m(6) obtain i where i: "mr_ReplyTo m = Some i" "map_of (loadReplySources db [m]) i = Some s" "rs_ConversationID s = mr_ConversationID m"
      by (auto simp: src_def sourceOf_def split: option.splits if_splits)
    from page_source [OF i(2)] i show ?thesis by auto
  qed
  obtain w where w: "messageFrame env m (fm_Attachments fm) src
      (viewFor env (fx_UserID mem) (DeliveryState m (fx_UserID mem) (fx_ReadSeq mem) (fm_ReadBy fm)) (fm_ReadBy fm)) = [FMessage w]"
    "served_as db (fx_UserID mem) m w"
    using own srcE row rb mb(3)
    by (auto simp: messageFrame_def viewFor_def wireMessage_def served_as_def DeliveryState_def replyRef_def Let_def m(5) split: option.splits)
  define intro where "intro = (if mr_Seq m \<noteq> FirstMessageSeq then [] else case map_of (fm_Conversations fm) (fx_UserID mem) of
      None \<Rightarrow> [] | Some row \<Rightarrow> FConversation (wireConversation row) # map (FUser \<circ> wireUser (he_tables env)) (fm_Users fm))"
  have fr: "fanoutFrames env fm mem = intro @ [FMessage w]"
    using w(1) unfolding fanoutFrames_def Let_def m(1) intro_def src_def by simp
  have "\<exists>c us. intro = FConversation c # us \<and> c_ID c = conv" if "seq = 1"
  proof -
    obtain c where c: "conversationByID db conv = Some c"
    proof (cases "conversationByID db conv")
      case None
      then have "conv \<notin> cv_id ` set (db_conversations db)" by (auto simp: conversationByID_def find_None_iff)
      moreover have "conv \<in> cv_id ` set (db_conversations db)" using inv m(2,3) by (auto simp: log_inv_def)
      ultimately show ?thesis by simp
    qed (rule that)
    then have "cv_id c = conv" by (auto simp: conversationByID_def dest: find_SomeD)
    then show ?thesis
      using conversation_row_for_member [OF keys c mb(1,2)] that m(4,8) mb(3)
      by (simp add: intro_def FirstMessageSeq_def wireConversation_def conversationRowPerViewer_def)
  qed
  moreover have "seq \<noteq> 1 \<Longrightarrow> intro = []" using m(4) by (simp add: intro_def FirstMessageSeq_def)
  ultimately show thesis using that [OF fr] w(2) m(1) by auto
qed

text \<open>What a session is told when the load of a message failed: to resync, or it is closed.\<close>

lemma gap_tells_everyone:
  assumes i: "hub_inv h" and p: "indexed h p"
  shows "(\<exists>n. head = Inr n \<and> indexed (gap False head h) p \<and>
            hs_out (obj (gap False head h) p) = hs_out (obj h p) @ [FResyncRequired ResyncReasonCursorTooOld n]) \<or>
    CloseNow \<in> set (hs_closes (obj (gap False head h) p)) \<or>
    Close StatusServiceRestart \<in> set (hs_closes (obj (gap False head h) p))"
proof (cases head)
  case (Inl e)
  have "\<forall>q \<in> set (allSessions h). q < length (hb_objs h)" using inv_indexed [OF i] by (simp add: indexed_def)
  note k = closeAll [OF i this, where c = "Close StatusServiceRestart"]
  show ?thesis using k p Inl by (auto simp: gap_def indexed_def)
next
  case (Inr n)
  have "got [FResyncRequired ResyncReasonCursorTooOld n] (indexed h p) (obj h p) (indexed (gap False head h) p) (obj (gap False head h) p)"
    using resync_delivers [OF i, of n] Inr by (simp add: delivers_def)
  then show ?thesis using p Inr by (auto simp: got_def)
qed

text \<open>
  C3. A message is never silently dropped. A notification whose message was read puts, on every
  attached session of every member of the room, the message as that member may see it (after the
  conversation itself when it is the room's first message) behind what the outbox held, or severs
  the session; the sessions of everybody else are untouched. A read that failed tells every
  attached session to resync, or closes it.
\<close>

theorem message_reaches_members:
  assumes "hub_reach env h" "chat_reach db" "MessageForFanout db conv seq = Inr fm" "indexed h p" "activeUser db (userOf h p)"
    "h' = OnNotify env False (Inr fm) c hr h"
  shows "(if isMember db conv (userOf h p) then
        (indexed h' p \<and> (\<exists>intro w. hs_out (obj h' p) = hs_out (obj h p) @ intro @ [FMessage w] \<and>
           served_as db (userOf h p) (fm_Message fm) w \<and>
           (if seq = 1 then \<exists>cv us. intro = FConversation cv # us \<and> c_ID cv = conv else intro = []))) \<or>
        (\<not> indexed h' p \<and> CloseNow \<in> set (hs_closes (obj h' p)))
      else indexed h' p \<and> obj h' p = obj h p) \<and>
    (\<forall>e head. e \<noteq> ErrNotFound \<longrightarrow> (let h2 = OnNotify env False (Inl e) False head h
       in (\<exists>n. head = Inr n \<and> indexed h2 p \<and> hs_out (obj h2 p) = hs_out (obj h p) @ [FResyncRequired ResyncReasonCursorTooOld n]) \<or>
          CloseNow \<in> set (hs_closes (obj h2 p)) \<or> Close StatusServiceRestart \<in> set (hs_closes (obj h2 p))))"
proof -
  have i: "hub_inv h" by (rule hub_reach_inv [OF assms(1)])
  have keys: "distinct (memberKeys db)" by (rule chat_reach_members [OF assms(2)])
  from assms(3) obtain m where mems: "fm_Members fm = map (\<lambda>mb. \<lparr>fx_UserID = mb_user_id mb, fx_ReadSeq = mb_read_seq mb\<rparr>)
       (sort_key mb_user_id (filter (\<lambda>mb. mb_conversation_id mb = conv) (db_members db)))" by (rule fanout_Inr)
  have d: "distinct (map fx_UserID (fm_Members fm))" using members_distinct [OF keys, of conv] by (simp add: mems comp_def)
  define fs where "fs = (case find (\<lambda>x. fx_UserID x = userOf h p) (fm_Members fm) of None \<Rightarrow> [] | Some x \<Rightarrow> fanoutFrames env fm x)"
  have g: "got fs True (obj h p) (indexed h' p) (obj h' p)"
    using delivers_got [OF fanout_delivers [OF i, of env fm], of p] assms(4) unfolding assms(6) OnNotify_def fs_def
    by (simp add: concat_one [OF d])
  have one: "if isMember db conv (userOf h p) then
        (indexed h' p \<and> (\<exists>intro w. hs_out (obj h' p) = hs_out (obj h p) @ intro @ [FMessage w] \<and>
           served_as db (userOf h p) (fm_Message fm) w \<and>
           (if seq = 1 then \<exists>cv us. intro = FConversation cv # us \<and> c_ID cv = conv else intro = []))) \<or>
        (\<not> indexed h' p \<and> CloseNow \<in> set (hs_closes (obj h' p)))
      else indexed h' p \<and> obj h' p = obj h p"
  proof (cases "isMember db conv (userOf h p)")
    case True
    then have "\<exists>x \<in> set (fm_Members fm). fx_UserID x = userOf h p" by (force simp: mems isMember_def list_ex_iff)
    then obtain x where x: "find (\<lambda>x. fx_UserID x = userOf h p) (fm_Members fm) = Some x"
      by (metis (mono_tags, lifting) find_None_iff option.exhaust)
    have xm: "x \<in> set (fm_Members fm)" "fx_UserID x = userOf h p" using find_SomeD [OF x] by simp_all
    from assms(5) xm(2) have act: "activeUser db (fx_UserID x)" by simp
    obtain intro w where f: "fanoutFrames env fm x = intro @ [FMessage w]" and s: "served_as db (fx_UserID x) (fm_Message fm) w"
      "if seq = 1 then \<exists>c us. intro = FConversation c # us \<and> c_ID c = conv else intro = []"
      by (rule fanoutFrames_served [OF assms(2,3) xm(1) act, of env])
    have "indexed h' p \<and> hs_out (obj h' p) = hs_out (obj h p) @ intro @ [FMessage w] \<or>
        \<not> indexed h' p \<and> CloseNow \<in> set (hs_closes (obj h' p))"
      using g by (auto simp: fs_def x f got_def)
    then show ?thesis using True s unfolding xm(2) by auto
  next
    case False
    then have "find (\<lambda>x. fx_UserID x = userOf h p) (fm_Members fm) = None"
      by (auto simp: find_None_iff mems isMember_def list_ex_iff)
    then show ?thesis using False g by (simp add: fs_def got_def)
  qed
  then show ?thesis using gap_tells_everyone [OF i assms(4)] by (simp add: OnNotify_def Let_def)
qed

definition plainEnv :: HubEnv where
  "plainEnv = \<lparr>he_unmarshal = (\<lambda>_. emptyTranscript),
     he_tables = \<lparr>ut_IsLetter = (\<lambda>_. False), ut_IsNumber = (\<lambda>_. False), ut_ToUpper = (\<lambda>r. r)\<rparr>, he_mediaURL = (\<lambda>k. ''/media/'' @ k)\<rparr>"

definition hubOne :: Hub where
  "hubOne = Attach \<lparr>hc_SessionID = ''s1'', hc_UserID = ''b'', hc_DeviceID = ''d1''\<rparr> newHub"

lemma hubOne_reach: "hub_reach env hubOne"
  unfolding hub_reach_def hubOne_def by (rule r_into_rtranclp [of "hub_step env", OF hub_step.attach])

definition fanoutOne :: FanoutMessage where
  "fanoutOne = (case MessageForFanout chatOne ''r'' 1 of Inr fm \<Rightarrow> fm | Inl _ \<Rightarrow> undefined)"

lemma fanoutOne_eq: "MessageForFanout chatOne ''r'' 1 = Inr fanoutOne"
proof -
  have "\<not> isl (MessageForFanout chatOne ''r'' 1)" by code_simp
  then show ?thesis by (cases "MessageForFanout chatOne ''r'' 1") (simp_all add: fanoutOne_def)
qed

theorem message_reaches_members_witness:
  "\<exists>w. FMessage w \<in> set (hs_out (obj (OnNotify plainEnv False (Inr fanoutOne) False (Inr 0) hubOne) 0)) \<and> m_State w = ''delivered''"
proof -
  have u: "indexed hubOne 0" "userOf hubOne 0 = ''b''" "hs_closes (obj hubOne 0) = []" "length (hs_out (obj hubOne 0)) = 0"
    unfolding indexed_def by code_simp+
  have a: "activeUser chatOne ''b''" unfolding activeUser_def by code_simp
  have b: "isMember chatOne ''r'' ''b''" by code_simp
  let ?h = "OnNotify plainEnv False (Inr fanoutOne) False (Inr 0) hubOne"
  have m: "mr_AuthorID (fm_Message fanoutOne) = ''a''" "\<not> mr_Seq (fm_Message fanoutOne) \<le> 0" "mr_ConversationID (fm_Message fanoutOne) = ''r''"
  proof -
    have "(case MessageForFanout chatOne ''r'' 1 of Inl _ \<Rightarrow> False | Inr fm \<Rightarrow> mr_AuthorID (fm_Message fm) = ''a'' \<and>
        \<not> mr_Seq (fm_Message fm) \<le> 0 \<and> mr_ConversationID (fm_Message fm) = ''r'')" by code_simp
    then show "mr_AuthorID (fm_Message fanoutOne) = ''a''" "\<not> mr_Seq (fm_Message fanoutOne) \<le> 0"
      "mr_ConversationID (fm_Message fanoutOne) = ''r''" by (simp_all add: fanoutOne_eq)
  qed
  have mark: "(case memberOf chatOne ''r'' ''b'' of Some cm \<Rightarrow> mb_read_seq cm | None \<Rightarrow> 0) = 0" by code_simp
  have ix: "indexed ?h 0"
  proof -
    have "(case MessageForFanout chatOne ''r'' 1 of Inl _ \<Rightarrow> False | Inr fm \<Rightarrow>
        0 \<in> set (allSessions (OnNotify plainEnv False (Inr fm) False (Inr 0) hubOne)))" by code_simp
    then show ?thesis by (simp add: fanoutOne_eq indexed_def)
  qed
  from message_reaches_members [OF hubOne_reach chatOne_reach fanoutOne_eq u(1) a [folded u(2)] refl, of plainEnv False "Inr 0", THEN conjunct1]
  obtain intro w where w: "hs_out (obj ?h 0) = hs_out (obj hubOne 0) @ intro @ [FMessage w]" "served_as chatOne ''b'' (fm_Message fanoutOne) w"
    using b ix unfolding u(2) by auto
  have "m_State w = ''delivered''" using w(2) m mark by (simp add: served_as_def)
  then show ?thesis using w(1) by (intro exI [of _ w]) simp
qed

section \<open>The reachable hubs\<close>

text \<open>
  C7. In every state of a hub, whatever the store answers and in whatever order the operations
  interleave: the index holds each attached session once, under its own user, with an open outbox;
  the count is the number of sessions; no outbox holds more than 256 frames; the drain channel is
  closed at most once, and only when the hub is closing and empty; and no author has been
  re-emitted more than 64 messages in the current batch.
\<close>

theorem reachable_hub:
  assumes "hub_reach env h"
  shows "distinct (allSessions h) \<and> hb_count h = int (length (allSessions h)) \<and>
    (\<forall>p \<in> set (allSessions h). p < length (hb_objs h) \<and> p \<in> set (sessionsOf h (userOf h p)) \<and> \<not> hs_outClosed (obj h p)) \<and>
    (\<forall>s \<in> set (hb_objs h). length (hs_out s) \<le> outboxBound) \<and>
    hb_drained h \<le> 1 \<and> (hb_drained h = 1 \<longrightarrow> hb_closing h \<and> hb_count h = 0) \<and>
    (\<forall>a. spentBy h a \<le> readNotifyCap)"
proof -
  have i: "hub_inv h" by (rule hub_reach_inv [OF assms])
  have "\<forall>p \<in> set (allSessions h). p < length (hb_objs h) \<and> p \<in> set (sessionsOf h (userOf h p)) \<and> \<not> hs_outClosed (obj h p)"
    using inv_indexed [OF i] sessionsOf_in [OF i] by (simp add: indexed_def)
  then show ?thesis using i unfolding hub_inv_def by blast
qed

theorem reachable_hub_witness: "hb_count hubOne = int (length (allSessions hubOne))"
  using reachable_hub [OF hubOne_reach [of plainEnv]] by blast

section \<open>Revocations\<close>

lemma DeadDevices_in:
  "d \<in> set (DeadDevices db ids) \<longleftrightarrow> d \<in> set ids \<and> (\<exists>dv \<in> set (db_devices db). dv_id dv = d \<and>
     (\<exists>u \<in> set (db_users db). us_id u = dv_user_id dv \<and> (dv_revoked_at dv \<noteq> None \<or> us_deactivated_at u \<noteq> None)))"
  by (auto simp: DeadDevices_def list_ex_iff)

text \<open>
  C19. A revocation takes exactly the sessions it names. The push severs every attached session of
  the device or the user with the terminal status 4001 and leaves the others untouched. The
  re-check after a gap severs, of the sessions it collected, exactly those whose device the
  database calls dead; when the re-check itself fails it closes all of them for a reconnect and
  calls none of them revoked. A session attached with a dead device does not stay.
\<close>

theorem revocation_severs:
  assumes "hub_reach env h" "indexed h p"
  defines "d \<equiv> hc_DeviceID (hs_conn (obj h p))"
  shows "(let h1 = OnRevocation device user h
      in if user = Some (userOf h p) \<or> device = Some d
         then \<not> indexed h1 p \<and> Close StatusRevoked \<in> set (hs_closes (obj h1 p))
         else indexed h1 p \<and> obj h1 p = obj h p) \<and>
    (let all = allSessions h; ids = remdups (map (\<lambda>q. hc_DeviceID (hs_conn (obj h q))) all);
         h2 = OnRevocationGap all False (Inr (DeadDevices db ids)) h
      in if d \<in> set (DeadDevices db [d]) then \<not> indexed h2 p \<and> Close StatusRevoked \<in> set (hs_closes (obj h2 p))
         else indexed h2 p \<and> obj h2 p = obj h p) \<and>
    (let h3 = OnRevocationGap (allSessions h) False (Inl e) h
      in \<not> indexed h3 p \<and> Close StatusServiceRestart \<in> set (hs_closes (obj h3 p)) \<and>
         (Close StatusRevoked \<in> set (hs_closes (obj h3 p)) \<longrightarrow> Close StatusRevoked \<in> set (hs_closes (obj h p)))) \<and>
    (let h4 = severIfDead p (Inr (DeadDevices db [d])) h
      in if d \<in> set (DeadDevices db [d]) then \<not> indexed h4 p \<and> Close StatusRevoked \<in> set (hs_closes (obj h4 p)) else h4 = h)"
proof (intro conjI)
  have i: "hub_inv h" by (rule hub_reach_inv [OF assms(1)])
  have pl: "p < length (hb_objs h)" using inv_indexed [OF i assms(2)] by simp
  have all: "p \<in> set (allSessions h)" "allSessions h \<noteq> []" using assms(2) by (auto simp: indexed_def)
  have bound: "\<forall>q \<in> set (allSessions h). q < length (hb_objs h)" using inv_indexed [OF i] by (simp add: indexed_def)
  have "\<forall>q \<in> set (doomedBy device user h). q < length (hb_objs h)" using doomedBy_in [OF i] inv_indexed [OF i] by blast
  note s = sever_effect [OF i this, where c = "Close StatusRevoked"]
  show "let h1 = OnRevocation device user h
      in if user = Some (userOf h p) \<or> device = Some d
         then \<not> indexed h1 p \<and> Close StatusRevoked \<in> set (hs_closes (obj h1 p))
         else indexed h1 p \<and> obj h1 p = obj h p"
    using s(3) [of p] s(4) [of p] s(6) [of p] doomedBy_in [OF i, of p device user] assms(2)
    unfolding OnRevocation_def d_def by (simp add: Let_def)
  let ?ids = "remdups (map (\<lambda>q. hc_DeviceID (hs_conn (obj h q))) (allSessions h))"
  let ?dead = "DeadDevices db ?ids"
  let ?doomed = "concat (map (\<lambda>d. filter (\<lambda>p. hc_DeviceID (hs_conn (obj h p)) = d) (allSessions h)) ?dead)"
  have "\<forall>q \<in> set ?doomed. q < length (hb_objs h)" using bound by auto
  note g = sever_effect [OF i this, where c = "Close StatusRevoked"]
  have "p \<in> set ?doomed \<longleftrightarrow> d \<in> set ?dead" using all by (auto simp: d_def)
  also have "\<dots> \<longleftrightarrow> d \<in> set (DeadDevices db [d])" using all unfolding DeadDevices_in by (auto simp: d_def)
  finally show "let all = allSessions h; ids = remdups (map (\<lambda>q. hc_DeviceID (hs_conn (obj h q))) all);
         h2 = OnRevocationGap all False (Inr (DeadDevices db ids)) h
      in if d \<in> set (DeadDevices db [d]) then \<not> indexed h2 p \<and> Close StatusRevoked \<in> set (hs_closes (obj h2 p))
         else indexed h2 p \<and> obj h2 p = obj h p"
    using g(3) [of p] g(4) [of p] g(6) [of p] assms(2) all(2) by (simp add: OnRevocationGap_def Let_def)
  note k = sever_effect [OF i bound, where c = "Close StatusServiceRestart"]
  show "let h3 = OnRevocationGap (allSessions h) False (Inl e) h
      in \<not> indexed h3 p \<and> Close StatusServiceRestart \<in> set (hs_closes (obj h3 p)) \<and>
         (Close StatusRevoked \<in> set (hs_closes (obj h3 p)) \<longrightarrow> Close StatusRevoked \<in> set (hs_closes (obj h p)))"
    using k(3) [of p] k(6) [OF all(1)] all k(7) [of p]
    by (auto simp: OnRevocationGap_def Let_def StatusRevoked_def StatusServiceRestart_def)
  note r = removeLocked_effect [OF i assms(2)]
  have "set (DeadDevices db [d]) \<subseteq> {d}" by (auto simp: DeadDevices_in)
  then have "DeadDevices db [d] = [] \<longleftrightarrow> d \<notin> set (DeadDevices db [d])" by (cases "DeadDevices db [d]") auto
  then show "let h4 = severIfDead p (Inr (DeadDevices db [d])) h
      in if d \<in> set (DeadDevices db [d]) then \<not> indexed h4 p \<and> Close StatusRevoked \<in> set (hs_closes (obj h4 p)) else h4 = h"
  proof (cases "d \<in> set (DeadDevices db [d])")
    case True
    obtain h' where rl: "removeLocked p h = (h', True)" using r(1) by (cases "removeLocked p h") auto
    have "severIfDead p (Inr (DeadDevices db [d])) h = closeConn (Close StatusRevoked) p h'"
      using True by (cases "DeadDevices db [d]") (simp_all add: severIfDead_def rl)
    moreover have "p < length (hb_objs h')" "\<not> indexed h' p" using r(3,4) pl rl by simp_all
    ultimately show ?thesis using True by (simp add: closeConn_def)
  qed (simp add: severIfDead_def)
qed

theorem revocation_severs_witness:
  "\<not> indexed (OnRevocation (Some ''d1'') None hubOne) 0"
proof -
  have "indexed hubOne 0" "hc_DeviceID (hs_conn (obj hubOne 0)) = ''d1''" unfolding indexed_def by code_simp+
  then show ?thesis
    using revocation_severs [OF hubOne_reach [of plainEnv], of 0 "Some ''d1''" None chatOne DriverError, THEN conjunct1]
    by (simp add: Let_def)
qed

section \<open>Receipts\<close>

lemma reemitFrame_one: "length (reemitFrame env rm) = 1"
  by (simp add: reemitFrame_def messageFrame_def viewFor_def wireMessage_def Let_def)

text \<open>What the frames of a batch have cost the author of session \<open>p\<close> so far.\<close>

definition charged :: "nat \<Rightarrow> Hub \<Rightarrow> Hub \<Rightarrow> bool" where
  "charged p h h' \<longleftrightarrow> hs_conn (obj h' p) = hs_conn (obj h p) \<and> spentBy h (userOf h p) \<le> spentBy h' (userOf h p) \<and>
     (if indexed h' p then length (hs_out (obj h' p)) = length (hs_out (obj h p)) + (spentBy h' (userOf h p) - spentBy h (userOf h p))
      else CloseNow \<in> set (hs_closes (obj h' p)))"

lemma reemit_charged:
  assumes "hub_inv h" "hb_burst h \<noteq> None" "indexed h p"
  shows "charged p h (fold (reemitOne env True) rms h)"
proof -
  have step: "charged p h (reemitOne env True rm h1)" if c: "charged p h h1" "hub_inv h1" "hb_burst h1 \<noteq> None" for rm h1
  proof -
    let ?a = "mr_AuthorID (rn_Message rm)" and ?u = "userOf h p"
    let ?sent = "sessionsOf h1 ?a \<noteq> [] \<and> \<not> (True \<and> readNotifyCap \<le> spentBy h1 ?a)"
    obtain h0 where h0: "hb_objs h0 = hb_objs h1" "allSessions h0 = allSessions h1"
      "\<forall>x. spentBy h0 x = (if ?sent \<and> True \<and> x = ?a then spentBy h1 x + 1 else spentBy h1 x)"
      "delivers (\<lambda>q. if ?sent \<and> userOf h1 q = ?a then reemitFrame env rm else []) h0 (reemitOne env True rm h1)"
    proof -
      have b: "True \<longrightarrow> hb_burst h1 \<noteq> None" using c(3) by simp
      from reemitOne_effect [OF c(2) b, of rm env] show ?thesis by (elim exE conjE) (rule that)
    qed
    let ?h2 = "reemitOne env True rm h1"
    have sp: "spentBy ?h2 x = spentBy h0 x" for x using h0(4) by (simp add: delivers_def spentBy_def)
    have g: "got (if ?sent \<and> userOf h1 p = ?a then reemitFrame env rm else []) (indexed h1 p) (obj h1 p) (indexed ?h2 p) (obj ?h2 p)"
      using delivers_got [OF h0(4), of p] by (simp add: h0(1,2) indexed_def)
    have u: "userOf h1 p = ?u" using c(1) by (simp add: charged_def)
    have mine: "indexed h1 p \<Longrightarrow> ?a = ?u \<Longrightarrow> sessionsOf h1 ?a \<noteq> []" using sessionsOf_in [OF c(2), of p ?a] u by auto
    show ?thesis
    proof (cases "indexed h1 p")
      case True
      then show ?thesis
        using g c(1) u reemitFrame_one [of env rm] h0(3) sp mine by (auto simp: charged_def got_def split: if_splits)
    next
      case False
      then show ?thesis using g c(1) h0(3) sp by (auto simp: charged_def got_def split: if_splits)
    qed
  qed
  have "charged p h h1 \<Longrightarrow> hub_inv h1 \<Longrightarrow> hb_burst h1 \<noteq> None \<Longrightarrow> charged p h (fold (reemitOne env True) rms h1)" for h1
  proof (induction rms arbitrary: h1)
    case (Cons rm rms)
    show ?case
      using Cons.IH [of "reemitOne env True rm h1"] step [OF Cons.prems] reemitOne_inv [of h1 True env rm] Cons.prems by simp
  qed simp
  then show ?thesis using assms by (simp add: charged_def)
qed

text \<open>
  The receipts of one commit do not flood an author. However many rooms an offboard touches,
  each receipt of the batch charges what it puts on an author's outboxes to one budget: the frames
  a session gets are exactly the growth of its user's spend (or the session was severed), and the
  spend of a batch never passes 64, a quarter of the outbox.
\<close>

theorem receipt_burst_bounded:
  assumes "hub_reach env h" "indexed h p"
    "h0 = budgetLocked (Some b) h" "h' = onReadNotify env False (Inr msgs) (Some b) h"
  shows "spentBy h0 (userOf h p) = (if map_option fst (hb_burst h) = Some b then spentBy h (userOf h p) else 0) \<and>
    spentBy h0 (userOf h p) \<le> spentBy h' (userOf h p) \<and> spentBy h' (userOf h p) \<le> readNotifyCap \<and>
    4 * readNotifyCap = outboxBound \<and>
    (if indexed h' p then length (hs_out (obj h' p)) = length (hs_out (obj h p)) + (spentBy h' (userOf h p) - spentBy h0 (userOf h p))
     else CloseNow \<in> set (hs_closes (obj h' p)))"
proof -
  have i: "hub_inv h" by (rule hub_reach_inv [OF assms(1)])
  have b: "hb_burst h0 \<noteq> None" "hub_inv h0" unfolding assms(3) by (rule budgetLocked_burst, simp) (rule budgetLocked_inv [OF i])
  have o: "hb_objs h0 = hb_objs h" "allSessions h0 = allSessions h" by (auto simp: assms(3) budgetLocked_def allSessions_def)
  have "h' = fold (reemitOne env True) msgs h0" by (simp add: assms(3,4) onReadNotify_def)
  then have c: "charged p h0 h'" using reemit_charged [OF b(2,1)] assms(2) o by (simp add: indexed_def)
  have "hub_inv h'" unfolding assms(4) by (rule onReadNotify_inv [OF i])
  then have "spentBy h' (userOf h p) \<le> readNotifyCap" by (simp add: hub_inv_def)
  moreover have "spentBy h0 (userOf h p) = (if map_option fst (hb_burst h) = Some b then spentBy h (userOf h p) else 0)"
    by (simp add: assms(3) budgetLocked_def spentBy_def)
  ultimately show ?thesis using c o by (simp add: charged_def readNotifyCap_def outboxBound_def split: if_splits)
qed

theorem receipt_burst_bounded_witness:
  "spentBy (onReadNotify plainEnv False (Inr []) (Some ''batch'') hubOne) ''b'' \<le> readNotifyCap"
proof -
  have "indexed hubOne 0" "userOf hubOne 0 = ''b''" unfolding indexed_def by code_simp+
  then show ?thesis using receipt_burst_bounded [OF hubOne_reach [of plainEnv], of 0, OF _ refl refl, of "''batch''" "[]"] by simp
qed

section \<open>Retrying\<close>

primrec backoffAt :: "nat \<Rightarrow> duration" where
  "backoffAt 0 = retryInitial"
| "backoffAt (Suc k) = (if retryMax < backoffAt k * 2 then retryMax else backoffAt k * 2)"

lemma retry_None:
  "retry fuel att deadline (backoffAt k) k = None \<Longrightarrow> j < fuel \<Longrightarrow> ap_now (att (k + j)) + backoffAt (k + j) \<le> deadline"
proof (induction fuel arbitrary: k j)
  case (Suc fuel)
  have more: "ap_now (att k) + backoffAt k \<le> deadline \<and> retry fuel att deadline (backoffAt (Suc k)) (Suc k) = None"
    using Suc.prems(1) by (simp add: Let_def split: if_splits sum.splits)
  show ?case
  proof (cases j)
    case 0
    then show ?thesis using more by simp
  next
    case (Suc i)
    then show ?thesis using Suc.IH [of "Suc k" i] more Suc.prems(2) by simp
  qed
qed simp

lemma retry_Some:
  "retry fuel att deadline backoff k = Some r \<Longrightarrow> r = Inl Canceled \<or> (\<exists>j < fuel. ap_result (att (k + j)) = r)"
proof (induction fuel arbitrary: k backoff)
  case (Suc fuel)
  let ?b = "if retryMax < backoff * 2 then retryMax else backoff * 2"
  have "(if ap_done (att k) then Some (Inl Canceled) else case ap_result (att k) of
      Inr x \<Rightarrow> Some (Inr x)
    | Inl e \<Rightarrow> if ap_doneAfter (att k) \<or> \<not> isTransient e then Some (Inl e)
        else if deadline < ap_now (att k) + backoff then Some (Inl e)
        else if ap_doneWaiting (att k) then Some (Inl Canceled) else retry fuel att deadline ?b (k + 1)) = Some r"
    using Suc.prems unfolding retry.simps Let_def .
  then have "r = Inl Canceled \<or> ap_result (att k) = r \<or> (\<exists>b. retry fuel att deadline b (k + 1) = Some r)"
    by (cases "ap_result (att k)"; cases "ap_done (att k)"; cases "ap_doneWaiting (att k)") (auto split: if_split_asm)
  then consider "r = Inl Canceled" | "ap_result (att k) = r" | b where "retry fuel att deadline b (k + 1) = Some r" by blast
  then show ?case
  proof cases
    case 3
    from Suc.IH [OF this] show ?thesis
    proof
      assume "\<exists>j < fuel. ap_result (att (k + 1 + j)) = r"
      then obtain j where "j < fuel" "ap_result (att (k + 1 + j)) = r" by blast
      then show ?thesis by (intro disjI2 exI [of _ "Suc j"]) simp
    qed simp
  qed (auto intro: exI [of _ 0])
qed simp

lemma backoff_sum:
  assumes "\<forall>k. ap_now (att k) + backoffAt k \<le> ap_now (att (Suc k))"
  shows "ap_now (att 0) + (\<Sum>j < n. backoffAt j) \<le> ap_now (att n)"
proof (induction n)
  case (Suc n)
  then show ?case using assms [rule_format, of n] by simp
qed simp

text \<open>
  A retried read ends. The wait between two attempts is never shorter than its backoff, so with
  the load's budget of three seconds there are at most six attempts and with the five seconds of the
  head and revocation reads at most eight, whatever the attempts answer; and what is returned is
  the outcome of one of them or the cancellation of the context.
\<close>

theorem retry_ends:
  assumes "start \<le> ap_now (att 0)" "\<forall>k. ap_now (att k) + backoffAt k \<le> ap_now (att (Suc k))"
  shows "(\<exists>r. retry 6 att (start + loadBudget) retryInitial 0 = Some r \<and> (r = Inl Canceled \<or> (\<exists>j < 6. ap_result (att j) = r))) \<and>
    (\<exists>r. retry 8 att (start + headBudget) retryInitial 0 = Some r \<and> (r = Inl Canceled \<or> (\<exists>j < 8. ap_result (att j) = r)))"
proof -
  have some: "\<exists>r. retry (Suc n) att (start + budget) retryInitial 0 = Some r \<and> (r = Inl Canceled \<or> (\<exists>j < Suc n. ap_result (att j) = r))"
    if "budget < (\<Sum>j < Suc n. backoffAt j)" for n budget
  proof (cases "retry (Suc n) att (start + budget) retryInitial 0")
    case None
    have "ap_now (att n) + backoffAt n \<le> start + budget" using retry_None [of "Suc n" att "start + budget" 0 n] None by simp
    with backoff_sum [OF assms(2), of n] assms(1) that show ?thesis by simp
  next
    case (Some r)
    then show ?thesis using retry_Some [OF Some] by simp
  qed
  have "loadBudget < (\<Sum>j < Suc 5. backoffAt j)" "headBudget < (\<Sum>j < Suc 7. backoffAt j)"
    by (simp_all add: loadBudget_def headBudget_def retryInitial_def retryMax_def second_def lessThan_Suc eval_nat_numeral)
  from some [OF this(1)] some [OF this(2)] show ?thesis by (simp add: eval_nat_numeral)
qed

theorem retry_ends_witness:
  "\<exists>r. retry 6 (\<lambda>k. \<lparr>ap_done = False, ap_result = (Inl NetError :: store_error + int), ap_doneAfter = False,
      ap_now = (\<Sum>j < k. backoffAt j), ap_doneWaiting = False\<rparr>) (0 + loadBudget) retryInitial 0 = Some r \<and>
    (r = Inl Canceled \<or> r = Inl NetError)"
  using retry_ends [of 0 "\<lambda>k. \<lparr>ap_done = False, ap_result = (Inl NetError :: store_error + int), ap_doneAfter = False,
      ap_now = (\<Sum>j < k. backoffAt j), ap_doneWaiting = False\<rparr>", THEN conjunct1] by auto

end
