(* ===== verification/Rest_Props.thy ===== *)
theory Rest_Props
  imports Api_Rest Socket_Props Hub_System
begin

text \<open>
  What the REST routes promise. \<open>rest_service\<close> is the contract of the functions the router is given:
  whatever they keep, every request keeps; its instance is the server as \<^verbatim>\<open>cmd/catenary\<close> wires it,
  where a request is a run of steps of the chat tables. Then the two transports of a send compared,
  the answer of a send and the hub's broadcast, the one refusal of a credential, the revocation of
  a device and the cursor of a catch-up.
\<close>

section \<open>What a request keeps\<close>

locale rest_service =
  fixes d :: "'s RestDeps" and keeps :: "'s \<Rightarrow> bool"
  assumes send: "keeps w \<Longrightarrow> keeps (fst (dp_Send (ap_deps d) m w))"
    and enroll: "ap_Enroll d = Some f1 \<Longrightarrow> keeps w \<Longrightarrow> keeps (fst (f1 presented name w))"
    and revoke: "ap_RevokeOwnDevice d = Some f2 \<Longrightarrow> keeps w \<Longrightarrow> keeps (fst (f2 viewer device w))"
    and direct: "ap_FindOrCreateDirect d = Some f3 \<Longrightarrow> keeps w \<Longrightarrow> keeps (fst (f3 viewer handle w))"
    and group: "ap_CreateGroup d = Some f4 \<Longrightarrow> keeps w \<Longrightarrow> keeps (fst (f4 viewer room handles request w))"
    and self: "ap_FindOrCreateSelf d = Some f5 \<Longrightarrow> keeps w \<Longrightarrow> keeps (fst (f5 viewer w))"
begin

lemma messagesHandler_keeps:
  assumes "keeps w" "\<And>w. keeps w \<Longrightarrow> keeps (meanwhile w)"
  shows "keeps (fst (messagesHandler d callerOf readRow meanwhile r body w))"
proof -
  have "keeps w1" if "dp_Send (ap_deps d) m w = (w1, x)" for m w1 x using send [OF assms(1), of m] that by simp
  then show ?thesis using assms by (auto simp: messagesHandler_def split: option.split sum.split prod.split)
qed

lemma enrollHandler_keeps:
  assumes "keeps w" "ap_Enroll d = Some f"
  shows "keeps (fst (enrollHandler f body w))"
proof -
  have "keeps w1" if "f presented name w = (w1, x)" for presented name w1 x using enroll [OF assms(2,1), of presented name] that by simp
  then show ?thesis using assms(1) by (auto simp: enrollHandler_def split: option.split sum.split prod.split)
qed

lemma revokeDeviceHandler_keeps:
  assumes "keeps w" "ap_RevokeOwnDevice d = Some f"
  shows "keeps (fst (revokeDeviceHandler parse callerID f r w))"
proof -
  have "keeps w1" if "f viewer device w = (w1, x)" for viewer device w1 x using revoke [OF assms(2,1), of viewer device] that by simp
  then show ?thesis using assms(1) by (auto simp: revokeDeviceHandler_def split: option.split sum.split prod.split)
qed

lemma roomHandlers_keep:
  assumes "keeps w"
  shows "ap_FindOrCreateDirect d = Some f3 \<Longrightarrow> keeps (fst (directConversationHandler callerOf f3 r handle w))"
    "ap_CreateGroup d = Some f4 \<Longrightarrow> keeps (fst (createGroupHandler parse callerOf f4 r body w))"
    "ap_FindOrCreateSelf d = Some f5 \<Longrightarrow> keeps (fst (selfConversationHandler callerOf f5 r w))"
proof -
  show "keeps (fst (directConversationHandler callerOf f3 r handle w))" if f: "ap_FindOrCreateDirect d = Some f3"
  proof -
    have "keeps w1" if "f3 viewer handle w = (w1, x)" for viewer handle w1 x using direct [OF f assms, of viewer handle] that by simp
    then show ?thesis using assms by (auto simp: directConversationHandler_def split: option.split sum.split prod.split)
  qed
  show "keeps (fst (createGroupHandler parse callerOf f4 r body w))" if f: "ap_CreateGroup d = Some f4"
  proof -
    have "keeps w1" if "f4 viewer room handles request w = (w1, x)" for viewer room handles request w1 x
      using group [OF f assms, of viewer room handles request] that by simp
    then show ?thesis using assms by (auto simp: createGroupHandler_def split: option.split sum.split prod.split)
  qed
  show "keeps (fst (selfConversationHandler callerOf f5 r w))" if f: "ap_FindOrCreateSelf d = Some f5"
  proof -
    have "keeps w1" if "f5 viewer w = (w1, x)" for viewer w1 x using self [OF f assms, of viewer] that by simp
    then show ?thesis using assms by (auto simp: selfConversationHandler_def split: option.split sum.split prod.split)
  qed
qed

lemma NewRouter_keeps:
  assumes "keeps w" "\<And>w. keeps w \<Longrightarrow> keeps (meanwhile w)"
  shows "keeps (fst (NewRouter d meanwhile route r w))"
  using assms(1) messagesHandler_keeps [OF assms] enrollHandler_keeps [OF assms(1)] revokeDeviceHandler_keeps [OF assms(1)]
    roomHandlers_keep [OF assms(1)]
  by (cases route) (auto simp: NewRouter_def split: option.split)

end

text \<open>Credentials are no part of the chat tables.\<close>

lemma issue_frame:
  "issueRefresh hash dbnow db i dev now t = Inr (db1, x) \<Longrightarrow> \<exists>rs. db1 = db\<lparr>db_refresh_tokens := rs\<rparr>"
  "issueAccess hash dbnow db i user dev' now t = Inr (db2, y) \<Longrightarrow> \<exists>as. db2 = db\<lparr>db_access_tokens := as\<rparr>"
  by (auto simp: issueRefresh_def insertRefreshProposed_def issueAccess_def Let_def split: if_splits option.splits sum.splits)

lemma RedeemEnrollment_frame:
  "\<exists>ds rs as es. fst (RedeemEnrollment hash dbnow now d db presented name) =
     db\<lparr>db_devices := ds, db_refresh_tokens := rs, db_access_tokens := as, db_enrollment_tokens := es\<rparr>"
proof -
  let ?ok = "\<lambda>x. \<exists>ds rs as es. x = db\<lparr>db_devices := ds, db_refresh_tokens := rs, db_access_tokens := as, db_enrollment_tokens := es\<rparr>"
  have same: "?ok db"
    by (intro exI [of _ "db_devices db"] exI [of _ "db_refresh_tokens db"] exI [of _ "db_access_tokens db"]
        exI [of _ "db_enrollment_tokens db"]) simp
  have wrote: "?ok (db3\<lparr>db_enrollment_tokens := es\<rparr>)"
    if "issueRefresh hash dbnow (db\<lparr>db_devices := ds\<rparr>) i dev now t = Inr (db2, x)"
      "issueAccess hash dbnow db2 i' user dev' now t' = Inr (db3, y)" for ds i dev t db2 x i' user dev' t' db3 y es
    using issue_frame(1) [OF that(1)] issue_frame(2) [OF that(2)] by force
  show ?thesis
    unfolding RedeemEnrollment_def Let_def
    by (auto simp: same split: option.split sum.split prod.split intro: wrote)
qed

lemma credentials_step:
  assumes "log_inv db" "db' = db\<lparr>db_devices := ds, db_refresh_tokens := rs, db_access_tokens := acs, db_enrollment_tokens := es, db_notify := ns\<rparr>"
    "messageNotifications ns = messageNotifications (db_notify db)"
  shows "chat_step db db'"
  by (rule chat_step.other) (use assms in \<open>simp_all add: log_inv_def markers_below_head_def\<close>)

lemma RedeemEnrollment_step: "log_inv db \<Longrightarrow> chat_step db (fst (RedeemEnrollment hash dbnow now d db presented name))"
proof -
  assume i: "log_inv db"
  obtain ds rs as es where f: "fst (RedeemEnrollment hash dbnow now d db presented name) =
      db\<lparr>db_devices := ds, db_refresh_tokens := rs, db_access_tokens := as, db_enrollment_tokens := es\<rparr>"
    using RedeemEnrollment_frame by blast
  show ?thesis unfolding f by (rule credentials_step [OF i, where ds = ds and rs = rs and acs = as and es = es and ns = "db_notify db"]) simp_all
qed

lemma RevokeOwnDevice_step: "log_inv db \<Longrightarrow> chat_step db (fst (RevokeOwnDevice dbnow db user device))"
proof (cases "\<exists>d \<in> set (db_devices db). liveDevice device d \<and> dv_user_id d = user")
  case True
  assume i: "log_inv db"
  show ?thesis
    by (rule credentials_step [OF i, where ds = "update_where (\<lambda>d. liveDevice device d \<and> dv_user_id d = user)
          (\<lambda>d. d\<lparr>dv_revoked_at := Some dbnow\<rparr>) (db_devices db)"
          and rs = "db_refresh_tokens db" and acs = "db_access_tokens db" and es = "db_enrollment_tokens db"
          and ns = "db_notify db @ [RevokedDevice device]"])
      (use True in \<open>simp_all add: RevokeOwnDevice_def publishRevocation_def notify_def messageNotifications_def map_filter_def\<close>)
next
  case False
  assume i: "log_inv db"
  from False show ?thesis
    using credentials_step [OF i, of db "db_notify db" "db_enrollment_tokens db" "db_access_tokens db" "db_refresh_tokens db" "db_devices db"]
    by (auto simp: RevokeOwnDevice_def Let_def)
qed

text \<open>The wrappers of the room operations return the database of what they wrap.\<close>

lemma rooms_fst:
  "fst (FindOrCreateDirect i db0 db viewer handle) = fst (findOrCreateDirect i db0 db viewer handle)"
  "fst (CreateGroup i db0 db creator name handles request) = fst (createGroup i db0 db creator name handles request)"
  "fst (FindOrCreateSelf i db0 db viewer) = fst (findOrCreateSelf i db0 db viewer)"
  by (simp_all add: FindOrCreateDirect_def CreateGroup_def FindOrCreateSelf_def split: prod.split sum.split)

lemma onDB_fst [simp]: "fst (onDB f (db, h)) = (fst (f db), h)"
  and onDB_snd [simp]: "snd (onDB f (db, h)) = snd (f db)"
  by (simp_all add: onDB_def split: prod.split)

interpretation rest: rest_service "wiredRest dbnow rw" "\<lambda>(db, h). chat_reach base \<and> chat_step\<^sup>*\<^sup>* base db \<and> h = hub" for dbnow rw base hub
proof unfold_locales
  have go: "case (db', h) of (db, h) \<Rightarrow> chat_reach base \<and> chat_step\<^sup>*\<^sup>* base db \<and> h = hub"
    if "case (db, h) of (db, h) \<Rightarrow> chat_reach base \<and> chat_step\<^sup>*\<^sup>* base db \<and> h = hub" "log_inv db \<Longrightarrow> chat_step db db'"
    for db db' :: "'a DB" and h :: Hub
    using that chat_steps_inv [of base db] chat_reach_inv [of base] by auto
  fix w :: "'a Served"
  assume w0: "case w of (db, h) \<Rightarrow> chat_reach base \<and> chat_step\<^sup>*\<^sup>* base db \<and> h = hub"
  obtain db h where w: "w = (db, h)" by (cases w)
  note go = go [OF w0 [unfolded w]]
  show "case fst (dp_Send (ap_deps (wiredRest dbnow rw)) m w) of (db, h) \<Rightarrow> chat_reach base \<and> chat_step\<^sup>*\<^sup>* base db \<and> h = hub" for m
    unfolding w wiredRest_def Let_def RestDeps.simps wiredSend_fst by (rule go) (rule chat_step.sendUploads)
  show "ap_Enroll (wiredRest dbnow rw) = Some f \<Longrightarrow> case fst (f presented name w) of (db, h) \<Rightarrow> chat_reach base \<and> chat_step\<^sup>*\<^sup>* base db \<and> h = hub" for f presented name
    using go [OF RedeemEnrollment_step] by (auto simp: w wiredRest_def Let_def)
  show "ap_RevokeOwnDevice (wiredRest dbnow rw) = Some f \<Longrightarrow> case fst (f viewer device w) of (db, h) \<Rightarrow> chat_reach base \<and> chat_step\<^sup>*\<^sup>* base db \<and> h = hub" for f viewer device
    using go [OF RevokeOwnDevice_step] by (auto simp: w wiredRest_def Let_def)
  show "ap_FindOrCreateDirect (wiredRest dbnow rw) = Some f \<Longrightarrow> case fst (f viewer handle w) of (db, h) \<Rightarrow> chat_reach base \<and> chat_step\<^sup>*\<^sup>* base db \<and> h = hub" for f viewer handle
    using go [OF chat_step.direct] by (auto simp: w wiredRest_def Let_def rooms_fst)
  show "ap_CreateGroup (wiredRest dbnow rw) = Some f \<Longrightarrow> case fst (f viewer room handles request w) of (db, h) \<Rightarrow> chat_reach base \<and> chat_step\<^sup>*\<^sup>* base db \<and> h = hub" for f viewer room handles request
    using go [OF chat_step.group] by (auto simp: w wiredRest_def Let_def rooms_fst)
  show "ap_FindOrCreateSelf (wiredRest dbnow rw) = Some f \<Longrightarrow> case fst (f viewer w) of (db, h) \<Rightarrow> chat_reach base \<and> chat_step\<^sup>*\<^sup>* base db \<and> h = hub" for f viewer
    using go [OF chat_step.self] by (auto simp: w wiredRest_def Let_def rooms_fst)
qed



section \<open>The answer of a send\<close>

lemma send_names_row:
  assumes i: "log_inv db" "later db0 db" and s: "send l (PostgresUploads t) d db0 db m = (db', Inr s)"
  obtains row where "row \<in> set (db_messages db')" "mr_AuthorID row = nm_AuthorID m" "s\<lparr>so_Duplicate := True\<rparr> = sentOf row"
proof -
  have b: "nm_ClientID m \<noteq> uuid_Nil" "checkBounds l m = None" using s by (auto simp: send_def split: if_splits option.splits)
  show thesis
  proof (cases rule: pg.attemptSend_cases [of db0 m t d db])
    case (answered row)
    then have "db' = db" "s = sentOf row" using s b by (simp_all add: send_def)
    moreover have "row \<in> set (db_messages db)" using messageByKey_Some(1) [OF answered(1)] i(2) by (auto simp: later_def)
    ultimately show thesis using that messageByKey_Some(2) [OF answered(1)] by (simp add: sentOf_def)
  next
    case (refused e)
    then have "db' = db" "sentByKey db (nm_AuthorID m) (nm_ClientID m) = Inr s" using s b by (auto simp: send_def split: if_splits sum.splits)
    then show thesis using that messageByKey_Some [of db "nm_AuthorID m" "nm_ClientID m"]
      by (auto simp: sentByKey_def sentOf_def split: option.splits)
  next
    case (wrote db1 s1)
    then have "db1 = db'" "s1 = s" using s b by (simp_all add: send_def)
    from pg.writeSend_appended [OF wrote(4) [unfolded this]] show thesis
      using that by (metis (no_types, lifting) Sent.ext_inject Sent.surjective Sent.update_convs(6) appended_def in_set_conv_decomp sentOf_def)
  qed
qed

lemma fanout_row:
  assumes "seq_unique db" "row \<in> set (db_messages db)"
  obtains fm where "MessageForFanout db (mr_ConversationID row) (mr_Seq row) = Inr fm" "fm_Message fm = row"
proof (cases "MessageForFanout db (mr_ConversationID row) (mr_Seq row)")
  case (Inl e)
  then show thesis using assms(2) by (auto simp: MessageForFanout_def find_None_iff split: option.splits)
next
  case (Inr fm)
  from Inr obtain m where m: "fm_Message fm = m" "m \<in> set (db_messages db)" "mr_ConversationID m = mr_ConversationID row" "mr_Seq m = mr_Seq row"
    by (rule fanout_Inr)
  then have "m = row" using assms unfolding seq_unique_def distinct_map by (auto dest: inj_onD)
  with m Inr that show thesis by simp
qed

lemma sent_ids:
  assumes "s\<lparr>so_Duplicate := True\<rparr> = sentOf row"
  shows "so_ID s = mr_ID row" "so_ConversationID s = mr_ConversationID row" "so_Seq s = mr_Seq row" "so_LogSeq s = mr_LogSeq row"
    "so_At s = mr_At row"
  using assms by (cases s, simp add: sentOf_def)+

lemma restView_ids:
  assumes "restView d caller fm = Some msg"
  shows "m_ID msg = mr_ID (fm_Message fm)" "m_Seq msg = mr_Seq (fm_Message fm)"
    "m_LogSeq msg = mr_LogSeq (fm_Message fm)" "m_ConversationID msg = mr_ConversationID (fm_Message fm)"
    "m_AuthorID msg = mr_AuthorID (fm_Message fm)" "m_At msg = formatWire (mr_At (fm_Message fm))"
  using assms by (auto simp: restView_def wireMessage_def Let_def split: option.splits)

lemma restView_Some: "ap_MediaURL d = Some url \<Longrightarrow> \<exists>msg. restView d caller fm = Some msg"
  by (simp add: restView_def wireMessage_def Let_def)

lemma sendErrorFor_not_ok: "HTTPStatus (Some (sendErrorFor e)) \<noteq> 200 \<and> HTTPStatus (Some (sendErrorFor e)) \<noteq> 401"
  by (cases "map_of sendErrorTable e")
    (auto simp: sendErrorFor_def internalSendError_def HTTPStatus_def sendErrorTable_def split: if_splits)

lemma restView_fanout:
  assumes "restView (wiredRest dbnow rw) caller fm = Some msg" "mr_AuthorID (fm_Message fm) = ca_UserID caller" "fx_UserID mem = ca_UserID caller"
  shows "fanoutFrames (rw_env rw) fm mem \<noteq> [] \<and> last (fanoutFrames (rw_env rw) fm mem) = FMessage msg"
  using assms by (auto simp: restView_def wiredRest_def fanoutFrames_def messageFrame_def viewFor_def DeliveryState_def Let_def)


text \<open>A send through the router of the server, by its caller and what the store made of it.\<close>

lemma wiredRest_simps [simp]:
  "ap_deps (wiredRest dbnow rw) = wiredDeps dbnow (rw_socket rw)" "ap_Caller (wiredRest dbnow rw) = Some (wiredCaller (rw_socket rw))"
  "ap_MediaURL (wiredRest dbnow rw) = Some (he_mediaURL (rw_env rw))" "dp_parse (wiredDeps dbnow wr) = wr_parse wr"
  "ap_MessageForFanout (wiredRest dbnow rw) = Some (\<lambda>conv seq (db, h). MessageForFanout db conv seq)"
  by (simp_all add: wiredRest_def wiredDeps_def Let_def)

lemma wiredSend_eq:
  "dp_Send (wiredDeps dbnow wr) m (db, h) =
     (case SendMessage (wr_limits wr) (PostgresUploads dbnow) (wr_draws wr db) (wr_stale wr db) db m of (db', x) \<Rightarrow> ((db', h), x))"
  by (simp add: wiredDeps_def)

lemma wiredSend_Inr:
  assumes "dp_Send (wiredDeps dbnow wr) m (db, h) = ((db1, h1), Inr sent)"
  shows "send (wr_limits wr) (PostgresUploads dbnow) (wr_draws wr db) (wr_stale wr db) db m = (db1, Inr sent)" "h1 = h"
  using assms by (auto simp: wiredSend_eq SendMessage_def split: prod.splits sum.splits)

lemma router_send:
  assumes c: "wiredCaller (rw_socket rw) r (db, h) = Some caller" and p: "wr_parse (rw_socket rw) (hq_id r) = Some conv"
    and i: "chat_reach (wr_stale (rw_socket rw) db)" "chat_step\<^sup>*\<^sup>* (wr_stale (rw_socket rw) db) db"
    and s: "dp_Send (wiredDeps dbnow (rw_socket rw)) (restMessage (wiredDeps dbnow (rw_socket rw)) caller conv req) (db, h) = (w1, Inr sent)"
    and e: "chat_step\<^sup>*\<^sup>* (fst w1) (fst (meanwhile w1))"
  obtains row fm msg where "NewRouter (wiredRest dbnow rw) meanwhile (PostMessage (Some req)) r (db, h) = (meanwhile w1, Answered 200 (MessageBody msg))"
    "sent\<lparr>so_Duplicate := True\<rparr> = sentOf row" "mr_AuthorID row = ca_UserID caller" "row \<in> set (db_messages (fst w1))"
    "MessageForFanout (fst (meanwhile w1)) (mr_ConversationID row) (mr_Seq row) = Inr fm" "fm_Message fm = row"
    "restView (wiredRest dbnow rw) caller fm = Some msg"
proof -
  let ?wr = "rw_socket rw"
  obtain db1 h1 where w1: "w1 = (db1, h1)" by (cases w1)
  note send = wiredSend_Inr [OF s [unfolded w1]]
  have reach: "chat_reach db" using i by (simp add: chat_reach_def)
  have "chat_step db db1"
    using chat_step.sendUploads [of db "wr_limits ?wr" dbnow "wr_draws ?wr db" "wr_stale ?wr db"] send(1) by (metis fst_conv)
  with reach e w1 have reach': "chat_reach (fst (meanwhile w1))" by (simp add: chat_reach_def)
  obtain row where row: "row \<in> set (db_messages db1)" "mr_AuthorID row = ca_UserID caller" "sent\<lparr>so_Duplicate := True\<rparr> = sentOf row"
    by (rule send_names_row [OF chat_reach_inv [OF reach] chat_steps_later [OF i(2)] send(1)]) (simp add: restMessage_def)
  then have later: "row \<in> set (db_messages (fst (meanwhile w1)))" using chat_steps_later [OF e] by (auto simp: later_def w1)
  have "seq_unique (fst (meanwhile w1))" using chat_reach_inv [OF reach'] by (simp add: log_inv_def)
  then obtain fm where fm: "MessageForFanout (fst (meanwhile w1)) (mr_ConversationID row) (mr_Seq row) = Inr fm" "fm_Message fm = row"
    using later by (rule fanout_row)
  obtain msg where msg: "restView (wiredRest dbnow rw) caller fm = Some msg"
    using restView_Some [of "wiredRest dbnow rw" "he_mediaURL (rw_env rw)" caller fm] by auto
  note ids = sent_ids [OF row(3)]
  have "NewRouter (wiredRest dbnow rw) meanwhile (PostMessage (Some req)) r (db, h) = (meanwhile w1, Answered 200 (MessageBody msg))"
    using c p s fm msg ids by (cases "meanwhile w1") (simp add: NewRouter_def messagesHandler_def)
  then show thesis using that row fm msg w1 by simp
qed

text \<open>
  C13. What a send over REST answers with is the message the hub broadcasts. When the store accepts it, and with
  whatever chat steps others take before the row is read back, the read back succeeds: the answer is
  200 with the message the store named, by the caller, and it is the very frame that the fan-out of
  that row puts last in front of the author's own sessions.
\<close>

theorem send_answer_is_the_broadcast:
  assumes "wiredCaller (rw_socket rw) r (db, h) = Some caller" "wr_parse (rw_socket rw) (hq_id r) = Some conv"
    and "chat_reach (wr_stale (rw_socket rw) db)" "chat_step\<^sup>*\<^sup>* (wr_stale (rw_socket rw) db) db"
    and "dp_Send (wiredDeps dbnow (rw_socket rw)) (restMessage (wiredDeps dbnow (rw_socket rw)) caller conv req) (db, h) = (w1, Inr sent)"
    and "chat_step\<^sup>*\<^sup>* (fst w1) (fst (meanwhile w1))"
  shows "\<exists>msg fm. NewRouter (wiredRest dbnow rw) meanwhile (PostMessage (Some req)) r (db, h) = (meanwhile w1, Answered 200 (MessageBody msg)) \<and>
    m_ID msg = so_ID sent \<and> m_AuthorID msg = ca_UserID caller \<and>
    MessageForFanout (fst (meanwhile w1)) (so_ConversationID sent) (so_Seq sent) = Inr fm \<and>
    (\<forall>mem \<in> set (fm_Members fm). fx_UserID mem = ca_UserID caller \<longrightarrow>
       fanoutFrames (rw_env rw) fm mem \<noteq> [] \<and> last (fanoutFrames (rw_env rw) fm mem) = FMessage msg)"
proof (rule router_send [where meanwhile = meanwhile, OF assms], goal_cases)
  case (1 row fm msg)
  show ?case using 1 sent_ids [OF 1(2)] restView_ids [OF 1(7)] restView_fanout [OF 1(7)] by auto
qed


text \<open>
  C12. The two transports of a send agree. One message, sent over a session and over REST by the same device from
  the same state, leaves the same state; a refusal is the same error frame, with the table's
  status over REST; an acceptance is an acknowledgement on the socket and, over REST, 200 and
  the message with the ids, ordinals and time the acknowledgement carries.
\<close>

theorem transports_agree:
  assumes "wiredCaller (rw_socket rw) r (db, h) = Some caller" "ca_DeviceID caller \<noteq> uuid_Nil"
    and "wr_parse (rw_socket rw) (cs_ConversationID v) = Some conv" "hq_id r = cs_ConversationID v"
    and "req = \<lparr>ms_ClientID = cs_ClientID v, ms_Text = cs_Text v, ms_Attachments = cs_Attachments v, ms_ReplyToMessageID = cs_ReplyToMessageID v\<rparr>"
    and "chat_reach (wr_stale (rw_socket rw) db)" "chat_step\<^sup>*\<^sup>* (wr_stale (rw_socket rw) db) db"
    and "sk_world sk = (db, h)" "sk_closed sk = None" "sk_writes sk = []"
    and "handleSend (wiredDeps dbnow (rw_socket rw)) \<lparr>hc_SessionID = sid, hc_UserID = ca_UserID caller, hc_DeviceID = ca_DeviceID caller\<rparr> v sk = (sk', ok)"
    and "NewRouter (wiredRest dbnow rw) (\<lambda>w. w) (PostMessage (Some req)) r (db, h) = (w', ans)"
  shows "sk_world sk' = w' \<and>
    ((\<exists>e status. sk_out sk' = sk_out sk @ [FError e] \<and> ans = Answered status (Refusal (FrameBody e)) \<and> status \<noteq> 200) \<or>
     (\<exists>a msg. sk_out sk' = sk_out sk @ [FAck a] \<and> ans = Answered 200 (MessageBody msg) \<and>
        m_ID msg = ak_MessageID a \<and> m_ConversationID msg = ak_ConversationID a \<and> m_Seq msg = ak_Seq a \<and>
        m_LogSeq msg = ak_LogSeq a \<and> m_At msg = ak_At a \<and> m_AuthorID msg = ca_UserID caller))"
proof -
  let ?d = "wiredDeps dbnow (rw_socket rw)"
  let ?sess = "\<lparr>hc_SessionID = sid, hc_UserID = ca_UserID caller, hc_DeviceID = ca_DeviceID caller\<rparr>"
  have p: "wr_parse (rw_socket rw) (hq_id r) = Some conv" using assms(3,4) by simp
  have same: "restMessage ?d caller conv req = sendRequest ?d ?sess v"
    using assms(2,3,5) by (simp add: restMessage_def sendRequest_def mustUUID_def)
  obtain w1 x where s: "dp_Send ?d (sendRequest ?d ?sess v) (db, h) = (w1, x)" by fastforce
  have sock: "sk_world sk' = w1" "sk_out sk' = sk_out sk @ [sendAnswer v x]"
    using assms(8-11) s by (auto simp: handleSend_def writeFrame_def)
  show ?thesis
  proof (cases x)
    case (Inl se)
    have "HTTPStatus (Some se) \<noteq> 200"
      using s Inl unfolding wiredSend_eq SendMessage_def by (auto simp: sendErrorFor_not_ok split: prod.splits sum.splits)
    moreover have "w' = w1" "ans = Answered (HTTPStatus (Some se)) (Refusal (FrameBody
        ((sendErrorWire (Some se) ''send failed'')\<lparr>se_ClientID := Some (cs_ClientID v)\<rparr>)))"
      using assms(1,5,12) p s Inl same
      by (auto simp: NewRouter_def messagesHandler_def)
    ultimately show ?thesis using sock Inl by (simp add: sendAnswer_def)
  next
    case (Inr sent)
    from router_send [where meanwhile = "\<lambda>w. w", OF assms(1) p assms(6,7) s [folded same, unfolded Inr] rtranclp.rtrancl_refl]
    obtain row fm msg where m: "NewRouter (wiredRest dbnow rw) (\<lambda>w. w) (PostMessage (Some req)) r (db, h) = (w1, Answered 200 (MessageBody msg))"
      "sent\<lparr>so_Duplicate := True\<rparr> = sentOf row" "mr_AuthorID row = ca_UserID caller" "fm_Message fm = row"
      "restView (wiredRest dbnow rw) caller fm = Some msg" by metis
    show ?thesis
      using m(1,3,4,5) assms(12) sock Inr sent_ids [OF m(2)] restView_ids [OF m(5)] by (simp add: sendAnswer_def)
  qed
qed


section \<open>The one refusal\<close>

text \<open>The routes that ask who is calling.\<close>

definition guarded :: "route \<Rightarrow> bool" where
  "guarded route \<longleftrightarrow> (case route of GetHealthz \<Rightarrow> False | GetReadyz \<Rightarrow> False | PostEnroll _ \<Rightarrow> False | _ \<Rightarrow> True)"

lemma answers_not_401 [simp]:
  "healthz d \<noteq> Answered 401 b" "readyz d w \<noteq> Answered 401 b" "badRequest why \<noteq> Answered 401 b" "failed e why \<noteq> Answered 401 b"
  by (simp_all add: healthz_def readyz_def badRequest_def failed_def split: option.split)

text \<open>A request whose caller the store knows is not refused for its credential.\<close>

lemma handlers_not_401:
  assumes c: "callerOf r w = Some caller"
  shows "\<forall>m se. snd (dp_Send (ap_deps d) m w) = Inl se \<longrightarrow> HTTPStatus (Some se) \<noteq> 401 \<Longrightarrow>
      snd (messagesHandler d callerOf readRow meanwhile r body w) \<noteq> Answered 401 b"
    "\<forall>v se. snd (fself v w) = Inl (Inr se) \<longrightarrow> HTTPStatus (Some se) \<noteq> 401 \<Longrightarrow>
      snd (selfConversationHandler callerOf fself r w) \<noteq> Answered 401 b"
    "\<forall>v x se. snd (fdirect v x w) = Inl se \<longrightarrow> HTTPStatus (Some se) \<noteq> 401 \<Longrightarrow>
      snd (directConversationHandler callerOf fdirect r handle w) \<noteq> Answered 401 b"
    "\<forall>v x y z se. snd (fgroup v x y z w) = Inl (Inr se) \<longrightarrow> HTTPStatus (Some se) \<noteq> 401 \<Longrightarrow>
      snd (createGroupHandler parse callerOf fgroup r body4 w) \<noteq> Answered 401 b"
    "rosterHandler ut callerOf roster r w \<noteq> Answered 401 b"
proof -
  show "snd (messagesHandler d callerOf readRow meanwhile r body w) \<noteq> Answered 401 b"
    if "\<forall>m se. snd (dp_Send (ap_deps d) m w) = Inl se \<longrightarrow> HTTPStatus (Some se) \<noteq> 401"
    using that c by (auto simp: messagesHandler_def split: option.split prod.split sum.split) (metis snd_conv)+
  show "snd (selfConversationHandler callerOf fself r w) \<noteq> Answered 401 b"
    if "\<forall>v se. snd (fself v w) = Inl (Inr se) \<longrightarrow> HTTPStatus (Some se) \<noteq> 401"
    using that c by (auto simp: selfConversationHandler_def refusedWith_def sendErrorFor_not_ok split: prod.split sum.split) (metis snd_conv)+
  show "snd (directConversationHandler callerOf fdirect r handle w) \<noteq> Answered 401 b"
    if "\<forall>v x se. snd (fdirect v x w) = Inl se \<longrightarrow> HTTPStatus (Some se) \<noteq> 401"
    using that c by (auto simp: directConversationHandler_def refusedWith_def split: option.split prod.split sum.split) (metis snd_conv)+
  show "snd (createGroupHandler parse callerOf fgroup r body4 w) \<noteq> Answered 401 b"
    if "\<forall>v x y z se. snd (fgroup v x y z w) = Inl (Inr se) \<longrightarrow> HTTPStatus (Some se) \<noteq> 401"
    using that c by (auto simp: createGroupHandler_def refusedWith_def sendErrorFor_not_ok split: option.split prod.split sum.split) (metis snd_conv)+
  show "rosterHandler ut callerOf roster r w \<noteq> Answered 401 b"
    using c by (simp add: rosterHandler_def split: sum.split)
qed

lemma id_handlers_not_401:
  assumes "callerID r w = Some viewer"
  shows "syncHandler callerID sync r w \<noteq> Answered 401 b" "devicesHandler callerID devices r w \<noteq> Answered 401 b"
    "snd (revokeDeviceHandler parse callerID revoke r w) \<noteq> Answered 401 b"
  using assms
  by (auto simp: syncHandler_def devicesHandler_def revokeDeviceHandler_def split: option.splits prod.splits sum.splits)

lemma wired_errors_not_401:
  "snd (dp_Send (wiredDeps dbnow wr) m (db, h)) = Inl se \<Longrightarrow> HTTPStatus (Some se) \<noteq> 401"
  "snd (FindOrCreateDirect i db0 db viewer handle) = Inl se \<Longrightarrow> HTTPStatus (Some se) \<noteq> 401"
  "snd (CreateGroup i db0 db creator name handles request) = Inl (Inr se) \<Longrightarrow> HTTPStatus (Some se) \<noteq> 401"
  "snd (FindOrCreateSelf i db0 db viewer) = Inl (Inr se) \<Longrightarrow> HTTPStatus (Some se) \<noteq> 401"
  by (auto simp: wiredSend_eq SendMessage_def FindOrCreateDirect_def CreateGroup_def FindOrCreateSelf_def sendErrorFor_not_ok
      split: prod.splits sum.splits if_splits)

lemma known_caller_not_401:
  assumes c: "wiredCaller (rw_socket rw) r (db, h) = Some caller" and g: "guarded route"
  shows "snd (NewRouter (wiredRest dbnow rw) meanwhile route r (db, h)) \<noteq> Answered 401 b"
proof (cases route)
  case (PostMessage body)
  have "\<forall>m se. snd (dp_Send (ap_deps (wiredRest dbnow rw)) m (db, h)) = Inl se \<longrightarrow> HTTPStatus (Some se) \<noteq> 401"
    by (simp add: wired_errors_not_401(1))
  from handlers_not_401(1) [where callerOf = "wiredCaller (rw_socket rw)", OF c this] PostMessage show ?thesis
    by (simp add: NewRouter_def)
next
  case PostSelf
  let ?f = "\<lambda>viewer. onDB (\<lambda>db. FindOrCreateSelf (rw_roomID rw db) (rw_roomStale rw db) db viewer)"
  have "\<forall>v se. snd (?f v (db, h)) = Inl (Inr se) \<longrightarrow> HTTPStatus (Some se) \<noteq> 401" by (simp add: wired_errors_not_401(4))
  from handlers_not_401(2) [where callerOf = "wiredCaller (rw_socket rw)" and fself = ?f, OF c this] PostSelf show ?thesis
    by (simp add: NewRouter_def wiredRest_def Let_def)
next
  case (PostDirect body)
  let ?f = "\<lambda>viewer handle. onDB (\<lambda>db. FindOrCreateDirect (rw_roomID rw db) (rw_roomStale rw db) db viewer handle)"
  have "\<forall>v x se. snd (?f v x (db, h)) = Inl se \<longrightarrow> HTTPStatus (Some se) \<noteq> 401" by (simp add: wired_errors_not_401(2))
  from handlers_not_401(3) [where callerOf = "wiredCaller (rw_socket rw)" and fdirect = ?f, OF c this] PostDirect show ?thesis
    by (simp add: NewRouter_def wiredRest_def Let_def)
next
  case (PostGroup body)
  let ?f = "\<lambda>creator name handles request. onDB (\<lambda>db. CreateGroup (rw_roomID rw db) (rw_roomStale rw db) db creator name handles request)"
  have "\<forall>v x y z se. snd (?f v x y z (db, h)) = Inl (Inr se) \<longrightarrow> HTTPStatus (Some se) \<noteq> 401" by (simp add: wired_errors_not_401(3))
  from handlers_not_401(4) [where callerOf = "wiredCaller (rw_socket rw)" and fgroup = ?f, OF c this] PostGroup show ?thesis
    by (simp add: NewRouter_def wiredRest_def Let_def)
next
  case GetUsers
  then show ?thesis
    by (simp add: NewRouter_def wiredRest_def Let_def handlers_not_401(5) [where callerOf = "wiredCaller (rw_socket rw)", OF c])
qed (use c g in \<open>simp_all add: NewRouter_def wiredRest_def Let_def guarded_def id_handlers_not_401\<close>)

text \<open>
  C17. One refusal for every credential. The server answers 401 exactly when a route that asks for a caller is given a
  credential the store does not accept, or an enrollment token is refused; the body is then always the same, and a
  guarded route has read and changed nothing.
\<close>

theorem one_refusal:
  assumes "NewRouter (wiredRest dbnow rw) meanwhile route r (db, h) = (w', ans)" "wr = rw_socket rw"
  shows "((\<exists>body. ans = Answered 401 body) \<longleftrightarrow>
      guarded route \<and> (\<exists>e. Authenticate (wr_hash wr) (wr_now wr) db (bearer r) = Inl e) \<or>
      (\<exists>req. route = PostEnroll (Some req) \<and>
         snd (RedeemEnrollment (wr_hash wr) dbnow (wr_now wr) (rw_enrollDraws rw db) db (eq_EnrollmentToken req) (eq_DeviceName req)) =
           Inl ErrUnauthorized)) \<and>
    (\<forall>body. ans = Answered 401 body \<longrightarrow> ans = unauthorized) \<and>
    (guarded route \<and> ans = unauthorized \<longrightarrow> w' = (db, h))"
proof -
  consider (out) "guarded route" "wiredCaller wr r (db, h) = None"
    | (known) caller where "guarded route" "wiredCaller wr r (db, h) = Some caller"
    | (enroll) body where "route = PostEnroll body" | (probe) "route = GetHealthz \<or> route = GetReadyz"
    by (cases route; cases "wiredCaller wr r (db, h)") (auto simp: guarded_def)
  then show ?thesis
  proof cases
    case out
    then have "NewRouter (wiredRest dbnow rw) meanwhile route r (db, h) = ((db, h), unauthorized)"
      using assms(2)
      by (cases route) (simp_all add: NewRouter_def wiredRest_def Let_def guarded_def syncHandler_def devicesHandler_def
          revokeDeviceHandler_def messagesHandler_def directConversationHandler_def selfConversationHandler_def
          createGroupHandler_def rosterHandler_def)
    then show ?thesis using assms out by (auto simp: unauthorized_def wiredCaller_def split: sum.splits)
  next
    case (known caller)
    then have "ans \<noteq> Answered 401 b" for b
      using assms known_caller_not_401 [of rw r db h caller route dbnow meanwhile b] by simp
    then show ?thesis using known by (auto simp: wiredCaller_def unauthorized_def guarded_def split: sum.splits)
  next
    case (enroll body)
    then show ?thesis using assms
      by (auto simp: NewRouter_def wiredRest_def Let_def enrollHandler_def unauthorized_def guarded_def onDB_def
          split: option.splits prod.splits sum.splits if_splits)
  next
    case probe
    then show ?thesis using assms by (auto simp: NewRouter_def guarded_def)
  qed
qed

section \<open>Devices\<close>

text \<open>
  C18. The revocation of a device tells its caller nothing and touches nobody else. Every well-formed id is answered alike,
  whether it names a live device of the caller, a revoked one, a stranger's or none; the devices of every other
  account are as they were, and no device of the caller with that id is live afterwards.
\<close>

theorem revoke_is_own_and_silent:
  assumes "wiredCaller (rw_socket rw) r (db, h) = Some caller" "wr_parse (rw_socket rw) (hq_id r) = Some device"
    and "NewRouter (wiredRest dbnow rw) meanwhile PostRevoke r (db, h) = ((db', h'), ans)"
  shows "ans = Answered 204 NoBody \<and>
    filter (\<lambda>x. dv_user_id x \<noteq> ca_UserID caller) (db_devices db') = filter (\<lambda>x. dv_user_id x \<noteq> ca_UserID caller) (db_devices db) \<and>
    (\<forall>x \<in> set (db_devices db'). dv_user_id x = ca_UserID caller \<and> dv_id x = device \<longrightarrow> dv_revoked_at x \<noteq> None) \<and>
    (\<forall>x \<in> set (db_devices db). dv_id x \<noteq> device \<longrightarrow> x \<in> set (db_devices db'))"
proof -
  obtain db1 b where d1: "RevokeOwnDevice dbnow db (ca_UserID caller) device = (db1, b)" by fastforce
  then have r: "ans = Answered 204 NoBody" "db' = fst (RevokeOwnDevice dbnow db (ca_UserID caller) device)"
    using assms by (simp_all add: NewRouter_def wiredRest_def Let_def revokeDeviceHandler_def onDB_def)
  let ?u = "\<lambda>x. if liveDevice device x \<and> dv_user_id x = ca_UserID caller then x\<lparr>dv_revoked_at := Some dbnow\<rparr> else x"
  have devices: "db_devices db' = map ?u (db_devices db)"
    unfolding r(2) RevokeOwnDevice_def Let_def
    by (auto simp: publishRevocation_def notify_def update_where_def intro!: map_idI [symmetric])
  have "filter (\<lambda>x. dv_user_id x \<noteq> ca_UserID caller) (map ?u ds) = filter (\<lambda>x. dv_user_id x \<noteq> ca_UserID caller) ds" for ds
    by (induction ds) simp_all
  moreover have "\<forall>x \<in> set (map ?u (db_devices db)). dv_user_id x = ca_UserID caller \<and> dv_id x = device \<longrightarrow> dv_revoked_at x \<noteq> None"
  proof -
    have "dv_user_id (?u y) = ca_UserID caller \<and> dv_id (?u y) = device \<longrightarrow> dv_revoked_at (?u y) \<noteq> None" for y
      by (cases "dv_revoked_at y") (auto simp: liveDevice_def)
    then show ?thesis unfolding set_map by (intro ballI) (elim imageE, simp only:)
  qed
  moreover have "x \<in> set (map ?u (db_devices db))" if "x \<in> set (db_devices db)" "dv_id x \<noteq> device" for x
    using that unfolding set_map by (intro image_eqI [of _ _ x]) (simp_all add: liveDevice_def)
  ultimately show ?thesis unfolding r(1) devices by blast
qed

section \<open>The cursor\<close>

lemma ParseInt_decimal: "n < 2 ^ 63 \<Longrightarrow> ParseInt (decimal n) = Some (int n)"
proof -
  assume n: "n < 2 ^ 63"
  obtain c cs where d: "decimal n = c # cs" using decimal_nonempty [of n] by (cases "decimal n") auto
  have digits: "list_all isDigit (decimal n)" by (simp add: list_all_iff isDigit_def decimal_digits)
  then have "c \<noteq> CHR ''-''" "c \<noteq> CHR ''+''" by (auto simp: d isDigit_def)
  with n digits show ?thesis using decimalValue_decimal [of n] by (simp add: ParseInt_def Let_def d del: decimalValue_decimal)
qed

lemma ParseInt_below:
  assumes "ParseInt s = Some v"
  shows "v < 2 ^ 63"
proof -
  define n where "n = int (decimalValue (if s \<noteq> [] \<and> (hd s = CHR ''-'' \<or> hd s = CHR ''+'') then tl s else s))"
  have "v = n \<and> n < 2 ^ 63 \<or> v = - n"
    using assms unfolding ParseInt_def Let_def n_def [symmetric] by (simp split: if_split_asm)
  moreover have "0 \<le> n" by (simp add: n_def)
  ultimately show ?thesis by auto
qed

text \<open>
  A cursor is read as it was written or not at all. The decimal numeral of every 64 bit count is read back exactly; whatever is
  read from the query lies between 0 and the largest 64 bit integer; and an absent parameter is the
  default, which a present one that does not parse never is.
\<close>

theorem cursor_round_trip:
  "(\<forall>n < 2 ^ 63. intParam \<lparr>hq_Authorization = auth, hq_id = i, hq_query = (name, decimal n) # qs\<rparr> name def = Some (int n)) \<and>
   (\<forall>r v. intParam r name def = Some v \<and> map_of (hq_query r) name \<notin> {None, Some ''''} \<longrightarrow>
      0 \<le> v \<and> v < 2 ^ 63 \<and> (\<exists>raw. map_of (hq_query r) name = Some raw \<and> ParseInt raw = Some v)) \<and>
   (\<forall>r. map_of (hq_query r) name = None \<longrightarrow> intParam r name def = Some def)"
proof (intro conjI)
  show "\<forall>n < 2 ^ 63. intParam \<lparr>hq_Authorization = auth, hq_id = i, hq_query = (name, decimal n) # qs\<rparr> name def = Some (int n)"
    by (simp add: intParam_def ParseInt_decimal)
  show "\<forall>r v. intParam r name def = Some v \<and> map_of (hq_query r) name \<notin> {None, Some ''''} \<longrightarrow>
      0 \<le> v \<and> v < 2 ^ 63 \<and> (\<exists>raw. map_of (hq_query r) name = Some raw \<and> ParseInt raw = Some v)"
  proof (intro allI impI, elim conjE)
    fix r v
    assume v: "intParam r name def = Some v" and raw: "map_of (hq_query r) name \<notin> {None, Some ''''}"
    then obtain raw where q: "map_of (hq_query r) name = Some raw" "raw \<noteq> ''''" by auto
    then have "ParseInt raw = Some v" "0 \<le> v" using v by (auto simp: intParam_def split: option.splits if_splits)
    then show "0 \<le> v \<and> v < 2 ^ 63 \<and> (\<exists>raw. map_of (hq_query r) name = Some raw \<and> ParseInt raw = Some v)"
      using q ParseInt_below by blast
  qed
  show "\<forall>r. map_of (hq_query r) name = None \<longrightarrow> intParam r name def = Some def"
    by (simp add: intParam_def)
qed

section \<open>A server over REST\<close>

definition restDB :: "unit DB" where
  "restDB = chatRoom\<lparr>
     db_devices := [\<lparr>dv_id = ''d1'', dv_user_id = ''a'', dv_name = ''phone'', dv_created_at = 1, dv_revoked_at = None\<rparr>,
       \<lparr>dv_id = ''d2'', dv_user_id = ''b'', dv_name = ''tablet'', dv_created_at = 2, dv_revoked_at = None\<rparr>],
     db_access_tokens := [\<lparr>ac_id = ''t1'', ac_token_hash = (), ac_user_id = ''a'', ac_device_id = Some ''d1'', ac_issued_at = 1,
       ac_expires_at = Some 100, ac_revoked_at = None\<rparr>]\<rparr>"

definition restWiring :: "unit RestWiring" where
  "restWiring = \<lparr>rw_socket = doorWiring, rw_snaps = (\<lambda>db _. db), rw_roomID = (\<lambda>_. ''r2''), rw_roomStale = (\<lambda>db. db),
     rw_enrollDraws = (\<lambda>_. demoDraws), rw_ping = (\<lambda>_. True), rw_version = ''1'', rw_commit = '''', rw_env = plainEnv\<rparr>"

definition restRequest :: "string \<Rightarrow> Request" where
  "restRequest i = \<lparr>hq_Authorization = ''bearer t'', hq_id = i, hq_query = []\<rparr>"

definition restSend :: MessageSendRequest where
  "restSend = \<lparr>ms_ClientID = ''k1'', ms_Text = Some ''hello'', ms_Attachments = [], ms_ReplyToMessageID = None\<rparr>"

lemma restDB_step: "chat_step chatRoom restDB"
  by (rule chat_step.other) (use chat_reach_inv [OF chatRoom_reach] in \<open>simp_all add: restDB_def log_inv_def markers_below_head_def\<close>)

lemma restDB_reach: "chat_reach restDB"
  using chatRoom_reach restDB_step unfolding chat_reach_def by (rule rtranclp.rtrancl_into_rtrancl)

lemma restBearer: "bearer (restRequest i) = ''t''"
proof -
  have "map lowerASCII ''bearer '' = map lowerASCII ''Bearer ''" by code_simp
  then show ?thesis by (simp add: bearer_def restRequest_def Let_def del: list.map)
qed

lemma restCaller: "wiredCaller (rw_socket restWiring) (restRequest i) (restDB, newHub) = Some doorCaller"
  by (simp add: wiredCaller_def restWiring_def doorWiring_def restBearer Authenticate_def restDB_def chatRoom_eq
      chatUsers_def alice_def bob_def userByID_def deviceByID_def doorCaller_def Let_def)

lemma restParse: "wr_parse (rw_socket restWiring) x = Some x" "wr_stale (rw_socket restWiring) db = db"
  by (simp_all add: restWiring_def doorWiring_def)


lemma rest_sends:
  "\<exists>w1 sent. dp_Send (wiredDeps 9 (rw_socket restWiring)) (restMessage (wiredDeps 9 (rw_socket restWiring)) doorCaller ''r'' restSend) (restDB, newHub) =
     (w1, Inr sent) \<and> so_ID sent = ''m1''"
proof -
  have "case snd (dp_Send (wiredDeps 9 (rw_socket restWiring)) (restMessage (wiredDeps 9 (rw_socket restWiring)) doorCaller ''r'' restSend) (restDB, newHub))
      of Inl e \<Rightarrow> False | Inr sent \<Rightarrow> so_ID sent = ''m1''" by code_simp
  then show ?thesis by (auto split: sum.splits) (metis prod.collapse)
qed

theorem send_answer_is_the_broadcast_witness:
  "\<exists>w msg. NewRouter (wiredRest 9 restWiring) (\<lambda>w. w) (PostMessage (Some restSend)) (restRequest ''r'') (restDB, newHub) = (w, Answered 200 (MessageBody msg)) \<and>
     m_ID msg = ''m1'' \<and> m_AuthorID msg = ''a''"
proof -
  obtain w1 sent where s: "dp_Send (wiredDeps 9 (rw_socket restWiring)) (restMessage (wiredDeps 9 (rw_socket restWiring)) doorCaller ''r'' restSend) (restDB, newHub) =
      (w1, Inr sent)" "so_ID sent = ''m1''" using rest_sends by blast
  have p: "wr_parse (rw_socket restWiring) (hq_id (restRequest ''r'')) = Some ''r''" by (simp add: restParse restRequest_def)
  have i: "chat_reach (wr_stale (rw_socket restWiring) restDB)" "chat_step\<^sup>*\<^sup>* (wr_stale (rw_socket restWiring) restDB) restDB"
    using restDB_reach by (simp_all add: restParse)
  from send_answer_is_the_broadcast [where meanwhile = "\<lambda>w. w", OF restCaller p i s(1) rtranclp.rtrancl_refl] s(2)
  show ?thesis by (auto simp: doorCaller_def)
qed

theorem transports_agree_witness:
  "\<exists>sk' ok w' ans. handleSend (wiredDeps 9 (rw_socket restWiring)) \<lparr>hc_SessionID = ''s'', hc_UserID = ''a'', hc_DeviceID = ''d1''\<rparr>
       \<lparr>cs_ClientID = ''k1'', cs_ConversationID = ''r'', cs_Text = Some ''hello'', cs_Attachments = [], cs_ReplyToMessageID = None\<rparr>
       (doorSock\<lparr>sk_world := (restDB, newHub)\<rparr>) = (sk', ok) \<and>
     NewRouter (wiredRest 9 restWiring) (\<lambda>w. w) (PostMessage (Some restSend)) (restRequest ''r'') (restDB, newHub) = (w', ans) \<and> sk_world sk' = w'"
proof -
  let ?v = "\<lparr>cs_ClientID = ''k1'', cs_ConversationID = ''r'', cs_Text = Some ''hello'', cs_Attachments = [], cs_ReplyToMessageID = None\<rparr>"
  obtain sk' ok where sk: "handleSend (wiredDeps 9 (rw_socket restWiring)) \<lparr>hc_SessionID = ''s'', hc_UserID = ca_UserID doorCaller, hc_DeviceID = ca_DeviceID doorCaller\<rparr>
      ?v (doorSock\<lparr>sk_world := (restDB, newHub)\<rparr>) = (sk', ok)" by fastforce
  obtain w' ans where n: "NewRouter (wiredRest 9 restWiring) (\<lambda>w. w) (PostMessage (Some restSend)) (restRequest ''r'') (restDB, newHub) = (w', ans)"
    by fastforce
  have i: "chat_reach (wr_stale (rw_socket restWiring) restDB)" "chat_step\<^sup>*\<^sup>* (wr_stale (rw_socket restWiring) restDB) restDB"
    using restDB_reach by (simp_all add: restParse)
  have "sk_world sk' = w'"
    using transports_agree [OF restCaller _ _ _ _ i _ _ _ sk n, of "''r''"]
    by (simp add: doorCaller_def uuid_Nil_def restParse restRequest_def restSend_def doorSock_def)
  then show ?thesis using sk n by (simp add: doorCaller_def)
qed

theorem one_refusal_witness:
  "NewRouter (wiredRest 9 restWiring) (\<lambda>w. w) GetUsers \<lparr>hq_Authorization = '''', hq_id = '''', hq_query = []\<rparr> (restDB, newHub) = ((restDB, newHub), unauthorized)"
proof -
  let ?r = "\<lparr>hq_Authorization = '''', hq_id = '''', hq_query = []\<rparr>"
  obtain w' ans where n: "NewRouter (wiredRest 9 restWiring) (\<lambda>w. w) GetUsers ?r (restDB, newHub) = (w', ans)" by fastforce
  have "Authenticate (wr_hash (rw_socket restWiring)) (wr_now (rw_socket restWiring)) restDB (bearer ?r) = Inl ErrUnauthorized"
    by (simp add: bearer_def Authenticate_def)
  with one_refusal [OF n refl] have "ans = unauthorized" "w' = (restDB, newHub)" by (auto simp: guarded_def)
  with n show ?thesis by simp
qed

theorem revoke_is_own_and_silent_witness:
  "\<exists>db' h'. NewRouter (wiredRest 9 restWiring) (\<lambda>w. w) PostRevoke (restRequest ''d2'') (restDB, newHub) = ((db', h'), Answered 204 NoBody) \<and>
     \<lparr>dv_id = ''d2'', dv_user_id = ''b'', dv_name = ''tablet'', dv_created_at = 2, dv_revoked_at = None\<rparr> \<in> set (db_devices db')"
proof -
  obtain db' h' ans where n: "NewRouter (wiredRest 9 restWiring) (\<lambda>w. w) PostRevoke (restRequest ''d2'') (restDB, newHub) = ((db', h'), ans)"
    by (metis prod.collapse)
  let ?d = "\<lparr>dv_id = ''d2'', dv_user_id = ''b'', dv_name = ''tablet'', dv_created_at = 2, dv_revoked_at = None\<rparr>"
  have p: "wr_parse (rw_socket restWiring) (hq_id (restRequest ''d2'')) = Some ''d2''" by (simp add: restParse restRequest_def)
  note own = revoke_is_own_and_silent [OF restCaller p n]
  have "?d \<in> set (filter (\<lambda>x. dv_user_id x \<noteq> ca_UserID doorCaller) (db_devices restDB))" by (simp add: restDB_def doorCaller_def)
  then have "?d \<in> set (filter (\<lambda>x. dv_user_id x \<noteq> ca_UserID doorCaller) (db_devices db'))" using own by metis
  then have "?d \<in> set (db_devices db')" by simp
  then show ?thesis using own [THEN conjunct1] n by blast
qed

theorem cursor_round_trip_witness:
  "intParam \<lparr>hq_Authorization = '''', hq_id = '''', hq_query = [(''after'', decimal 42)]\<rparr> ''after'' 0 = Some 42"
  using cursor_round_trip [THEN conjunct1, rule_format, of 42 "''''" "''''" "''after''" "[]" 0] by simp

end
