(* ===== verification/Provision.thy ===== *)
theory Provision
  imports Api_Rest Store_Persons
begin

text \<open>
  \<open>internal/provision\<close>: the second listener, by which accounts are created, looked up and
  deactivated. One static credential opens it; each of its three routes decodes, calls the store
  and maps what the store says to a status and a body. Bodies arrive decoded (\<open>None\<close> is what
  \<open>decodeStrict\<close> refuses); the deliberately broken comparisons of the tests and the log lines are left out.
\<close>

section \<open>The server\<close>

record 's ProvisionDeps =
  pv_Token :: token
  pv_Ensure :: "string \<Rightarrow> string \<Rightarrow> 's \<Rightarrow> 's \<times> (person_error + EnsuredPerson)"
  pv_Lookup :: "string \<Rightarrow> 's \<Rightarrow> person_error + PersonLookup"
  pv_Deactivate :: "uuid \<Rightarrow> 's \<Rightarrow> 's \<times> (store_error + Offboard)"
  pv_parse :: "string \<Rightarrow> uuid option"

text \<open>\<open>ps_want\<close> is the digest of the configured token, computed once.\<close>

record ('s, 'h) ProvisionServer =
  ps_deps :: "'s ProvisionDeps"
  ps_want :: 'h

text \<open>\<open>New\<close>: \<open>None\<close> is its panic on an empty token; the three functions are never missing in the record.\<close>

definition newProvision :: "(token \<Rightarrow> 'h) \<Rightarrow> 's ProvisionDeps \<Rightarrow> ('s, 'h) ProvisionServer option" where
  "newProvision hash d = (if pv_Token d = '''' then None else Some \<lparr>ps_deps = d, ps_want = hash (pv_Token d)\<rparr>)"

section \<open>Answers\<close>

record provAccount =
  pc_ID :: uuid
  pc_Email :: string
  pc_Handle :: string
  pc_DisplayName :: string
  pc_Status :: string

record ensureResponse =
  xr_Account :: provAccount
  xr_EnrollmentToken :: token
  xr_EnrollmentExpiresAt :: string
  xr_Outcome :: string
  xr_Note :: "string option"

record lookupResponse =
  lr_Account :: provAccount
  lr_LiveDevices :: nat

datatype prov_answer =
  ProvError int string | ProvEnsured int ensureResponse | ProvFound lookupResponse | ProvDone | ProvNoRoute int

definition errUnauthorized :: string where "errUnauthorized = ''unauthorized''"
definition errNoSuchAccount :: string where "errNoSuchAccount = ''no such account''"
definition errBadRequest :: string where "errBadRequest = ''request is not valid''"
definition errInvalidEmail :: string where "errInvalidEmail = ''email is not a valid address''"
definition errEmailMissing :: string where "errEmailMissing = ''the email query parameter is required''"
definition errInternal :: string where "errInternal = ''internal error''"

section \<open>The door\<close>

datatype header_shape = ShapeAbsent | ShapeMalformed | ShapeBearer

definition presentedToken :: "Request \<Rightarrow> token \<times> header_shape" where
  "presentedToken r =
     (let h = hq_Authorization r; prefix = ''Bearer ''
      in if h = '''' then ('''', ShapeAbsent)
         else if length h < length prefix \<or> map lowerASCII (take (length prefix) h) \<noteq> map lowerASCII prefix
         then ('''', ShapeMalformed)
         else (drop (length prefix) h, ShapeBearer))"

definition opens :: "(token \<Rightarrow> 'h) \<Rightarrow> ('s, 'h) ProvisionServer \<Rightarrow> token \<Rightarrow> bool" where
  "opens hash s t \<longleftrightarrow> hash t = ps_want s"

definition authorize :: "(token \<Rightarrow> 'h) \<Rightarrow> ('s, 'h) ProvisionServer \<Rightarrow> Request \<Rightarrow> prov_answer option" where
  "authorize hash s r =
     (case presentedToken r of
        (t, shape) \<Rightarrow> if opens hash s t then None else Some (ProvError 401 errUnauthorized))"

section \<open>The three operations\<close>

definition outcomeFor :: "PersonOutcome \<Rightarrow> string" where
  "outcomeFor o' = (case o' of PersonCreated \<Rightarrow> ''created'' | PersonExisting \<Rightarrow> ''existing'' | PersonReactivated \<Rightarrow> ''reactivated'')"

definition statusFor :: "string \<Rightarrow> string option" where
  "statusFor s =
     (if s = PersonStatusActive then Some ''active''
      else if s = PersonStatusDeactivated then Some ''deactivated''
      else None)"

definition accountView :: "PersonAccount \<Rightarrow> provAccount option" where
  "accountView a =
     (case statusFor (pa_Status a) of
        None \<Rightarrow> None
      | Some status \<Rightarrow> Some \<lparr>pc_ID = pa_UserID a, pc_Email = pa_Email a, pc_Handle = pa_Handle a,
          pc_DisplayName = pa_DisplayName a, pc_Status = status\<rparr>)"

definition provEnsure :: "'s ProvisionDeps \<Rightarrow> (string \<times> string) option \<Rightarrow> 's \<Rightarrow> 's \<times> prov_answer" where
  "provEnsure d body w =
     (case body of
        None \<Rightarrow> (w, ProvError 400 errBadRequest)
      | Some (email, displayName) \<Rightarrow>
          case pv_Ensure d email displayName w of
            (w', Inl e) \<Rightarrow>
              (w', if e = ErrInvalidEmail then ProvError 400 errInvalidEmail else ProvError 500 errInternal)
          | (w', Inr ensured) \<Rightarrow>
              (w', case accountView (ep_Account ensured) of
                 None \<Rightarrow> ProvError 500 errInternal
               | Some acct \<Rightarrow>
                   ProvEnsured (if ep_Outcome ensured = PersonCreated then 201 else 200)
                     \<lparr>xr_Account = acct, xr_EnrollmentToken = it_Plaintext (ep_Token ensured),
                      xr_EnrollmentExpiresAt = formatWire (it_ExpiresAt (ep_Token ensured)),
                      xr_Outcome = outcomeFor (ep_Outcome ensured),
                      xr_Note = (if ep_Note ensured = '''' then None else Some (ep_Note ensured))\<rparr>))"

definition provLookup :: "'s ProvisionDeps \<Rightarrow> Request \<Rightarrow> 's \<Rightarrow> prov_answer" where
  "provLookup d r w =
     (let email = TrimSpace (case map_of (hq_query r) ''email'' of None \<Rightarrow> '''' | Some v \<Rightarrow> v)
      in if email = '''' then ProvError 400 errEmailMissing
         else case pv_Lookup d email w of
           Inl e \<Rightarrow>
             if e = PersonStore ErrPersonNotFound then ProvError 404 errNoSuchAccount else ProvError 500 errInternal
         | Inr found \<Rightarrow>
             (case accountView (pl_Account found) of
                None \<Rightarrow> ProvError 500 errInternal
              | Some acct \<Rightarrow> ProvFound \<lparr>lr_Account = acct, lr_LiveDevices = pl_LiveDevices found\<rparr>))"

definition provDeactivate :: "'s ProvisionDeps \<Rightarrow> Request \<Rightarrow> 's \<Rightarrow> 's \<times> prov_answer" where
  "provDeactivate d r w =
     (case pv_parse d (hq_id r) of
        None \<Rightarrow> (w, ProvError 404 errNoSuchAccount)
      | Some i \<Rightarrow>
          case pv_Deactivate d i w of
            (w', Inl e) \<Rightarrow>
              (w', if e = ErrPersonNotFound then ProvError 404 errNoSuchAccount else ProvError 500 errInternal)
          | (w', Inr out) \<Rightarrow> (w', ProvDone))"

section \<open>The routes\<close>

text \<open>\<open>OtherPath\<close> and \<open>OtherMethod\<close> are the answers of the mux, 404 and 405.\<close>

datatype prov_route =
  PostAccounts "(string \<times> string) option" | GetAccounts | PostDeactivate | OtherPath | OtherMethod

definition serveProvision ::
  "(token \<Rightarrow> 'h) \<Rightarrow> ('s, 'h) ProvisionServer \<Rightarrow> prov_route \<Rightarrow> Request \<Rightarrow> 's \<Rightarrow> 's \<times> prov_answer" where
  "serveProvision hash s route r w =
     (case authorize hash s r of
        Some ans \<Rightarrow> (w, ans)
      | None \<Rightarrow>
          case route of
            PostAccounts body \<Rightarrow> provEnsure (ps_deps s) body w
          | GetAccounts \<Rightarrow> (w, provLookup (ps_deps s) r w)
          | PostDeactivate \<Rightarrow> provDeactivate (ps_deps s) r w
          | OtherPath \<Rightarrow> (w, ProvNoRoute 404)
          | OtherMethod \<Rightarrow> (w, ProvNoRoute 405))"

section \<open>As the server wires it\<close>

text \<open>
  The three functions are the store's. What a deployment decides: the case mapping of Unicode and
  of the database, the digest, the attempts of an ensure at a database, the snapshots of a lookup,
  the clock, the batch id and the stale read of an offboard.
\<close>

record 'h ProvisionWiring =
  pw_token :: token
  pw_low :: "nat \<Rightarrow> nat"
  pw_lower :: "string \<Rightarrow> string"
  pw_hash :: "token \<Rightarrow> 'h"
  pw_attempts :: "'h DB \<Rightarrow> nat \<Rightarrow> 'h Attempt"
  pw_snaps :: "'h DB \<Rightarrow> nat \<Rightarrow> 'h DB"
  pw_dbnow :: gotime
  pw_batch :: "'h DB \<Rightarrow> uuid"
  pw_stale :: "'h DB \<Rightarrow> 'h DB"
  pw_parse :: "string \<Rightarrow> uuid option"

definition wiredEnsure :: "'h ProvisionWiring \<Rightarrow> string \<Rightarrow> string \<Rightarrow> 'h DB \<Rightarrow> 'h DB \<times> (person_error + EnsuredPerson)" where
  "wiredEnsure pw email displayName db =
     (case EnsurePerson (pw_low pw) (pw_lower pw) (pw_hash pw) (pw_attempts pw db) email displayName of
        (None, x) \<Rightarrow> (db, x)
      | (Some db', x) \<Rightarrow> (db', x))"

definition wiredProvision :: "'h ProvisionWiring \<Rightarrow> 'h DB ProvisionDeps" where
  "wiredProvision pw =
     \<lparr>pv_Token = pw_token pw,
      pv_Ensure = wiredEnsure pw,
      pv_Lookup = (\<lambda>email db. PersonByEmail (pw_low pw) (pw_lower pw) (pw_snaps pw db 0) (pw_snaps pw db 1) email),
      pv_Deactivate = (\<lambda>i db. DeactivateUser (pw_dbnow pw) (pw_batch pw db) (pw_stale pw db) db i),
      pv_parse = pw_parse pw\<rparr>"

end
