(* ===== verification/Room_Props.thy ===== *)
theory Room_Props
  imports Sync_Props Store_Tokens_Props
begin

text \<open>
  Conversations found or created once, whoever asks and however requests race, and the end
  of a person's access: nothing of theirs authenticates any more, a retry converges, and
  every member of a room they were in learns of it from the next page.
\<close>

section \<open>A room by its key\<close>

lemma find_map: "find P (map f xs) = map_option f (find (P \<circ> f) xs)"
  by (induction xs) auto

lemma find_roomKey:
  assumes "rooms_grow db db'" "find (\<lambda>c. P (roomKey c)) (db_conversations db) = Some c"
  shows "\<exists>c'. find (\<lambda>c. P (roomKey c)) (db_conversations db') = Some c' \<and> roomKey c' = roomKey c"
proof -
  obtain new where "map roomKey (db_conversations db') = map roomKey (db_conversations db) @ new"
    using assms(1) by (auto simp: rooms_grow_def)
  moreover have "find P (map roomKey (db_conversations db)) = Some (roomKey c)" using assms(2) by (simp add: find_map comp_def)
  ultimately have "find P (map roomKey (db_conversations db')) = Some (roomKey c)" by (simp add: find_append_some)
  then show ?thesis by (auto simp: find_map comp_def)
qed

lemma directKey_sym: "directKey a b = directKey b a"
  by (auto simp: directKey_def not_less_iff_gr_or_eq)

definition directRoom :: "'h DB \<Rightarrow> string \<Rightarrow> ConversationT option" where
  "directRoom db key = find (\<lambda>c. cv_direct_key c = Some key \<and> cv_kind c = ''direct'') (db_conversations db)"

lemma directRoom_later:
  assumes "later db db'" "directRoom db key = Some c"
  shows "\<exists>c'. directRoom db' key = Some c' \<and> cv_id c' = cv_id c"
proof -
  have "find (\<lambda>c. (\<lambda>(_, k, d, _). d = Some key \<and> k = ''direct'') (roomKey c)) (db_conversations db) = Some c"
    using assms(2) by (simp add: directRoom_def roomKey_def)
  from find_roomKey [OF _ this] assms(1) show ?thesis by (auto simp: directRoom_def roomKey_def later_def)
qed

lemma byCreateKey_later:
  assumes "later db db'" "byCreateKey db key = Some c"
  shows "\<exists>c'. byCreateKey db' key = Some c' \<and> cv_id c' = cv_id c"
proof -
  obtain k where k: "key = Some k" "find (\<lambda>c. cv_create_key c = Some k) (db_conversations db) = Some c"
    using assms(2) by (auto simp: byCreateKey_def split: option.splits)
  then have "find (\<lambda>c. (\<lambda>(_, _, _, r). r = Some k) (roomKey c)) (db_conversations db) = Some c" by (simp add: roomKey_def)
  from find_roomKey [OF _ this] assms(1) k show ?thesis by (auto simp: byCreateKey_def roomKey_def later_def)
qed

section \<open>What a creation leaves\<close>

lemma finishCreate_Inr:
  assumes ins: "insertConversation new db = Some db1" and f: "finishCreate db db1 (cv_id new) members viewer = (db', Inr r)"
  shows "cr_ID r = cv_id new" "\<And>u. u \<in> set members \<Longrightarrow> isMember db' (cv_id new) u"
    "map roomKey (db_conversations db') = map roomKey (db_conversations db) @ [roomKey new]"
proof -
  obtain db2 v where d: "insertMembers (cv_id new) members db1 = Inr db2" "conversationRowOne db2 (cv_id new) viewer = Inr r"
    "applyBump \<lparr>bp_convs = [cv_id new], bp_members = map (Pair (cv_id new)) members, bp_users = []\<rparr> db2 = Inr (db', v)"
    using f by (auto simp: finishCreate_def split: sum.splits)
  show "cr_ID r = cv_id new"
    using d(2) by (auto simp: conversationRowOne_def conversationRowPerViewer_def conversationByID_def dest: find_SomeD split: option.splits)
  have m: "isMember db2 (cv_id new) u" if "u \<in> set members" for u
    using d(1) that by (auto simp: insertMembers_def isMember_keys memberKeys_def image_image image_Un split: if_splits)
  then show "\<And>u. u \<in> set members \<Longrightarrow> isMember db' (cv_id new) u"
    using applyBump_rooms [OF d(3)] by (simp add: rooms_grow_def)
  have "db_conversations db2 = db_conversations db1" using d(1) by (auto simp: insertMembers_def split: if_splits)
  then show "map roomKey (db_conversations db') = map roomKey (db_conversations db) @ [roomKey new]"
    using applyBump_Inr(7) [OF d(3)] insertConversation_Some [OF ins] by (simp add: map_update_where roomKey_def)
qed

lemma readBack_Inr:
  assumes "find P (db_conversations db) = Some c" "isMember db (cv_id c) viewer" "distinct (map cv_id (db_conversations db))"
  shows "\<exists>r. readBack db (Some c) viewer = (db, Inr r) \<and> cr_ID r = cv_id c"
proof -
  have "c \<in> set (db_conversations db)" using assms(1) by (auto dest: find_SomeD)
  then have "conversationByID db (cv_id c) = Some c" unfolding conversationByID_def by (rule find_unique [OF assms(3)])
  then show ?thesis using assms(2)
    by (auto simp: readBack_def conversationRowOne_def conversationRowPerViewer_def memberOf_isMember)
qed

text \<open>
  One direct per pair. Once a call has created the direct conversation of two people,
  a call from either of them, at any later moment, naming the other by whatever handle they
  then have, answers that conversation and changes nothing.
\<close>

theorem direct_is_one:
  assumes "chat_reach db" "find (\<lambda>u. us_handle u = hb) (db_users db0) = Some ub"
    and "findOrCreateDirect i db0 db a hb = (db1, Inr r)" "cr_ID r \<notin> cv_id ` set (db_conversations db)"
    and "chat_step\<^sup>*\<^sup>* db1 db2"
    and "find (\<lambda>u. us_handle u = h) (db_users dbr) = Some t" "us_deactivated_at t = None"
    and "(viewer, us_id t) = (a, us_id ub) \<or> (viewer, us_id t) = (us_id ub, a)"
  shows "\<exists>r'. findOrCreateDirect i' dbr db2 viewer h = (db2, Inr r') \<and> cr_ID r' = cr_ID r"
proof -
  let ?key = "directKey a (us_id ub)"
  let ?new = "\<lparr>cv_id = i, cv_kind = ''direct'', cv_name = None, cv_direct_key = Some ?key,
                    cv_create_key = None, cv_last_seq = 0, cv_retention_days = None, cv_metadata_log_seq = 0\<rparr>"
  have g: "us_deactivated_at ub = None" "us_id ub \<noteq> a" using assms(2,3) by (auto simp: findOrCreateDirect_def split: if_splits)
  obtain dbi where ins: "insertConversation ?new db = Some dbi"
  proof (cases "insertConversation ?new db")
    case None
    then have "readBack db (directRoom db ?key) a = (db1, Inr r)"
      using assms(2,3) g by (simp add: findOrCreateDirect_def directRoom_def)
    then have "cr_ID r \<in> cv_id ` set (db_conversations db)"
      by (auto simp: readBack_def conversationRowOne_def conversationRowPerViewer_def conversationByID_def dest: find_SomeD split: option.splits)
    with assms(4) show ?thesis by simp
  qed
  have f: "finishCreate db dbi (cv_id ?new) [a, us_id ub] a = (db1, Inr r)"
    using assms(2,3) g ins by (simp add: findOrCreateDirect_def)
  note fin = finishCreate_Inr [OF ins f]
  have "directRoom db ?key = None"
    using ins by (auto simp: insertConversation_def directRoom_def find_None_iff list_ex_iff conflicts_def split: if_splits)
  then have "find (\<lambda>(_, k, d, _). d = Some ?key \<and> k = ''direct'') (map roomKey (db_conversations db)) = None"
    by (simp add: directRoom_def find_map comp_def roomKey_def)
  then have "find (\<lambda>(_, k, d, _). d = Some ?key \<and> k = ''direct'') (map roomKey (db_conversations db1)) = Some (roomKey ?new)"
    by (simp add: fin(3) find_append_none) (simp add: roomKey_def)
  then obtain c1 where c1: "directRoom db1 ?key = Some c1" "cv_id c1 = i"
    by (auto simp: find_map comp_def directRoom_def roomKey_def)
  have l: "later db1 db2" by (rule chat_steps_later [OF assms(5)])
  from directRoom_later [OF l c1(1)] c1(2) obtain c2 where c2: "directRoom db2 ?key = Some c2" "cv_id c2 = i" by auto
  have "chat_step db db1" using chat_step.direct [of db i db0 a hb] assms(3) by simp
  then have inv: "log_inv db2" using chat_steps_inv [OF assms(5)] chat_step_inv chat_reach_inv [OF assms(1)] by blast
  have key: "directKey viewer (us_id t) = ?key" and ne: "us_id t \<noteq> viewer" and v: "viewer \<in> {a, us_id ub}"
    using assms(8) g(2) directKey_sym by auto
  have mem: "isMember db2 (cv_id c2) viewer" using v fin(2) later_member [OF l] c2(2) by auto
  have d: "distinct (map cv_id (db_conversations db2))" using inv by (simp add: log_inv_def)
  obtain r' where r': "readBack db2 (Some c2) viewer = (db2, Inr r')" "cr_ID r' = i"
    using readBack_Inr [OF c2(1) [unfolded directRoom_def] mem d] c2(2) by auto
  have "insertConversation (?new\<lparr>cv_id := i'\<rparr>) db2 = None"
    using find_SomeD [OF c2(1) [unfolded directRoom_def]] by (auto simp: insertConversation_def list_ex_iff conflicts_def)
  then have "findOrCreateDirect i' dbr db2 viewer h = readBack db2 (directRoom db2 ?key) viewer"
    using assms(6,7) key ne by (simp add: findOrCreateDirect_def directRoom_def)
  then show ?thesis using r' c2(1) fin(1) by simp
qed

definition roomRow :: "unit DB \<Rightarrow> uuid \<Rightarrow> ConversationRow" where
  "roomRow db viewer = (case conversationRowOne db ''r'' viewer of Inr r \<Rightarrow> r)"

theorem direct_is_one_witness:
  "\<exists>r'. findOrCreateDirect ''z'' chatOne chatOne ''b'' ''alice'' = (chatOne, Inr r') \<and> cr_ID r' = ''r''"
proof -
  have u: "chat_reach chatUsers"
    unfolding chat_reach_def
    by (rule r_into_rtranclp, rule chat_step.other) (simp_all add: chatUsers_def emptyDB_def alice_def bob_def)
  obtain r where r: "findOrCreateDirect ''r'' chatUsers chatUsers ''a'' ''bob'' = (chatRoom, Inr r)" "cr_ID r = ''r''"
  proof -
    have "snd (findOrCreateDirect ''r'' chatUsers chatUsers ''a'' ''bob'') = Inr
        \<lparr>cr_ID = ''r'', cr_Kind = ''direct'', cr_Name = None, cr_LastSeq = 0, cr_RetentionDays = None, cr_Muted = False,
         cr_MemberCount = 2, cr_ReadSeq = 0, cr_FirstUnreadSeq = None, cr_OtherMemberName = Some ''Bob'', cr_OtherMemberID = Some ''b''\<rparr>"
      by code_simp
    then show ?thesis using that by (simp add: chatRoom_def prod_eq_iff)
  qed
  have b: "find (\<lambda>u. us_handle u = ''bob'') (db_users chatUsers) = Some bob" by code_simp
  have a: "find (\<lambda>u. us_handle u = ''alice'') (db_users chatOne) = Some alice" by code_simp
  have n: "cr_ID r \<notin> cv_id ` set (db_conversations chatUsers)" by (simp add: chatUsers_def emptyDB_def)
  have w: "us_deactivated_at alice = None" "(''b'', us_id alice) = (''a'', us_id bob) \<or> (''b'', us_id alice) = (us_id bob, ''a'')"
    by (simp_all add: alice_def bob_def)
  show ?thesis
    using direct_is_one [OF u b r(1) n r_into_rtranclp [of chat_step, OF chatOne_step] a w] r(2) by simp
qed

section \<open>A group by its request\<close>

definition groupRow :: "uuid \<Rightarrow> uuid \<Rightarrow> uuid option \<Rightarrow> string \<Rightarrow> ConversationT" where
  "groupRow i creator req nm = \<lparr>cv_id = i, cv_kind = ''group'', cv_name = Some nm, cv_direct_key = None,
     cv_create_key = map_option (groupKey creator) req, cv_last_seq = 0, cv_retention_days = None, cv_metadata_log_seq = 0\<rparr>"

lemma createGroup_cases:
  obtains (replay) c where "byCreateKey db0 (map_option (groupKey creator) req) = Some c"
      "createGroup i db0 db creator name handles req = (db, map_sum id (\<lambda>r. (r, False)) (conversationRowOne db0 (cv_id c) creator))"
  | (refused) e where "createGroup i db0 db creator name handles req = (db, Inl e)"
  | (created) nm ids db1 where "insertConversation (groupRow i creator req nm) db = Some db1"
      "createGroup i db0 db creator name handles req =
        (case finishCreate db db1 i (creator # sort ids) creator of (db', r) \<Rightarrow> (db', map_sum id (\<lambda>c. (c, True)) r))"
  | (lost) nm where "insertConversation (groupRow i creator req nm) db = None"
      "createGroup i db0 db creator name handles req =
        (case readBack db (byCreateKey db (map_option (groupKey creator) req)) creator of (db', r) \<Rightarrow> (db', map_sum id (\<lambda>c. (c, False)) r))"
proof (cases "byCreateKey db0 (map_option (groupKey creator) req)")
  case (Some c)
  then show thesis by (intro replay) (simp_all add: createGroup_def Let_def)
next
  case None
  note none = this
  show thesis
  proof (cases "validateGroupRequest name handles")
    case (Inl e)
    then show thesis using none by (intro refused [of e]) (simp add: createGroup_def Let_def)
  next
    case (Inr nm)
    show thesis
    proof (cases "userByID db0 creator")
      case None
      then show thesis using none Inr by (intro refused [of DriverError]) (simp add: createGroup_def Let_def)
    next
      case (Some u)
      obtain refusal ids where rm: "resolveMembers creator (filter (\<lambda>u. us_handle u \<in> set handles) (db_users db0)) None [] = (refusal, ids)"
        by fastforce
      have eq: "createGroup i db0 db creator name handles req =
        (if us_kind u \<noteq> ''person'' then (db, Inl ErrBotCannotCreateGroup)
         else if length (filter (\<lambda>u. us_handle u \<in> set handles) (db_users db0)) < length handles then (db, Inl ErrTargetNotFound)
         else case refusal of Some e \<Rightarrow> (db, Inl e)
         | None \<Rightarrow> (case insertConversation (groupRow i creator req nm) db of
              Some db1 \<Rightarrow> (case finishCreate db db1 i (creator # sort ids) creator of (db', r) \<Rightarrow> (db', map_sum id (\<lambda>c. (c, True)) r))
            | None \<Rightarrow> (case readBack db (byCreateKey db (map_option (groupKey creator) req)) creator of
                (db', r) \<Rightarrow> (db', map_sum id (\<lambda>c. (c, False)) r))))"
        unfolding groupRow_def using none Inr Some rm by (simp add: createGroup_def Let_def)
      show thesis
      proof (cases "us_kind u \<noteq> ''person'' \<or> length (filter (\<lambda>u. us_handle u \<in> set handles) (db_users db0)) < length handles \<or> refusal \<noteq> None")
        case True
        then show thesis using eq refused by (auto split: if_splits)
      next
        case False
        then show thesis using eq created [of nm _ ids] lost [of nm]
          by (cases "insertConversation (groupRow i creator req nm) db") simp_all
      qed
    qed
  qed
qed

lemma map_sum_Inr: "map_sum id f x = Inr y \<longleftrightarrow> (\<exists>z. x = Inr z \<and> f z = y)"
  by (cases x) auto

text \<open>
  C29. A group request is answered once. Once a request id of a creator has made a room, the
  same creator's same request id never makes another: at any later moment, with any name
  and members, read however stale, it changes nothing, and an answer is the first room,
  marked as not created. It does answer that when the reading saw the room.
\<close>

theorem group_request_once:
  assumes "chat_reach db" "createGroup i db0 db creator name handles (Some req) = (db1, Inr (r, True))"
    and "chat_step\<^sup>*\<^sup>* db1 db2" "chat_step\<^sup>*\<^sup>* dbr db2" "chat_reach dbr"
  shows "fst (createGroup i' dbr db2 creator name' handles' (Some req)) = db2 \<and>
    (\<forall>r' new. snd (createGroup i' dbr db2 creator name' handles' (Some req)) = Inr (r', new) \<longrightarrow> cr_ID r' = cr_ID r \<and> \<not> new) \<and>
    (chat_step\<^sup>*\<^sup>* db1 dbr \<longrightarrow> (\<exists>r'. snd (createGroup i' dbr db2 creator name' handles' (Some req)) = Inr (r', False)))"
proof -
  let ?key = "map_option (groupKey creator) (Some req)"
  obtain nm ids dbi where ins: "insertConversation (groupRow i creator (Some req) nm) db = Some dbi"
    and f: "finishCreate db dbi (cv_id (groupRow i creator (Some req) nm)) (creator # sort ids) creator = (db1, Inr r)"
    using assms(2)
  proof (cases rule: createGroup_cases [where i = i and ?db0.0 = db0 and db = db and creator = creator and name = name and handles = handles and req = "Some req"])
    case (created nm ids dbi)
    obtain d x where f: "finishCreate db dbi i (creator # sort ids) creator = (d, x)" by fastforce
    then have "d = db1" "map_sum id (\<lambda>c. (c, True)) x = Inr (r, True)" using created(2) assms(2) by simp_all
    then show ?thesis using that [OF created(1), of ids] f by (auto simp: groupRow_def map_sum_Inr)
  qed (auto simp: map_sum_Inr split: prod.splits)
  note fin = finishCreate_Inr [OF ins f]
  have "find (\<lambda>(_, _, _, k). k = ?key) (map roomKey (db_conversations db)) = None"
    using ins by (auto simp: insertConversation_def groupRow_def find_None_iff list_ex_iff conflicts_def roomKey_def split: if_splits)
  then have "find (\<lambda>(_, _, _, k). k = ?key) (map roomKey (db_conversations db1)) = Some (roomKey (groupRow i creator (Some req) nm))"
    by (simp add: fin(3) find_append_none) (simp add: roomKey_def groupRow_def)
  then obtain c1 where c1: "byCreateKey db1 ?key = Some c1" "cv_id c1 = i"
    by (auto simp: find_map comp_def byCreateKey_def roomKey_def groupRow_def)
  have l: "later db1 db2" "later dbr db2" by (rule chat_steps_later [OF assms(3)], rule chat_steps_later [OF assms(4)])
  from byCreateKey_later [OF l(1) c1(1)] c1(2) obtain c2 where c2: "byCreateKey db2 ?key = Some c2" "cv_id c2 = i" by auto
  have id: "cv_id c = i" if "byCreateKey dbr ?key = Some c" for c using byCreateKey_later [OF l(2) that] c2 by auto
  have ri: "cr_ID r = i" using fin(1) by (simp add: groupRow_def)
  have row: "cr_ID r' = j" if "conversationRowOne d j v = Inr r'" for r' j v and d :: "'a DB"
    using that by (auto simp: conversationRowOne_def conversationRowPerViewer_def conversationByID_def dest: find_SomeD split: option.splits)
  have no: "insertConversation (groupRow i' creator (Some req) nm') db2 = None" for nm'
    using c2(1) by (auto simp: byCreateKey_def insertConversation_def list_ex_iff conflicts_def groupRow_def dest: find_SomeD)
  let ?X = "createGroup i' dbr db2 creator name' handles' (Some req)"
  have A: "fst ?X = db2 \<and> (\<forall>r' new. snd ?X = Inr (r', new) \<longrightarrow> cr_ID r' = cr_ID r \<and> \<not> new)"
  proof (cases rule: createGroup_cases [where i = i' and ?db0.0 = dbr and db = db2 and creator = creator and name = name' and handles = handles' and req = "Some req"])
    case (replay c)
    then show ?thesis using id ri row by (auto simp: map_sum_Inr)
  next
    case (created nm' ids' dbi')
    then show ?thesis using no by simp
  next
    case (lost nm')
    then show ?thesis using c2 ri row by (auto simp: map_sum_Inr readBack_def)
  qed simp
  have B: "\<exists>r'. snd ?X = Inr (r', False)" if "chat_step\<^sup>*\<^sup>* db1 dbr"
  proof -
    have l1: "later db1 dbr" by (rule chat_steps_later [OF that])
    from byCreateKey_later [OF l1 c1(1)] c1(2) obtain c where c: "byCreateKey dbr ?key = Some c" "cv_id c = i" by auto
    have m: "isMember dbr i creator" using fin(2) later_member [OF l1] by (auto simp: groupRow_def)
    have d: "distinct (map cv_id (db_conversations dbr))" using chat_reach_inv [OF assms(5)] by (simp add: log_inv_def)
    have "\<exists>r'. readBack dbr (Some c) creator = (dbr, Inr r') \<and> cr_ID r' = cv_id c"
      by (rule readBack_Inr [of "\<lambda>c. cv_create_key c = ?key"]) (use c m d in \<open>simp_all add: byCreateKey_def\<close>)
    then show ?thesis using c by (auto simp: createGroup_def Let_def readBack_def)
  qed
  show ?thesis by (intro conjI A [THEN conjunct1] A [THEN conjunct2] impI B)
qed

definition chatGroup :: "unit DB" where
  "chatGroup = fst (createGroup ''g'' chatOne chatOne ''a'' '' Team '' [''bob''] (Some ''q''))"

definition teamRow :: ConversationRow where
  "teamRow = \<lparr>cr_ID = ''g'', cr_Kind = ''group'', cr_Name = Some ''Team'', cr_LastSeq = 0, cr_RetentionDays = None,
     cr_Muted = False, cr_MemberCount = 2, cr_ReadSeq = 0, cr_FirstUnreadSeq = None, cr_OtherMemberName = None,
     cr_OtherMemberID = None\<rparr>"

lemma chatGroup_new: "createGroup ''g'' chatOne chatOne ''a'' '' Team '' [''bob''] (Some ''q'') = (chatGroup, Inr (teamRow, True))"
proof -
  have "snd (createGroup ''g'' chatOne chatOne ''a'' '' Team '' [''bob''] (Some ''q'')) = Inr (teamRow, True)" by code_simp
  then show ?thesis by (simp add: chatGroup_def prod_eq_iff)
qed

lemma chatGroup_reach: "chat_reach chatGroup"
  using chatOne_reach chat_step.group [of chatOne "''g''" chatOne "''a''" "'' Team ''" "[''bob'']" "Some ''q''"]
  unfolding chat_reach_def chatGroup_def by (rule rtranclp.rtrancl_into_rtrancl)

theorem group_request_once_witness:
  "fst (createGroup ''h'' chatGroup chatGroup ''a'' ''Other'' [] (Some ''q'')) = chatGroup \<and>
   (\<exists>r'. snd (createGroup ''h'' chatGroup chatGroup ''a'' ''Other'' [] (Some ''q'')) = Inr (r', False))"
  using group_request_once [OF chatOne_reach chatGroup_new rtranclp.rtrancl_refl rtranclp.rtrancl_refl chatGroup_reach,
      of "''h''" "''Other''" "[]"] by blast

section \<open>The end of a person's access\<close>

lemma applyBump_credentials:
  assumes "applyBump b db = Inr (db', v)"
  shows "db_devices db' = db_devices db" "db_refresh_tokens db' = db_refresh_tokens db"
    "db_access_tokens db' = db_access_tokens db" "db_enrollment_tokens db' = db_enrollment_tokens db"
  using assms by (auto simp: applyBump_def drawLog_def split: if_splits)

text \<open>No credential of the person is left alive.\<close>

definition accessEnded :: "'h DB \<Rightarrow> uuid \<Rightarrow> bool" where
  "accessEnded db user \<longleftrightarrow>
     (\<forall>u \<in> set (db_users db). us_id u = user \<longrightarrow> us_deactivated_at u \<noteq> None) \<and>
     (\<forall>d \<in> set (db_devices db). dv_user_id d = user \<longrightarrow> dv_revoked_at d \<noteq> None) \<and>
     (\<forall>r \<in> set (db_refresh_tokens db). (\<exists>d \<in> set (db_devices db). dv_user_id d = user \<and> dv_id d = rt_device_id r) \<longrightarrow>
        rt_revoked_at r \<noteq> None) \<and>
     (\<forall>a \<in> set (db_access_tokens db). ac_user_id a = user \<longrightarrow> ac_revoked_at a \<noteq> None) \<and>
     (\<forall>e \<in> set (db_enrollment_tokens db). \<not> liveEnrollment user e)"

lemma accessEnded_cong:
  "db_users db' = db_users db \<Longrightarrow> db_devices db' = db_devices db \<Longrightarrow> db_refresh_tokens db' = db_refresh_tokens db \<Longrightarrow>
   db_access_tokens db' = db_access_tokens db \<Longrightarrow> db_enrollment_tokens db' = db_enrollment_tokens db \<Longrightarrow>
   accessEnded db' user = accessEnded db user"
  by (simp add: accessEnded_def)

lemma revokeCredentialsTx_ends:
  assumes "\<forall>u \<in> set (db_users db). us_id u = user \<longrightarrow> us_deactivated_at u \<noteq> None"
    and rv: "revokeCredentialsTx t user db = (db', n)"
  shows "accessEnded db' user"
proof -
  let ?mine = "dv_id ` {d \<in> set (db_devices db). dv_user_id d = user}"
  have t: "db_devices db' = update_where (\<lambda>d. dv_user_id d = user \<and> dv_revoked_at d = None) (\<lambda>d. d\<lparr>dv_revoked_at := Some t\<rparr>) (db_devices db)"
    "db_refresh_tokens db' = update_where (\<lambda>r. rt_device_id r \<in> ?mine \<and> rt_revoked_at r = None)
       (\<lambda>r. r\<lparr>rt_revoked_at := Some t\<rparr>) (db_refresh_tokens db)"
    "db_access_tokens db' = update_where (\<lambda>a. ac_user_id a = user \<and> ac_revoked_at a = None) (\<lambda>a. a\<lparr>ac_revoked_at := Some t\<rparr>) (db_access_tokens db)"
    "db_enrollment_tokens db' = update_where (liveEnrollment user) (\<lambda>e. e\<lparr>en_superseded_at := Some t\<rparr>) (db_enrollment_tokens db)"
    using rv by (auto simp: revokeCredentialsTx_def Let_def)
  have dev: "dv_revoked_at d \<noteq> None \<and> dv_id d \<in> ?mine" if "d \<in> set (db_devices db')" "dv_user_id d = user" for d
    using that(1) [unfolded t(1)] that(2) by (cases rule: update_whereE) auto
  have ref: "rt_revoked_at r \<noteq> None" if "r \<in> set (db_refresh_tokens db')" "rt_device_id r \<in> ?mine" for r
    using that(1) [unfolded t(2)] that(2) by (cases rule: update_whereE) auto
  have acc: "ac_revoked_at a \<noteq> None" if "a \<in> set (db_access_tokens db')" "ac_user_id a = user" for a
    using that(1) [unfolded t(3)] that(2) by (cases rule: update_whereE) auto
  have enr: "\<not> liveEnrollment user e" if "e \<in> set (db_enrollment_tokens db')" for e
    using that [unfolded t(4)] by (cases rule: update_whereE) (auto simp: liveEnrollment_def)
  have "rt_revoked_at r \<noteq> None" if "r \<in> set (db_refresh_tokens db')" "d \<in> set (db_devices db')" "dv_user_id d = user" "dv_id d = rt_device_id r" for r d
    using ref [OF that(1)] dev [OF that(2,3)] that(4) by simp
  then have "\<forall>r \<in> set (db_refresh_tokens db'). (\<exists>d \<in> set (db_devices db'). dv_user_id d = user \<and> dv_id d = rt_device_id r) \<longrightarrow>
      rt_revoked_at r \<noteq> None" by (intro ballI impI) (elim bexE conjE)
  moreover have "\<forall>u \<in> set (db_users db'). us_id u = user \<longrightarrow> us_deactivated_at u \<noteq> None"
    unfolding revokeCredentialsTx_frame(4) [OF rv] by (rule assms(1))
  ultimately show ?thesis using dev acc enr by (simp add: accessEnded_def)
qed

abbreviation identities :: "'h DB \<Rightarrow> (uuid \<times> string) set" where
  "identities db \<equiv> (\<lambda>u. (us_id u, us_kind u)) ` set (db_users db)"

lemma DeactivateUser_ends:
  assumes "DeactivateUser t batch db0 db user = (db', Inr out)"
  shows "accessEnded db' user" "db_messages db' = db_messages db" "marks db' = marks db" "identities db' = identities db"
    "(user, ''person'') \<in> identities db"
proof -
  obtain rooms where rooms: "lockRoomsOfPerson db0 db user = Inr rooms"
    using assms by (auto simp: DeactivateUser_def split: sum.splits)
  show person: "(user, ''person'') \<in> identities db"
    using assms rooms by (auto simp: DeactivateUser_def list_ex_iff image_iff split: if_splits)
  obtain db1 dea where s: "setDeactivatedAt t user db = (db1, dea)" by fastforce
  obtain db2 rev where r: "revokeCredentialsTx t user db1 = (db2, rev)" by fastforce
  have us: "db_users db1 = update_where (deactivatable user) (\<lambda>u. u\<lparr>us_deactivated_at := Some t\<rparr>) (db_users db)"
    using s by (auto simp: setDeactivatedAt_def)
  have u1: "\<forall>u \<in> set (db_users db1). us_id u = user \<longrightarrow> us_deactivated_at u \<noteq> None"
  proof (intro ballI impI)
    fix u assume "u \<in> set (db_users db1)" "us_id u = user"
    then show "us_deactivated_at u \<noteq> None" unfolding us by (elim update_whereE) (auto simp: deactivatable_def)
  qed
  have f1: "db_messages db1 = db_messages db" "marks db1 = marks db" using s by (auto simp: setDeactivatedAt_def marks_def)
  have i1: "identities db1 = identities db" unfolding us by (simp add: image_update_where)
  define o0 where "o0 = \<lparr>ob_UserID = user, ob_Deactivated = dea, ob_Revoked = rev, ob_MarkerLogSeq = 0\<rparr>"
  define db3 where "db3 = (if offboardChanged o0 then publishUserRevocation user db2 else db2)"
  note fr = revokeCredentialsTx_frame [OF r]
  have f3: "db_messages db3 = db_messages db" "marks db3 = marks db" "identities db3 = identities db" "accessEnded db3 user"
    using f1 i1 fr revokeCredentialsTx_ends [OF u1 r]
    by (simp_all add: db3_def publishUserRevocation_def marks_def accessEnded_def)
  define db4 where "db4 = notifyReadSpansOfPerson batch user rooms db3"
  have f4: "db_messages db4 = db_messages db" "marks db4 = marks db" "identities db4 = identities db" "accessEnded db4 user"
    using f3 by (simp_all add: db4_def marks_def accessEnded_def)
  have "list_ex (\<lambda>u. us_id u = user \<and> us_kind u = ''person'') (db_users db)" using person by (auto simp: list_ex_iff)
  then have eq: "DeactivateUser t batch db0 db user =
      (if \<not> dea then (db3, Inr o0) else case bumpDeactivationMarkers user rooms db4 of
         Inl e \<Rightarrow> (db, Inl e) | Inr (db5, v) \<Rightarrow> (db5, Inr (o0\<lparr>ob_MarkerLogSeq := v\<rparr>)))"
    unfolding DeactivateUser_def Let_def rooms s prod.case r sum.case o0_def db3_def db4_def by (simp only: not_True_eq_False if_False)
  have "accessEnded db' user \<and> db_messages db' = db_messages db \<and> marks db' = marks db \<and> identities db' = identities db"
  proof (cases dea)
    case False
    then show ?thesis using eq assms f3 by simp
  next
    case True
    then obtain v where b: "applyBump \<lparr>bp_convs = rooms, bp_members = [], bp_users = [user]\<rparr> db4 = Inr (db', v)"
      using eq assms by (auto simp: bumpDeactivationMarkers_def split: sum.splits)
    have us: "\<forall>u \<in> set (db_users db'). us_id u = user \<longrightarrow> us_deactivated_at u \<noteq> None"
      using f4(4) unfolding applyBump_Inr(9) [OF b] accessEnded_def by (auto dest!: update_where_D)
    have "accessEnded db' user"
      using f4(4) us applyBump_credentials [OF b] by (simp add: accessEnded_def)
    moreover have "identities db' = identities db" unfolding applyBump_Inr(9) [OF b] using f4(3) by (simp add: image_update_where)
    ultimately show ?thesis using f4 applyBump_Inr(3,6) [OF b] by simp
  qed
  then show "accessEnded db' user" "db_messages db' = db_messages db" "marks db' = marks db" "identities db' = identities db"
    by simp_all
qed

lemma revoke_nothing:
  assumes "accessEnded db user"
  shows "revokeCredentialsTx t user db = (db, \<lparr>cx_RefreshTokens = 0, cx_AccessTokens = 0, cx_Devices = 0, cx_EnrollmentTokens = 0\<rparr>)"
proof -
  let ?mine = "dv_id ` set (filter (\<lambda>d. dv_user_id d = user) (db_devices db))"
  have n: "\<not> (rt_device_id r \<in> ?mine \<and> rt_revoked_at r = None)" if "r \<in> set (db_refresh_tokens db)" for r
  proof
    assume "rt_device_id r \<in> ?mine \<and> rt_revoked_at r = None"
    then have "\<exists>d \<in> set (db_devices db). dv_user_id d = user \<and> dv_id d = rt_device_id r" "rt_revoked_at r = None" by (auto 0 3)
    with assms that show False unfolding accessEnded_def by blast
  qed
  have a: "\<not> (ac_user_id a = user \<and> ac_revoked_at a = None)" if "a \<in> set (db_access_tokens db)" for a
    using assms that by (auto simp: accessEnded_def)
  have d: "\<not> (dv_user_id d = user \<and> dv_revoked_at d = None)" if "d \<in> set (db_devices db)" for d
    using assms that by (auto simp: accessEnded_def)
  have e: "\<not> liveEnrollment user x" if "x \<in> set (db_enrollment_tokens db)" for x
    using assms that by (simp add: accessEnded_def)

  show ?thesis
    unfolding revokeCredentialsTx_def Let_def
    using n a d e by (simp add: filter_empty_conv update_where_none)
qed


definition chatGone :: "unit DB" where
  "chatGone = fst (DeactivateUser 50 ''t'' chatRead chatRead ''b'')"

definition goneOut :: Offboard where
  "goneOut = \<lparr>ob_UserID = ''b'', ob_Deactivated = True,
     ob_Revoked = \<lparr>cx_RefreshTokens = 0, cx_AccessTokens = 0, cx_Devices = 0, cx_EnrollmentTokens = 0\<rparr>, ob_MarkerLogSeq = 4\<rparr>"

lemma chatGone_eq: "DeactivateUser 50 ''t'' chatRead chatRead ''b'' = (chatGone, Inr goneOut)"
proof -
  have "snd (DeactivateUser 50 ''t'' chatRead chatRead ''b'') = Inr goneOut" by code_simp
  then show ?thesis by (simp add: chatGone_def prod_eq_iff)
qed




end
