(* ===== verification/Person_Props.thy ===== *)
theory Person_Props
  imports Room_Props
begin

text \<open>
  What \<open>persons.go\<close> and \<open>bots.go\<close> promise: the accounts as a state machine over every operation that
  writes the table, one account per email and per handle in every reachable database, the same
  account for every invitation of an email whatever races, the shape and the freedom of an
  assigned handle, and a reversal of an offboard that leaves no old credential alive.
\<close>

section \<open>The invariant of the accounts\<close>

definition email_unique :: "(string \<Rightarrow> string) \<Rightarrow> UserT list \<Rightarrow> bool" where
  "email_unique lower us \<longleftrightarrow>
     (\<forall>u \<in> set us. \<forall>v \<in> set us. \<forall>e. us_email u = Some e \<and> holdsEmail lower e v \<longrightarrow> us_id u = us_id v)"

text \<open>The \<open>CHECK\<close>s on \<open>kind\<close>.\<close>

definition kindRule :: "UserT \<Rightarrow> bool" where
  "kindRule u \<longleftrightarrow> us_kind u = ''person'' \<or> us_kind u = ''bot'' \<and> us_email u = None"

definition accounts_inv :: "(string \<Rightarrow> string) \<Rightarrow> UserT list \<Rightarrow> bool" where
  "accounts_inv lower us \<longleftrightarrow> distinct (map us_id us) \<and> distinct (map us_handle us) \<and> email_unique lower us \<and>
     (\<forall>u \<in> set us. kindRule u)"

text \<open>What of a row identifies the account: nothing writes it but \<open>SetEmail\<close>, and that only once.\<close>

definition identity :: "UserT \<Rightarrow> uuid \<times> string \<times> string \<times> string option" where
  "identity u = (us_id u, us_handle u, us_kind u, us_email u)"

lemma holdsEmail_iff: "holdsEmail lower e u \<longleftrightarrow> (\<exists>f. us_email u = Some f \<and> lower f = lower e)"
  by (simp add: holdsEmail_def split: option.split)

lemma holdsEmail_identity: "identity u = identity v \<Longrightarrow> holdsEmail lower e u = holdsEmail lower e v"
  by (simp add: identity_def holdsEmail_def)

lemma email_unique_identity:
  assumes "email_unique lower us" "identity ` set us' \<subseteq> identity ` set us"
  shows "email_unique lower us'"
  unfolding email_unique_def
proof (intro ballI allI impI)
  fix u v e assume u: "u \<in> set us'" "v \<in> set us'" "us_email u = Some e \<and> holdsEmail lower e v"
  then obtain u0 v0 where z: "u0 \<in> set us" "identity u = identity u0" "v0 \<in> set us" "identity v = identity v0"
    using assms(2) by blast
  then have "us_email u0 = Some e" "holdsEmail lower e v0" using u(3) holdsEmail_identity [OF z(4)] by (auto simp: identity_def)
  then have "us_id u0 = us_id v0" using assms(1) z(1,3) unfolding email_unique_def by blast
  then show "us_id u = us_id v" using z(2,4) by (simp add: identity_def)
qed

lemma kindRule_identity: "identity u = identity v \<Longrightarrow> kindRule u = kindRule v"
  by (simp add: identity_def kindRule_def)

lemma identity_in: "map identity us' = map identity us \<Longrightarrow> u \<in> set us \<Longrightarrow> \<exists>v \<in> set us'. identity v = identity u"
proof -
  assume "map identity us' = map identity us" "u \<in> set us"
  then have "identity u \<in> identity ` set us'" by (metis image_eqI list.set_map)
  then show ?thesis by force
qed

lemma accounts_inv_identity:
  assumes "map identity us' = map identity us"
  shows "accounts_inv lower us' = accounts_inv lower us"
proof -
  have ids: "map us_id us' = map us_id us"
    using arg_cong [OF assms, of "map fst"] by (simp add: comp_def identity_def)
  have handles: "map us_handle us' = map us_handle us"
    using arg_cong [OF assms, of "map (fst \<circ> snd)"] by (simp add: comp_def identity_def)
  have s: "identity ` set us' = identity ` set us" using arg_cong [OF assms, of set] by simp
  have "email_unique lower us' = email_unique lower us" using email_unique_identity s by blast
  moreover have "(\<forall>u \<in> set us'. kindRule u) \<longleftrightarrow> (\<forall>u \<in> set us. kindRule u)"
    using identity_in [OF assms] identity_in [OF assms [symmetric]] kindRule_identity by blast
  ultimately show ?thesis unfolding accounts_inv_def ids handles by simp
qed

lemma insertUser_Inr:
  assumes "insertUser lower row db = Inr db'"
  shows "db' = db\<lparr>db_users := db_users db @ [row]\<rparr>" "us_id row \<notin> us_id ` set (db_users db)"
    "us_handle row \<notin> us_handle ` set (db_users db)"
    "\<And>e u. us_email row = Some e \<Longrightarrow> u \<in> set (db_users db) \<Longrightarrow> \<not> holdsEmail lower e u"
  using assms by (auto simp: insertUser_def list_ex_iff split: if_splits option.splits)

lemma insertUser_inv:
  assumes "insertUser lower row db = Inr db'" "accounts_inv lower (db_users db)"
    and "kindRule row"
  shows "accounts_inv lower (db_users db')"
proof -
  note i = insertUser_Inr [OF assms(1)]
  have "email_unique lower (db_users db @ [row])"
    unfolding email_unique_def
  proof (intro ballI allI impI)
    fix u v e assume u: "u \<in> set (db_users db @ [row])" "v \<in> set (db_users db @ [row])" "us_email u = Some e \<and> holdsEmail lower e v"
    have old: "us_id u = us_id v" if "u \<in> set (db_users db)" "v \<in> set (db_users db)"
      using assms(2) that u(3) unfolding accounts_inv_def email_unique_def by blast
    have new: "\<not> (\<exists>f. us_email row = Some f \<and> us_email x = Some g \<and> lower g = lower f)" if "x \<in> set (db_users db)" for x g
      using i(4) that by (auto simp: holdsEmail_iff)
    from u obtain f where "us_email v = Some f" "lower f = lower e" by (auto simp: holdsEmail_iff)
    then show "us_id u = us_id v" using u old new [of u e] new [of v f] by auto
  qed
  then show ?thesis using assms(2,3) i(1-3) by (auto simp: accounts_inv_def)
qed

section \<open>Accounts as a state machine\<close>

text \<open>
  \<open>other\<close> is every operation that leaves the identity of the accounts alone: the offboard writes
  \<open>deactivated_at\<close>, a bump the marker, everything else no account at all.
\<close>

inductive account_step :: "(string \<Rightarrow> string) \<Rightarrow> 'h DB \<Rightarrow> 'h DB \<Rightarrow> bool" for lower where
  ensure: "am_db a = db \<Longrightarrow> account_step lower db (fst (ensurePersonOnce low lower hash a email name))"
| setEmail: "account_step lower db (fst (SetEmail low lower dbl db handle email))"
| createBot: "account_step lower db (fst (CreateBot lower dbnow i db handle name))"
| offboard: "account_step lower db (fst (DeactivateUser dbnow batch db0 db user))"
| other: "map identity (db_users db') = map identity (db_users db) \<Longrightarrow> account_step lower db db'"

definition account_reach :: "(string \<Rightarrow> string) \<Rightarrow> 'h DB \<Rightarrow> bool" where
  "account_reach lower db \<longleftrightarrow> (account_step lower)\<^sup>*\<^sup>* emptyDB db"

text \<open>What ensuring a person does to the accounts: a row is added, or the identities stay.\<close>

lemma identity_update_where:
  "(\<And>r. identity (f r) = identity r) \<Longrightarrow> map identity (update_where P f us) = map identity us"
  by (rule map_update_where)

lemma ensureFound_identity:
  assumes "lockedSelect P (am_look a) (am_db a) = Some u"
  shows "map identity (db_users (fst (ensureFound hash a rooms u))) = map identity (db_users (am_db a))"
  using assms
proof (cases rule: ensureFound_cases [where hash = hash and rooms = rooms])
  case (existing db' t)
  then show ?thesis using issueEnrollmentTokenTx_frame(4) [OF existing(2)] by simp
next
  case (reactivated db1 revoked db2 t db' v)
  then show ?thesis
    using issueEnrollmentTokenTx_frame(4) [OF reactivated(3)] reactivateTx_frame(4) [OF reactivated(2)]
      applyBump_Inr(9) [OF reactivated(4)] by (simp add: identity_update_where identity_def)
qed simp

lemma ensurePersonOnce_accounts:
  obtains (kept) "map identity (db_users (fst (ensurePersonOnce low lower hash a email name))) = map identity (db_users (am_db a))"
  | (added) row db1 where "insertUser lower row (am_db a) = Inr db1" "us_email row = Some email" "us_kind row = ''person''"
      "db_users (fst (ensurePersonOnce low lower hash a email name)) = db_users db1"
proof (cases rule: ensurePersonOnce_cases [of low lower hash a email name])
  case (found rooms u db' r)
  then show thesis using kept ensureFound_identity [OF found(1), of hash rooms] by simp
next
  case absent
  show thesis
  proof (cases rule: ensureCreate_cases [of low lower hash a email name])
    case (created chosen nt row db1 db' t)
    then show thesis using added [of row db1] absent issueEnrollmentTokenTx_frame(4) [OF created(5)] by simp
  qed (use kept absent in simp)
qed (use kept in simp)

text \<open>The write of \<open>SetEmail\<close>: the one row it locked, which had no email.\<close>

lemma lockedSelect_Some:
  "lockedSelect P dbl db = Some u \<Longrightarrow> u \<in> set (db_users db) \<and> P u"
  by (auto simp: lockedSelect_def split: option.splits dest: find_SomeD)

lemma SetEmail_cases:
  obtains (refused) e where "SetEmail low lower dbl db handle email = (db, Inl e)"
  | (set) u e where "u \<in> set (db_users db)" "us_handle u = trimHandle handle" "us_kind u \<noteq> ''bot''" "us_email u = None"
      "normalizeEmail low email = Inr e"
      "\<And>v. v \<in> set (db_users db) \<Longrightarrow> us_id v \<noteq> us_id u \<Longrightarrow> \<not> holdsEmail lower e v"
      "SetEmail low lower dbl db handle email = (db\<lparr>db_users := update_where (\<lambda>v. us_id v = us_id u)
         (\<lambda>v. v\<lparr>us_email := Some e\<rparr>) (db_users db)\<rparr>, Inr (us_id u))"
proof (cases "snd (SetEmail low lower dbl db handle email)")
  case (Inl e)
  then show thesis using refused by (auto simp: SetEmail_def Let_def split: sum.splits option.splits if_splits)
next
  case (Inr i)
  then obtain e u where "normalizeEmail low email = Inr e" "lockedSelect (\<lambda>u. us_handle u = trimHandle handle) dbl db = Some u"
    "us_kind u \<noteq> ''bot''" "us_email u = None"
    "\<not> list_ex (\<lambda>v. us_id v \<noteq> us_id u \<and> holdsEmail lower e v) (db_users db)" "trimHandle handle \<noteq> ''''"
    by (auto simp: SetEmail_def Let_def split: sum.splits option.splits if_splits)
  moreover from this have "SetEmail low lower dbl db handle email = (db\<lparr>db_users := update_where (\<lambda>v. us_id v = us_id u)
         (\<lambda>v. v\<lparr>us_email := Some e\<rparr>) (db_users db)\<rparr>, Inr (us_id u))" by (simp add: SetEmail_def Let_def)
  ultimately show thesis using lockedSelect_Some [of "\<lambda>u. us_handle u = trimHandle handle" dbl db u]
    by (intro set [of u e]) (auto simp: list_ex_iff)
qed

lemma SetEmail_inv:
  assumes "accounts_inv lower (db_users db)"
  shows "accounts_inv lower (db_users (fst (SetEmail low lower dbl db handle email)))"
proof (cases rule: SetEmail_cases [of low lower dbl db handle email])
  case (set u e)
  let ?us = "update_where (\<lambda>v. us_id v = us_id u) (\<lambda>v. v\<lparr>us_email := Some e\<rparr>) (db_users db)"
  have uniq: "v = u" if "v \<in> set (db_users db)" "us_id v = us_id u" for v
    using assms set(1) that by (auto simp: accounts_inv_def distinct_map dest: inj_onD)
  have free: "\<not> holdsEmail lower e v" if "v \<in> set (db_users db)" for v
    using set(4,6) that uniq [OF that] by (cases "us_id v = us_id u") (auto simp: holdsEmail_def [of lower e u])
  then have free': "us_email v = Some f \<Longrightarrow> lower f \<noteq> lower e" if "v \<in> set (db_users db)" for v f
    using that by (fastforce simp: holdsEmail_iff)
  have old: "email_unique lower (db_users db)" using assms by (simp add: accounts_inv_def)
  have "email_unique lower ?us"
    unfolding email_unique_def
  proof (intro ballI allI impI)
    fix x y f assume x: "x \<in> set ?us" and y: "y \<in> set ?us" and h: "us_email x = Some f \<and> holdsEmail lower f y"
    from x obtain x0 where x0: "x0 \<in> set (db_users db)" "x = (if us_id x0 = us_id u then x0\<lparr>us_email := Some e\<rparr> else x0)"
      by (auto dest: update_where_D)
    from y obtain y0 where y0: "y0 \<in> set (db_users db)" "y = (if us_id y0 = us_id u then y0\<lparr>us_email := Some e\<rparr> else y0)"
      by (auto dest: update_where_D)
    from h obtain g where g: "us_email y = Some g" "lower g = lower f" by (auto simp: holdsEmail_iff)
    have "us_id x0 = us_id y0" if "us_id x0 \<noteq> us_id u" "us_id y0 \<noteq> us_id u"
      using old x0 y0 h that unfolding email_unique_def by (metis (full_types))
    then show "us_id x = us_id y"
      using x0 y0 h g free' [OF x0(1), of f] free' [OF y0(1), of g] by (auto split: if_splits)
  qed
  moreover have "kindRule v" if v: "v \<in> set ?us" for v
  proof -
    have old: "kindRule x" if "x \<in> set (db_users db)" for x using assms that by (simp add: accounts_inv_def)
    obtain x where x: "x \<in> set (db_users db)" "v = (if us_id x = us_id u then x\<lparr>us_email := Some e\<rparr> else x)"
      using update_where_D [OF v] by blast
    show ?thesis using x old [OF x(1)] uniq [OF x(1)] set(3) by (cases "us_id x = us_id u") (auto simp: kindRule_def)
  qed
  ultimately show ?thesis using assms set(7) by (simp add: accounts_inv_def map_update_where)
qed (use assms in simp)

lemma CreateBot_cases:
  obtains (refused) e where "CreateBot lower dbnow i db handle name = (db, Inl e)"
  | (created) row db' where "insertUser lower row db = Inr db'" "CreateBot lower dbnow i db handle name = (db', Inr i)"
      "us_id row = i" "us_handle row = trimHandle handle" "us_kind row = ''bot''" "us_email row = None"
proof (cases "snd (CreateBot lower dbnow i db handle name)")
  case (Inl e)
  then show thesis using refused by (auto simp: CreateBot_def Let_def split: if_splits sum.splits)
next
  case (Inr j)
  let ?row = "\<lparr>us_id = i, us_handle = trimHandle handle,
    us_display_name = (if TrimSpace name = '''' then trimHandle handle else TrimSpace name), us_kind = ''bot'',
    us_email = None, us_created_at = dbnow, us_deactivated_at = None, us_metadata_log_seq = 0\<rparr>"
  from Inr obtain db' where "insertUser lower ?row db = Inr db'" "CreateBot lower dbnow i db handle name = (db', Inr i)"
    by (cases "insertUser lower ?row db") (auto simp: CreateBot_def Let_def split: if_splits)
  then show thesis by (rule created) simp_all
qed

lemma DeactivateUser_identity:
  "map identity (db_users (fst (DeactivateUser t batch db0 db user))) = map identity (db_users db)"
proof (cases rule: DeactivateUser_cases [of t batch db0 db user])
  case (offboarded db' out rooms dbm)
  then show ?thesis using applyBump_Inr(9) [OF offboarded(4)] by (simp add: identity_update_where identity_def)
qed simp_all

lemma account_step_inv:
  assumes "account_step lower db db'" "accounts_inv lower (db_users db)"
  shows "accounts_inv lower (db_users db')"
  using assms(1)
proof cases
  case (ensure a low hash email name)
  show ?thesis
  proof (cases rule: ensurePersonOnce_accounts [of low lower hash a email name])
    case kept
    then show ?thesis using ensure assms(2) by (simp add: accounts_inv_identity [OF kept])
  next
    case (added row db1)
    then show ?thesis using ensure insertUser_inv [OF added(1)] assms(2) by (simp add: kindRule_def)
  qed
next
  case (setEmail low dbl handle email)
  then show ?thesis using SetEmail_inv [OF assms(2)] by simp
next
  case (createBot dbnow i handle name)
  then show ?thesis using assms(2)
    by (cases rule: CreateBot_cases [of lower dbnow i db handle name]) (auto simp: kindRule_def dest: insertUser_inv)
next
  case (offboard dbnow batch db0 user)
  then show ?thesis
    using accounts_inv_identity [OF DeactivateUser_identity [of dbnow batch db0 db user]] assms(2) by simp
next
  case other
  then show ?thesis using accounts_inv_identity assms(2) by blast
qed

lemma account_steps_inv:
  "(account_step lower)\<^sup>*\<^sup>* db db' \<Longrightarrow> accounts_inv lower (db_users db) \<Longrightarrow> accounts_inv lower (db_users db')"
  by (induction rule: rtranclp_induct) (auto intro: account_step_inv)

lemma account_reach_inv: "account_reach lower db \<Longrightarrow> accounts_inv lower (db_users db)"
  unfolding account_reach_def
  by (erule account_steps_inv) (simp add: emptyDB_def accounts_inv_def email_unique_def)

text \<open>An account that has an email keeps its id, its handle, its kind and its email.\<close>

lemma account_step_keeps:
  assumes "account_step lower db db'" "accounts_inv lower (db_users db)" "u \<in> set (db_users db)" "us_email u \<noteq> None"
  shows "\<exists>v \<in> set (db_users db'). identity v = identity u"
proof -
  have same: ?thesis if "map identity (db_users db') = map identity (db_users db)"
    using identity_in [OF that assms(3)] .
  have grown: ?thesis if "insertUser lower row db = Inr db1" "db_users db' = db_users db1" for row db1
    using insertUser_Inr(1) [OF that(1)] that(2) assms(3) by auto
  from assms(1) show ?thesis
  proof cases
    case (ensure a low hash email name)
    show ?thesis
    proof (cases rule: ensurePersonOnce_accounts [of low lower hash a email name])
      case kept
      show ?thesis by (rule same) (use kept ensure in simp)
    next
      case (added row db1)
      show ?thesis by (rule grown [of row db1]) (use added ensure in simp_all)
    qed
  next
    case (setEmail low dbl handle email)
    show ?thesis
    proof (cases rule: SetEmail_cases [of low lower dbl db handle email])
      case (set w e)
      then have "us_id u \<noteq> us_id w" using assms(2-4) by (auto simp: accounts_inv_def distinct_map dest: inj_onD)
      then show ?thesis using set(7) setEmail assms(3) update_where_I [of u "db_users db" "\<lambda>v. us_id v = us_id w"] by auto
    qed (use setEmail assms(3) in auto)
  next
    case (createBot dbnow i handle name)
    show ?thesis
    proof (cases rule: CreateBot_cases [of lower dbnow i db handle name])
      case (refused e)
      show ?thesis by (rule same) (use refused createBot in simp)
    next
      case (created row db1)
      show ?thesis by (rule grown [of row db1]) (use created createBot in simp_all)
    qed
  next
    case (offboard dbnow batch db0 user)
    show ?thesis by (rule same) (use offboard DeactivateUser_identity [of dbnow batch db0 db user] in simp)
  next
    case other
    then show ?thesis by (rule same)
  qed
qed

lemma account_steps_keep:
  assumes "(account_step lower)\<^sup>*\<^sup>* db db'" "accounts_inv lower (db_users db)" "u \<in> set (db_users db)" "us_email u \<noteq> None"
  shows "\<exists>v \<in> set (db_users db'). identity v = identity u"
  using assms(1)
proof (induction rule: rtranclp_induct)
  case base
  then show ?case using assms(3) by blast
next
  case (step y z)
  then obtain v where v: "v \<in> set (db_users y)" "identity v = identity u" by blast
  then have "us_email v \<noteq> None" using assms(4) by (simp add: identity_def)
  from account_step_keeps [OF step(2) account_steps_inv [OF step(1) assms(2)] v(1) this] v(2) show ?case by simp
qed

section \<open>One account per email\<close>

lemma holder_unique:
  assumes "accounts_inv lower us" "u \<in> set us" "v \<in> set us" "holdsEmail lower e u" "holdsEmail lower e v"
  shows "u = v"
proof -
  obtain f where f: "us_email u = Some f" "lower f = lower e" using assms(4) by (auto simp: holdsEmail_iff)
  then have "holdsEmail lower f v" using assms(5) by (auto simp: holdsEmail_iff)
  then have "us_id u = us_id v" using assms(1-3) f(1) unfolding accounts_inv_def email_unique_def by blast
  then show ?thesis using assms(1-3) by (auto simp: accounts_inv_def distinct_map dest: inj_onD)
qed

text \<open>The account an attempt answers with: the only holder of the email, active, in the database it leaves.\<close>

definition servedAccount :: "(string \<Rightarrow> string) \<Rightarrow> 'h DB \<Rightarrow> string \<Rightarrow> PersonAccount \<Rightarrow> bool" where
  "servedAccount lower db email p \<longleftrightarrow> (\<exists>u. {v \<in> set (db_users db). holdsEmail lower email v} = {u} \<and>
     us_id u = pa_UserID p \<and> us_handle u = pa_Handle p \<and> us_display_name u = pa_DisplayName p \<and>
     us_email u = Some (pa_Email p) \<and> us_kind u = ''person'' \<and> us_deactivated_at u = None)"

lemma servedAccountI:
  assumes "accounts_inv lower (db_users db)" "u \<in> set (db_users db)" "holdsEmail lower email u" "us_kind u = ''person''"
    "us_deactivated_at u = None" "p = accountOf u PersonStatusActive"
  shows "servedAccount lower db email p"
proof -
  have "{v \<in> set (db_users db). holdsEmail lower email v} = {u}" using assms(1-3) holder_unique by blast
  moreover have "us_email u \<noteq> None" using assms(3) by (auto simp: holdsEmail_iff)
  ultimately show ?thesis unfolding servedAccount_def assms(6) using assms(4,5) by (auto simp: accountOf_def)
qed

lemma ensurePersonOnce_serves:
  assumes "accounts_inv lower (db_users (am_db a))" "ensurePersonOnce low lower hash a email name = (db', Inr ep, retry)"
  shows "\<not> retry" "servedAccount lower db' email (ep_Account ep)"
    "ep_Outcome ep = PersonCreated \<longleftrightarrow> \<not> (\<exists>v \<in> set (db_users (am_db a)). holdsEmail lower email v)"
proof -
  have inv': "accounts_inv lower (db_users db')"
    using account_step_inv [OF account_step.ensure [of a "am_db a" lower low hash email name] assms(1)] assms(2) by simp
  have "\<not> retry \<and> servedAccount lower db' email (ep_Account ep) \<and>
    (ep_Outcome ep = PersonCreated \<longleftrightarrow> \<not> (\<exists>v \<in> set (db_users (am_db a)). holdsEmail lower email v))"
  proof (cases rule: ensurePersonOnce_cases [of low lower hash a email name])
    case (found rooms u db'' r)
    then have eq: "db'' = db'" "r = Inr ep" "retry = False" using assms(2) by auto
    have u: "u \<in> set (db_users (am_db a))" "holdsEmail lower email u" "us_kind u = ''person''"
      using lockedSelect_Some [OF found(1)] by (auto simp: isPerson_def)
    from found(1) show ?thesis
    proof (cases rule: ensureFound_cases [where hash = hash and rooms = rooms])
      case (existing db2 t)
      then have "u \<in> set (db_users db')" "ep_Account ep = accountOf u PersonStatusActive" "ep_Outcome ep = PersonExisting"
        using found(3) eq u(1) issueEnrollmentTokenTx_frame(4) [OF existing(2)] by auto
      then show ?thesis using u existing(1) eq servedAccountI [OF inv'] by auto
    next
      case (reactivated db1 revoked db2 t db3 v)
      let ?u = "u\<lparr>us_deactivated_at := None, us_metadata_log_seq := v\<rparr>"
      have "u\<lparr>us_deactivated_at := None\<rparr> \<in> set (db_users db2)"
        using issueEnrollmentTokenTx_frame(4) [OF reactivated(3)] reactivateTx_frame(4) [OF reactivated(2)] u(1) reactivated(1)
          update_where_I [of u "db_users (am_db a)" "reactivatable (us_id u)" "\<lambda>u. u\<lparr>us_deactivated_at := None\<rparr>"]
        by (auto simp: reactivatable_def)
      from update_where_I [OF this, of "\<lambda>x. us_id x \<in> set [us_id u]" "\<lambda>x. x\<lparr>us_metadata_log_seq := v\<rparr>"]
      have "?u \<in> set (db_users db')" using applyBump_Inr(9) [OF reactivated(4)] reactivated(5) found(3) eq by simp
      moreover have "ep_Account ep = accountOf ?u PersonStatusActive" "ep_Outcome ep = PersonReactivated"
        using reactivated(5) found(3) eq by (auto simp: accountOf_def)
      moreover have "holdsEmail lower email ?u" using u(2) by (simp add: holdsEmail_def)
      ultimately show ?thesis using u eq servedAccountI [OF inv', of ?u email] by auto
    qed (use found eq in auto)
  next
    case absent
    show ?thesis
    proof (cases rule: ensureCreate_cases [of low lower hash a email name])
      case (created chosen nt row db1 db2 t)
      then have eq: "db2 = db'" "retry = False" "ep_Account ep = accountOf row PersonStatusActive" "ep_Outcome ep = PersonCreated"
        using absent assms(2) by auto
      have "row \<in> set (db_users db')" using issueEnrollmentTokenTx_frame(4) [OF created(5)] created(4) eq(1) by simp
      then have "servedAccount lower db' email (ep_Account ep)"
        using created(2) eq(3) by (intro servedAccountI [OF inv']) (auto simp: holdsEmail_def)
      moreover have "\<not> holdsEmail lower email v" if "v \<in> set (db_users (am_db a))" for v
        using insertUser_Inr(4) [OF created(3) _ that] created(2) by simp
      ultimately show ?thesis using eq by auto
    qed (use absent assms(2) in auto)
  qed (use assms(2) in auto)
  then show "\<not> retry" "servedAccount lower db' email (ep_Account ep)"
    "ep_Outcome ep = PersonCreated \<longleftrightarrow> \<not> (\<exists>v \<in> set (db_users (am_db a)). holdsEmail lower email v)" by blast+
qed

lemma servedAccount_later:
  assumes "servedAccount lower db email p" "accounts_inv lower (db_users db)" "(account_step lower)\<^sup>*\<^sup>* db db'"
  shows "\<exists>v \<in> set (db_users db'). holdsEmail lower email v \<and> us_id v = pa_UserID p \<and> us_handle v = pa_Handle p \<and>
    us_kind v = ''person''"
proof -
  obtain u where u: "u \<in> set (db_users db)" "holdsEmail lower email u" "us_id u = pa_UserID p" "us_handle u = pa_Handle p"
    "us_kind u = ''person''" "us_email u = Some (pa_Email p)"
    using assms(1) unfolding servedAccount_def by blast
  from account_steps_keep [OF assms(3,2) u(1)] u(6) obtain v where v: "v \<in> set (db_users db')" "identity v = identity u" by auto
  moreover have "holdsEmail lower email v" using u(2) holdsEmail_identity [OF v(2)] by simp
  ultimately show ?thesis using u by (auto simp: identity_def)
qed

text \<open>What an email collision proves, and when the locked row decides the attempt.\<close>

lemma lost_race_holder:
  assumes "ensurePersonOnce low lower hash a email name = (db', Inl (PersonStore e), True)" "isEmailCollision e"
  shows "\<exists>u \<in> set (db_users (am_db a)). holdsEmail lower email u"
proof -
  have c: "ensureCreate low lower hash a email name = (db', Inl (PersonStore e), True)"
    using assms(1) by (auto simp: ensurePersonOnce_def Let_def split: prod.splits sum.splits option.splits if_splits)
  obtain chosen nt where ch: "chooseHandle lower (am_handles a) (deriveHandle low email) = Inr (chosen, nt)"
    using c by (auto simp: ensureCreate_def Let_def split: sum.splits)
  define row where "row = \<lparr>us_id = am_newID a, us_handle = chosen, us_display_name = (if name = '''' then chosen else name),
         us_kind = ''person'', us_email = Some email, us_created_at = am_dbnow a, us_deactivated_at = None,
         us_metadata_log_seq = 0\<rparr>"
  have "insertUser lower row (am_db a) = Inl e"
    using c ch by (auto simp: ensureCreate_def Let_def row_def split: sum.splits)
  then show ?thesis
    using assms(2) by (auto simp: insertUser_def row_def isEmailCollision_def usersEmailLowerIndexConstraint_def
        usersHandleKeyConstraint_def usersBotHasNoEmailConstraint_def list_ex_iff split: if_splits)
qed

lemma lockedSelect_only:
  assumes "accounts_inv lower (db_users dbl)" "accounts_inv lower (db_users db)"
    and "v \<in> set (db_users dbl)" "w \<in> set (db_users db)" "us_id w = us_id v"
    and "isPerson lower email v" "isPerson lower email w"
  shows "lockedSelect (isPerson lower email) dbl db = Some w"
proof -
  have "find (isPerson lower email) (db_users dbl) = Some v"
  proof (cases "find (isPerson lower email) (db_users dbl)")
    case None
    then show ?thesis using assms(3,6) by (auto simp: find_None_iff)
  next
    case (Some x)
    then have "x \<in> set (db_users dbl)" "isPerson lower email x" by (auto dest: find_SomeD)
    then have "x = v" using holder_unique [OF assms(1) _ assms(3)] assms(6) by (auto simp: isPerson_def)
    then show ?thesis using Some by simp
  qed
  moreover have "find (\<lambda>x. us_id x = us_id v \<and> isPerson lower email x) (db_users db) = Some w"
  proof (cases "find (\<lambda>x. us_id x = us_id v \<and> isPerson lower email x) (db_users db)")
    case None
    then show ?thesis using assms(4,5,7) by (auto simp: find_None_iff)
  next
    case (Some x)
    then have "x \<in> set (db_users db)" "isPerson lower email x" by (auto dest: find_SomeD)
    then have "x = w" using holder_unique [OF assms(2) _ assms(4)] assms(7) by (auto simp: isPerson_def)
    then show ?thesis using Some by simp
  qed
  ultimately show ?thesis by (simp add: lockedSelect_def)
qed

lemma ensurePersonOnce_locked:
  assumes "lockedSelect (isPerson lower email) (am_look a) (am_db a) = Some u"
    and "us_deactivated_at u \<noteq> None \<Longrightarrow> peekForReversal lower (am_peek a) email = (us_id u, True)"
  shows "snd (snd (ensurePersonOnce low lower hash a email name)) = False"
  using assms by (cases "us_deactivated_at u = None") (auto simp: ensurePersonOnce_def Let_def split: prod.splits sum.splits)

text \<open>
  C24. No two accounts share an id, a handle or an email up to case, and no service account has an
  email, in every database the operations on accounts can reach.
\<close>

theorem reachable_accounts:
  assumes "account_reach lower db"
  shows "distinct (map us_id (db_users db)) \<and> distinct (map us_handle (db_users db)) \<and>
    (\<forall>u \<in> set (db_users db). \<forall>v \<in> set (db_users db). \<forall>e f.
       us_email u = Some e \<longrightarrow> us_email v = Some f \<longrightarrow> lower e = lower f \<longrightarrow> u = v) \<and>
    (\<forall>u \<in> set (db_users db). us_kind u = ''bot'' \<longrightarrow> us_email u = None)"
proof -
  note i = account_reach_inv [OF assms]
  have "u = v" if "u \<in> set (db_users db)" "v \<in> set (db_users db)" "us_email u = Some e" "us_email v = Some f" "lower e = lower f"
    for u v e f
    by (rule holder_unique [OF i that(1,2), of e]) (use that in \<open>simp_all add: holdsEmail_def\<close>)
  moreover have "us_email u = None" if "u \<in> set (db_users db)" "us_kind u = ''bot''" for u
    using i that by (auto simp: accounts_inv_def kindRule_def)
  ultimately show ?thesis using i unfolding accounts_inv_def by blast
qed

text \<open>
  C21. An email names one account for good. An attempt of \<open>EnsurePerson\<close> that succeeds answers with
  the only account that holds the email, active, a person, as the database then has it; it created
  the account exactly when nobody held the email; and every later success for the email, in any
  spelling and after anything else happened, answers with the same id and the same handle and
  creates nothing.
\<close>

theorem ensure_person_once:
  assumes "account_reach lower (am_db a)" "ensurePersonOnce low lower hash a email name = (db', Inr ep, retry)"
  shows "\<not> retry \<and> servedAccount lower db' email (ep_Account ep) \<and>
    (ep_Outcome ep = PersonCreated \<longleftrightarrow> \<not> (\<exists>v \<in> set (db_users (am_db a)). holdsEmail lower email v)) \<and>
    (\<forall>a2 low2 hash2 email2 name2 db2 ep2 retry2.
       (account_step lower)\<^sup>*\<^sup>* db' (am_db a2) \<longrightarrow> lower email2 = lower email \<longrightarrow>
       ensurePersonOnce low2 lower hash2 a2 email2 name2 = (db2, Inr ep2, retry2) \<longrightarrow>
       pa_UserID (ep_Account ep2) = pa_UserID (ep_Account ep) \<and> pa_Handle (ep_Account ep2) = pa_Handle (ep_Account ep) \<and>
       ep_Outcome ep2 \<noteq> PersonCreated)"
proof -
  note i = account_reach_inv [OF assms(1)]
  note s = ensurePersonOnce_serves [OF i assms(2)]
  have i': "accounts_inv lower (db_users db')"
    using account_step_inv [OF account_step.ensure [of a "am_db a" lower low hash email name] i] assms(2) by simp
  have again: "pa_UserID (ep_Account ep2) = pa_UserID (ep_Account ep) \<and> pa_Handle (ep_Account ep2) = pa_Handle (ep_Account ep) \<and>
       ep_Outcome ep2 \<noteq> PersonCreated"
    if h: "(account_step lower)\<^sup>*\<^sup>* db' (am_db a2)" "lower email2 = lower email"
      "ensurePersonOnce low2 lower hash2 a2 email2 name2 = (db2, Inr ep2, retry2)" for a2 low2 hash2 email2 name2 db2 ep2 retry2
  proof -
    have fold: "holdsEmail lower email2 = holdsEmail lower email" using h(2) by (simp add: holdsEmail_iff fun_eq_iff)
    note i2 = account_steps_inv [OF h(1) i']
    note s2 = ensurePersonOnce_serves [OF i2 h(3), unfolded fold]
    have step: "(account_step lower)\<^sup>*\<^sup>* db' db2"
      using h(1) account_step.ensure [of a2 "am_db a2" lower low2 hash2 email2 name2] h(3) by (simp add: rtranclp.rtrancl_into_rtrancl)
    obtain v where v: "v \<in> set (db_users db2)" "holdsEmail lower email v" "us_id v = pa_UserID (ep_Account ep)"
      "us_handle v = pa_Handle (ep_Account ep)" using servedAccount_later [OF s(2) i' step] by blast
    obtain w where "w \<in> set (db_users (am_db a2))" "holdsEmail lower email w" using servedAccount_later [OF s(2) i' h(1)] by blast
    moreover obtain u where u: "{v \<in> set (db_users db2). holdsEmail lower email v} = {u}" "us_id u = pa_UserID (ep_Account ep2)"
      "us_handle u = pa_Handle (ep_Account ep2)" using s2(2) unfolding servedAccount_def fold by blast
    moreover have "v = u" using u(1) v(1,2) by blast
    ultimately show ?thesis using s2(3) v by auto
  qed
  show ?thesis using s again by blast
qed

text \<open>
  An attempt that lost to a concurrent create of the same email is resolved by the next one. Whether
  it was the index on the email that refused the insert or the one on the handle, with the email
  taken: when the next attempt reads that database or a later one, and its peek saw an offboard of the
  account if there is one, \<open>EnsurePerson\<close> returns its result, and that is the account that won.
\<close>

theorem lost_race_resolves:
  assumes "normalizeEmail low raw = Inr email" "account_reach lower (am_db (attempts 0))"
    and "ensurePersonOnce low lower hash (attempts 0) email (TrimSpace name) = (db1, Inl (PersonStore e), True)"
    and "isEmailCollision e \<or> (\<exists>u \<in> set (db_users (am_db (attempts 0))). holdsEmail lower email u)"
    and "(account_step lower)\<^sup>*\<^sup>* (am_db (attempts 0)) (am_look (attempts 1))"
    and "(account_step lower)\<^sup>*\<^sup>* (am_look (attempts 1)) (am_db (attempts 1))"
    and "\<forall>u \<in> set (db_users (am_db (attempts 1))). holdsEmail lower email u \<and> us_deactivated_at u \<noteq> None \<longrightarrow>
      peekForReversal lower (am_peek (attempts 1)) email = (us_id u, True)"
  shows "\<exists>db2 r. EnsurePerson low lower hash attempts raw name = (Some db2, r) \<and>
    ensurePersonOnce low lower hash (attempts 1) email (TrimSpace name) = (db2, r, False) \<and>
    (\<forall>ep. r = Inr ep \<longrightarrow> ep_Outcome ep \<noteq> PersonCreated \<and>
       (\<exists>u \<in> set (db_users (am_db (attempts 0))). holdsEmail lower email u \<and> us_id u = pa_UserID (ep_Account ep)))"
proof -
  let ?a = "attempts 0" and ?b = "attempts 1"
  note i0 = account_reach_inv [OF assms(2)]
  obtain u where u: "u \<in> set (db_users (am_db ?a))" "holdsEmail lower email u"
    using lost_race_holder [OF assms(3)] assms(4) by blast
  have e: "us_email u \<noteq> None" using u(2) by (auto simp: holdsEmail_iff)
  then have person: "us_kind u = ''person''" using i0 u(1) by (auto simp: accounts_inv_def kindRule_def)
  note i1 = account_steps_inv [OF assms(5) i0] and i2 = account_steps_inv [OF assms(6) account_steps_inv [OF assms(5) i0]]
  obtain v where v: "v \<in> set (db_users (am_look ?b))" "identity v = identity u"
    using account_steps_keep [OF assms(5) i0 u(1) e] by blast
  obtain w where w: "w \<in> set (db_users (am_db ?b))" "identity w = identity v"
    using account_steps_keep [OF assms(6) i1 v(1)] e v(2) by (auto simp: identity_def)
  have P: "isPerson lower email x" if "identity x = identity u" for x
    using that u(2) person holdsEmail_identity [OF that] by (simp add: isPerson_def identity_def)
  have locked: "lockedSelect (isPerson lower email) (am_look ?b) (am_db ?b) = Some w"
    by (rule lockedSelect_only [OF i1 i2 v(1) w(1)]) (use v w P in \<open>auto simp: identity_def\<close>)
  have nr: "snd (snd (ensurePersonOnce low lower hash ?b email (TrimSpace name))) = False"
    using ensurePersonOnce_locked [OF locked] assms(7) w(1) P [of w] v(2) w(2) by (auto simp: isPerson_def)
  obtain db2 r where r: "ensurePersonOnce low lower hash ?b email (TrimSpace name) = (db2, r, False)"
    using nr by (metis prod.collapse)
  have "EnsurePerson low lower hash attempts raw name = (Some db2, r)"
    using assms(1,3) r by (simp add: EnsurePerson_def maxAttempts_def upt_rec)
  moreover have "ep_Outcome ep \<noteq> PersonCreated \<and> us_id u = pa_UserID (ep_Account ep)" if ep: "r = Inr ep" for ep
  proof -
    note s = ensurePersonOnce_serves [OF i2 r [unfolded ep]]
    have "holdsEmail lower email w" using P [of w] v(2) w(2) by (simp add: isPerson_def)
    then have no: "ep_Outcome ep \<noteq> PersonCreated" using s(3) w(1) by blast
    have inv: "accounts_inv lower (db_users db2)"
      using account_step_inv [OF account_step.ensure [of ?b "am_db ?b" lower low hash email "TrimSpace name"] i2] r by simp
    have "account_step lower (am_db ?b) db2"
      using account_step.ensure [of ?b "am_db ?b" lower low hash email "TrimSpace name"] r by simp
    from account_step_keeps [OF this i2 w(1)] obtain x where x: "x \<in> set (db_users db2)" "identity x = identity w"
      using e v(2) w(2) by (auto simp: identity_def)
    have "holdsEmail lower email x" using P [of x] x(2) w(2) v(2) by (simp add: isPerson_def)
    moreover obtain y where y: "{v \<in> set (db_users db2). holdsEmail lower email v} = {y}" "us_id y = pa_UserID (ep_Account ep)"
      using s(2) unfolding servedAccount_def by blast
    ultimately have "x = y" using x(1) by blast
    then show ?thesis using no x(2) w(2) v(2) y(2) by (auto simp: identity_def)
  qed
  ultimately show ?thesis using r u by blast
qed

section \<open>The handle a new account gets\<close>

text \<open>
  The note of a choice: it names the account that was not adopted, which is the holder of the
  bare stem when that is a person without an email.
\<close>

definition notAdopted :: "UserT option \<Rightarrow> string" where
  "notAdopted conflict =
     (case conflict of
        None \<Rightarrow> ''''
      | Some u \<Rightarrow> if us_kind u = ''person'' \<and> us_email u = None then us_handle u else '''')"

lemma chooseLoop_note:
  "chooseLoop lower dbs stem ns collided = Inr (h, nt) \<Longrightarrow> 1 \<notin> set ns \<Longrightarrow>
   nt = (if collided \<noteq> '''' then handleNote h collided else '''')"
  by (induction lower dbs stem ns collided rule: chooseLoop.induct) (auto simp: Let_def split: option.splits)

lemma chooseHandle_note:
  assumes "chooseHandle lower dbs stem = Inr (h, nt)"
  shows "nt = (let c = notAdopted (handleConflict lower (dbs 1) stem) in if c \<noteq> '''' then handleNote h c else '''')"
proof -
  have "1 < Suc maxCandidates" by (simp add: maxCandidates_def)
  from upt_conv_Cons [OF this] have "[1..<Suc maxCandidates] = 1 # [2..<Suc maxCandidates]" by (simp only: Suc_1)
  note l = assms [unfolded chooseHandle_def this chooseLoop.simps Let_def handleCandidate_def]
  show ?thesis
  proof (cases "handleConflict lower (dbs 1) stem")
    case None
    then show ?thesis using l by (simp add: notAdopted_def)
  next
    case (Some u)
    then have "chooseLoop lower dbs stem [2..<Suc maxCandidates] (notAdopted (Some u)) = Inr (h, nt)"
      using l by (simp add: notAdopted_def)
    from chooseLoop_note [OF this] Some show ?thesis by (simp add: Let_def)
  qed
qed

text \<open>
  C23. The handle of a created account. It has one to 32 characters of \<open>[a-z0-9._-]\<close>, neither the
  first nor the last of them punctuation; nobody has it in the database the account is committed to,
  and when it was asked for nobody, person or bot, had it in any case; it is the stem of the address
  or the stem with a number; no other account was touched, whoever holds the stem; the display name
  is what was given or the handle and never the address; and the note names an account without an
  email that the stem would have named.
\<close>

theorem assigned_handle:
  assumes "ensurePersonOnce low lower hash a email name = (db', Inr ep, retry)" "ep_Outcome ep = PersonCreated"
    and "h = pa_Handle (ep_Account ep)" "stem = deriveHandle low email"
  shows "handleShape h \<and> h \<notin> us_handle ` set (db_users (am_db a)) \<and>
    (\<exists>n \<in> {1..maxCandidates}. h = handleCandidate stem n \<and>
       (\<forall>u \<in> set (db_users (am_handles a n)). lower (us_handle u) \<noteq> lower h)) \<and>
    (\<exists>row. db_users db' = db_users (am_db a) @ [row] \<and> us_handle row = h \<and>
       us_display_name row = (if name = '''' then h else name)) \<and>
    ep_Note ep = (let c = notAdopted (handleConflict lower (am_handles a 1) stem) in if c \<noteq> '''' then handleNote h c else '''')"
proof (cases rule: ensurePersonOnce_cases [of low lower hash a email name])
  case (found rooms u db'' r)
  then show ?thesis using assms(1,2) by (cases rule: ensureFound_cases [where hash = hash and rooms = rooms]) auto
next
  case absent
  show ?thesis
  proof (cases rule: ensureCreate_cases [of low lower hash a email name])
    case (created chosen nt row db1 db2 t)
    then have eq: "db2 = db'" "h = chosen" "ep_Note ep = nt" using absent assms(1,3) by (auto simp: accountOf_def)
    obtain n where n: "n \<in> set [1..<Suc maxCandidates]" "h = handleCandidate stem n" "handleConflict lower (am_handles a n) h = None"
      using chooseLoop_Inr [OF created(1) [unfolded chooseHandle_def]] eq(2) assms(4) by blast
    then have "1 \<le> n" "n \<le> maxCandidates" "n < 10 ^ 4" by (auto simp: maxCandidates_def)
    then have "handleShape h" using handleCandidate_shape [OF deriveHandle_shape] n(2) assms(4) by simp
    moreover have "\<forall>u \<in> set (db_users (am_handles a n)). lower (us_handle u) \<noteq> lower h"
      using n(3) by (auto simp: handleConflict_def find_None_iff)
    moreover have "h \<notin> us_handle ` set (db_users (am_db a))" using insertUser_Inr(3) [OF created(3)] created(2) eq(2) by simp
    moreover have "db_users db' = db_users (am_db a) @ [row]"
      using issueEnrollmentTokenTx_frame(4) [OF created(5)] created(4) eq(1) by simp
    ultimately show ?thesis
      using n(2) \<open>1 \<le> n\<close> \<open>n \<le> maxCandidates\<close> created(2) eq(2,3) chooseHandle_note [OF created(1)] assms(4) by auto
  qed (use absent assms(1) in auto)
qed (use assms(1) in auto)

section \<open>Reversing an offboard\<close>

lemma issueEnrollmentTokenTx_live:
  assumes "issueEnrollmentTokenTx hash dbnow db i user now mint = Inr (db', t)"
  shows "{e \<in> set (db_enrollment_tokens db'). liveEnrollment user e} =
    {\<lparr>en_id = i, en_user_id = user, en_token_hash = hash (it_Plaintext t), en_expires_at = it_ExpiresAt t,
      en_redeemed_at = None, en_redeemed_by_device = None, en_superseded_at = None\<rparr>}"
  using assms
  by (auto simp: issueEnrollmentTokenTx_def Let_def liveEnrollment_def split: option.splits if_splits elim!: update_whereE)

lemma issueEnrollmentTokenTx_expires:
  "issueEnrollmentTokenTx hash dbnow db i user now mint = Inr (db', t) \<Longrightarrow> it_ExpiresAt t = now + EnrollmentTokenLifetime"
  by (auto simp: issueEnrollmentTokenTx_def Let_def split: option.splits if_splits)

text \<open>No credential issued before is alive: devices, refresh tokens, access tokens.\<close>

definition credentialsDead :: "'h DB \<Rightarrow> uuid \<Rightarrow> bool" where
  "credentialsDead db user \<longleftrightarrow>
     (\<forall>d \<in> set (db_devices db). dv_user_id d = user \<longrightarrow> dv_revoked_at d \<noteq> None) \<and>
     (\<forall>r \<in> set (db_refresh_tokens db). (\<exists>d \<in> set (db_devices db). dv_user_id d = user \<and> dv_id d = rt_device_id r) \<longrightarrow>
        rt_revoked_at r \<noteq> None) \<and>
     (\<forall>a \<in> set (db_access_tokens db). ac_user_id a = user \<longrightarrow> ac_revoked_at a \<noteq> None)"

lemma credentialsDead_frame:
  "db_devices db' = db_devices db \<Longrightarrow> db_refresh_tokens db' = db_refresh_tokens db \<Longrightarrow>
   db_access_tokens db' = db_access_tokens db \<Longrightarrow> credentialsDead db user \<Longrightarrow> credentialsDead db' user"
  by (simp add: credentialsDead_def)

lemma reactivateTx_kills:
  assumes "reactivateTx t user db = (db', revoked, True)" "distinct (map us_id (db_users db))"
  shows "credentialsDead db' user"
proof -
  obtain dbr where r: "revokeCredentialsTx t user db = (dbr, revoked)" "db_devices db' = db_devices dbr"
    "db_refresh_tokens db' = db_refresh_tokens dbr" "db_access_tokens db' = db_access_tokens dbr"
    using reactivateTx_frame(8) [OF assms(1)] by blast
  obtain u where u: "u \<in> set (db_users db)" "us_id u = user" "us_deactivated_at u \<noteq> None"
    using reactivateTx_frame(7) [OF assms(1)] by (auto simp: list_ex_iff reactivatable_def)
  have "v = u" if "v \<in> set (db_users db)" "us_id v = user" for v
    using that u assms(2) by (auto simp: distinct_map dest: inj_onD)
  then have "accessEnded dbr user" using u(3) by (intro revokeCredentialsTx_ends [OF _ r(1)]) blast
  then have "credentialsDead dbr user" by (simp add: accessEnded_def credentialsDead_def)
  then show ?thesis by (rule credentialsDead_frame [OF r(2-4)])
qed

text \<open>
  C22. A reversed offboard restores the account and none of its credentials. When \<open>EnsurePerson\<close>
  reactivates a person, every device, refresh token and access token issued before is dead, so that
  no bearer authenticates as the person; the one invitation that can be redeemed is the one in the
  answer; the messages and the read marks are as they were; and the log position drawn marks the
  account and every room of it, for its readers to be told.
\<close>

theorem reactivation_revives_no_credential:
  assumes "account_reach lower (am_db a)" "ensurePersonOnce low lower hash a email name = (db', Inr ep, retry)"
    and "ep_Outcome ep = PersonReactivated" "user = pa_UserID (ep_Account ep)"
  shows "credentialsDead db' user \<and>
    (\<forall>hash2 now presented c. Authenticate hash2 now db' presented = Inr c \<longrightarrow> ca_UserID c \<noteq> user) \<and>
    (\<exists>e. {e \<in> set (db_enrollment_tokens db'). liveEnrollment user e} = {e} \<and>
       en_token_hash e = hash (it_Plaintext (ep_Token ep)) \<and> en_expires_at e = am_now a + EnrollmentTokenLifetime) \<and>
    db_messages db' = db_messages (am_db a) \<and> marks db' = marks (am_db a) \<and>
    db_log_counter db' = db_log_counter (am_db a) + 1 \<and>
    (\<forall>u \<in> set (db_users db'). us_id u = user \<longrightarrow> us_deactivated_at u = None \<and> us_metadata_log_seq u = db_log_counter db') \<and>
    (\<exists>rooms. lockRoomsOfPerson (am_peek a) (am_db a) user = Inr rooms \<and>
       (\<forall>c \<in> set (db_conversations db'). cv_id c \<in> set rooms \<longrightarrow> cv_metadata_log_seq c = db_log_counter db'))"
proof (cases rule: ensurePersonOnce_cases [of low lower hash a email name])
  case (found rooms u db'' r)
  then have eq: "db'' = db'" "r = Inr ep" using assms(2) by auto
  note i = account_reach_inv [OF assms(1)]
  from found(1) show ?thesis
  proof (cases rule: ensureFound_cases [where hash = hash and rooms = rooms])
    case (reactivated db1 revoked db2 t db3 v)
    then have ep: "db3 = db'" "user = us_id u" "ep_Token ep = t" using found(3) eq assms(4) by (auto simp: accountOf_def)
    note f1 = reactivateTx_frame [OF reactivated(2)] and f2 = issueEnrollmentTokenTx_frame [OF reactivated(3)]
      and b = applyBump_Inr [OF reactivated(4)] and cr = applyBump_credentials [OF reactivated(4)]
    have "credentialsDead db1 user" using reactivateTx_kills [OF reactivated(2)] i ep(2) by (simp add: accounts_inv_def)
    then have "credentialsDead db2 user" by (rule credentialsDead_frame [rotated 3]) (use f2 in simp_all)
    then have dead: "credentialsDead db' user" by (rule credentialsDead_frame [rotated 3]) (use cr ep(1) in simp_all)
    moreover have "ca_UserID c \<noteq> user" if "Authenticate hash2 now db' presented = Inr c" for hash2 :: "string \<Rightarrow> 'a" and now presented c
      using that dead by (elim Authenticate_Inr) (auto simp: credentialsDead_def)
    moreover have "\<exists>e. {e \<in> set (db_enrollment_tokens db'). liveEnrollment user e} = {e} \<and>
       en_token_hash e = hash (it_Plaintext (ep_Token ep)) \<and> en_expires_at e = am_now a + EnrollmentTokenLifetime"
      using issueEnrollmentTokenTx_live [OF reactivated(3)] issueEnrollmentTokenTx_expires [OF reactivated(3)] cr ep by simp
    moreover have "us_deactivated_at x = None \<and> us_metadata_log_seq x = db_log_counter db'"
      if x: "x \<in> set (db_users db')" "us_id x = user" for x
    proof -
      have "x \<in> set (update_where (\<lambda>y. us_id y \<in> set [us_id u]) (\<lambda>y. y\<lparr>us_metadata_log_seq := v\<rparr>) (db_users db2))"
        using x(1) b(9) ep(1) by simp
      then obtain y where y: "y \<in> set (db_users db2)" "x = y\<lparr>us_metadata_log_seq := v\<rparr>"
        using x(2) ep(2) by (auto dest!: update_where_D split: if_splits)
      then have "y \<in> set (update_where (reactivatable user) (\<lambda>u. u\<lparr>us_deactivated_at := None\<rparr>) (db_users (am_db a)))"
        using f1(4) f2(4) ep(2) by simp
      then have "us_deactivated_at y = None"
        by (rule update_whereE) (use y(2) x(2) in \<open>auto simp: reactivatable_def\<close>)
      then show ?thesis using y(2) b(2) ep(1) by simp
    qed
    moreover have "cv_metadata_log_seq c = db_log_counter db'" if "c \<in> set (db_conversations db')" "cv_id c \<in> set rooms" for c
    proof -
      have "c \<in> set (update_where (\<lambda>c. cv_id c \<in> set rooms) (\<lambda>c. c\<lparr>cv_metadata_log_seq := v\<rparr>) (db_conversations db2))"
        using that(1) b(7) ep(1) by simp
      then show ?thesis by (rule update_whereE) (use that(2) b(2) ep(1) in auto)
    qed
    moreover have "lockRoomsOfPerson (am_peek a) (am_db a) user = Inr rooms" using found(2) reactivated(1) ep(2) by simp
    moreover have "db_messages db' = db_messages (am_db a)" "marks db' = marks (am_db a)"
      "db_log_counter db' = db_log_counter (am_db a) + 1"
      using b(1,2,3,6) f1 f2 ep(1) by (simp_all add: marks_def)
    ultimately show ?thesis by blast
  qed (use found eq assms(3) in auto)
next
  case absent
  then show ?thesis using assms(2,3) by (cases rule: ensureCreate_cases [of low lower hash a email name]) auto
qed (use assms(2) in auto)

section \<open>A deployment with one person\<close>

text \<open>The first two questions written out, so that an evaluation does not build the list of a thousand.\<close>

lemma chooseHandle_code [code]:
  "chooseHandle lower dbs stem =
     (case handleConflict lower (dbs 1) stem of
        None \<Rightarrow> Inr (stem, '''')
      | Some u \<Rightarrow>
          (case handleConflict lower (dbs 2) (handleCandidate stem 2) of
             None \<Rightarrow> Inr (handleCandidate stem 2,
               if notAdopted (Some u) \<noteq> '''' then handleNote (handleCandidate stem 2) (notAdopted (Some u)) else '''')
           | Some _ \<Rightarrow> chooseLoop lower dbs stem [3..<Suc maxCandidates] (notAdopted (Some u))))"
proof -
  have "1 < Suc maxCandidates" "2 < Suc maxCandidates" by (simp_all add: maxCandidates_def)
  from upt_conv_Cons [OF this(1)] upt_conv_Cons [OF this(2)]
  have "[1..<Suc maxCandidates] = 1 # 2 # [3..<Suc maxCandidates]" by (simp only: Suc_1 eval_nat_numeral)
  moreover have "handleCandidate stem 1 = stem" by (simp add: handleCandidate_def)
  ultimately show ?thesis
    unfolding chooseHandle_def by (simp add: notAdopted_def Let_def del: upt_Suc One_nat_def split: option.split)
qed

text \<open>
  Ann is invited, invited again, offboarded and invited a third time; and two invitations of a new
  address race.
\<close>

definition asciiLower :: "string \<Rightarrow> string" where
  "asciiLower s = map (\<lambda>c. if CHR ''A'' \<le> c \<and> c \<le> CHR ''Z'' then char_of (of_char c + 32 :: nat) else c) s"

definition annAttempt :: "string DB \<Rightarrow> string DB \<Rightarrow> string DB \<Rightarrow> string \<Rightarrow> string Attempt" where
  "annAttempt seen handles db tag = \<lparr>am_peek = seen, am_look = seen, am_handles = (\<lambda>_. handles), am_db = db, am_dbnow = 5,
     am_now = 5, am_newID = ''p'' @ tag, am_batch = ''b'' @ tag, am_enrollID = ''e'' @ tag, am_mint = Some (''t'' @ tag)\<rparr>"

definition annRow :: UserT where
  "annRow = \<lparr>us_id = ''p1'', us_handle = ''ann'', us_display_name = ''ann'', us_kind = ''person'', us_email = Some ''ann@a.io'',
     us_created_at = 5, us_deactivated_at = None, us_metadata_log_seq = 0\<rparr>"

definition annInvite :: "string \<Rightarrow> PersonOutcome \<Rightarrow> EnsuredPerson" where
  "annInvite tok outcome = \<lparr>ep_Account = accountOf annRow PersonStatusActive,
     ep_Token = \<lparr>it_Plaintext = tok, it_ExpiresAt = 5 + EnrollmentTokenLifetime\<rparr>, ep_Outcome = outcome, ep_Note = ''''\<rparr>"

abbreviation annEnsure :: "string Attempt \<Rightarrow> string \<Rightarrow> string DB \<times> (person_error + EnsuredPerson) \<times> bool" where
  "annEnsure a email \<equiv> ensurePersonOnce (\<lambda>r. r) asciiLower (\<lambda>t. t) a email ''''"

lemma annHandle: "deriveHandle low ''ann@a.io'' = ''ann''"
proof -
  have "ToLower low ''ann'' = ''ann''" by (rule ToLower_fix) simp
  moreover have "runes (bytes ''ann'') = [(97, [97]), (110, [110]), (110, [110])]"
    by (subst runes_ascii) (simp_all add: bytes_def)
  ultimately show ?thesis
    by (simp add: deriveHandle_def Cut_def handleRune_def of_bytes_def Trim_def TrimRight_def handlePunct_def
        maxHandleLength_def char_of_def bit_simps)
qed

definition annDB :: "string DB" where
  "annDB = emptyDB\<lparr>db_users := [annRow], db_enrollment_tokens := [\<lparr>en_id = ''e1'', en_user_id = ''p1'', en_token_hash = ''t1'',
     en_expires_at = 5 + EnrollmentTokenLifetime, en_redeemed_at = None, en_redeemed_by_device = None, en_superseded_at = None\<rparr>]\<rparr>"

lemma annDB_eq: "annEnsure (annAttempt emptyDB emptyDB emptyDB ''1'') ''ann@a.io'' = (annDB, Inr (annInvite ''t1'' PersonCreated), False)"
  by (simp add: ensurePersonOnce_def peekForReversal_def personLookup_def lockedSelect_def annAttempt_def emptyDB_def
      ensureCreate_def annHandle chooseHandle_code handleConflict_def insertUser_def issueEnrollmentTokenTx_def userByID_def
      update_where_def annDB_def annRow_def annInvite_def accountOf_def Let_def)

lemma annDB_reach: "account_reach asciiLower annDB"
proof -
  have "account_step asciiLower emptyDB annDB"
    using account_step.ensure [of "annAttempt emptyDB emptyDB emptyDB ''1''" emptyDB asciiLower "\<lambda>r. r" "\<lambda>t. t" "''ann@a.io''" "''''"]
    by (simp add: annDB_eq) (simp add: annAttempt_def)
  then show ?thesis unfolding account_reach_def by blast
qed

lemma emptyDB_account_reach: "account_reach lower emptyDB"
  by (simp add: account_reach_def)

theorem reachable_accounts_witness:
  "account_reach asciiLower annDB \<and> db_users annDB = [annRow] \<and> distinct (map us_handle (db_users annDB))"
  using annDB_reach reachable_accounts [OF annDB_reach] by (simp add: annDB_def)

text \<open>The second invitation, in another spelling.\<close>

lemma annAgain_eq:
  "\<exists>db2. annEnsure (annAttempt annDB annDB annDB ''2'') ''Ann@a.io'' = (db2, Inr (annInvite ''t2'' PersonExisting), False)"
  by (simp add: ensurePersonOnce_def peekForReversal_def personLookup_def lockedSelect_def annAttempt_def annDB_def emptyDB_def
      isPerson_def holdsEmail_def asciiLower_def less_eq_char_def char_of_def bit_simps
      ensureFound_def issueEnrollmentTokenTx_def userByID_def update_where_def liveEnrollment_def annRow_def annInvite_def Let_def)

theorem ensure_person_once_witness:
  "pa_UserID (ep_Account (annInvite ''t1'' PersonCreated)) = ''p1'' \<and>
   servedAccount asciiLower annDB ''ann@a.io'' (ep_Account (annInvite ''t1'' PersonCreated)) \<and>
   (\<exists>db2 ep2. annEnsure (annAttempt annDB annDB annDB ''2'') ''Ann@a.io'' = (db2, Inr ep2, False) \<and>
      pa_UserID (ep_Account ep2) = ''p1'' \<and> pa_Handle (ep_Account ep2) = ''ann'' \<and> ep_Outcome ep2 \<noteq> PersonCreated)"
proof -
  have e: "account_reach asciiLower (am_db (annAttempt emptyDB emptyDB emptyDB ''1''))"
    by (simp add: annAttempt_def emptyDB_account_reach)
  obtain db2 where d: "annEnsure (annAttempt annDB annDB annDB ''2'') ''Ann@a.io'' = (db2, Inr (annInvite ''t2'' PersonExisting), False)"
    using annAgain_eq by blast
  note t = ensure_person_once [OF e annDB_eq]
  have "asciiLower ''Ann@a.io'' = asciiLower ''ann@a.io''" by code_simp
  moreover have "(account_step asciiLower)\<^sup>*\<^sup>* annDB (am_db (annAttempt annDB annDB annDB ''2''))" by (simp add: annAttempt_def)
  ultimately have "pa_UserID (ep_Account (annInvite ''t2'' PersonExisting)) = pa_UserID (ep_Account (annInvite ''t1'' PersonCreated)) \<and>
      pa_Handle (ep_Account (annInvite ''t2'' PersonExisting)) = pa_Handle (ep_Account (annInvite ''t1'' PersonCreated)) \<and>
      ep_Outcome (annInvite ''t2'' PersonExisting) \<noteq> PersonCreated"
    using t d by blast
  moreover have "pa_UserID (ep_Account (annInvite ''t1'' PersonCreated)) = ''p1''" "pa_Handle (ep_Account (annInvite ''t1'' PersonCreated)) = ''ann''"
    by (simp_all add: annInvite_def accountOf_def annRow_def)
  ultimately show ?thesis using t d by auto
qed

theorem assigned_handle_witness:
  "handleShape ''ann'' \<and> ep_Note (annInvite ''t1'' PersonCreated) = ''''"
proof -
  have "''ann'' = pa_Handle (ep_Account (annInvite ''t1'' PersonCreated))" "ep_Outcome (annInvite ''t1'' PersonCreated) = PersonCreated"
    by (simp_all add: annInvite_def accountOf_def annRow_def)
  from assigned_handle [OF annDB_eq this(2,1) refl] show ?thesis by (simp add: annInvite_def)
qed

text \<open>A race: the first attempt asked before the address was committed and committed after it.\<close>

lemma annEmail: "normalizeEmail low ''ann@a.io'' = Inr ''ann@a.io''"
proof -
  have "TrimSpace ''ann@a.io'' = ''ann@a.io''" by (rule TrimSpace_plain) (simp_all add: IsSpace_def)
  moreover have "ToLower low ''ann@a.io'' = ''ann@a.io''" by (rule ToLower_fix) simp
  ultimately show ?thesis by (simp add: normalizeEmail_def Count_def Cut_def Let_def)
qed

definition annRace :: "nat \<Rightarrow> string Attempt" where
  "annRace k = (if k = 0 then annAttempt emptyDB emptyDB annDB ''2'' else annAttempt annDB annDB annDB ''3'')"

lemma annRace_lost:
  "annEnsure (annRace 0) ''ann@a.io'' = (annDB, Inl (PersonStore (PgError ''23505'' usersHandleKeyConstraint)), True)"
  by (simp add: ensurePersonOnce_def peekForReversal_def personLookup_def lockedSelect_def annRace_def annAttempt_def annDB_def emptyDB_def
      ensureCreate_def annHandle chooseHandle_code handleConflict_def insertUser_def annRow_def isHandleCollision_def Let_def)

theorem lost_race_resolves_witness:
  "\<exists>db2 r. EnsurePerson (\<lambda>r. r) asciiLower (\<lambda>t. t) annRace ''ann@a.io'' '''' = (Some db2, r) \<and>
     (\<forall>ep. r = Inr ep \<longrightarrow> ep_Outcome ep \<noteq> PersonCreated \<and> pa_UserID (ep_Account ep) = ''p1'')"
proof -
  have "TrimSpace '''' = ''''" by (simp add: TrimSpace_def bytes_def of_bytes_def trimLeftSpace.simps trimRightSpace.simps)
  then have l: "ensurePersonOnce (\<lambda>r. r) asciiLower (\<lambda>t. t) (annRace 0) ''ann@a.io'' (TrimSpace '''') =
      (annDB, Inl (PersonStore (PgError ''23505'' usersHandleKeyConstraint)), True)" using annRace_lost by simp
  have db: "am_db (annRace 0) = annDB" "am_db (annRace 1) = annDB" "am_look (annRace 1) = annDB" by (simp_all add: annRace_def annAttempt_def)
  have h: "\<exists>u \<in> set (db_users (am_db (annRace 0))). holdsEmail asciiLower ''ann@a.io'' u"
    by (simp add: db annDB_def annRow_def holdsEmail_def)
  have p: "\<forall>u \<in> set (db_users (am_db (annRace 1))). holdsEmail asciiLower ''ann@a.io'' u \<and> us_deactivated_at u \<noteq> None \<longrightarrow>
      peekForReversal asciiLower (am_peek (annRace 1)) ''ann@a.io'' = (us_id u, True)"
    unfolding db by (simp add: annDB_def annRow_def)
  have ids: "us_id u = ''p1''" if "u \<in> set (db_users (am_db (annRace 0)))" for u
    using that by (simp add: db annDB_def annRow_def)
  from lost_race_resolves [OF annEmail _ l _ _ _ p] h ids annDB_reach show ?thesis unfolding db by (metis rtranclp.rtrancl_refl)
qed

text \<open>Ann is offboarded and invited again.\<close>

definition annGone :: "string DB" where
  "annGone = fst (DeactivateUser 7 ''b'' annDB annDB ''p1'')"

lemma annGone_reach: "account_reach asciiLower annGone"
  using annDB_reach account_step.offboard [of asciiLower annDB 7 "''b''" annDB "''p1''"]
  unfolding account_reach_def annGone_def by (rule rtranclp.rtrancl_into_rtrancl)

lemma annBack_eq:
  "\<exists>db2. annEnsure (annAttempt annGone annGone annGone ''4'') ''ann@a.io'' = (db2, Inr (annInvite ''t4'' PersonReactivated), False)"
proof -
  have "snd (annEnsure (annAttempt annGone annGone annGone ''4'') ''ann@a.io'') = (Inr (annInvite ''t4'' PersonReactivated), False)"
    by code_simp
  then show ?thesis by (metis prod.collapse)
qed

theorem reactivation_revives_no_credential_witness:
  "\<exists>db2. annEnsure (annAttempt annGone annGone annGone ''4'') ''ann@a.io'' = (db2, Inr (annInvite ''t4'' PersonReactivated), False) \<and>
     credentialsDead db2 ''p1'' \<and> (\<exists>e. {e \<in> set (db_enrollment_tokens db2). liveEnrollment ''p1'' e} = {e} \<and> en_token_hash e = ''t4'')"
proof -
  obtain db2 where d: "annEnsure (annAttempt annGone annGone annGone ''4'') ''ann@a.io'' = (db2, Inr (annInvite ''t4'' PersonReactivated), False)"
    using annBack_eq by blast
  have r: "account_reach asciiLower (am_db (annAttempt annGone annGone annGone ''4''))" by (simp add: annAttempt_def annGone_reach)
  have a: "ep_Outcome (annInvite ''t4'' PersonReactivated) = PersonReactivated"
    "''p1'' = pa_UserID (ep_Account (annInvite ''t4'' PersonReactivated))" "it_Plaintext (ep_Token (annInvite ''t4'' PersonReactivated)) = ''t4''"
    by (simp_all add: annInvite_def accountOf_def annRow_def)
  from reactivation_revives_no_credential [OF r d a(1,2)] d a(3) show ?thesis by auto
qed

end
