(* ===== verification/Provision_Props.thy ===== *)
theory Provision_Props
  imports Provision Person_Props
begin

text \<open>
  What the provisioning surface promises: who opens its door and what everybody else is told, that
  an invitation it hands out enrolls the account it names, and how an offboard is answered.
  \<open>account_service\<close> is the contract of the three functions behind it, the store its instance.
\<close>

section \<open>What a call keeps\<close>

locale account_service =
  fixes d :: "'s ProvisionDeps" and keeps :: "'s \<Rightarrow> bool"
  assumes ensure: "keeps w \<Longrightarrow> keeps (fst (pv_Ensure d email name w))"
    and deactivate: "keeps w \<Longrightarrow> keeps (fst (pv_Deactivate d i w))"
begin

lemma serveProvision_keeps:
  assumes "keeps w" "ps_deps s = d"
  shows "keeps (fst (serveProvision hash s route r w))"
proof -
  have "keeps w1" if "pv_Ensure d email name w = (w1, x)" for email name w1 x using ensure [OF assms(1), of email name] that by simp
  moreover have "keeps w1" if "pv_Deactivate d i w = (w1, x)" for i w1 x using deactivate [OF assms(1), of i] that by simp
  ultimately show ?thesis using assms
    by (auto simp: serveProvision_def provEnsure_def provDeactivate_def split: option.split prov_route.split prod.split sum.split)
qed

end

lemma ensureLoop_commits:
  assumes "fst (ensureLoop low lower hash email name as e) = Some db'"
  shows "\<exists>a \<in> set as. fst (ensurePersonOnce low lower hash a email name) = db' \<and>
    (\<forall>ep. snd (ensureLoop low lower hash email name as e) = Inr ep \<longrightarrow> ensurePersonOnce low lower hash a email name = (db', Inr ep, False))"
  using assms
proof (induction as arbitrary: e)
  case (Cons a as)
  obtain db1 x again where o: "ensurePersonOnce low lower hash a email name = (db1, x, again)" using prod_cases3 by blast
  show ?case
  proof (cases again)
    case True
    with Cons o show ?thesis by fastforce
  next
    case False
    with Cons(2) o show ?thesis by auto
  qed
qed simp

lemma ensureLoop_Inr: "snd (ensureLoop low lower hash email name as e) = Inr ep \<Longrightarrow> fst (ensureLoop low lower hash email name as e) \<noteq> None"
  by (induction as arbitrary: e) (auto split: prod.splits if_splits)

lemma EnsurePerson_commits:
  assumes "fst (EnsurePerson low lower hash attempts raw name) = Some db'"
  obtains i email where "i < maxAttempts" "normalizeEmail low raw = Inr email"
    "fst (ensurePersonOnce low lower hash (attempts i) email (TrimSpace name)) = db'"
    "\<And>ep. snd (EnsurePerson low lower hash attempts raw name) = Inr ep \<Longrightarrow>
       ensurePersonOnce low lower hash (attempts i) email (TrimSpace name) = (db', Inr ep, False)"
proof (cases "normalizeEmail low raw")
  case (Inr email)
  then show thesis using that ensureLoop_commits [of low lower hash email "TrimSpace name" "map attempts [0..<maxAttempts]" None db'] assms
    by (fastforce simp: EnsurePerson_def)
qed (use assms in \<open>simp add: EnsurePerson_def\<close>)

lemma EnsurePerson_Inr:
  "snd (EnsurePerson low lower hash attempts raw name) = Inr ep \<Longrightarrow> fst (EnsurePerson low lower hash attempts raw name) \<noteq> None"
  using ensureLoop_Inr by (auto simp: EnsurePerson_def split: sum.splits)

text \<open>Whatever happened to the accounts meanwhile, what an ensure leaves is what the accounts reach from where they were.\<close>

interpretation accounts: account_service "wiredProvision pw" "\<lambda>db. (account_step (pw_lower pw))\<^sup>*\<^sup>* base db \<and> (\<forall>db i. (account_step (pw_lower pw))\<^sup>*\<^sup>* db (am_db (pw_attempts pw db i)))"
  for pw base
proof unfold_locales
  fix w email name i
  assume k: "(account_step (pw_lower pw))\<^sup>*\<^sup>* base w \<and> (\<forall>db i. (account_step (pw_lower pw))\<^sup>*\<^sup>* db (am_db (pw_attempts pw db i)))"
  show "(account_step (pw_lower pw))\<^sup>*\<^sup>* base (fst (pv_Ensure (wiredProvision pw) email name w)) \<and> (\<forall>db i. (account_step (pw_lower pw))\<^sup>*\<^sup>* db (am_db (pw_attempts pw db i)))"
  proof (cases "fst (EnsurePerson (pw_low pw) (pw_lower pw) (pw_hash pw) (pw_attempts pw w) email name)")
    case None
    then show ?thesis using k by (auto simp: wiredProvision_def wiredEnsure_def split: prod.splits)
  next
    case (Some db')
    then obtain i e where c: "fst (ensurePersonOnce (pw_low pw) (pw_lower pw) (pw_hash pw) (pw_attempts pw w i) e (TrimSpace name)) = db'"
      by (rule EnsurePerson_commits)
    have "account_step (pw_lower pw) (am_db (pw_attempts pw w i)) db'"
      using account_step.ensure [of "pw_attempts pw w i" "am_db (pw_attempts pw w i)" "pw_lower pw" "pw_low pw" "pw_hash pw" e "TrimSpace name"] c by simp
    then show ?thesis using k Some
      by (auto simp: wiredProvision_def wiredEnsure_def split: prod.splits) (meson rtranclp.rtrancl_into_rtrancl rtranclp_trans)
  qed
  show "(account_step (pw_lower pw))\<^sup>*\<^sup>* base (fst (pv_Deactivate (wiredProvision pw) i w)) \<and> (\<forall>db i. (account_step (pw_lower pw))\<^sup>*\<^sup>* db (am_db (pw_attempts pw db i)))"
    using k by (auto simp: wiredProvision_def intro: rtranclp.rtrancl_into_rtrancl account_step.offboard)
qed

section \<open>The door\<close>

definition bearerScheme :: "string \<Rightarrow> bool" where
  "bearerScheme scheme \<longleftrightarrow> map lowerASCII scheme = map lowerASCII ''Bearer ''"

lemma bearerScheme_length: "bearerScheme scheme \<Longrightarrow> length scheme = 7"
  unfolding bearerScheme_def by (drule arg_cong [of _ _ length]) simp

lemma presentedToken_eq:
  "presentedToken r =
     (let h = hq_Authorization r
      in if h = '''' then ('''', ShapeAbsent)
         else if length h < 7 \<or> \<not> bearerScheme (take 7 h) then ('''', ShapeMalformed) else (drop 7 h, ShapeBearer))"
proof -
  have "length ''Bearer '' = 7" by simp
  then show ?thesis by (simp only: presentedToken_def Let_def bearerScheme_def)
qed

lemma presentedToken_iff:
  assumes "t \<noteq> ''''"
  shows "fst (presentedToken r) = t \<longleftrightarrow> (\<exists>scheme. bearerScheme scheme \<and> hq_Authorization r = scheme @ t)"
proof
  assume "fst (presentedToken r) = t"
  with assms have "bearerScheme (take 7 (hq_Authorization r))" "drop 7 (hq_Authorization r) = t"
    by (auto simp: presentedToken_eq Let_def split: if_splits)
  then show "\<exists>scheme. bearerScheme scheme \<and> hq_Authorization r = scheme @ t" by (metis append_take_drop_id)
next
  assume "\<exists>scheme. bearerScheme scheme \<and> hq_Authorization r = scheme @ t"
  then obtain scheme where "bearerScheme scheme" "hq_Authorization r = scheme @ t" by blast
  with bearerScheme_length [of scheme] show "fst (presentedToken r) = t" by (auto simp: presentedToken_eq Let_def)
qed

lemma authorize_answer [simp]: "authorize hash s r \<noteq> Some (ProvEnsured status x)" "authorize hash s r \<noteq> Some ProvDone"
  "authorize hash s r \<noteq> Some (ProvError 404 why)"
  by (simp_all add: authorize_def split: prod.split)

lemma provEnsure_answer: "snd (provEnsure d body w) \<noteq> ProvError 401 why"
  by (simp add: provEnsure_def split: option.split prod.split sum.split)

lemma provLookup_answer: "provLookup d r w \<noteq> ProvError 401 why"
  unfolding provLookup_def Let_def by (auto split: if_splits sum.splits option.splits)

lemma provDeactivate_answer: "snd (provDeactivate d r w) \<noteq> ProvError 401 why"
  by (simp add: provDeactivate_def split: option.split prod.split sum.split)

text \<open>
  C15. Only the configured token opens the door. A request is served exactly when its header is the scheme, in any case, and
  then the token, if the digest takes no other string to the token's; every other request, with no
  header, another scheme or another credential, gets one and the same answer and changes nothing. A
  surface is never built with an empty token, which no header at all would open.
\<close>

theorem only_the_token_opens:
  assumes "newProvision hash d = Some s" "\<forall>t. hash t = hash (pv_Token d) \<longrightarrow> t = pv_Token d"
  shows "(authorize hash s r = None \<longleftrightarrow>
      (\<exists>scheme. bearerScheme scheme \<and> hq_Authorization r = scheme @ pv_Token d)) \<and>
    (authorize hash s r \<noteq> None \<longrightarrow> serveProvision hash s route r w = (w, ProvError 401 errUnauthorized)) \<and>
    (authorize hash s r = None \<longrightarrow> (\<forall>why. snd (serveProvision hash s route r w) \<noteq> ProvError 401 why))"
proof (intro conjI)
  have s: "pv_Token d \<noteq> ''''" "ps_want s = hash (pv_Token d)" using assms(1) by (auto simp: newProvision_def split: if_splits)
  have a: "authorize hash s r = None \<longleftrightarrow> fst (presentedToken r) = pv_Token d"
    using assms(2) s(2) by (auto simp: authorize_def opens_def split: prod.split)
  show "authorize hash s r = None \<longleftrightarrow> (\<exists>scheme. bearerScheme scheme \<and> hq_Authorization r = scheme @ pv_Token d)"
    unfolding a by (rule presentedToken_iff [OF s(1)])
  show "authorize hash s r \<noteq> None \<longrightarrow> serveProvision hash s route r w = (w, ProvError 401 errUnauthorized)"
    by (auto simp: serveProvision_def authorize_def split: prod.splits if_splits)
  show "authorize hash s r = None \<longrightarrow> (\<forall>why. snd (serveProvision hash s route r w) \<noteq> ProvError 401 why)"
    by (simp add: serveProvision_def provEnsure_answer provLookup_answer provDeactivate_answer split: prov_route.split)
qed

section \<open>An invitation\<close>

lemma find_last: "find P xs = None \<Longrightarrow> find P (xs @ [y]) = (if P y then Some y else None)"
  by (induction xs) (auto split: if_splits)

text \<open>A live invitation of a person, as a redemption finds it.\<close>

definition invites :: "(token \<Rightarrow> 'h) \<Rightarrow> 'h DB \<Rightarrow> token \<Rightarrow> uuid \<Rightarrow> gotime \<Rightarrow> bool" where
  "invites hash db plain user expires \<longleftrightarrow>
     (\<exists>e. find (\<lambda>e. en_token_hash e = hash plain) (db_enrollment_tokens db) = Some e \<and> en_user_id e = user \<and>
        en_redeemed_at e = None \<and> en_superseded_at e = None \<and> en_expires_at e = expires)"

lemma issueEnrollmentTokenTx_invites:
  assumes "issueEnrollmentTokenTx hash dbnow db i user now mint = Inr (db', t)"
  shows "invites hash db' (it_Plaintext t) user (now + EnrollmentTokenLifetime)"
proof -
  let ?rows = "update_where (liveEnrollment user) (\<lambda>e. e\<lparr>en_superseded_at := Some dbnow\<rparr>) (db_enrollment_tokens db)"
  have "hash (it_Plaintext t) \<notin> en_token_hash ` set ?rows"
    using assms by (auto simp: issueEnrollmentTokenTx_def Let_def split: option.splits if_splits)
  then have "find (\<lambda>e. en_token_hash e = hash (it_Plaintext t)) ?rows = None" unfolding find_None_iff by (metis image_eqI)
  note f = find_last [OF this]
  show ?thesis using assms f
    by (auto simp: invites_def issueEnrollmentTokenTx_def Let_def split: option.splits if_splits)
qed

lemma ensurePersonOnce_invites:
  assumes "ensurePersonOnce low lower hash a email name = (db', Inr ep, again)"
  shows "invites hash db' (it_Plaintext (ep_Token ep)) (pa_UserID (ep_Account ep)) (am_now a + EnrollmentTokenLifetime)"
proof (cases rule: ensurePersonOnce_cases [of low lower hash a email name])
  case (found rooms u db1 x)
  from found(1) show ?thesis
  proof (cases rule: ensureFound_cases [where hash = hash and rooms = rooms])
    case (existing db2 t)
    then show ?thesis using found assms issueEnrollmentTokenTx_invites [OF existing(2)] by (auto simp: accountOf_def)
  next
    case (reactivated db1 revoked db2 t db3 v)
    then show ?thesis
      using found assms issueEnrollmentTokenTx_invites [OF reactivated(3)] applyBump_credentials [OF reactivated(4)]
      by (auto simp: accountOf_def invites_def)
  qed (use found assms in auto)
next
  case absent
  show ?thesis
  proof (cases rule: ensureCreate_cases [of low lower hash a email name])
    case (created chosen nt row db1 db2 t)
    then show ?thesis using absent assms issueEnrollmentTokenTx_invites [OF created(5)] by (auto simp: accountOf_def)
  qed (use absent assms in auto)
qed (use assms in auto)

lemma ensurePersonOnce_status:
  assumes "ensurePersonOnce low lower hash a email name = (db', Inr ep, again)"
  shows "pa_Status (ep_Account ep) = PersonStatusActive"
proof (cases rule: ensurePersonOnce_cases [of low lower hash a email name])
  case (found rooms u db1 x)
  from found(1) show ?thesis
    by (cases rule: ensureFound_cases [where hash = hash and rooms = rooms]) (use found assms in \<open>auto simp: accountOf_def\<close>)
next
  case absent
  show ?thesis
    by (cases rule: ensureCreate_cases [of low lower hash a email name]) (use absent assms in \<open>auto simp: accountOf_def\<close>)
qed (use assms in auto)

lemma userByID_unique: "distinct (map us_id (db_users db)) \<Longrightarrow> u \<in> set (db_users db) \<Longrightarrow> us_id u = i \<Longrightarrow> userByID db i = Some u"
proof (cases "userByID db i")
  case (Some v)
  assume "distinct (map us_id (db_users db))" "u \<in> set (db_users db)" "us_id u = i"
  moreover from Some have "v \<in> set (db_users db)" "us_id v = i" by (auto simp: userByID_def dest: find_SomeD)
  ultimately show ?thesis using Some by (auto simp: distinct_map dest: inj_onD)
qed (auto simp: userByID_def find_None_iff)

lemma accountView_Some:
  assumes "accountView a = Some c"
  shows "pc_ID c = pa_UserID a" "pc_Handle c = pa_Handle a" "statusFor (pa_Status a) = Some (pc_Status c)"
  using assms by (auto simp: accountView_def split: option.splits)

lemma issue_errors:
  "issueRefresh hash dbnow db i dev now t = Inl e \<Longrightarrow> e = DriverError \<or> (\<exists>c k. e = PgError c k)"
  "issueAccess hash dbnow db i user dev' now t = Inl e \<Longrightarrow> e = DriverError \<or> (\<exists>c k. e = PgError c k)"
  by (auto simp: issueRefresh_def insertRefreshProposed_def issueAccess_def Let_def split: if_splits option.splits)

lemma redeem_live:
  assumes "invites hash db plain user expires" "userByID db user = Some u" "us_deactivated_at u = None" "us_kind u = ''person''"
    and "plain \<noteq> ''''" "now < expires" "name \<noteq> ''''" "length name \<le> MaxDeviceNameBytes"
  shows "case snd (RedeemEnrollment hash dbnow now d db plain name) of
     Inr x \<Rightarrow> er_UserID x = user | Inl e \<Rightarrow> e = DriverError \<or> (\<exists>c k. e = PgError c k)"
proof -
  have id: "us_id u = user" using assms(2) by (auto simp: userByID_def dest: find_SomeD)
  obtain e where e: "find (\<lambda>e. en_token_hash e = hash plain) (db_enrollment_tokens db) = Some e" "en_user_id e = user"
    "en_redeemed_at e = None" "en_superseded_at e = None" "en_expires_at e = expires"
    using assms(1) unfolding invites_def by blast
  let ?db1 = "db\<lparr>db_devices := db_devices db @ [\<lparr>dv_id = dr_deviceID d, dv_user_id = us_id u, dv_name = name,
      dv_created_at = dbnow, dv_revoked_at = None\<rparr>]\<rparr>"
  note step = RedeemEnrollment_def [of hash dbnow now d db plain name, unfolded Let_def]
  show ?thesis
  proof (cases "deviceByID db (dr_deviceID d)")
    case None
    show ?thesis
    proof (cases "issueRefresh hash dbnow ?db1 (dr_refreshID d) (dr_deviceID d) now (dr_refresh d)")
      case (Inl er)
      then show ?thesis using None assms(2-8) e issue_errors(1) [OF Inl] by (simp add: step)
    next
      case (Inr p)
      obtain db2 t where p: "p = (db2, t)" by (cases p)
      show ?thesis
      proof (cases "issueAccess hash dbnow db2 (dr_accessID d) (us_id u) (Some (dr_deviceID d)) now (dr_access d)")
        case (Inl er)
        then show ?thesis using None Inr p assms(2-8) e issue_errors(2) [OF Inl] by (simp add: step)
      next
        case (Inr q)
        then show ?thesis using None \<open>_ = Inr p\<close> p assms(2-8) e id by (cases q) (simp add: step)
      qed
    qed
  qed (use assms(2-8) e in \<open>simp add: step\<close>)
qed


section \<open>An offboard\<close>

lemma DeactivateUser_refused: "DeactivateUser t batch db0 db user = (db', Inl e) \<Longrightarrow> db' = db"
  by (cases rule: DeactivateUser_cases [of t batch db0 db user]) auto

text \<open>
  How \<open>POST /accounts/{id}/deactivate\<close> is answered. 204 says that the person's access has ended, everywhere; 404 says nothing
  and changes nothing, and no id is told from another by it: one that is no uuid, one nobody has and
  one of a service account get the same answer, whenever the rooms of that id could be locked.
\<close>

theorem offboard_answers:
  assumes "ps_deps s = wiredProvision pw" "authorize hash s r = None" "serveProvision hash s PostDeactivate r db = (db', ans)"
  shows "(ans = ProvDone \<longrightarrow> (\<exists>i. pw_parse pw (hq_id r) = Some i \<and> accessEnded db' i \<and> db_messages db' = db_messages db)) \<and>
    (ans \<noteq> ProvDone \<longrightarrow> db' = db) \<and>
    (pw_parse pw (hq_id r) = None \<longrightarrow> ans = ProvError 404 errNoSuchAccount) \<and>
    (\<forall>i rooms. pw_parse pw (hq_id r) = Some i \<and> lockRoomsOfPerson (pw_stale pw db) db i = Inr rooms \<and>
       \<not> (\<exists>u \<in> set (db_users db). us_id u = i \<and> us_kind u = ''person'') \<longrightarrow> ans = ProvError 404 errNoSuchAccount)"
proof (cases "pw_parse pw (hq_id r)")
  case None
  then show ?thesis using assms by (auto simp: serveProvision_def provDeactivate_def wiredProvision_def)
next
  case (Some i)
  obtain db1 x where d: "DeactivateUser (pw_dbnow pw) (pw_batch pw db) (pw_stale pw db) db i = (db1, x)" by fastforce
  have a: "db' = db1" "ans = (case x of Inl e \<Rightarrow> if e = ErrPersonNotFound then ProvError 404 errNoSuchAccount else ProvError 500 errInternal | Inr _ \<Rightarrow> ProvDone)"
    using assms d Some by (auto simp: serveProvision_def provDeactivate_def wiredProvision_def split: sum.splits)
  have gone: "x = Inl ErrPersonNotFound" if "lockRoomsOfPerson (pw_stale pw db) db i = Inr rooms"
    "\<not> (\<exists>u \<in> set (db_users db). us_id u = i \<and> us_kind u = ''person'')" for rooms
  proof -
    have "\<not> list_ex (\<lambda>u. us_id u = i \<and> us_kind u = ''person'') (db_users db)" using that(2) by (auto simp: list_ex_iff)
    then show ?thesis using d that(1) by (simp add: DeactivateUser_def)
  qed
  show ?thesis
  proof (cases x)
    case (Inl e)
    then have "db1 = db" using d DeactivateUser_refused by blast
    then show ?thesis using a Inl Some gone by auto
  next
    case (Inr out)
    then show ?thesis using a Some gone DeactivateUser_ends(1,2) [OF d [unfolded Inr]] by auto
  qed
qed

section \<open>A surface\<close>

definition annWiring :: "string ProvisionWiring" where
  "annWiring = \<lparr>pw_token = ''s3cret'', pw_low = (\<lambda>r. r), pw_lower = asciiLower, pw_hash = (\<lambda>t. t),
     pw_attempts = (\<lambda>db _. annAttempt db db db ''1''), pw_snaps = (\<lambda>db _. db), pw_dbnow = 5, pw_batch = (\<lambda>_. ''b''),
     pw_stale = (\<lambda>db. db), pw_parse = Some\<rparr>"

definition annServer :: "(string DB, string) ProvisionServer" where
  "annServer = \<lparr>ps_deps = wiredProvision annWiring, ps_want = ''s3cret''\<rparr>"

definition annRequest :: Request where
  "annRequest = \<lparr>hq_Authorization = ''BEARER s3cret'', hq_id = ''p1'', hq_query = []\<rparr>"

lemma annServer_new: "newProvision (\<lambda>t. t) (wiredProvision annWiring) = Some annServer"
  by (simp add: newProvision_def annServer_def wiredProvision_def annWiring_def)

lemma annScheme: "bearerScheme ''BEARER ''"
  unfolding bearerScheme_def by code_simp

theorem only_the_token_opens_witness:
  "authorize (\<lambda>t. t) annServer annRequest = None \<and>
   serveProvision (\<lambda>t. t) annServer GetAccounts \<lparr>hq_Authorization = ''Bearer wrong'', hq_id = '''', hq_query = []\<rparr> emptyDB =
     (emptyDB, ProvError 401 errUnauthorized)"
proof
  have only: "\<forall>t. (\<lambda>t. t) t = (\<lambda>t. t) (pv_Token (wiredProvision annWiring)) \<longrightarrow> t = pv_Token (wiredProvision annWiring)" by simp
  note t = only_the_token_opens [OF annServer_new only]
  have "hq_Authorization annRequest = ''BEARER '' @ pv_Token (wiredProvision annWiring)"
    by (simp add: annRequest_def wiredProvision_def annWiring_def)
  then show "authorize (\<lambda>t. t) annServer annRequest = None" using t [of annRequest] annScheme by blast
next
  have only: "\<forall>t. (\<lambda>t. t) t = (\<lambda>t. t) (pv_Token (wiredProvision annWiring)) \<longrightarrow> t = pv_Token (wiredProvision annWiring)" by simp
  let ?r = "\<lparr>hq_Authorization = ''Bearer wrong'', hq_id = '''', hq_query = []\<rparr>"
  have "presentedToken ?r = (''wrong'', ShapeBearer)" by (simp add: presentedToken_eq bearerScheme_def)
  then have "authorize (\<lambda>t. t) annServer ?r \<noteq> None" by (simp add: authorize_def opens_def annServer_def)
  with only_the_token_opens [OF annServer_new only, of ?r] show
    "serveProvision (\<lambda>t. t) annServer GetAccounts ?r emptyDB = (emptyDB, ProvError 401 errUnauthorized)" by blast
qed

definition annEnroll :: EnrollRequest where
  "annEnroll = \<lparr>eq_EnrollmentToken = ''t1'', eq_DeviceName = ''phone''\<rparr>"

lemma annEnsured: "wiredEnsure annWiring ''ann@a.io'' '''' emptyDB = (annDB, Inr (annInvite ''t1'' PersonCreated))"
proof -
  have "TrimSpace '''' = ''''"
    by (simp add: TrimSpace_def bytes_def of_bytes_def trimLeftSpace.simps [of "[]"] trimRightSpace.simps [of "[]"])
  then have "EnsurePerson (\<lambda>r. r) asciiLower (\<lambda>t. t) (\<lambda>_. annAttempt emptyDB emptyDB emptyDB ''1'') ''ann@a.io'' '''' =
      (Some annDB, Inr (annInvite ''t1'' PersonCreated))"
    by (simp add: EnsurePerson_def annEmail maxAttempts_def upt_rec annDB_eq)
  then show ?thesis by (simp add: wiredEnsure_def annWiring_def)
qed

lemma annRedeem: "\<exists>db2 x. RedeemEnrollment (\<lambda>t. t) 6 6 demoDraws annDB ''t1'' ''phone'' = (db2, Inr x)"
proof -
  have "case snd (RedeemEnrollment (\<lambda>t. t) 6 6 demoDraws annDB ''t1'' ''phone'') of Inl e \<Rightarrow> False | Inr x \<Rightarrow> True" by code_simp
  then show ?thesis by (auto split: sum.splits) (metis prod.collapse)
qed


end
