(* ===== verification/Client_Log.thy ===== *)
theory Client_Log
  imports Client_Refresh
begin

text \<open>
  \<open>internal/client/client.go\<close>: the frames of a session, the pages of a catch-up and the loops
  around both. A method is one function per critical section it takes, in the order it takes
  them, so that an interleaving of the session's goroutine and the catch-up's is a sequence of
  these functions; \<open>onReady\<close> and \<open>catchUp\<close> hold two locks one after the other and are split
  there. Waking a goroutine and notifying watchers carry no data.
\<close>

section \<open>Triggers\<close>

definition triggerLocked :: "Client \<Rightarrow> Client" where
  "triggerLocked c =
     (if fa_IgnoreRetrigger (cl_faults c) \<and> cl_inPass c then c else c\<lparr>cl_gen := cl_gen c + 1\<rparr>)"

definition trigger :: "Client \<Rightarrow> Client" where
  "trigger c = triggerLocked c"

definition CatchUp :: "Client \<Rightarrow> Client" where
  "CatchUp c = trigger c"

definition pending :: "Client \<Rightarrow> bool" where
  "pending c \<longleftrightarrow> cl_gen c \<noteq> cl_doneGen c"

section \<open>Sends awaiting their answer\<close>

datatype send_start = SendNotConnected | SendInFlight | SendKilled Client | SendWaiting Client

text \<open>
  \<open>Send\<close> up to its wait: the waiter is registered before the frame is written, and a write the
  kill refuses takes it away again. \<open>sendGiveUp\<close> is the deferred removal when the caller stops
  waiting.
\<close>

definition sendGiveUp :: "uuid \<Rightarrow> Client \<Rightarrow> Client" where
  "sendGiveUp i c = c\<lparr>cl_waiters := removeAll i (cl_waiters c)\<rparr>"

definition Send :: "uuid \<Rightarrow> Client \<Rightarrow> send_start" where
  "Send i c =
     (if cl_conn c = None then SendNotConnected
      else if i \<in> set (cl_waiters c) then SendInFlight
      else let c1 = c\<lparr>cl_waiters := cl_waiters c @ [i]\<rparr> in
        if cl_killed c then SendKilled (sendGiveUp i c1) else SendWaiting c1)"

definition Read :: "Client \<Rightarrow> bool" where
  "Read c \<longleftrightarrow> cl_conn c \<noteq> None \<and> cl_ready c \<and> \<not> cl_killed c"

definition answer :: "uuid \<Rightarrow> sendResult \<Rightarrow> Client \<Rightarrow> Client" where
  "answer i r c =
     (if i \<in> set (cl_waiters c)
      then c\<lparr>cl_waiters := removeAll i (cl_waiters c), cl_answers := cl_answers c @ [(i, r)]\<rparr> else c)"

definition endSession :: "nat \<Rightarrow> Client \<Rightarrow> Client" where
  "endSession conn c =
     (let c1 = (if cl_conn c = Some conn then c\<lparr>cl_conn := None, cl_ready := False\<rparr> else c)
      in c1\<lparr>cl_waiters := [],
            cl_answers := cl_answers c1 @ map (\<lambda>i. (i, SentSessionEnded)) (cl_waiters c1)\<rparr>)"

section \<open>The journal writes\<close>

definition recordLocked :: "Faults \<Rightarrow> Message \<Rightarrow> Journal \<Rightarrow> Journal" where
  "recordLocked f m j =
     (if fa_DedupeByLogSeq f then
        (if j_hasCursor j \<and> m_LogSeq m \<le> j_cursor j then j
         else j\<lparr>j_messages := AList.update (m_ID m) m (j_messages j), j_counted := j_counted j @ [m_ID m]\<rparr>)
      else
        j\<lparr>j_messages := AList.update (m_ID m) m (j_messages j),
          j_counted := (if map_of (j_messages j) (m_ID m) = None then j_counted j @ [m_ID m] else j_counted j)\<rparr>)"

definition putConversationLocked :: "Faults \<Rightarrow> Conversation \<Rightarrow> Journal \<Rightarrow> Journal" where
  "putConversationLocked f cv j =
     (if map_of (j_conversations j) (c_ID cv) \<noteq> None \<and> fa_KeepHeldConversation f then j
      else j\<lparr>j_conversations := AList.update (c_ID cv) cv (j_conversations j)\<rparr>)"

definition putUser :: "User \<Rightarrow> Journal \<Rightarrow> Journal" where
  "putUser u j = j\<lparr>j_users := AList.update (u_ID u) u (j_users j)\<rparr>"

text \<open>
  \<open>applyLive\<close>. A message whose conversation or author is not held is discarded and pulls a
  catch-up; the section that finds that out writes nothing, so the method is one step either way.
\<close>

definition applyLive :: "Message \<Rightarrow> Client \<Rightarrow> Client" where
  "applyLive m c =
     (let j = cl_j c in
      if cl_killed c then c
      else if map_of (j_conversations j) (m_ConversationID m) = None \<or> map_of (j_users j) (m_AuthorID m) = None
      then triggerLocked (bump st_IntroductionDiscards_update c)
      else
        let j1 = recordLocked (cl_faults c) m j;
            j2 = (if fa_CursorOnLiveFrames (cl_faults c) \<and> (\<not> j_hasCursor j1 \<or> j_cursor j1 < m_LogSeq m)
                  then j1\<lparr>j_cursor := m_LogSeq m, j_hasCursor := True\<rparr> else j1)
        in bump st_LiveFrames_update (c\<lparr>cl_j := j2\<rparr>))"

definition applyIntroduction :: "Conversation option \<Rightarrow> User option \<Rightarrow> Client \<Rightarrow> Client" where
  "applyIntroduction cv u c =
     (if cl_killed c then c
      else
        let j1 = (case cv of None \<Rightarrow> cl_j c | Some v \<Rightarrow> putConversationLocked (cl_faults c) v (cl_j c));
            j2 = (case u of None \<Rightarrow> j1 | Some v \<Rightarrow> putUser v j1)
        in c\<lparr>cl_j := j2\<rparr>)"

definition onReceipt :: "ServerReceipt \<Rightarrow> Client \<Rightarrow> Client" where
  "onReceipt r c =
     (let self = cr_UserID (cl_credential c) in
      if self \<noteq> '''' \<and> rc_UserID r = self then trigger c else c)"

definition landPage :: "Faults \<Rightarrow> SyncResponse \<Rightarrow> Journal \<Rightarrow> Journal" where
  "landPage f p j =
     (let j1 = fold (recordLocked f) (sr_Messages p) j;
          j2 = fold (putConversationLocked f) (sr_Conversations p) j1;
          j3 = fold putUser (sr_Users p) j2
      in j3\<lparr>j_cursor := (if \<not> j_hasCursor j3 \<or> j_cursor j3 < sr_LogSeq p then sr_LogSeq p else j_cursor j3),
            j_hasCursor := True\<rparr>)"

definition applyPage :: "SyncResponse \<Rightarrow> int \<Rightarrow> Client \<Rightarrow> Client \<times> bool" where
  "applyPage p epoch c =
     (if cl_killed c \<or> j_wipes (cl_j c) \<noteq> epoch then (c, False)
      else (c\<lparr>cl_j := landPage (cl_faults c) p (cl_j c)\<rparr>, True))"

section \<open>The frames of a session\<close>

definition onReadyJournal :: "ServerReady \<Rightarrow> Client \<Rightarrow> Client \<times> bool" where
  "onReadyJournal r c =
     (let j = cl_j c; discard = (j_hasCursor j \<and> rd_LogSeq r < j_cursor j) in
      ((if discard \<and> \<not> fa_SkipWipe (cl_faults c) \<and> \<not> cl_killed c
        then c\<lparr>cl_j := (resetLocked j)\<lparr>j_wipes := j_wipes j + 1\<rparr>\<rparr> else c), discard))"

definition onReadyClient :: "ServerReady \<Rightarrow> bool \<Rightarrow> Client \<Rightarrow> Client" where
  "onReadyClient r discard c =
     (let c1 = bump st_Readys_update (c\<lparr>cl_ready := True, cl_connecting := False, cl_sessionID := rd_SessionID r,
            cl_interval := wrap64 (rd_HeartbeatIntervalSec r * second), cl_missedLimit := rd_MissedPongLimit r\<rparr>);
          c2 = (if discard then bump st_Discards_update c1 else c1);
          c3 = (if discard \<and> fa_SkipWipe (cl_faults c) then c2\<lparr>cl_from0 := True\<rparr> else c2)
      in triggerLocked c3)"

definition onReady :: "ServerReady \<Rightarrow> Client \<Rightarrow> Client" where
  "onReady r c = (case onReadyJournal r c of (c1, discard) \<Rightarrow> onReadyClient r discard c1)"

text \<open>
  One turn of the loop in \<open>session\<close>: what was decoded (\<open>None\<close> where the decoder refuses the
  bytes), with the loop's own variables, the frames it writes back, and the clock.
\<close>

record session_vars =
  sv_readied :: bool
  sv_readyAt :: gotime
  sv_preceding :: "ServerError option"
  sv_written :: "ServerFrame list"

definition onFrame :: "gotime \<Rightarrow> ServerFrame option \<Rightarrow> session_vars \<times> Client \<Rightarrow> session_vars \<times> Client" where
  "onFrame now frame s =
     (case s of (v, c) \<Rightarrow>
        let v0 = v\<lparr>sv_preceding := None\<rparr> in
        case frame of
          None \<Rightarrow> (v0, bump st_Undecodable_update c)
        | Some f \<Rightarrow>
            let c1 = markAnswered c now in
            (case f of
               UnknownFrame \<Rightarrow> (v0, c1)
             | FTyping _ _ \<Rightarrow> (v0, c1)
             | FReady r \<Rightarrow> (v0\<lparr>sv_readied := True, sv_readyAt := now\<rparr>, onReady r c1)
             | FPing i \<Rightarrow> ((if cl_killed c1 then v0 else v0\<lparr>sv_written := sv_written v0 @ [FPong i]\<rparr>), c1)
             | FPong i \<Rightarrow> (v0, bump st_PongsReceived_update (c1\<lparr>cl_outstanding := removeAll i (cl_outstanding c1)\<rparr>))
             | FMessage m \<Rightarrow> (v0, applyLive m c1)
             | FConversation cv \<Rightarrow> (v0, applyIntroduction (Some cv) None c1)
             | FUser u \<Rightarrow> (v0, applyIntroduction None (Some u) c1)
             | FReceipt r \<Rightarrow> (v0, onReceipt r c1)
             | FResyncRequired _ _ \<Rightarrow> (v0, triggerLocked (bump st_Resyncs_update c1))
             | FAck a \<Rightarrow> (v0, answer (ak_ClientID a) (SentAck a) c1)
             | FError e \<Rightarrow>
                 (case se_ClientID e of
                    Some i \<Rightarrow> (v0, answer i (SentRefused e) c1)
                  | None \<Rightarrow> (v0\<lparr>sv_preceding := Some e\<rparr>, c1))))"

text \<open>The start of a session: what the hello carries, and the socket it publishes.\<close>

definition helloResume :: "Client \<Rightarrow> int option" where
  "helloResume c = (if j_hasCursor (cl_j c) then Some (j_cursor (cl_j c)) else None)"

definition publishConn :: "nat \<Rightarrow> Client \<Rightarrow> Client" where
  "publishConn conn c = c\<lparr>cl_conn := Some conn, cl_ready := False, cl_outstanding := []\<rparr>"

datatype heartbeat_act = HeartbeatEnds | HeartbeatSevers | HeartbeatPings string

definition heartbeatLimit :: "int \<Rightarrow> int" where
  "heartbeatLimit limit = (if limit < 1 then 1 else limit)"

definition heartbeatTick :: "nat \<Rightarrow> int \<Rightarrow> Client \<Rightarrow> Client \<times> heartbeat_act" where
  "heartbeatTick conn limit c =
     (if cl_conn c \<noteq> Some conn then (c, HeartbeatEnds)
      else if heartbeatLimit limit \<le> int (length (cl_outstanding c))
      then (bump st_HeartbeatSevers_update c, HeartbeatSevers)
      else
        let n = cl_pingSeq c + 1; i = ''hb-'' @ decimal n
        in (bump st_PingsSent_update (c\<lparr>cl_pingSeq := n, cl_outstanding := List.insert i (cl_outstanding c)\<rparr>),
            if cl_killed c then HeartbeatEnds else HeartbeatPings i))"

section \<open>One page over HTTP\<close>

text \<open>What the client reads of an answer to \<open>GET /sync\<close>; \<open>None\<close> is no answer at all.\<close>

record sync_http =
  sh_status :: int
  sh_code :: "string option"
  sh_page :: "SyncResponse option"

record 'w SyncWorld = "'w World" +
  w_sync :: "'w \<Rightarrow> token \<Rightarrow> int \<Rightarrow> int option \<Rightarrow> 'w \<times> sync_http option"

datatype fetch_error =
  FTransport | FUnauthorized | FStatus int | FDecode | FUnauthorizedThen refresh_error

definition fetchWith ::
  "'w SyncWorld \<Rightarrow> 'w \<Rightarrow> Client \<Rightarrow> int \<Rightarrow> Credential \<Rightarrow> 'w \<times> Client \<times> (fetch_error + SyncResponse)" where
  "fetchWith W w c after cred =
     (let c1 = (if cl_connecting c then bump st_SyncsBeforeReady_update c else c) in
      case w_sync W w (cr_AccessToken cred) after (if 0 < cl_SyncLimit c then Some (cl_SyncLimit c) else None) of
        (w1, None) \<Rightarrow> (w1, c1, Inl FTransport)
      | (w1, Some r) \<Rightarrow>
          if isCatenaryUnauthorized (sh_status r) (sh_code r) then
            (w1, markRefused (markAnswered c1 (w_now W w1)) (cr_AccessToken cred), Inl FUnauthorized)
          else if sh_status r \<noteq> 200 then (w1, c1, Inl (FStatus (sh_status r)))
          else (case sh_page r of
              None \<Rightarrow> (w1, c1, Inl FDecode)
            | Some p \<Rightarrow> (w1, markAnswered c1 (w_now W w1), Inr p)))"

definition fetch :: "'w SyncWorld \<Rightarrow> 'w \<Rightarrow> Client \<Rightarrow> int \<Rightarrow> 'w \<times> Client \<times> (fetch_error + SyncResponse)" where
  "fetch W w c after =
     (let used = cl_credential c in
      case fetchWith W w c after used of
        (w1, c1, Inl FUnauthorized) \<Rightarrow>
          if \<not> cl_Refresh c1 then (w1, c1, Inl FUnauthorized)
          else (case refreshAfter401 (World.truncate W) w1 c1 used of
              (w2, c2, Some RHeld) \<Rightarrow> (w2, c2, Inl FUnauthorized)
            | (w2, c2, Some e) \<Rightarrow> (w2, c2, Inl (FUnauthorizedThen e))
            | (w2, c2, None) \<Rightarrow> fetchWith W w2 c2 after (cl_credential c2))
      | out \<Rightarrow> out)"

section \<open>The catch-up\<close>

definition catchUpEnter :: "Client \<Rightarrow> Client" where
  "catchUpEnter c = c\<lparr>cl_inPass := True\<rparr>"

definition catchUpLeave :: "Client \<Rightarrow> Client" where
  "catchUpLeave c = c\<lparr>cl_inPass := False\<rparr>"

text \<open>The four critical sections of one turn: under \<open>mu\<close>, under \<open>j.mu\<close>, \<open>applyPage\<close>, under \<open>mu\<close>.\<close>

definition catchUpIssue :: "int \<Rightarrow> Client \<Rightarrow> Client \<times> nat \<times> bool" where
  "catchUpIssue next c =
     (let from0 = (cl_from0 c \<and> next < 0)
      in ((if from0 then c\<lparr>cl_from0 := False\<rparr> else c), cl_gen c, from0))"

definition catchUpCursor :: "int \<Rightarrow> bool \<Rightarrow> Client \<Rightarrow> int \<times> int" where
  "catchUpCursor next from0 c =
     (let after = (if next < 0 then j_cursor (cl_j c) else next)
      in (j_wipes (cl_j c), if from0 then 0 else after))"

definition catchUpSettle :: "nat \<Rightarrow> SyncResponse \<Rightarrow> bool \<Rightarrow> Client \<Rightarrow> Client \<times> int \<times> bool" where
  "catchUpSettle issued page applied c =
     (let c1 = bump st_Pages_update c in
      if \<not> applied then (c1, - 1, False)
      else if sr_HasMore page then (c1, sr_LogSeq page, False)
      else if issued = cl_gen c1 \<or> fa_EndCatchUpEarly (cl_faults c1)
      then (c1\<lparr>cl_doneGen := cl_gen c1\<rparr>, - 1, True)
      else (c1, - 1, False))"

text \<open>
  The loop, undisturbed: \<open>None\<close> is a pass that does not end. The third component is the error it
  returns.
\<close>

partial_function (option) catchUpPass ::
  "'w SyncWorld \<Rightarrow> 'w \<Rightarrow> Client \<Rightarrow> int \<Rightarrow> ('w \<times> Client \<times> fetch_error option) option" where
  "catchUpPass W w c next =
     (case catchUpIssue next c of (c1, issued, from0) \<Rightarrow>
      case catchUpCursor next from0 c1 of (epoch, after) \<Rightarrow>
      case fetch W w c1 after of
        (w1, c2, Inl e) \<Rightarrow> Some (w1, c2, Some e)
      | (w1, c2, Inr page) \<Rightarrow>
          (case applyPage page epoch c2 of (c3, applied) \<Rightarrow>
           case catchUpSettle issued page applied c3 of (c4, next', done) \<Rightarrow>
             if done \<or> cl_killed c4 then Some (w1, c4, None) else catchUpPass W w1 c4 next'))"

definition catchUp :: "'w SyncWorld \<Rightarrow> 'w \<Rightarrow> Client \<Rightarrow> ('w \<times> Client \<times> fetch_error option) option" where
  "catchUp W w c =
     map_option (\<lambda>(w', c', e). (w', catchUpLeave c', e)) (catchUpPass W w (catchUpEnter c) (- 1))"

section \<open>Waiting with a refused token\<close>

datatype withheld = WithheldDial | WithheldSync

definition refusedHolding :: "withheld \<Rightarrow> gotime \<Rightarrow> Client \<Rightarrow> Client \<times> bool" where
  "refusedHolding what now c =
     (case refusedDial c of (c1, holding) \<Rightarrow>
        if what = WithheldSync then refusedHold c1 now else (c1, holding))"

definition countWithheld :: "withheld \<Rightarrow> Client \<Rightarrow> Client" where
  "countWithheld what c =
     (if what = WithheldDial then bump st_DialsWithheld_update c else bump st_SyncsWithheld_update c)"

partial_function (option) waitWhileRefused ::
  "'w SyncWorld \<Rightarrow> 'w \<Rightarrow> Client \<Rightarrow> withheld \<Rightarrow> ('w \<times> Client \<times> bool) option" where
  "waitWhileRefused W w c what =
     (case refusedHolding what (w_now W w) c of (c1, holding) \<Rightarrow>
        if \<not> holding then Some (w, c1, \<not> cl_cancelled c1)
        else
          let c2 = countWithheld what c1 in
          (case w_wait W w (cl_backoffMax c2) of (w1, elapsed) \<Rightarrow>
             if \<not> elapsed then Some (w1, c2, False) else waitWhileRefused W w1 c2 what))"

text \<open>
  One turn of \<open>catchUpLoop\<close> with its backoff: nothing pending, the loop ends, or a pass was made,
  after which the loop waits for the returned time where the pass failed.
\<close>

datatype catchup_turn = TurnIdle | TurnEnds | TurnAgain | TurnWaits duration

definition catchUpTurn ::
  "'w SyncWorld \<Rightarrow> 'w \<Rightarrow> Client \<Rightarrow> duration \<Rightarrow> ('w \<times> Client \<times> duration \<times> catchup_turn) option" where
  "catchUpTurn W w c backoff =
     (if \<not> pending c then Some (w, c, backoff, TurnIdle)
      else Option.bind (waitWhileRefused W w c WithheldSync) (\<lambda>(w1, c1, goes).
        if \<not> goes then Some (w1, c1, backoff, TurnEnds)
        else Option.bind (catchUp W w1 c1) (\<lambda>(w2, c2, e).
          case e of
            None \<Rightarrow> Some (w2, c2, cl_backoffMin c2, TurnAgain)
          | Some _ \<Rightarrow>
              if cl_cancelled c2 \<or> cl_killed c2 then Some (w2, c2, backoff, TurnEnds)
              else Some (w2, bump st_SyncErrors_update c2,
                     min (wrap64 (backoff * 2)) (cl_backoffMax c2), TurnWaits backoff))))"

section \<open>The reconnect loop\<close>

datatype run_start = RunAlready | RunKilled | RunTerminal Terminal | RunStarted Client

definition runStart :: "Client \<Rightarrow> run_start" where
  "runStart c =
     (if cl_running c then RunAlready
      else if cl_killed c then RunKilled
      else if t_Kind (cl_terminal c) \<noteq> NotTerminal then RunTerminal (cl_terminal c)
      else RunStarted (c\<lparr>cl_running := True, cl_cancelled := False\<rparr>))"

text \<open>Up to the dial: \<open>None\<close> in the last component is the loop's break.\<close>

definition runDial :: "'w SyncWorld \<Rightarrow> 'w \<Rightarrow> Client \<Rightarrow> ('w \<times> Client \<times> bool) option" where
  "runDial W w c =
     Option.bind (waitWhileRefused W w c WithheldDial) (\<lambda>(w1, c1, goes).
       if \<not> goes then Some (w1, c1, False)
       else case refreshDueWhenAllowed (World.truncate W) w1 c1 of (w2, c2, _) \<Rightarrow>
         if cl_cancelled c2 then Some (w2, c2, False)
         else Some (w2, triggerLocked ((bump st_Dials_update c2)\<lparr>cl_connecting := True\<rparr>), True))"

text \<open>
  What an ended session does: \<open>opened\<close> is false for a dial that failed, \<open>status\<close> is the close
  code, -1 for none. \<open>None\<close> is the loop's break; otherwise the wait, before its jitter, and the
  next backoff.
\<close>

definition sessionEnded ::
  "bool \<Rightarrow> bool \<Rightarrow> ServerError option \<Rightarrow> int \<Rightarrow> duration \<Rightarrow> duration \<Rightarrow> Client \<Rightarrow> Client \<times> (duration \<times> duration) option" where
  "sessionEnded opened readied preceding status readiedFor backoff c =
     (let steady = (resetsRamp readied readiedFor (cl_interval c) \<or>
                    readied \<and> fa_ResetOnAnyReady (cl_faults c));
          c1 = (if opened
                then c\<lparr>cl_stats := (cl_stats c)\<lparr>st_CloseStatuses := AList.update status
                       (1 + (case map_of (st_CloseStatuses (cl_stats c)) status of None \<Rightarrow> 0 | Some n \<Rightarrow> n))
                       (st_CloseStatuses (cl_stats c))\<rparr>\<rparr>
                else bump st_DialErrors_update c)
      in
      if cl_cancelled c1 then (c1, None)
      else
        let (verdict, why) =
              (if \<not> opened then (Reconnect, '''')
               else if fa_NeverTerminal (cl_faults c1) then (Reconnect, snd (classifyClose status preceding))
               else if fa_AlwaysTerminal (cl_faults c1) then (StopProtocolFailure, ''fault: every close is terminal'')
               else classifyClose status preceding)
        in if verdict = StopProtocolFailure
           then (stop c1 \<lparr>t_Kind = TerminalProtocol, t_Reason = why\<rparr>, None)
           else (c1, Some (rampStep (cl_backoffMin c1) (cl_backoffMax c1) steady verdict backoff)))"

datatype run_end = EndKilled | EndTerminal Terminal | EndCancelled

definition runEnd :: "Client \<Rightarrow> Client \<times> run_end" where
  "runEnd c =
     (c\<lparr>cl_running := False, cl_connecting := False, cl_cancelled := True\<rparr>,
      if cl_killed c then EndKilled
      else if t_Kind (cl_terminal c) \<noteq> NotTerminal then EndTerminal (cl_terminal c)
      else EndCancelled)"

end
