(* ===== verification/Client_Compare.thy ===== *)
theory Client_Compare
  imports Client_Log "HOL-Library.Product_Lexorder"
begin

text \<open>
  \<open>internal/client/compare.go\<close>: a journal against the server's log, and two journals against each
  other. The rows of a report are in the order the code sorts them into; a difference of two
  snapshots is a value of \<open>view_diff\<close> where the code prints it.
\<close>

section \<open>A journal against the log\<close>

record LogEntry =
  le_ID :: uuid
  le_ConversationID :: uuid
  le_Seq :: int
  le_LogSeq :: int

record Report =
  rp_ServerMessages :: nat
  rp_ClientMessages :: nat
  rp_Counted :: nat
  rp_Lost :: "uuid list"
  rp_Phantom :: "uuid list"
  rp_Duplicated :: "uuid list"
  rp_Mismatched :: "uuid list"
  rp_SeqConflicts :: "string list"
  rp_OutOfOrder :: "uuid list"

definition Clean :: "Report \<Rightarrow> bool" where
  "Clean r \<longleftrightarrow> length (rp_Lost r) + length (rp_Phantom r) + length (rp_Duplicated r) + length (rp_Mismatched r) +
     length (rp_SeqConflicts r) + length (rp_OutOfOrder r) = 0"

definition intString :: "int \<Rightarrow> string" where
  "intString i = (if i < 0 then CHR ''-'' # decimal (nat (- i)) else decimal (nat i))"

text \<open>The counting loop: an id is reported when its second occurrence is met.\<close>

fun secondSeen :: "uuid list \<Rightarrow> uuid list \<Rightarrow> uuid list" where
  "secondSeen seen [] = []"
| "secondSeen seen (i # ids) =
     (if count_list seen i = 1 then i # secondSeen (i # seen) ids else secondSeen (i # seen) ids)"

fun slotConflicts :: "(uuid \<times> int, uuid) gomap \<Rightarrow> Message list \<Rightarrow> string list" where
  "slotConflicts at [] = []"
| "slotConflicts at (m # ms) =
     (let k = (m_ConversationID m, m_Seq m) in
      case map_of at k of
        Some other \<Rightarrow>
          if other \<noteq> m_ID m
          then (m_ConversationID m @ '' seq '' @ intString (m_Seq m) @ '' held as '' @ other @ '' and '' @ m_ID m)
               # slotConflicts at ms
          else slotConflicts (AList.update k (m_ID m) at) ms
      | None \<Rightarrow> slotConflicts (AList.update k (m_ID m) at) ms)"

fun logDescends :: "Message list \<Rightarrow> bool" where
  "logDescends (a # b # ms) \<longleftrightarrow> m_LogSeq b \<le> m_LogSeq a \<or> logDescends (b # ms)"
| "logDescends _ \<longleftrightarrow> False"

definition thread :: "uuid \<Rightarrow> Message list \<Rightarrow> Message list" where
  "thread conv ms = sort_key (\<lambda>m. (m_Seq m, m_LogSeq m)) (filter (\<lambda>m. m_ConversationID m = conv) ms)"

definition Compare :: "LogEntry list \<Rightarrow> Snapshot \<Rightarrow> Report" where
  "Compare server s =
     (let ms = sn_Messages s;
          committed = fold (\<lambda>e. AList.update (le_ID e) e) server [];
          held = fold (\<lambda>m. AList.update (m_ID m) m) ms []
      in \<lparr>rp_ServerMessages = length server, rp_ClientMessages = length ms, rp_Counted = length (sn_Counted s),
          rp_Lost = sort (filter (\<lambda>i. map_of held i = None) (map le_ID server)),
          rp_Phantom = sort (map m_ID (filter (\<lambda>m. map_of committed (m_ID m) = None) ms)),
          rp_Duplicated = sort (secondSeen [] (sn_Counted s)),
          rp_Mismatched = sort (map m_ID (filter (\<lambda>m. case map_of committed (m_ID m) of None \<Rightarrow> False
            | Some e \<Rightarrow> m_ConversationID m \<noteq> le_ConversationID e \<or> m_Seq m \<noteq> le_Seq e \<or> m_LogSeq m \<noteq> le_LogSeq e) ms)),
          rp_SeqConflicts = sort (slotConflicts [] ms),
          rp_OutOfOrder = sort (filter (\<lambda>conv. logDescends (thread conv ms)) (remdups (map m_ConversationID ms)))\<rparr>)"

section \<open>Two journals\<close>

datatype view_diff =
  CursorDiffers | OnlyInFirst string uuid | RecordDiffers string uuid | OnlyInSecond string uuid

definition byID :: "('a \<Rightarrow> uuid) \<Rightarrow> 'a list \<Rightarrow> (uuid, 'a) gomap" where
  "byID i xs = fold (\<lambda>x. AList.update (i x) x) xs []"

text \<open>
  \<open>diffByID\<close> and \<open>diffStateByID\<close> are one walk, the second over projected records: it compares them
  field by field, which finds a difference exactly where the records differ.
\<close>

definition diffStateByID :: "string \<Rightarrow> 'a list \<Rightarrow> 'a list \<Rightarrow> ('a \<Rightarrow> uuid) \<Rightarrow> ('a \<Rightarrow> 'a) \<Rightarrow> view_diff list" where
  "diffStateByID kind as bs i project =
     (let am = byID i as; bm = byID i bs in
      List.map_filter (\<lambda>(k, av). case map_of bm k of
          None \<Rightarrow> Some (OnlyInFirst kind k)
        | Some bv \<Rightarrow> if project av = project bv then None else Some (RecordDiffers kind k)) am @
      List.map_filter (\<lambda>(k, _). if map_of am k = None then Some (OnlyInSecond kind k) else None) bm)"

definition diffByID :: "string \<Rightarrow> 'a list \<Rightarrow> 'a list \<Rightarrow> ('a \<Rightarrow> uuid) \<Rightarrow> view_diff list" where
  "diffByID kind as bs i = diffStateByID kind as bs i (\<lambda>x. x)"

definition SameView :: "Snapshot \<Rightarrow> Snapshot \<Rightarrow> view_diff list" where
  "SameView a b =
     (if sn_Cursor a \<noteq> sn_Cursor b \<or> sn_HasCursor a \<noteq> sn_HasCursor b then [CursorDiffers] else []) @
     diffByID ''message'' (sn_Messages a) (sn_Messages b) m_ID @
     diffByID ''conversation'' (sn_Conversations a) (sn_Conversations b) c_ID @
     diffByID ''user'' (sn_Users a) (sn_Users b) u_ID"

definition ConversationKindDirect :: string where
  "ConversationKindDirect = ''direct''"

definition SameState :: "Snapshot \<Rightarrow> Snapshot \<Rightarrow> view_diff list" where
  "SameState a b =
     diffStateByID ''message'' (sn_Messages a) (sn_Messages b) m_ID (\<lambda>m. m\<lparr>m_State := '''', m_ReadBy := None\<rparr>) @
     diffStateByID ''conversation'' (sn_Conversations a) (sn_Conversations b) c_ID
       (\<lambda>c. if c_Kind c = ConversationKindDirect then c\<lparr>c_Name := ''''\<rparr> else c) @
     diffStateByID ''user'' (sn_Users a) (sn_Users b) u_ID (\<lambda>u. u)"

section \<open>Maps built by a loop\<close>

lemma fold_update_map_of:
  "map_of (fold (\<lambda>x. AList.update (k x) x) xs m) = map_of (rev (map (\<lambda>x. (k x, x)) xs) @ m)"
proof (induction xs arbitrary: m)
  case (Cons x xs)
  show ?case unfolding fold_simps comp_def Cons.IH by (simp add: map_add_def fun_eq_iff split: option.splits)
qed simp

lemma fold_update_None:
  "map_of (fold (\<lambda>x. AList.update (k x) x) xs []) i = None \<longleftrightarrow> i \<notin> k ` set xs"
  by (auto simp: fold_update_map_of map_of_eq_None_iff image_iff)

lemma fold_update_unique:
  assumes "distinct (map k xs)" "x \<in> set xs"
  shows "map_of (fold (\<lambda>x. AList.update (k x) x) xs []) (k x) = Some x"
  unfolding fold_update_map_of
  by (rule map_of_is_SomeI) (use assms in \<open>auto simp: comp_def rev_map [symmetric] distinct_map\<close>)

lemma wf_byID: "wf_gomap (byID i xs)"
proof -
  have "wf_gomap m \<Longrightarrow> wf_gomap (fold (\<lambda>x. AList.update (i x) x) xs m)" for m
    by (induction xs arbitrary: m) simp_all
  then show ?thesis by (simp add: byID_def)
qed

section \<open>What a report says\<close>

lemma secondSeen_distinct: "distinct (ids @ seen) \<Longrightarrow> secondSeen seen ids = []"
proof (induction ids arbitrary: seen)
  case (Cons i ids)
  then have "count_list seen i = 0" "distinct (ids @ i # seen)" by (auto simp: count_list_0_iff)
  then show ?case using Cons.IH by simp
qed simp

lemma slotConflicts_none:
  assumes "inj_on (\<lambda>m. (m_ConversationID m, m_Seq m)) (set ms \<union> A)" "\<forall>k i. map_of at k = Some i \<longrightarrow> (\<exists>m \<in> A. k = (m_ConversationID m, m_Seq m) \<and> i = m_ID m)"
  shows "slotConflicts at ms = []"
  using assms
proof (induction ms arbitrary: at A)
  case (Cons m ms)
  let ?k = "(m_ConversationID m, m_Seq m)"
  have other: "i = m_ID m" if "map_of at ?k = Some i" for i
  proof -
    from Cons.prems(2) that obtain n where "n \<in> A" "?k = (m_ConversationID n, m_Seq n)" "i = m_ID n" by meson
    then show ?thesis using Cons.prems(1) by (auto simp: inj_on_def)
  qed
  have "slotConflicts (AList.update ?k (m_ID m) at) ms = []"
  proof (rule Cons.IH [of "insert m A"])
    show "inj_on (\<lambda>m. (m_ConversationID m, m_Seq m)) (set ms \<union> insert m A)" using Cons.prems(1) by simp
    show "\<forall>k i. map_of (AList.update ?k (m_ID m) at) k = Some i \<longrightarrow>
        (\<exists>n \<in> insert m A. k = (m_ConversationID n, m_Seq n) \<and> i = m_ID n)"
      using Cons.prems(2) by (auto split: if_splits)
  qed
  then show ?case using other by (auto simp: Let_def split: option.splits)
qed simp

lemma logDescends_sorted: "sorted_wrt (\<lambda>a b. m_LogSeq a < m_LogSeq b) ms \<Longrightarrow> \<not> logDescends ms"
  by (induction ms rule: logDescends.induct) auto

lemma sorted_wrt_thread:
  assumes "\<forall>a \<in> set ms. \<forall>b \<in> set ms. m_ConversationID a = m_ConversationID b \<and> (m_Seq a, m_LogSeq a) \<le> (m_Seq b, m_LogSeq b) \<and> a \<noteq> b \<longrightarrow> m_LogSeq a < m_LogSeq b"
    and "distinct ms"
  shows "\<not> logDescends (thread conv ms)"
proof (rule logDescends_sorted)
  let ?t = "thread conv ms"
  have s: "sorted_wrt (\<lambda>a b. (m_Seq a, m_LogSeq a) \<le> (m_Seq b, m_LogSeq b)) ?t"
    unfolding thread_def using sorted_sort_key [of "\<lambda>m. (m_Seq m, m_LogSeq m)"] by (simp add: sorted_wrt_map)
  have d: "distinct ?t" using assms(2) by (simp add: thread_def)
  have "set ?t \<subseteq> set ms" "\<forall>m \<in> set ?t. m_ConversationID m = conv" by (auto simp: thread_def)
  with d have "a \<in> set ?t \<Longrightarrow> b \<in> set ?t \<Longrightarrow> a \<noteq> b \<Longrightarrow> (m_Seq a, m_LogSeq a) \<le> (m_Seq b, m_LogSeq b) \<Longrightarrow> m_LogSeq a < m_LogSeq b" for a b
    using assms(1) by (metis subsetD)
  moreover have "sorted_wrt (\<lambda>a b. (m_Seq a, m_LogSeq a) \<le> (m_Seq b, m_LogSeq b) \<and> a \<noteq> b) ?t"
    using s d by (induction ?t) (auto simp: sorted_wrt_iff_nth_less nth_eq_iff_index_eq)
  ultimately show "sorted_wrt (\<lambda>a b. m_LogSeq a < m_LogSeq b) ?t" by (auto elim!: sorted_wrt_mono_rel [rotated])
qed

text \<open>
  A server log in which ids and slots are unique and the two ordinals agree, and a store whose
  records are entries of it.
\<close>

definition entryOf :: "Message \<Rightarrow> LogEntry" where
  "entryOf m = \<lparr>le_ID = m_ID m, le_ConversationID = m_ConversationID m, le_Seq = m_Seq m, le_LogSeq = m_LogSeq m\<rparr>"

lemma entryOf_sel [simp]:
  "le_ID (entryOf m) = m_ID m" "le_ConversationID (entryOf m) = m_ConversationID m"
  "le_Seq (entryOf m) = m_Seq m" "le_LogSeq (entryOf m) = m_LogSeq m"
  by (simp_all add: entryOf_def)

definition log_wf :: "LogEntry list \<Rightarrow> bool" where
  "log_wf es \<longleftrightarrow> distinct (map le_ID es) \<and>
     (\<forall>a \<in> set es. \<forall>b \<in> set es. le_ConversationID a = le_ConversationID b \<longrightarrow>
        (le_Seq a = le_Seq b \<longrightarrow> a = b) \<and> (le_Seq a < le_Seq b \<longrightarrow> le_LogSeq a < le_LogSeq b))"

lemma Compare_sound:
  assumes wf: "log_wf server" and ids: "distinct (map m_ID (sn_Messages s))" and cnt: "distinct (sn_Counted s)"
    and held: "\<forall>m \<in> set (sn_Messages s). entryOf m \<in> set server"
  shows "rp_Phantom (Compare server s) = []" "rp_Mismatched (Compare server s) = []"
    "rp_Duplicated (Compare server s) = []" "rp_SeqConflicts (Compare server s) = []" "rp_OutOfOrder (Compare server s) = []"
    "rp_Lost (Compare server s) = sort (filter (\<lambda>i. i \<notin> m_ID ` set (sn_Messages s)) (map le_ID server))"
proof -
  let ?ms = "sn_Messages s" and ?com = "fold (\<lambda>e. AList.update (le_ID e) e) server []"
  have d: "distinct (map le_ID server)" using wf by (simp add: log_wf_def)
  have com: "map_of ?com (m_ID m) = Some (entryOf m)" if "m \<in> set ?ms" for m
    using fold_update_unique [OF d, of "entryOf m"] held that by simp
  have same: "m = n" if "m \<in> set ?ms" "n \<in> set ?ms" "entryOf m = entryOf n" for m n
    using ids that(1,2) entryOf_sel(1) [of m] entryOf_sel(1) [of n] that(3) by (simp add: distinct_map inj_on_def)
  have slot: "m = n" if "m \<in> set ?ms" "n \<in> set ?ms" "m_ConversationID m = m_ConversationID n" "m_Seq m = m_Seq n" for m n
    using wf held that same by (auto simp: log_wf_def)
  show "rp_Phantom (Compare server s) = []" "rp_Mismatched (Compare server s) = []"
    using com by (auto simp: Compare_def Let_def filter_empty_conv)
  show "rp_Duplicated (Compare server s) = []" using secondSeen_distinct [of "sn_Counted s" "[]"] cnt by (simp add: Compare_def Let_def)
  have "inj_on (\<lambda>m. (m_ConversationID m, m_Seq m)) (set ?ms \<union> {})" using slot by (auto simp: inj_on_def)
  then show "rp_SeqConflicts (Compare server s) = []"
    using slotConflicts_none [of ?ms "{}" "[]"] by (simp add: Compare_def Let_def)
  have dm: "distinct ?ms" using ids by (simp add: distinct_map)
  have "m_LogSeq a < m_LogSeq b" if "a \<in> set ?ms" "b \<in> set ?ms" "m_ConversationID a = m_ConversationID b"
    "(m_Seq a, m_LogSeq a) \<le> (m_Seq b, m_LogSeq b)" "a \<noteq> b" for a b
  proof -
    have "m_Seq a \<noteq> m_Seq b" using slot that by auto
    then have "m_Seq a < m_Seq b" using that(4) by auto
    then show ?thesis using wf held that(1-3) unfolding log_wf_def
      by (metis entryOf_sel(2) entryOf_sel(3) entryOf_sel(4))
  qed
  then have "\<not> logDescends (thread conv ?ms)" for conv by (intro sorted_wrt_thread) (use dm in auto)
  then show "rp_OutOfOrder (Compare server s) = []" by (simp add: Compare_def Let_def filter_empty_conv)
  show "rp_Lost (Compare server s) = sort (filter (\<lambda>i. i \<notin> m_ID ` set ?ms) (map le_ID server))"
    by (simp add: Compare_def Let_def fold_update_None)
qed

lemma Clean_iff:
  "Clean r \<longleftrightarrow> rp_Lost r = [] \<and> rp_Phantom r = [] \<and> rp_Duplicated r = [] \<and> rp_Mismatched r = [] \<and>
     rp_SeqConflicts r = [] \<and> rp_OutOfOrder r = []"
  by (auto simp: Clean_def)

lemma diffStateByID_empty:
  "diffStateByID kind as bs i p = [] \<longleftrightarrow>
     (\<forall>k. map_option p (map_of (byID i as) k) = map_option p (map_of (byID i bs) k))"
proof -
  let ?a = "map_of (byID i as)" and ?b = "map_of (byID i bs)"
  have mf: "List.map_filter f xs = [] \<longleftrightarrow> (\<forall>k v. (k, v) \<in> set xs \<longrightarrow> f (k, v) = None)" for f :: "'x \<times> 'y \<Rightarrow> view_diff option" and xs
    by (auto simp: map_filter_def filter_empty_conv)
  have a: "(k, v) \<in> set (byID i as) \<longleftrightarrow> ?a k = Some v" "(k, v) \<in> set (byID i bs) \<longleftrightarrow> ?b k = Some v" for k v
    by (simp_all add: map_of_eq_Some_wf [OF wf_byID])
  have "diffStateByID kind as bs i p = [] \<longleftrightarrow>
      (\<forall>k v. ?a k = Some v \<longrightarrow> (\<exists>w. ?b k = Some w \<and> p v = p w)) \<and> (\<forall>k v. ?b k = Some v \<longrightarrow> ?a k \<noteq> None)"
    unfolding diffStateByID_def Let_def append_is_Nil_conv mf a prod.case
    by (intro arg_cong2 [where f = "(\<and>)"] all_cong1 imp_cong refl) (auto split: option.splits)
  also have "\<dots> \<longleftrightarrow> (\<forall>k. map_option p (?a k) = map_option p (?b k))"
  proof
    assume l: "(\<forall>k v. ?a k = Some v \<longrightarrow> (\<exists>w. ?b k = Some w \<and> p v = p w)) \<and> (\<forall>k v. ?b k = Some v \<longrightarrow> ?a k \<noteq> None)"
    show "\<forall>k. map_option p (?a k) = map_option p (?b k)"
    proof
      fix k show "map_option p (?a k) = map_option p (?b k)"
        using l by (cases "?a k"; cases "?b k") force+
    qed
  next
    assume "\<forall>k. map_option p (?a k) = map_option p (?b k)"
    then have "map_option p (?a k) = map_option p (?b k)" for k by blast
    then show "(\<forall>k v. ?a k = Some v \<longrightarrow> (\<exists>w. ?b k = Some w \<and> p v = p w)) \<and> (\<forall>k v. ?b k = Some v \<longrightarrow> ?a k \<noteq> None)"
      by (metis option.map_disc_iff option.distinct(1) map_option_eq_Some option.map(2))
  qed
  finally show ?thesis .
qed

end
