(* ===== verification/Client_Catchup.thy ===== *)
theory Client_Catchup
  imports Client_Compare
begin

text \<open>
  The catch-up of \<open>client.go\<close> against a log that grows: the session's goroutine, the catch-up's and
  the server as one interleaved system, and what the client holds in every reachable state of it.
  The server is an interface, a locale: what \<open>/sync\<close> and the live frames promise one reader.
\<close>

section \<open>What a write leaves of the store\<close>

definition held_ids :: "Journal \<Rightarrow> uuid set" where
  "held_ids j = gomap_keys (j_messages j)"

definition held_records :: "Journal \<Rightarrow> Message set" where
  "held_records j = snd ` set (j_messages j)"

definition held_wf :: "Journal \<Rightarrow> bool" where
  "held_wf j \<longleftrightarrow> wf_gomap (j_messages j) \<and> (\<forall>(i, m) \<in> set (j_messages j). m_ID m = i) \<and>
     distinct (j_counted j) \<and> set (j_counted j) = held_ids j"

lemma held_ids_record: "held_ids (recordLocked noFaults m j) = insert (m_ID m) (held_ids j)"
  by (simp add: held_ids_def recordLocked_def noFaults_def dom_map_of_conv_image_fst [symmetric])

lemma held_set_record:
  "wf_gomap (j_messages j) \<Longrightarrow> set (j_messages (recordLocked noFaults m j)) \<subseteq> insert (m_ID m, m) (set (j_messages j))"
proof
  fix p assume w: "wf_gomap (j_messages j)" and p: "p \<in> set (j_messages (recordLocked noFaults m j))"
  have "map_of (AList.update (m_ID m) m (j_messages j)) (fst p) = Some (snd p)"
    using p w by (intro map_of_is_SomeI) (simp_all add: recordLocked_def noFaults_def)
  then show "p \<in> insert (m_ID m, m) (set (j_messages j))"
    by (cases p) (auto simp: map_of_SomeD split: if_splits)
qed

lemma held_records_record:
  "wf_gomap (j_messages j) \<Longrightarrow> held_records (recordLocked noFaults m j) \<subseteq> insert m (held_records j)"
  unfolding held_records_def using image_mono [OF held_set_record, of j snd m] by simp

lemma held_wf_record:
  assumes "held_wf j"
  shows "held_wf (recordLocked noFaults m j)"
proof -
  have w: "wf_gomap (j_messages j)" using assms by (simp add: held_wf_def)
  have "(\<forall>(i, n) \<in> set (j_messages (recordLocked noFaults m j)). m_ID n = i)"
    using held_set_record [OF w, of m] assms by (auto simp: held_wf_def)
  moreover have "wf_gomap (j_messages (recordLocked noFaults m j))" using w by (simp add: recordLocked_def noFaults_def)
  moreover have "distinct (j_counted (recordLocked noFaults m j)) \<and>
      set (j_counted (recordLocked noFaults m j)) = insert (m_ID m) (held_ids j)"
    using assms by (auto simp: held_wf_def recordLocked_def noFaults_def held_ids_def map_of_eq_None_iff)
  ultimately show ?thesis by (simp add: held_wf_def held_ids_record)
qed

lemma record_frame [simp]:
  "j_cursor (recordLocked f m j) = j_cursor j" "j_hasCursor (recordLocked f m j) = j_hasCursor j"
  "j_wipes (recordLocked f m j) = j_wipes j"
  by (simp_all add: recordLocked_def)

lemma put_frame [simp]:
  "j_messages (putConversationLocked f cv j) = j_messages j" "j_counted (putConversationLocked f cv j) = j_counted j"
  "j_cursor (putConversationLocked f cv j) = j_cursor j" "j_hasCursor (putConversationLocked f cv j) = j_hasCursor j"
  "j_wipes (putConversationLocked f cv j) = j_wipes j" "j_users (putConversationLocked f cv j) = j_users j"
  "j_messages (putUser u j) = j_messages j" "j_counted (putUser u j) = j_counted j"
  "j_cursor (putUser u j) = j_cursor j" "j_hasCursor (putUser u j) = j_hasCursor j" "j_wipes (putUser u j) = j_wipes j"
  "j_conversations (putUser u j) = j_conversations j"
  by (simp_all add: putConversationLocked_def putUser_def)

lemma fold_same: "(\<And>x j. g (f x j) = g j) \<Longrightarrow> g (fold f xs j) = g j"
  by (induction xs arbitrary: j) simp_all

lemma landPage_frame [simp]:
  "j_messages (landPage f p j) = j_messages (fold (recordLocked f) (sr_Messages p) j)"
  "j_counted (landPage f p j) = j_counted (fold (recordLocked f) (sr_Messages p) j)"
  "j_hasCursor (landPage f p j)" "j_wipes (landPage f p j) = j_wipes j"
  "j_cursor (landPage f p j) = (if \<not> j_hasCursor j \<or> j_cursor j < sr_LogSeq p then sr_LogSeq p else j_cursor j)"
  by (simp_all add: landPage_def Let_def fold_same [where f = putUser] fold_same [where f = "putConversationLocked f"]
      fold_same [where f = "recordLocked f" and g = j_wipes] fold_same [where f = "recordLocked f" and g = j_cursor]
      fold_same [where f = "recordLocked f" and g = j_hasCursor])

lemma fold_record:
  assumes "held_wf j"
  shows "held_wf (fold (recordLocked noFaults) ms j)"
    "held_ids (fold (recordLocked noFaults) ms j) = held_ids j \<union> m_ID ` set ms"
    "held_records (fold (recordLocked noFaults) ms j) \<subseteq> held_records j \<union> set ms"
proof -
  have "held_wf (fold (recordLocked noFaults) ms j) \<and> held_ids (fold (recordLocked noFaults) ms j) = held_ids j \<union> m_ID ` set ms \<and>
      held_records (fold (recordLocked noFaults) ms j) \<subseteq> held_records j \<union> set ms"
    using assms
  proof (induction ms arbitrary: j)
    case (Cons m ms)
    have w: "wf_gomap (j_messages j)" using Cons.prems by (simp add: held_wf_def)
    show ?case
      using Cons.IH [OF held_wf_record [OF Cons.prems, of m]] held_records_record [OF w, of m]
      by (auto simp: held_ids_record)
  qed simp
  then show "held_wf (fold (recordLocked noFaults) ms j)"
    "held_ids (fold (recordLocked noFaults) ms j) = held_ids j \<union> m_ID ` set ms"
    "held_records (fold (recordLocked noFaults) ms j) \<subseteq> held_records j \<union> set ms" by blast+
qed

lemma held_cong:
  "j_messages j = j_messages j' \<Longrightarrow> j_counted j = j_counted j' \<Longrightarrow> held_wf j = held_wf j'"
  "j_messages j = j_messages j' \<Longrightarrow> held_ids j = held_ids j'"
  by (simp_all add: held_wf_def held_ids_def)

lemma landPage_held:
  assumes "held_wf j"
  shows "held_wf (landPage noFaults p j)" "held_ids (landPage noFaults p j) = held_ids j \<union> m_ID ` set (sr_Messages p)"
    "held_records (landPage noFaults p j) \<subseteq> held_records j \<union> set (sr_Messages p)"
proof -
  note f = fold_record [OF assms, of "sr_Messages p"]
  show "held_wf (landPage noFaults p j)" using f(1) held_cong(1) [of "landPage noFaults p j"] by simp
  show "held_ids (landPage noFaults p j) = held_ids j \<union> m_ID ` set (sr_Messages p)"
    using f(2) held_cong(2) [of "landPage noFaults p j"] by simp
  show "held_records (landPage noFaults p j) \<subseteq> held_records j \<union> set (sr_Messages p)"
    using f(3) by (simp add: held_records_def)
qed

section \<open>The interleaved system\<close>

text \<open>
  Where the catch-up's goroutine stands: outside a pass, at the top of its loop, after its first
  and its second critical section, with the page it was answered, and after \<open>applyPage\<close>.
\<close>

datatype catchup_pc =
  CUIdle
| CUTop int
| CUIssued int nat bool
| CUFetching nat int int
| CUAnswered nat int SyncResponse
| CULanded nat SyncResponse bool

text \<open>
  \<open>cs_ready\<close> is a \<open>ready\<close> between the two critical sections of \<open>onReady\<close>; \<open>cs_mark\<close> is the head the
  log had when the last trigger was pulled.
\<close>

record 's catchup_sys =
  cs_srv :: 's
  cs_client :: Client
  cs_pc :: catchup_pc
  cs_ready :: "(ServerReady \<times> bool) option"
  cs_mark :: int

text \<open>What the rest of the client leaves alone: credentials, sends, sockets and counters.\<close>

definition store_same :: "Client \<Rightarrow> Client \<Rightarrow> bool" where
  "store_same c c' \<longleftrightarrow>
     j_messages (cl_j c') = j_messages (cl_j c) \<and> j_conversations (cl_j c') = j_conversations (cl_j c) \<and>
     j_users (cl_j c') = j_users (cl_j c) \<and> j_counted (cl_j c') = j_counted (cl_j c) \<and>
     j_cursor (cl_j c') = j_cursor (cl_j c) \<and> j_hasCursor (cl_j c') = j_hasCursor (cl_j c) \<and>
     j_wipes (cl_j c') = j_wipes (cl_j c) \<and> cl_gen c' = cl_gen c \<and> cl_doneGen c' = cl_doneGen c \<and>
     cl_from0 c' = cl_from0 c \<and> cl_faults c' = cl_faults c"

lemma holdNow_same: "store_same c (fst (holdNow c now note))"
  by (auto simp: store_same_def holdNow_def Let_def)

lemma store_same_trans: "store_same a b \<Longrightarrow> store_same b c \<Longrightarrow> store_same a c"
  by (simp add: store_same_def)

lemma store_same_refl [simp]: "store_same c c"
  by (simp add: store_same_def)

lemma markAnswered_same: "store_same c (markAnswered c now)"
  unfolding markAnswered_def by (rule store_same_trans [OF _ holdNow_same]) (simp add: store_same_def)

text \<open>
  A catch-up that has landed a page with more to come and has not yet read the journal for the
  next request. A wipe in that window is the one interleaving left out below: the next request
  starts where the wiped store had got to.
\<close>

fun between_pages :: "catchup_pc \<Rightarrow> bool" where
  "between_pages (CUTop next) \<longleftrightarrow> 0 \<le> next"
| "between_pages (CUIssued next _ _) \<longleftrightarrow> 0 \<le> next"
| "between_pages (CULanded _ p applied) \<longleftrightarrow> applied \<and> sr_HasMore p"
| "between_pages _ \<longleftrightarrow> False"

definition isReady :: "ServerFrame option \<Rightarrow> bool" where
  "isReady f \<longleftrightarrow> (case f of Some (FReady _) \<Rightarrow> True | _ \<Rightarrow> False)"

definition marked :: "int \<Rightarrow> Client \<Rightarrow> Client \<Rightarrow> int \<Rightarrow> int" where
  "marked head c c' mark = (if cl_gen c' = cl_gen c then mark else head)"

definition withClient :: "('s \<Rightarrow> int) \<Rightarrow> Client \<Rightarrow> 's catchup_sys \<Rightarrow> 's catchup_sys" where
  "withClient headOf c s = s\<lparr>cs_client := c, cs_mark := marked (headOf (cs_srv s)) (cs_client s) c (cs_mark s)\<rparr>"

text \<open>
  One step: the server moves; a frame other than \<open>ready\<close> is handled; \<open>ready\<close> in its two sections;
  a trigger of the client's own or of a dial; the sections of a pass; a request that fails; a
  request that is answered, its page read while the server moved on; anything that leaves the
  store; and a restart over the journal.
\<close>

inductive catchup_step ::
  "('s \<Rightarrow> 's \<Rightarrow> bool) \<Rightarrow> ('s \<Rightarrow> int) \<Rightarrow> ('s \<Rightarrow> int \<Rightarrow> SyncResponse \<Rightarrow> 's \<Rightarrow> bool) \<Rightarrow> ('s \<Rightarrow> Message \<Rightarrow> bool) \<Rightarrow>
   's catchup_sys \<Rightarrow> 's catchup_sys \<Rightarrow> bool"
  for step headOf page frame where
  server: "step (cs_srv s) d \<Longrightarrow> catchup_step step headOf page frame s (s\<lparr>cs_srv := d\<rparr>)"
| frame: "\<not> isReady f \<Longrightarrow> (\<forall>m. f = Some (FMessage m) \<longrightarrow> frame (cs_srv s) m) \<Longrightarrow>
    catchup_step step headOf page frame s (withClient headOf (snd (onFrame now f (v, cs_client s))) s)"
| readyJournal: "cs_ready s = None \<Longrightarrow> onReadyJournal r (cs_client s) = (c, discard) \<Longrightarrow>
    \<not> (discard \<and> between_pages (cs_pc s)) \<Longrightarrow>
    catchup_step step headOf page frame s (s\<lparr>cs_client := c, cs_ready := Some (r, discard)\<rparr>)"
| readyClient: "cs_ready s = Some (r, discard) \<Longrightarrow>
    catchup_step step headOf page frame s ((withClient headOf (onReadyClient r discard (cs_client s)) s)\<lparr>cs_ready := None\<rparr>)"
| pull: "catchup_step step headOf page frame s (withClient headOf (CatchUp (cs_client s)) s)"
| dial: "catchup_step step headOf page frame s
    (withClient headOf (triggerLocked ((bump st_Dials_update (cs_client s))\<lparr>cl_connecting := True\<rparr>)) s)"
| enter: "cs_pc s = CUIdle \<Longrightarrow> pending (cs_client s) \<Longrightarrow>
    catchup_step step headOf page frame s (s\<lparr>cs_client := catchUpEnter (cs_client s), cs_pc := CUTop (- 1)\<rparr>)"
| issue: "cs_pc s = CUTop next \<Longrightarrow> catchUpIssue next (cs_client s) = (c, issued, from0) \<Longrightarrow>
    catchup_step step headOf page frame s (s\<lparr>cs_client := c, cs_pc := CUIssued next issued from0\<rparr>)"
| cursor: "cs_pc s = CUIssued next issued from0 \<Longrightarrow> catchUpCursor next from0 (cs_client s) = (epoch, after) \<Longrightarrow>
    catchup_step step headOf page frame s (s\<lparr>cs_pc := CUFetching issued epoch after\<rparr>)"
| answered: "cs_pc s = CUFetching issued epoch after \<Longrightarrow> page (cs_srv s) after p d \<Longrightarrow>
    catchup_step step headOf page frame s (s\<lparr>cs_srv := d, cs_pc := CUAnswered issued epoch p\<rparr>)"
| failed: "cs_pc s = CUFetching issued epoch after \<Longrightarrow>
    catchup_step step headOf page frame s (s\<lparr>cs_client := catchUpLeave (cs_client s), cs_pc := CUIdle\<rparr>)"
| land: "cs_pc s = CUAnswered issued epoch p \<Longrightarrow> applyPage p epoch (cs_client s) = (c, applied) \<Longrightarrow>
    catchup_step step headOf page frame s (s\<lparr>cs_client := c, cs_pc := CULanded issued p applied\<rparr>)"
| settle: "cs_pc s = CULanded issued p applied \<Longrightarrow> catchUpSettle issued p applied (cs_client s) = (c, next, done) \<Longrightarrow>
    catchup_step step headOf page frame s
      (if done \<or> cl_killed c then s\<lparr>cs_client := catchUpLeave c, cs_pc := CUIdle\<rparr> else s\<lparr>cs_client := c, cs_pc := CUTop next\<rparr>)"
| other: "store_same (cs_client s) c \<Longrightarrow> catchup_step step headOf page frame s (s\<lparr>cs_client := c\<rparr>)"
| restart: "catchup_step step headOf page frame s
    (s\<lparr>cs_client := newClient (cl_j (cs_client s)) refreshing noFaults, cs_pc := CUIdle, cs_ready := None\<rparr>)"

text \<open>A client that has just enrolled, over an empty store.\<close>

definition catchup_start :: "'s \<Rightarrow> Credential \<Rightarrow> bool \<Rightarrow> 's catchup_sys" where
  "catchup_start d cred refreshing =
     \<lparr>cs_srv = d, cs_client = newClient (NewJournal\<lparr>j_credential := cred, j_hasCredential := True\<rparr>) refreshing noFaults,
      cs_pc = CUIdle, cs_ready = None, cs_mark = 0\<rparr>"

definition caught_up :: "'s catchup_sys \<Rightarrow> bool" where
  "caught_up s \<longleftrightarrow> 0 < cl_gen (cs_client s) \<and> \<not> pending (cs_client s) \<and> cs_ready s = None"

section \<open>What the client relies on\<close>

text \<open>
  The server as one reader sees it: a log with unique ids and slots and agreeing ordinals that
  only grows, above its head; a page that is exactly the entries between the cursor and the mark
  it serves, which is at least the head the request met unless more is to come; live frames of
  entries of the log.
\<close>

locale sync_service =
  fixes good :: "'s \<Rightarrow> bool" and step :: "'s \<Rightarrow> 's \<Rightarrow> bool" and headOf :: "'s \<Rightarrow> int" and entries :: "'s \<Rightarrow> LogEntry list"
    and page :: "'s \<Rightarrow> int \<Rightarrow> SyncResponse \<Rightarrow> 's \<Rightarrow> bool" and frame :: "'s \<Rightarrow> Message \<Rightarrow> bool"
  assumes good_step: "good s \<Longrightarrow> step s d \<Longrightarrow> good d"
    and log: "good s \<Longrightarrow> 0 \<le> headOf s \<and> log_wf (entries s) \<and> (\<forall>e \<in> set (entries s). 0 < le_LogSeq e \<and> le_LogSeq e \<le> headOf s)"
    and grows: "good s \<Longrightarrow> step s d \<Longrightarrow> headOf s \<le> headOf d \<and> set (entries s) \<subseteq> set (entries d) \<and>
      (\<forall>e \<in> set (entries d) - set (entries s). headOf s < le_LogSeq e)"
    and page_steps: "good s \<Longrightarrow> page s after p d \<Longrightarrow> step\<^sup>*\<^sup>* s d"
    and page_exact: "good s \<Longrightarrow> page s after p d \<Longrightarrow> 0 \<le> after \<Longrightarrow> after \<le> headOf s \<Longrightarrow>
      map entryOf (sr_Messages p) = filter (\<lambda>e. after < le_LogSeq e \<and> le_LogSeq e \<le> sr_LogSeq p) (entries d)"
    and page_head: "good s \<Longrightarrow> page s after p d \<Longrightarrow> 0 \<le> after \<Longrightarrow> after \<le> headOf s \<Longrightarrow>
      after \<le> sr_LogSeq p \<and> sr_LogSeq p \<le> headOf d \<and> (sr_HasMore p \<longrightarrow> after < sr_LogSeq p) \<and> (\<not> sr_HasMore p \<longrightarrow> headOf s \<le> sr_LogSeq p)"
    and live: "good s \<Longrightarrow> frame s m \<Longrightarrow> entryOf m \<in> set (entries s)"
begin

definition covered :: "'s \<Rightarrow> Journal \<Rightarrow> int \<Rightarrow> bool" where
  "covered s j x \<longleftrightarrow> (\<forall>e \<in> set (entries s). le_LogSeq e \<le> x \<longrightarrow> le_ID e \<in> held_ids j)"

definition store_ok :: "'s \<Rightarrow> Journal \<Rightarrow> bool" where
  "store_ok s j \<longleftrightarrow> held_wf j \<and> (\<forall>m \<in> held_records j. entryOf m \<in> set (entries s)) \<and>
     0 \<le> j_cursor j \<and> j_cursor j \<le> headOf s \<and> covered s j (j_cursor j) \<and> (\<not> j_hasCursor j \<longrightarrow> j_cursor j = 0)"

fun pc_ok :: "'s \<Rightarrow> Client \<Rightarrow> bool \<Rightarrow> int \<Rightarrow> catchup_pc \<Rightarrow> bool" where
  "pc_ok s c quiet mark CUIdle \<longleftrightarrow> True"
| "pc_ok s c quiet mark (CUTop next) \<longleftrightarrow> next \<le> j_cursor (cl_j c)"
| "pc_ok s c quiet mark (CUIssued next issued from0) \<longleftrightarrow> \<not> from0 \<and> issued \<le> cl_gen c \<and> next \<le> j_cursor (cl_j c)"
| "pc_ok s c quiet mark (CUFetching issued epoch after) \<longleftrightarrow>
     issued \<le> cl_gen c \<and> epoch \<le> j_wipes (cl_j c) \<and> 0 \<le> after \<and> after \<le> headOf s \<and>
     (epoch = j_wipes (cl_j c) \<longrightarrow> after \<le> j_cursor (cl_j c))"
| "pc_ok s c quiet mark (CUAnswered issued epoch p) \<longleftrightarrow>
     issued \<le> cl_gen c \<and> epoch \<le> j_wipes (cl_j c) \<and> 0 \<le> sr_LogSeq p \<and> sr_LogSeq p \<le> headOf s \<and>
     entryOf ` set (sr_Messages p) \<subseteq> set (entries s) \<and>
     (epoch = j_wipes (cl_j c) \<longrightarrow> (\<forall>e \<in> set (entries s). le_LogSeq e \<le> sr_LogSeq p \<longrightarrow>
        le_ID e \<in> held_ids (cl_j c) \<union> m_ID ` set (sr_Messages p))) \<and>
     (\<not> sr_HasMore p \<and> issued = cl_gen c \<longrightarrow> mark \<le> sr_LogSeq p)"
| "pc_ok s c quiet mark (CULanded issued p applied) \<longleftrightarrow>
     issued \<le> cl_gen c \<and> (applied \<and> sr_HasMore p \<longrightarrow> sr_LogSeq p \<le> j_cursor (cl_j c)) \<and>
     (applied \<and> \<not> sr_HasMore p \<and> issued = cl_gen c \<and> quiet \<longrightarrow> mark \<le> j_cursor (cl_j c))"

definition client_ok :: "'s \<Rightarrow> Client \<Rightarrow> bool \<Rightarrow> int \<Rightarrow> bool" where
  "client_ok s c quiet mark \<longleftrightarrow> cl_faults c = noFaults \<and> \<not> cl_from0 c \<and> store_ok s (cl_j c) \<and>
     cl_doneGen c \<le> cl_gen c \<and> mark \<le> headOf s \<and>
     (quiet \<and> 0 < cl_gen c \<and> cl_gen c = cl_doneGen c \<longrightarrow> mark \<le> j_cursor (cl_j c))"

definition sys_ok :: "'s catchup_sys \<Rightarrow> bool" where
  "sys_ok s \<longleftrightarrow> good (cs_srv s) \<and> client_ok (cs_srv s) (cs_client s) (cs_ready s = None) (cs_mark s) \<and>
     pc_ok (cs_srv s) (cs_client s) (cs_ready s = None) (cs_mark s) (cs_pc s)"

section \<open>The server moves\<close>

lemma grows_steps:
  assumes "step\<^sup>*\<^sup>* s d" "good s"
  shows "good d \<and> headOf s \<le> headOf d \<and> set (entries s) \<subseteq> set (entries d) \<and> (\<forall>e \<in> set (entries d) - set (entries s). headOf s < le_LogSeq e)"
  using assms
proof (induction rule: rtranclp_induct)
  case (step d d')
  then have g: "good d" "headOf s \<le> headOf d" by blast+
  note n = grows [OF g(1) step.hyps(2)] and d = step.IH [OF step.prems]
  have "headOf s < le_LogSeq e" if "e \<in> set (entries d')" "e \<notin> set (entries s)" for e
  proof (cases "e \<in> set (entries d)")
    case False
    then have "headOf d < le_LogSeq e" using n that(1) by blast
    then show ?thesis using g(2) by linarith
  qed (use d that in blast)
  moreover have "headOf s \<le> headOf d'" "set (entries s) \<subseteq> set (entries d')" using n d g(2) by (linarith, blast)
  ultimately show ?case using good_step [OF g(1) step.hyps(2)] by blast
qed simp

lemma steps_facts:
  assumes "step\<^sup>*\<^sup>* s d" "good s"
  shows "good d" "headOf s \<le> headOf d" "e \<in> set (entries s) \<Longrightarrow> e \<in> set (entries d)"
    "e \<in> set (entries d) \<Longrightarrow> le_LogSeq e \<le> headOf s \<Longrightarrow> e \<in> set (entries s)"
  using grows_steps [OF assms] by (blast, blast, blast, force)

lemma store_ok_steps:
  assumes "step\<^sup>*\<^sup>* s d" "good s" "store_ok s j"
  shows "store_ok d j"
proof -
  have "covered d j (j_cursor j)"
    using assms(3) steps_facts(4) [OF assms(1,2)] unfolding store_ok_def covered_def by (meson order_trans)
  then show ?thesis using assms(3) steps_facts(2,3) [OF assms(1,2)] unfolding store_ok_def by (meson order_trans)
qed

lemma client_ok_steps: "step\<^sup>*\<^sup>* s d \<Longrightarrow> good s \<Longrightarrow> client_ok s c q m \<Longrightarrow> client_ok d c q m"
  unfolding client_ok_def using steps_facts(2) [of s d] store_ok_steps [of s d "cl_j c"] order_trans by blast

lemma pc_ok_steps:
  assumes "step\<^sup>*\<^sup>* s d" "good s" "pc_ok s c q m pc"
  shows "pc_ok d c q m pc"
proof (cases pc)
  case (CUAnswered issued epoch p)
  have "le_ID e \<in> held_ids (cl_j c) \<union> m_ID ` set (sr_Messages p)"
    if "epoch = j_wipes (cl_j c)" "e \<in> set (entries d)" "le_LogSeq e \<le> sr_LogSeq p" for e
  proof -
    have "e \<in> set (entries s)" using assms(3) that(2,3) steps_facts(4) [OF assms(1,2)] unfolding CUAnswered by force
    then show ?thesis using assms(3) that(1,3) unfolding CUAnswered by simp
  qed
  moreover have "entryOf ` set (sr_Messages p) \<subseteq> set (entries d)"
    using assms(3) steps_facts(3) [OF assms(1,2)] unfolding CUAnswered by fastforce
  ultimately show ?thesis using assms(3) steps_facts(2) [OF assms(1,2)] unfolding CUAnswered by auto
qed (use assms(3) steps_facts(2) [OF assms(1,2)] in auto)

section \<open>The client moves\<close>

text \<open>
  A step that keeps the cursor and what is held. Every handler but the wipe, and every part of
  the client that is not about the log, is one.
\<close>

definition keeps :: "Client \<Rightarrow> Client \<Rightarrow> bool" where
  "keeps c c' \<longleftrightarrow> held_ids (cl_j c) \<subseteq> held_ids (cl_j c') \<and> j_cursor (cl_j c') = j_cursor (cl_j c) \<and>
     j_hasCursor (cl_j c') = j_hasCursor (cl_j c) \<and> j_wipes (cl_j c') = j_wipes (cl_j c) \<and> cl_faults c' = cl_faults c \<and>
     cl_from0 c' = cl_from0 c \<and> cl_doneGen c' = cl_doneGen c \<and> cl_gen c \<le> cl_gen c'"

lemma pc_ok_keeps:
  assumes "keeps c c'" "pc_ok s c q m pc"
  shows "pc_ok s c' q (marked h c c' m) pc"
  using assms by (cases pc) (auto simp: keeps_def marked_def)

lemma client_ok_keeps:
  assumes "keeps c c'" "client_ok s c q m" "store_ok s (cl_j c')"
  shows "client_ok s c' q (marked (headOf s) c c' m)"
  using assms by (auto simp: keeps_def marked_def client_ok_def)

lemma withClient_ok:
  assumes "sys_ok s" "keeps (cs_client s) c" "store_ok (cs_srv s) (cl_j c)"
  shows "sys_ok (withClient headOf c s)"
  using assms client_ok_keeps [OF assms(2)] pc_ok_keeps [OF assms(2)] by (simp add: sys_ok_def withClient_def)

lemma store_ok_same:
  "store_ok s j \<Longrightarrow> j_messages j' = j_messages j \<Longrightarrow> j_counted j' = j_counted j \<Longrightarrow> j_cursor j' = j_cursor j \<Longrightarrow>
   j_hasCursor j' = j_hasCursor j \<Longrightarrow> store_ok s j'"
  by (simp add: store_ok_def covered_def held_wf_def held_ids_def held_records_def)

lemma store_ok_record:
  assumes "store_ok s j" "entryOf m \<in> set (entries s)"
  shows "store_ok s (recordLocked noFaults m j)"
proof -
  have w: "held_wf j" "wf_gomap (j_messages j)" using assms(1) by (simp_all add: store_ok_def held_wf_def)
  have "\<forall>n \<in> held_records (recordLocked noFaults m j). entryOf n \<in> set (entries s)"
    using held_records_record [OF w(2), of m] assms unfolding store_ok_def by blast
  then show ?thesis using assms(1) held_wf_record [OF w(1), of m]
    unfolding store_ok_def covered_def held_ids_record by simp
qed

lemma store_ok_wiped:
  "store_ok s j \<Longrightarrow> good s \<Longrightarrow> store_ok s ((resetLocked j)\<lparr>j_wipes := w\<rparr>)"
  using log [of s] by (fastforce simp: store_ok_def covered_def held_wf_def held_ids_def held_records_def resetLocked_def)

section \<open>The handlers\<close>

lemma trigger_keeps: "cl_faults c = noFaults \<Longrightarrow> keeps c (triggerLocked c)"
  by (simp add: keeps_def triggerLocked_def)

lemma keeps_trans: "keeps a b \<Longrightarrow> keeps b c \<Longrightarrow> keeps a c"
  by (auto simp: keeps_def)

lemma store_same_keeps: "store_same c c' \<Longrightarrow> keeps c c'"
  by (simp add: store_same_def keeps_def held_ids_def)

lemma store_same_ok: "store_same c c' \<Longrightarrow> store_ok s (cl_j c) \<Longrightarrow> store_ok s (cl_j c')"
  by (erule store_ok_same) (simp_all add: store_same_def)

lemma applyLive_ok:
  assumes "cl_faults c = noFaults" "store_ok s (cl_j c)" "entryOf m \<in> set (entries s)"
  shows "keeps c (applyLive m c) \<and> store_ok s (cl_j (applyLive m c))"
proof -
  have "held_ids (cl_j c) \<subseteq> held_ids (recordLocked noFaults m (cl_j c))" by (auto simp: held_ids_record)
  moreover have "keeps c (triggerLocked (bump st_IntroductionDiscards_update c)) \<and>
      store_ok s (cl_j (triggerLocked (bump st_IntroductionDiscards_update c)))"
    using assms(1,2) by (simp add: keeps_def triggerLocked_def)
  ultimately show ?thesis
    using assms store_ok_record [OF assms(2,3)] unfolding applyLive_def Let_def by (simp add: keeps_def noFaults_def)
qed

lemma applyIntroduction_ok:
  "store_ok s (cl_j c) \<Longrightarrow> keeps c (applyIntroduction cv u c) \<and> store_ok s (cl_j (applyIntroduction cv u c))"
  by (auto simp: applyIntroduction_def Let_def keeps_def held_ids_def split: option.splits intro: store_ok_same)

lemma onFrame_ok:
  assumes f: "cl_faults c = noFaults" and ok: "store_ok s (cl_j c)" and nr: "\<not> isReady fr"
    and m: "\<forall>m. fr = Some (FMessage m) \<longrightarrow> entryOf m \<in> set (entries s)"
  shows "keeps c (snd (onFrame now fr (v, c))) \<and> store_ok s (cl_j (snd (onFrame now fr (v, c))))"
proof -
  let ?c = "markAnswered c now"
  have k: "store_same c ?c" by (rule markAnswered_same)
  then have f1: "cl_faults ?c = noFaults" and ok1: "store_ok s (cl_j ?c)" and k1: "keeps c ?c"
    using f store_same_keeps [OF k] store_same_ok [OF k ok] by (simp_all add: store_same_def)
  have step: "keeps ?c c' \<and> store_ok s (cl_j c') \<Longrightarrow> keeps c c' \<and> store_ok s (cl_j c')" for c'
    using k1 keeps_trans by blast
  have trig: "keeps ?c (triggerLocked c') \<and> store_ok s (cl_j (triggerLocked c'))" if "store_same ?c c'" for c'
    using that f1 ok1 keeps_trans [OF store_same_keeps trigger_keeps] store_same_ok [OF that ok1] by (simp add: store_same_def triggerLocked_def)
  have same: "store_same ?c c' \<Longrightarrow> keeps ?c c' \<and> store_ok s (cl_j c')" for c'
    using ok1 store_same_keeps store_same_ok by blast
  have bumped: "store_same a b \<Longrightarrow> store_same a (bump u b)" for u a b by (simp add: store_same_def)
  show ?thesis
  proof (cases fr)
    case None
    then show ?thesis using ok store_same_keeps [OF bumped, of c c] by (simp add: onFrame_def store_same_def)
  next
    case (Some g)
    show ?thesis
    proof (cases g)
      case (FReady r)
      then show ?thesis using nr Some by (simp add: isReady_def)
    next
      case (FMessage m')
      then show ?thesis using step [OF applyLive_ok [OF f1 ok1]] m Some by (simp add: onFrame_def Let_def)
    next
      case (FConversation cv)
      then show ?thesis using step [OF applyIntroduction_ok [OF ok1]] Some by (simp add: onFrame_def Let_def)
    next
      case (FUser u)
      then show ?thesis using step [OF applyIntroduction_ok [OF ok1]] Some by (simp add: onFrame_def Let_def)
    next
      case (FReceipt r)
      then show ?thesis using step [OF trig, of ?c] step [OF same, of ?c] Some
        by (simp add: onFrame_def Let_def onReceipt_def trigger_def store_same_def)
    next
      case (FResyncRequired r n)
      then show ?thesis using step [OF trig [OF bumped]] Some by (simp add: onFrame_def Let_def store_same_def)
    qed (use Some step [OF same] bumped in \<open>auto simp: onFrame_def Let_def answer_def store_same_def split: option.splits\<close>)
  qed
qed

lemma readyJournal_ok:
  assumes ok: "sys_ok s" and r: "onReadyJournal r (cs_client s) = (c, discard)" "\<not> (discard \<and> between_pages (cs_pc s))"
  shows "sys_ok (s\<lparr>cs_client := c, cs_ready := Some (r, discard)\<rparr>)"
proof -
  let ?d = "cs_srv s" and ?c = "cs_client s"
  have c: "client_ok ?d ?c (cs_ready s = None) (cs_mark s)" and g: "good ?d" using ok by (simp_all add: sys_ok_def)
  show ?thesis
  proof (cases "discard \<and> \<not> cl_killed ?c")
    case True
    then have c': "c = ?c\<lparr>cl_j := (resetLocked (cl_j ?c))\<lparr>j_wipes := j_wipes (cl_j ?c) + 1\<rparr>\<rparr>"
      using r c by (auto simp: onReadyJournal_def Let_def client_ok_def noFaults_def)
    then have "client_ok ?d c False (cs_mark s)"
      using c store_ok_wiped [OF _ g] by (simp add: client_ok_def)
    moreover have "pc_ok ?d c False (cs_mark s) (cs_pc s)"
      using ok r(2) True c' by (cases "cs_pc s") (auto simp: sys_ok_def resetLocked_def)
    ultimately show ?thesis using g by (simp add: sys_ok_def)
  next
    case False
    then have "c = ?c" using r by (auto simp: onReadyJournal_def Let_def)
    then have "client_ok ?d c False (cs_mark s)" "pc_ok ?d c False (cs_mark s) (cs_pc s)"
      using ok by (simp add: sys_ok_def client_ok_def, cases "cs_pc s") (auto simp: sys_ok_def)
    then show ?thesis using g by (simp add: sys_ok_def)
  qed
qed

lemma readyClient_ok:
  assumes ok: "sys_ok s"
  shows "sys_ok ((withClient headOf (onReadyClient r discard (cs_client s)) s)\<lparr>cs_ready := None\<rparr>)"
proof -
  let ?d = "cs_srv s" and ?c = "cs_client s" and ?c' = "onReadyClient r discard (cs_client s)"
  have c: "client_ok ?d ?c (cs_ready s = None) (cs_mark s)" and g: "good ?d" using ok by (simp_all add: sys_ok_def)
  have f: "cl_j ?c' = cl_j ?c" "cl_faults ?c' = noFaults" "\<not> cl_from0 ?c'" "cl_doneGen ?c' = cl_doneGen ?c" "cl_gen ?c' = cl_gen ?c + 1"
    using c by (auto simp: onReadyClient_def Let_def triggerLocked_def bump_def client_ok_def noFaults_def)
  have "client_ok ?d ?c' True (headOf ?d)" using c f by (simp add: client_ok_def)
  moreover have "pc_ok ?d ?c' True (headOf ?d) (cs_pc s)" using ok f by (cases "cs_pc s") (auto simp: sys_ok_def)
  ultimately show ?thesis using g f by (simp add: sys_ok_def withClient_def marked_def)
qed

lemma answered_ok:
  assumes ok: "sys_ok s" and pc: "cs_pc s = CUFetching issued epoch after" and p: "page (cs_srv s) after p d"
  shows "sys_ok (s\<lparr>cs_srv := d, cs_pc := CUAnswered issued epoch p\<rparr>)"
proof -
  let ?s = "cs_srv s" and ?c = "cs_client s"
  have g: "good ?s" and c: "client_ok ?s ?c (cs_ready s = None) (cs_mark s)" and k: "pc_ok ?s ?c (cs_ready s = None) (cs_mark s) (cs_pc s)"
    using ok by (simp_all add: sys_ok_def)
  have a: "0 \<le> after" "after \<le> headOf ?s" using k pc by simp_all
  note st = page_steps [OF g p] and h = page_head [OF g p a] and x = page_exact [OF g p a]
  have cd: "client_ok d ?c (cs_ready s = None) (cs_mark s)" by (rule client_ok_steps [OF st g c])
  have msgs: "entryOf ` set (sr_Messages p) = {e \<in> set (entries d). after < le_LogSeq e \<and> le_LogSeq e \<le> sr_LogSeq p}"
    using arg_cong [OF x, of set] by auto
  have "le_ID e \<in> held_ids (cl_j ?c) \<union> m_ID ` set (sr_Messages p)"
    if e: "epoch = j_wipes (cl_j ?c)" "e \<in> set (entries d)" "le_LogSeq e \<le> sr_LogSeq p" for e
  proof (cases "le_LogSeq e \<le> after")
    case True
    then have "le_LogSeq e \<le> j_cursor (cl_j ?c)" using k pc e(1) by simp
    then show ?thesis using cd e(2) by (simp add: client_ok_def store_ok_def covered_def)
  next
    case False
    then have "e \<in> entryOf ` set (sr_Messages p)" using msgs e by simp
    then show ?thesis by auto
  qed
  moreover have "cs_mark s \<le> headOf ?s" using c by (simp add: client_ok_def)
  ultimately have "pc_ok d ?c (cs_ready s = None) (cs_mark s) (CUAnswered issued epoch p)"
    using k pc h a msgs by auto
  then show ?thesis using cd steps_facts(1) [OF st g] by (simp add: sys_ok_def)
qed

lemma land_ok:
  assumes ok: "sys_ok s" and pc: "cs_pc s = CUAnswered issued epoch p" and l: "applyPage p epoch (cs_client s) = (c, applied)"
  shows "sys_ok (s\<lparr>cs_client := c, cs_pc := CULanded issued p applied\<rparr>)"
proof -
  let ?s = "cs_srv s" and ?c = "cs_client s" and ?q = "cs_ready s = None" and ?m = "cs_mark s"
  have g: "good ?s" and ck: "client_ok ?s ?c ?q ?m" and k: "pc_ok ?s ?c ?q ?m (CUAnswered issued epoch p)"
    using ok pc by (simp_all add: sys_ok_def)
  show ?thesis
  proof (cases applied)
    case False
    then have "c = ?c" using l by (auto simp: applyPage_def split: if_splits)
    then show ?thesis using False g ck k by (simp add: sys_ok_def)
  next
    case True
    have fl: "cl_faults ?c = noFaults" using ck by (simp add: client_ok_def)
    with True l have c: "c = ?c\<lparr>cl_j := landPage noFaults p (cl_j ?c)\<rparr>" and e: "j_wipes (cl_j ?c) = epoch"
      by (auto simp: applyPage_def split: if_splits)
    let ?j = "cl_j ?c" and ?j' = "landPage noFaults p (cl_j ?c)"
    have so: "store_ok ?s ?j" using ck by (simp add: client_ok_def)
    then have w: "held_wf ?j" by (simp add: store_ok_def)
    note lp = landPage_held [OF w, of p]
    have cur: "j_cursor ?j' = max (j_cursor ?j) (sr_LogSeq p)" using so k by (auto simp: store_ok_def)
    have "\<forall>m \<in> held_records ?j'. entryOf m \<in> set (entries ?s)" using lp(3) so k unfolding store_ok_def by auto
    moreover have "covered ?s ?j' (j_cursor ?j')"
      unfolding covered_def lp(2) cur using so k e by (auto simp: store_ok_def covered_def max_def split: if_splits)
    ultimately have "store_ok ?s ?j'" using so k lp(1) cur by (auto simp: store_ok_def)
    then have "client_ok ?s c ?q ?m" using ck c cur by (auto simp: client_ok_def)
    moreover have "pc_ok ?s c ?q ?m (CULanded issued p applied)" using k c cur by auto
    ultimately show ?thesis using g by (simp add: sys_ok_def)
  qed
qed

lemma settle_ok:
  assumes ok: "sys_ok s" and pc: "cs_pc s = CULanded issued p applied" and st: "catchUpSettle issued p applied (cs_client s) = (c, next, done)"
  shows "sys_ok (s\<lparr>cs_client := catchUpLeave c, cs_pc := CUIdle\<rparr>)" "sys_ok (s\<lparr>cs_client := c, cs_pc := CUTop next\<rparr>)"
proof -
  let ?s = "cs_srv s" and ?c = "cs_client s" and ?q = "cs_ready s = None" and ?m = "cs_mark s"
  have g: "good ?s" and ck: "client_ok ?s ?c ?q ?m" and k: "pc_ok ?s ?c ?q ?m (CULanded issued p applied)"
    using ok pc by (simp_all add: sys_ok_def)
  have c: "cl_j c = cl_j ?c" "cl_faults c = cl_faults ?c" "cl_from0 c = cl_from0 ?c" "cl_gen c = cl_gen ?c"
    and d: "cl_doneGen c = (if done then cl_gen ?c else cl_doneGen ?c)"
    and dn: "done \<Longrightarrow> applied \<and> \<not> sr_HasMore p \<and> issued = cl_gen ?c"
    and n: "next = (if applied \<and> sr_HasMore p then sr_LogSeq p else - 1)"
    using st ck by (auto simp: catchUpSettle_def Let_def client_ok_def noFaults_def split: if_splits)
  have "client_ok ?s c ?q ?m" using ck k c d dn by (auto simp: client_ok_def)
  moreover have "next \<le> j_cursor (cl_j c)" using n k c ck by (auto simp: client_ok_def store_ok_def)
  ultimately show "sys_ok (s\<lparr>cs_client := catchUpLeave c, cs_pc := CUIdle\<rparr>)" "sys_ok (s\<lparr>cs_client := c, cs_pc := CUTop next\<rparr>)"
    using g by (simp_all add: sys_ok_def client_ok_def catchUpLeave_def)
qed

section \<open>Every reachable state\<close>

lemma catchup_step_ok:
  assumes "catchup_step step headOf page frame s s'" "sys_ok s"
  shows "sys_ok s'"
  using assms
proof (induction rule: catchup_step.induct)
  case (server s d)
  then have "step\<^sup>*\<^sup>* (cs_srv s) d" "good (cs_srv s)" "good d" using good_step by (auto simp: sys_ok_def)
  then show ?case using server.prems client_ok_steps [of "cs_srv s" d] pc_ok_steps [of "cs_srv s" d] by (simp add: sys_ok_def)
next
  case (frame f s now v)
  then have "client_ok (cs_srv s) (cs_client s) (cs_ready s = None) (cs_mark s)" "good (cs_srv s)" by (simp_all add: sys_ok_def)
  then show ?case using frame live onFrame_ok [of "cs_client s" "cs_srv s" f now v]
    by (intro withClient_ok) (auto simp: client_ok_def)
next
  case (pull s)
  then show ?case by (intro withClient_ok)
      (auto simp: CatchUp_def trigger_def triggerLocked_def keeps_def sys_ok_def client_ok_def)
next
  case (dial s)
  then show ?case by (intro withClient_ok)
      (auto simp: triggerLocked_def keeps_def sys_ok_def client_ok_def)
next
  case (issue s "next" c issued from0)
  then show ?case by (auto simp: catchUpIssue_def Let_def sys_ok_def client_ok_def)
next
  case (cursor s "next" issued from0 epoch after)
  then show ?case by (auto simp: catchUpCursor_def Let_def sys_ok_def client_ok_def store_ok_def split: if_splits)
next
  case (settle s issued p applied c "next" fin)
  then show ?case using settle_ok [of s] by (cases "fin \<or> cl_killed c") auto
next
  case (other s c)
  then have k: "keeps (cs_client s) c" "store_ok (cs_srv s) (cl_j c)"
    using store_same_keeps store_same_ok by (auto simp: sys_ok_def client_ok_def)
  have "withClient headOf c s = s\<lparr>cs_client := c\<rparr>" using other by (simp add: withClient_def marked_def store_same_def)
  then show ?case using withClient_ok [OF other.prems k] by simp
next
  case (restart s refreshing)
  then show ?case by (auto simp: sys_ok_def client_ok_def newClient_def)
next
  case (enter s)
  then show ?case by (simp add: sys_ok_def client_ok_def catchUpEnter_def store_ok_def)
next
  case (failed s issued epoch after)
  then show ?case by (simp add: sys_ok_def client_ok_def catchUpLeave_def)
qed (simp_all add: readyJournal_ok readyClient_ok answered_ok land_ok)

lemma start_ok: "good d \<Longrightarrow> sys_ok (catchup_start d cred refreshing)"
  using log [of d] by (fastforce simp: catchup_start_def sys_ok_def client_ok_def store_ok_def covered_def newClient_def
      NewJournal_def resetLocked_def held_wf_def held_ids_def held_records_def)

lemma reach_ok:
  assumes "(catchup_step step headOf page frame)\<^sup>*\<^sup>* (catchup_start d cred refreshing) s" "good d"
  shows "sys_ok s"
  using assms by (induction rule: rtranclp_induct) (auto intro: start_ok catchup_step_ok)

lemma snapshot_records:
  assumes "held_wf j"
  shows "set (sn_Messages (takeSnapshot j)) = held_records j" "m_ID ` held_records j = held_ids j"
    "distinct (map m_ID (sn_Messages (takeSnapshot j)))"
proof -
  have ids: "map m_ID (map snd (j_messages j)) = map fst (j_messages j)"
    using assms by (auto simp: held_wf_def)
  show "set (sn_Messages (takeSnapshot j)) = held_records j" by (simp add: takeSnapshot_def held_records_def)
  show "m_ID ` held_records j = held_ids j"
    using arg_cong [OF ids, of set] by (simp add: held_records_def held_ids_def image_image)
  have "distinct (map m_ID (map snd (j_messages j)))" unfolding ids using assms by (simp add: held_wf_def)
  then show "distinct (map m_ID (sn_Messages (takeSnapshot j)))"
    unfolding distinct_map [of m_ID] by (simp add: takeSnapshot_def)
qed

lemma report_of_reachable:
  assumes r: "(catchup_step step headOf page frame)\<^sup>*\<^sup>* (catchup_start d cred refreshing) s" "good d"
  defines "rep \<equiv> Compare (entries (cs_srv s)) (takeSnapshot (cl_j (cs_client s)))"
  shows "rp_Phantom rep = [] \<and> rp_Mismatched rep = [] \<and> rp_Duplicated rep = [] \<and> rp_SeqConflicts rep = [] \<and> rp_OutOfOrder rep = []"
    and "caught_up s \<Longrightarrow> i \<in> set (rp_Lost rep) \<Longrightarrow> \<exists>e \<in> set (entries (cs_srv s)). le_ID e = i \<and> cs_mark s < le_LogSeq e"
    and "caught_up s \<Longrightarrow> headOf (cs_srv s) = cs_mark s \<Longrightarrow> Clean rep"
proof -
  let ?j = "cl_j (cs_client s)" and ?es = "entries (cs_srv s)"
  have ok: "sys_ok s" by (rule reach_ok [OF r])
  then have g: "good (cs_srv s)" and st: "store_ok (cs_srv s) ?j" and c: "client_ok (cs_srv s) (cs_client s) (cs_ready s = None) (cs_mark s)"
    by (simp_all add: sys_ok_def client_ok_def)
  then have w: "held_wf ?j" by (simp add: store_ok_def)
  note sn = snapshot_records [OF w]
  have cnt: "distinct (sn_Counted (takeSnapshot ?j))" using w by (simp add: takeSnapshot_def held_wf_def)
  have held: "\<forall>m \<in> set (sn_Messages (takeSnapshot ?j)). entryOf m \<in> set ?es" using st sn(1) by (simp add: store_ok_def)
  note snd = Compare_sound [OF _ sn(3) cnt held, folded rep_def]
  have wf: "log_wf ?es" using log [OF g] by blast
  show five: "rp_Phantom rep = [] \<and> rp_Mismatched rep = [] \<and> rp_Duplicated rep = [] \<and> rp_SeqConflicts rep = [] \<and> rp_OutOfOrder rep = []"
    using snd(1-5) [OF wf] by simp
  have lost: "\<exists>e \<in> set ?es. le_ID e = i \<and> cs_mark s < le_LogSeq e" if cu: "caught_up s" and i: "i \<in> set (rp_Lost rep)" for i
  proof -
    have "cs_mark s \<le> j_cursor ?j" using c cu by (simp add: client_ok_def caught_up_def pending_def)
    moreover obtain e where e: "e \<in> set ?es" "le_ID e = i" "i \<notin> held_ids ?j" using i snd(6) [OF wf] sn(1,2) by auto
    ultimately show ?thesis using st by (intro bexI [of _ e]) (auto simp: store_ok_def covered_def intro: leI)
  qed
  then show "caught_up s \<Longrightarrow> i \<in> set (rp_Lost rep) \<Longrightarrow> \<exists>e \<in> set ?es. le_ID e = i \<and> cs_mark s < le_LogSeq e" by blast
  show "Clean rep" if "caught_up s" "headOf (cs_srv s) = cs_mark s"
  proof -
    have "set (rp_Lost rep) = {}"
    proof (rule ccontr)
      assume "set (rp_Lost rep) \<noteq> {}"
      then obtain i where "i \<in> set (rp_Lost rep)" by (meson ex_in_conv)
      from lost [OF that(1) this] log [OF g] that(2) show False by force
    qed
    then show ?thesis using five by (simp add: Clean_iff)
  qed
qed

end

end
