(* ===== verification/Client_Pass.thy ===== *)
theory Client_Pass
  imports Client_Catchup
begin

text \<open>
  One undisturbed pass of \<open>catchUp\<close> against a server that answers: it ends, and what it leaves. And
  what a page request does to the store while it is in flight: nothing, whether it is answered,
  refused or drives a refresh.
\<close>

section \<open>A request leaves the store alone\<close>

lemma bump_same [simp]: "store_same c (bump u c)"
  by (simp add: store_same_def)

lemma propose_store:
  "propose j tok again m = Inr (Some (p, j')) \<Longrightarrow>
     j_messages j' = j_messages j \<and> j_conversations j' = j_conversations j \<and> j_users j' = j_users j \<and> j_counted j' = j_counted j \<and>
     j_cursor j' = j_cursor j \<and> j_hasCursor j' = j_hasCursor j \<and> j_wipes j' = j_wipes j"
  by (auto simp: propose_def stampLocked_def split: if_splits option.splits)

lemma clientPropose_same:
  assumes "clientPropose W w c tok again = (w', c', r)"
  shows "store_same c c'"
proof -
  obtain wm m where "w_mint W w = (wm, m)" by fastforce
  with assms show ?thesis
    by (auto simp: clientPropose_def Let_def store_same_def dest: propose_store split: if_splits option.splits sum.splits prod.splits)
qed

lemma exchangeLoop_same:
  assumes "exchangeLoop W steps w c held tok again n = (w', c', res)"
  shows "store_same c c'"
  using assms
proof (induction W steps w c held tok again n rule: exchangeLoop.induct)
  case (2 W steps w c held tok again n)
  obtain w1 c1 r where cp: "clientPropose W w c tok again = (w1, c1, r)" by (metis prod_cases3)
  have k: "store_same c1 d \<Longrightarrow> store_same c d" for d using store_same_trans clientPropose_same [OF cp] by blast
  show ?case
  proof (cases "\<exists>p. r = Inr (Some p)")
    case False
    with "2.prems" cp k show ?thesis by (auto split: sum.splits option.splits)
  next
    case True
    then obtain p where r: "r = Inr (Some p)" by blast
    obtain w2 resp where po: "w_post W w1 tok p = (w2, resp)" by fastforce
    note ih = "2.IH" [OF cp [symmetric] refl r refl po [symmetric]]
    show ?thesis
    proof (cases "postRefresh held (w_now W w2) resp")
      case PostUnauthorized
      show ?thesis
      proof (cases "older (cl_j c1) tok")
        case None
        with "2.prems" cp r po PostUnauthorized k show ?thesis by auto
      next
        case (Some t)
        with "2.prems" cp r po PostUnauthorized
        have "exchangeLoop W steps w2 (bump st_RefreshWalkBacks_update c1) held t False n = (w', c', res)" by simp
        then show ?thesis by (rule k [OF store_same_trans [OF bump_same ih(1) [OF PostUnauthorized Some]]])
      qed
    next
      case (PostFresh d)
      obtain w3 el where wt: "w_wait W w2 (min d maxRetryAfter) = (w3, el)" by fastforce
      with "2.prems" cp r po PostFresh k ih(3) [OF PostFresh _ wt [symmetric]] show ?thesis
        by (cases "maxFreshProposals < Suc n \<or> \<not> el") (auto split: if_splits)
    qed (use "2.prems" cp r po k ih(2) in auto)
  qed
qed auto

lemma rotate_same: "clientRotate c next = Inr c' \<Longrightarrow> store_same c c'"
  by (auto simp: clientRotate_def Rotate_def store_same_def split: if_splits sum.splits)

lemma refused_same: "store_same c (fst (refused c held))"
  by (auto simp: refused_def Let_def stop_def store_same_def bump_def)

lemma refresh_same:
  assumes "refresh W w c need = (w', c', e)" "\<And>d held. store_same d (fst (need d held))"
  shows "store_same c c'"
proof -
  obtain c0 n where n: "need c (cl_credential c) = (c0, n)" by fastforce
  then have k0: "store_same c c0" using assms(2) by (metis fst_conv)
  show ?thesis
  proof (cases n)
    case RefreshNeeded
    obtain w1 c1 res where x: "exchange W w c0 (cl_credential c) = (w1, c1, res)" by (metis prod_cases3)
    have k1: "store_same c c1" by (rule store_same_trans [OF k0 exchangeLoop_same [OF x [unfolded exchange_def Let_def]]])
    have b: "store_same c (bump u c1)" for u using store_same_trans [OF k1 bump_same] .
    have f: "store_same c (fst (refused c1 held))" for held using store_same_trans [OF k1 refused_same] .
    have r: "clientRotate c1 t = Inr c2 \<Longrightarrow> store_same c (bump u c2)" for t c2 u
      by (rule store_same_trans [OF store_same_trans [OF k1 rotate_same] bump_same])
    show ?thesis
    proof (cases res)
      case (Inl err)
      then show ?thesis using assms(1) n RefreshNeeded x b f [of "cl_credential c"]
        by (cases err) (auto simp: refresh_def Let_def split: prod.splits)
    next
      case (Inr t)
      then show ?thesis using assms(1) n RefreshNeeded x k1 r [of t] by (auto simp: refresh_def Let_def split: sum.splits)
    qed
  qed (use assms(1) n k0 store_same_trans [OF k0 bump_same] in \<open>auto simp: refresh_def Let_def\<close>)
qed

lemma countHeld_same: "store_same c (countHeld c h)"
  by (cases h) (simp_all add: countHeld_def)

lemma refreshWhenAllowed_same:
  assumes "refreshWhenAllowed W w c need = (w', c', e)"
  shows "store_same c c'"
proof -
  let ?need = "\<lambda>c' held. case holdNow c' (w_now W w) True of (c2, h') \<Rightarrow>
      if h' \<noteq> RefreshNotHeld then (countHeld c2 h', RefreshHeldNow) else (c2, need held)"
  have n: "store_same d (fst (?need d held))" for d held
    using holdNow_same [of d "w_now W w" True] store_same_trans [OF _ countHeld_same] by (auto split: prod.splits)
  obtain c1 h where h: "holdNow c (w_now W w) True = (c1, h)" by fastforce
  then have k: "store_same c c1" using holdNow_same by (metis fst_conv)
  show ?thesis
  proof (cases "h = RefreshNotHeld")
    case True
    then have "refresh W w c1 ?need = (w', c', e)" using assms h by (simp add: refreshWhenAllowed_def)
    then have "store_same c1 c'" by (rule refresh_same) (rule n)
    then show ?thesis by (rule store_same_trans [OF k])
  next
    case False
    then show ?thesis using assms h store_same_trans [OF k countHeld_same] by (auto simp: refreshWhenAllowed_def)
  qed
qed

lemma markRefused_same: "store_same c (markRefused c t)"
  by (simp add: markRefused_def store_same_def)

lemma fetchWith_same:
  assumes "fetchWith W w c after cred = (w', c', res)"
  shows "store_same c c'"
proof -
  let ?c = "if cl_connecting c then bump st_SyncsBeforeReady_update c else c"
  have k: "store_same c ?c" by simp
  have a: "store_same c (markAnswered ?c t)" "store_same c (markRefused (markAnswered ?c t) x)" for t x
    using store_same_trans [OF k markAnswered_same] store_same_trans [OF store_same_trans [OF k markAnswered_same] markRefused_same] by auto
  show ?thesis using assms k a
    by (auto simp: fetchWith_def Let_def split: prod.splits option.splits if_splits)
qed

text \<open>Answered, refused, or refused and then refreshed and asked again: \<open>fetch\<close> writes no message and no cursor.\<close>

lemma fetch_same:
  assumes "fetch W w c after = (w', c', res)"
  shows "store_same c c'"
proof -
  obtain w1 c1 r1 where f: "fetchWith W w c after (cl_credential c) = (w1, c1, r1)" by (metis prod_cases3)
  have k: "store_same c c1" by (rule fetchWith_same [OF f])
  show ?thesis
  proof (cases "r1 = Inl FUnauthorized \<and> cl_Refresh c1")
    case False
    then show ?thesis using assms f k by (auto simp: fetch_def Let_def split: sum.splits fetch_error.splits)
  next
    case True
    obtain w2 c2 e where r: "refreshAfter401 (World.truncate W) w1 c1 (cl_credential c) = (w2, c2, e)" by (metis prod_cases3)
    have k2: "store_same c c2" by (rule store_same_trans [OF k refreshWhenAllowed_same [OF r [unfolded refreshAfter401_def]]])
    show ?thesis
    proof (cases e)
      case None
      then have "fetchWith W w2 c2 after (cl_credential c2) = (w', c', res)" using assms f True r by (simp add: fetch_def Let_def)
      then show ?thesis by (rule store_same_trans [OF k2 fetchWith_same])
    next
      case (Some x)
      then show ?thesis using assms f True r k2 by (cases x) (auto simp: fetch_def Let_def)
    qed
  qed
qed

section \<open>A pass ends\<close>

text \<open>A server that stays where it is and answers every request with a page.\<close>

definition serving :: "('s \<Rightarrow> int \<Rightarrow> SyncResponse \<Rightarrow> 's \<Rightarrow> bool) \<Rightarrow> 's \<Rightarrow> 'w SyncWorld \<Rightarrow> bool" where
  "serving page s W \<longleftrightarrow> (\<forall>w tok after limit. \<exists>w' p. page s after p s \<and>
     w_sync W w tok after limit = (w', Some \<lparr>sh_status = 200, sh_code = None, sh_page = Some p\<rparr>))"

lemma fetch_serving:
  assumes "serving page s W"
  obtains w' c' p where "fetch W w c after = (w', c', Inr p)" "page s after p s" "cl_killed c' = cl_killed c"
proof -
  let ?c = "if cl_connecting c then bump st_SyncsBeforeReady_update c else c"
  obtain w' p where s: "page s after p s" "w_sync W w (cr_AccessToken (cl_credential c)) after
      (if 0 < cl_SyncLimit c then Some (cl_SyncLimit c) else None) = (w', Some \<lparr>sh_status = 200, sh_code = None, sh_page = Some p\<rparr>)"
    using assms unfolding serving_def by blast
  have "fetch W w c after = (w', markAnswered ?c (w_now W w'), Inr p)"
    using s(2) by (simp add: fetch_def fetchWith_def Let_def isCatenaryUnauthorized_def)
  moreover have "cl_killed (markAnswered ?c t) = cl_killed c" for t by (simp add: markAnswered_def)
  ultimately show thesis using s(1) that by blast
qed

context sync_service
begin

text \<open>Between two pages of an undisturbed pass.\<close>

definition pass_ok :: "'s \<Rightarrow> Client \<Rightarrow> int \<Rightarrow> bool" where
  "pass_ok s c next \<longleftrightarrow> cl_faults c = noFaults \<and> \<not> cl_from0 c \<and> \<not> cl_killed c \<and> store_ok s (cl_j c) \<and> next \<le> j_cursor (cl_j c)"

definition passAfter :: "Client \<Rightarrow> int \<Rightarrow> int" where
  "passAfter c next = (if next < 0 then j_cursor (cl_j c) else next)"

lemma land_store_ok:
  assumes g: "good s" and ok: "store_ok s j" and p: "page s after p s" and a: "0 \<le> after" "after \<le> j_cursor j"
  shows "store_ok s (landPage noFaults p j)" "j_cursor (landPage noFaults p j) = max (j_cursor j) (sr_LogSeq p)"
proof -
  have h: "after \<le> headOf s" using ok a by (simp add: store_ok_def)
  note hd = page_head [OF g p a(1) h] and x = page_exact [OF g p a(1) h]
  have w: "held_wf j" using ok by (simp add: store_ok_def)
  note lp = landPage_held [OF w, of p]
  show cur: "j_cursor (landPage noFaults p j) = max (j_cursor j) (sr_LogSeq p)" using ok hd a by (auto simp: store_ok_def)
  have msgs: "entryOf ` set (sr_Messages p) = {e \<in> set (entries s). after < le_LogSeq e \<and> le_LogSeq e \<le> sr_LogSeq p}"
    using arg_cong [OF x, of set] by auto
  have "\<forall>m \<in> held_records (landPage noFaults p j). entryOf m \<in> set (entries s)"
    using lp(3) ok msgs unfolding store_ok_def by blast
  moreover have "covered s (landPage noFaults p j) (j_cursor (landPage noFaults p j))"
    unfolding covered_def cur lp(2)
  proof (intro ballI impI)
    fix e assume e: "e \<in> set (entries s)" "le_LogSeq e \<le> max (j_cursor j) (sr_LogSeq p)"
    show "le_ID e \<in> held_ids j \<union> m_ID ` set (sr_Messages p)"
    proof (cases "le_LogSeq e \<le> j_cursor j")
      case True
      then show ?thesis using ok e(1) by (simp add: store_ok_def covered_def)
    next
      case False
      then have "e \<in> entryOf ` set (sr_Messages p)" using msgs e a(2) by auto
      then show ?thesis by auto
    qed
  qed
  ultimately show "store_ok s (landPage noFaults p j)" using ok lp(1) cur hd by (auto simp: store_ok_def)
qed

lemma pass_ends:
  assumes "good s" "serving page s W" "pass_ok s c next"
  shows "\<exists>w' c'. catchUpPass W w c next = Some (w', c', None) \<and> \<not> pending c' \<and> cl_gen c' = cl_gen c \<and>
    store_ok s (cl_j c') \<and> j_cursor (cl_j c') = headOf s"
  using assms
proof (induction "nat (headOf s - passAfter c next)" arbitrary: w c "next" rule: less_induct)
  case less
  let ?after = "passAfter c next"
  have ok: "cl_faults c = noFaults" "\<not> cl_from0 c" "\<not> cl_killed c" "store_ok s (cl_j c)" "next \<le> j_cursor (cl_j c)"
    using less.prems(3) by (simp_all add: pass_ok_def)
  obtain w1 c2 p where f: "fetch W w c ?after = (w1, c2, Inr p)" "page s ?after p s" "cl_killed c2 = cl_killed c"
    using fetch_serving [OF less.prems(2)] by blast
  have k: "store_same c c2" by (rule fetch_same [OF f(1)])
  then have ok2: "cl_faults c2 = noFaults" "\<not> cl_from0 c2" "\<not> cl_killed c2" "cl_gen c2 = cl_gen c" "j_cursor (cl_j c2) = j_cursor (cl_j c)"
    "j_wipes (cl_j c2) = j_wipes (cl_j c)" using ok f(3) by (simp_all add: store_same_def)
  have st2: "store_ok s (cl_j c2)" by (rule store_same_ok [OF k ok(4)])
  have a: "0 \<le> ?after" "?after \<le> j_cursor (cl_j c2)" using ok ok2 by (auto simp: passAfter_def store_ok_def)
  note l = land_store_ok [OF less.prems(1) st2 f(2) a]
  have h: "?after \<le> headOf s" using a st2 by (simp add: store_ok_def)
  note hd = page_head [OF less.prems(1) f(2) a(1) h]
  let ?c3 = "c2\<lparr>cl_j := landPage noFaults p (cl_j c2)\<rparr>"
  let ?c4 = "bump st_Pages_update ?c3"
  have eq: "catchUpPass W w c next =
      (if sr_HasMore p then catchUpPass W w1 ?c4 (sr_LogSeq p) else Some (w1, ?c4\<lparr>cl_doneGen := cl_gen ?c4\<rparr>, None))"
    using ok ok2 f(1) by (subst catchUpPass.simps)
      (simp add: catchUpIssue_def catchUpCursor_def Let_def passAfter_def applyPage_def catchUpSettle_def)
  show ?case
  proof (cases "sr_HasMore p")
    case False
    have "j_cursor (cl_j ?c4) = headOf s" using False hd l(2) st2 by (auto simp: store_ok_def)
    then show ?thesis using False eq l(1) ok2 by (simp add: pending_def)
  next
    case True
    have n: "pass_ok s ?c4 (sr_LogSeq p)" using ok2 l by (simp add: pass_ok_def)
    have "passAfter ?c4 (sr_LogSeq p) = sr_LogSeq p" using hd a(1) True by (simp add: passAfter_def)
    then have "nat (headOf s - passAfter ?c4 (sr_LogSeq p)) < nat (headOf s - ?after)" using hd True by simp
    from less.hyps [OF this less.prems(1,2) n, of w1] show ?thesis using True eq ok2 by simp
  qed
qed

lemma catchUp_ends:
  assumes "good s" "serving page s W" "pass_ok s c (- 1)"
  shows "\<exists>w' c'. catchUp W w c = Some (w', c', None) \<and> \<not> pending c' \<and> cl_gen c' = cl_gen c \<and>
    Clean (Compare (entries s) (takeSnapshot (cl_j c')))"
proof -
  have e: "pass_ok s (catchUpEnter c) (- 1)" using assms(3) by (simp add: pass_ok_def catchUpEnter_def)
  from pass_ends [OF assms(1,2) e, of w] obtain w' c' where
    c: "catchUpPass W w (catchUpEnter c) (- 1) = Some (w', c', None)" "\<not> pending c'" "cl_gen c' = cl_gen c"
      "store_ok s (cl_j c')" "j_cursor (cl_j c') = headOf s" by (auto simp: catchUpEnter_def)
  let ?j = "cl_j c'"
  have w: "held_wf ?j" using c(4) by (simp add: store_ok_def)
  note sn = snapshot_records [OF w]
  have "distinct (sn_Counted (takeSnapshot ?j))" using w by (simp add: takeSnapshot_def held_wf_def)
  note rep = Compare_sound [OF _ sn(3) this, of "entries s"]
  have held: "\<forall>m \<in> set (sn_Messages (takeSnapshot ?j)). entryOf m \<in> set (entries s)" using c(4) sn(1) by (simp add: store_ok_def)
  have wf: "log_wf (entries s)" using log [OF assms(1)] by blast
  have "le_ID e \<in> m_ID ` set (sn_Messages (takeSnapshot ?j))" if "e \<in> set (entries s)" for e
    using c(4,5) that log [OF assms(1)] unfolding sn(1,2) by (simp add: store_ok_def covered_def)
  then have "rp_Lost (Compare (entries s) (takeSnapshot ?j)) = []" using rep(6) [OF wf held] by (simp add: filter_empty_conv)
  then have "Clean (Compare (entries s) (takeSnapshot ?j))" using rep(1-5) [OF wf held] by (simp add: Clean_iff)
  then show ?thesis using c(1-3) by (simp add: catchUp_def catchUpLeave_def pending_def)
qed

end

end
