(* ===== verification/Catchup_System.thy ===== *)
theory Catchup_System
  imports Client_Pass Wire_Props
begin

text \<open>
  The client against the store: \<open>/sync\<close> as the service a catch-up relies on, what every client
  holds whatever is sent and however its goroutines interleave, the end of a catch-up, and the
  interleaving of a wipe that loses messages.
\<close>

section \<open>The two ordinals agree\<close>

definition seq_ordered :: "'h DB \<Rightarrow> bool" where
  "seq_ordered db \<longleftrightarrow> sorted_wrt (\<lambda>a b. mr_ConversationID a = mr_ConversationID b \<longrightarrow> mr_Seq a < mr_Seq b) (db_messages db)"

lemma chat_step_seq_ordered:
  assumes "chat_step db db'" "log_inv db" "seq_ordered db"
  shows "seq_ordered db'"
  using assms(1)
proof (cases rule: chat_step_cases)
  case 1
  then show ?thesis using assms(3) by (simp add: quiet_def seq_ordered_def)
next
  case (2 c row)
  then have c: "c \<in> set (db_conversations db)" "cv_id c = mr_ConversationID row"
    by (auto simp: appended_def conversationByID_def dest: find_SomeD)
  have "mr_Seq m < mr_Seq row" if "m \<in> set (db_messages db)" "mr_ConversationID m = mr_ConversationID row" for m
    using dense_range(2) [OF _ c(1) that(1)] that(2) c(2) 2 assms(2) by (simp add: log_inv_def appended_def)
  then show ?thesis using assms(3) 2 by (auto simp: seq_ordered_def appended_def sorted_wrt_append)
qed

lemma chat_reach_seq_ordered: "chat_reach db \<Longrightarrow> seq_ordered db"
proof -
  assume "chat_reach db"
  then have "chat_step\<^sup>*\<^sup>* emptyDB db" by (simp add: chat_reach_def)
  then have "log_inv db \<and> seq_ordered db"
  proof (induction rule: rtranclp_induct)
    case base
    then show ?case using chat_reach_inv [of "emptyDB :: 'a DB"] by (simp add: chat_reach_def seq_ordered_def emptyDB_def)
  next
    case (step d e)
    then show ?case using chat_step_seq_ordered chat_steps_inv [of d e] by blast
  qed
  then show ?thesis by blast
qed

section \<open>The store as a sync service\<close>

definition rowEntry :: "MessageRow \<Rightarrow> LogEntry" where
  "rowEntry m = \<lparr>le_ID = mr_ID m, le_ConversationID = mr_ConversationID m, le_Seq = mr_Seq m, le_LogSeq = mr_LogSeq m\<rparr>"

text \<open>The log of one reader: the rows of the rooms it is in.\<close>

definition serverLog :: "uuid \<Rightarrow> 'h DB \<Rightarrow> LogEntry list" where
  "serverLog viewer db = map rowEntry (visibleMessages db viewer 0 (db_log_counter db))"

text \<open>
  \<open>GET /sync\<close> between two moments of the deployment: the statements of \<open>store.Sync\<close> see whatever
  the database is when they run, and the mapping of \<open>wireview.Sync\<close> is what is sent.
\<close>

definition syncAnswer ::
  "transcript_decoder \<Rightarrow> UnicodeTables \<Rightarrow> SyncViewer \<Rightarrow> 'h DB \<Rightarrow> int \<Rightarrow> SyncResponse \<Rightarrow> 'h DB \<Rightarrow> bool" where
  "syncAnswer unmarshal ut v db after p db' \<longleftrightarrow> (\<exists>snap limit now.
     chat_step\<^sup>*\<^sup>* db (snap 0) \<and> (\<forall>k < 7. chat_step\<^sup>*\<^sup>* (snap k) (snap (Suc k))) \<and> chat_step\<^sup>*\<^sup>* (snap 7) db' \<and>
     wireSync unmarshal ut (Sync snap (sv_UserID v) after limit) v now = Some p)"

text \<open>A live \<open>message\<close> frame of one reader: a row of one of its rooms, however it is decorated.\<close>

definition liveFrame :: "uuid \<Rightarrow> 'h DB \<Rightarrow> Message \<Rightarrow> bool" where
  "liveFrame viewer db m \<longleftrightarrow> (\<exists>row \<in> set (db_messages db). isMember db (mr_ConversationID row) viewer \<and> entryOf m = rowEntry row)"

lemma rowEntry_sel [simp]:
  "le_ID (rowEntry m) = mr_ID m" "le_ConversationID (rowEntry m) = mr_ConversationID m"
  "le_Seq (rowEntry m) = mr_Seq m" "le_LogSeq (rowEntry m) = mr_LogSeq m"
  by (simp_all add: rowEntry_def)

lemma those_list_all2: "those xs = Some ys \<Longrightarrow> list_all2 (\<lambda>x y. x = Some y) xs ys"
  by (induction xs arbitrary: ys) (auto split: option.splits)

lemma wireSync_entries:
  assumes "wireSync unmarshal ut p v now = Some resp"
  shows "map entryOf (sr_Messages resp) = map rowEntry (sp_Messages p)" "sr_LogSeq resp = sp_HighWater p" "sr_HasMore resp = sp_HasMore p"
proof -
  have one: "pageMessage unmarshal v p m = Some w \<Longrightarrow> entryOf w = rowEntry m" for m w
    by (auto simp: pageMessage_def wireMessage_def Let_def entryOf_def rowEntry_def split: option.splits)
  obtain msgs where m: "those (map (pageMessage unmarshal v p) (sp_Messages p)) = Some msgs" "sr_Messages resp = msgs"
    using assms by (auto simp: wireSync_def)
  have "list_all2 (\<lambda>r w. pageMessage unmarshal v p r = Some w) (sp_Messages p) msgs"
    using those_list_all2 [OF m(1)] by (simp add: list_all2_map1)
  then have "list_all2 (\<lambda>r w. rowEntry r = entryOf w) (sp_Messages p) msgs"
    by (rule list_all2_mono) (simp add: one)
  then show "map entryOf (sr_Messages resp) = map rowEntry (sp_Messages p)"
    unfolding m(2) by (simp add: list_all2_conv_all_nth list_eq_iff_nth_eq)
qed (use assms in \<open>auto simp: wireSync_def\<close>)

lemma serverLog_later:
  assumes "log_inv db" "log_inv db'" "later db db'"
  shows "\<exists>new. serverLog viewer db' = serverLog viewer db @ new \<and> (\<forall>e \<in> set new. db_log_counter db < le_LogSeq e)"
proof -
  let ?h = "db_log_counter db" and ?h' = "db_log_counter db'"
  have h: "0 \<le> ?h" "?h \<le> ?h'" using assms by (simp_all add: log_inv_def log_ordered_def later_def)
  have "visibleMessages db' viewer 0 ?h' = visibleMessages db viewer 0 ?h @ visibleMessages db' viewer ?h ?h'"
    using visible_split [of db' 0 ?h ?h' viewer] visible_stable [OF assms order_refl, of viewer 0] assms(2) h
    by (simp add: log_inv_def)
  then show ?thesis
    by (intro exI [of _ "map rowEntry (visibleMessages db' viewer ?h ?h')"]) (auto simp: serverLog_def visible_in)
qed

lemma serverLog_wf:
  assumes "chat_reach db"
  shows "log_wf (serverLog viewer db)"
proof -
  have inv: "log_inv db" and ord: "seq_ordered db" using assms by (rule chat_reach_inv, rule chat_reach_seq_ordered)
  let ?v = "visibleMessages db viewer 0 (db_log_counter db)"
  have v: "?v = filter (\<lambda>m. isMember db (mr_ConversationID m) viewer \<and> 0 < mr_LogSeq m \<and> mr_LogSeq m \<le> db_log_counter db) (db_messages db)"
    using inv by (intro visible_filter) (simp add: log_inv_def)
  have d: "distinct (map mr_ID ?v)" using inv unfolding v by (simp add: log_inv_def distinct_map_filter)
  have srt: "sorted_wrt (\<lambda>a b. (mr_ConversationID a = mr_ConversationID b \<longrightarrow> mr_Seq a < mr_Seq b) \<and> mr_LogSeq a < mr_LogSeq b) ?v"
  proof -
    have "sorted_wrt (\<lambda>a b. mr_LogSeq a < mr_LogSeq b) (db_messages db)"
      using inv by (simp add: log_inv_def log_ordered_def sorted_wrt_map)
    with ord have "sorted_wrt (\<lambda>a b. (mr_ConversationID a = mr_ConversationID b \<longrightarrow> mr_Seq a < mr_Seq b) \<and> mr_LogSeq a < mr_LogSeq b) (db_messages db)"
      by (simp add: seq_ordered_def sorted_wrt_iff_nth_less)
    then show ?thesis unfolding v by (rule sorted_wrt_filter)
  qed
  have pair: "(mr_Seq a = mr_Seq b \<longrightarrow> a = b) \<and> (mr_Seq a < mr_Seq b \<longrightarrow> mr_LogSeq a < mr_LogSeq b)"
    if "a \<in> set ?v" "b \<in> set ?v" "mr_ConversationID a = mr_ConversationID b" for a b
    using that srt unfolding in_set_conv_nth sorted_wrt_iff_nth_less by (metis less_asym' linorder_less_linear order_less_irrefl)
  show ?thesis unfolding log_wf_def serverLog_def using d pair by (auto simp: comp_def)
qed

lemma snaps_reach:
  assumes "chat_reach db" "chat_step\<^sup>*\<^sup>* db (snap 0)" "\<forall>k < 7. chat_step\<^sup>*\<^sup>* (snap k) (snap (Suc k))" "k \<le> 7"
  shows "chat_reach (snap k) \<and> chat_step\<^sup>*\<^sup>* db (snap k)"
  using assms(4)
proof (induction k)
  case 0
  then show ?case using assms(1,2) by (auto simp: chat_reach_def)
next
  case (Suc k)
  then show ?case using assms(1,3) by (auto simp: chat_reach_def intro: rtranclp_trans)
qed

lemma chat_reach_steps: "chat_reach db \<Longrightarrow> chat_step\<^sup>*\<^sup>* db db' \<Longrightarrow> chat_reach db'"
  by (auto simp: chat_reach_def)

lemma syncAnswer_laws:
  assumes r: "chat_reach db" and a: "syncAnswer unmarshal ut v db after p db'" and b: "0 \<le> after" "after \<le> db_log_counter db"
  shows "map entryOf (sr_Messages p) = filter (\<lambda>e. after < le_LogSeq e \<and> le_LogSeq e \<le> sr_LogSeq p) (serverLog (sv_UserID v) db')"
    and "after \<le> sr_LogSeq p \<and> sr_LogSeq p \<le> db_log_counter db' \<and> (sr_HasMore p \<longrightarrow> after < sr_LogSeq p) \<and>
      (\<not> sr_HasMore p \<longrightarrow> db_log_counter db \<le> sr_LogSeq p)"
proof -
  let ?u = "sv_UserID v"
  obtain snap limit now where s: "chat_step\<^sup>*\<^sup>* db (snap 0)" "\<forall>k < 7. chat_step\<^sup>*\<^sup>* (snap k) (snap (Suc k))" "chat_step\<^sup>*\<^sup>* (snap 7) db'"
    and w: "wireSync unmarshal ut (Sync snap ?u after limit) v now = Some p"
    using a unfolding syncAnswer_def by blast
  let ?p = "Sync snap ?u after limit"
  note rk = snaps_reach [of db snap, OF r s(1,2)]
  have inv: "log_inv (snap 0)" "log_inv (snap 1)" "log_inv db'"
    using rk [of 0] rk [of 1] rk [of 7] s(3) chat_reach_steps chat_reach_inv by auto
  have l: "later db (snap 0)" "later (snap 0) (snap 1)" "later (snap 1) db'"
  proof -
    have "chat_step\<^sup>*\<^sup>* (snap 0) (snap (Suc 0))" using s(2) by simp
    then show "later db (snap 0)" "later (snap 0) (snap 1)" using chat_steps_later s(1) by auto
    have up: "k \<le> 6 \<Longrightarrow> chat_step\<^sup>*\<^sup>* (snap 1) (snap (Suc k))" for k
    proof (induction k)
      case (Suc k)
      then have "chat_step\<^sup>*\<^sup>* (snap 1) (snap (Suc k))" "chat_step\<^sup>*\<^sup>* (snap (Suc k)) (snap (Suc (Suc k)))" using s(2) by auto
      then show ?case by (rule rtranclp_trans)
    qed simp
    have "chat_step\<^sup>*\<^sup>* (snap 1) (snap 7)" using up [of 6] by (simp add: numeral_eq_Suc)
    then have "chat_step\<^sup>*\<^sup>* (snap 1) db'" using s(3) by (rule rtranclp_trans)
    then show "later (snap 1) db'" by (rule chat_steps_later)
  qed
  have ord: "log_ordered (snap 1)" using inv(2) by (simp add: log_inv_def)
  note e = Sync_exact [where snap = snap, OF ord refl, of ?u after limit] and wr = wireSync_entries [OF w]
  have h: "db_log_counter db \<le> db_log_counter (snap 0)" "db_log_counter (snap 0) \<le> db_log_counter (snap 1)" "db_log_counter (snap 1) \<le> db_log_counter db'"
    using l by (simp_all add: later_def)
  have hi: "sp_HighWater ?p \<le> db_log_counter (snap 0)" by (rule Sync_bound(1) [where snap = snap, OF ord])
  have lo: "after \<le> sp_HighWater ?p" using Sync_bound(2) [where snap = snap, OF ord, of after ?u limit] b h by simp
  show "after \<le> sr_LogSeq p \<and> sr_LogSeq p \<le> db_log_counter db' \<and> (sr_HasMore p \<longrightarrow> after < sr_LogSeq p) \<and>
      (\<not> sr_HasMore p \<longrightarrow> db_log_counter db \<le> sr_LogSeq p)"
    unfolding wr(2,3) using hi lo h e(2,3) by (cases "sp_HasMore ?p") linarith+
  have "visibleMessages (snap 1) ?u after (sp_HighWater ?p) = visibleMessages db' ?u after (sp_HighWater ?p)"
    using visible_stable [OF inv(2,3) l(3)] hi h by simp
  also have "\<dots> = filter (\<lambda>m. after < mr_LogSeq m \<and> mr_LogSeq m \<le> sp_HighWater ?p) (visibleMessages db' ?u 0 (db_log_counter db'))"
    using inv(3) b hi h by (auto simp: visible_filter log_inv_def intro!: filter_cong)
  finally show "map entryOf (sr_Messages p) = filter (\<lambda>e. after < le_LogSeq e \<and> le_LogSeq e \<le> sr_LogSeq p) (serverLog ?u db')"
    using e(1) wr(1,2) by (simp add: serverLog_def filter_map comp_def)
qed

interpretation store_sync: sync_service chat_reach chat_step db_log_counter "serverLog (sv_UserID v)"
  "syncAnswer unmarshal ut v" "liveFrame (sv_UserID v)" for unmarshal ut v
proof unfold_locales
  fix s d :: "'a DB" and after p m
  assume g: "chat_reach s"
  then have inv: "log_inv s" by (rule chat_reach_inv)
  show "0 \<le> db_log_counter s \<and> log_wf (serverLog (sv_UserID v) s) \<and>
      (\<forall>e \<in> set (serverLog (sv_UserID v) s). 0 < le_LogSeq e \<and> le_LogSeq e \<le> db_log_counter s)"
    using inv serverLog_wf [OF g] by (auto simp: log_inv_def log_ordered_def serverLog_def visible_in)
  show "entryOf m \<in> set (serverLog (sv_UserID v) s)" if "liveFrame (sv_UserID v) s m"
    using that inv by (auto simp: liveFrame_def serverLog_def visible_in log_inv_def log_ordered_def)
  show "chat_step\<^sup>*\<^sup>* s d" if a: "syncAnswer unmarshal ut v s after p d"
  proof -
    obtain snap where sn: "chat_step\<^sup>*\<^sup>* s (snap 0)" "\<forall>k < 7. chat_step\<^sup>*\<^sup>* (snap k) (snap (Suc k))" "chat_step\<^sup>*\<^sup>* (snap 7) d"
      using a unfolding syncAnswer_def by blast
    then show ?thesis using snaps_reach [OF g sn(1,2), of 7] rtranclp_trans by fastforce
  qed
  show "chat_reach d" if "chat_step s d" using g that chat_reach_steps by blast
  show "db_log_counter s \<le> db_log_counter d \<and> set (serverLog (sv_UserID v) s) \<subseteq> set (serverLog (sv_UserID v) d) \<and>
      (\<forall>e \<in> set (serverLog (sv_UserID v) d) - set (serverLog (sv_UserID v) s). db_log_counter s < le_LogSeq e)"
    if st: "chat_step s d"
  proof -
    have lt: "later s d" and inv': "log_inv d" using st g chat_step_later chat_reach_steps chat_reach_inv by blast+
    show ?thesis using serverLog_later [OF inv inv' lt, of "sv_UserID v"] lt by (auto simp: later_def)
  qed
qed (use syncAnswer_laws in blast)+

text \<open>What the hub and a page serve a member is a live frame of its log.\<close>

lemma served_as_live:
  "served_as db viewer row m \<Longrightarrow> row \<in> set (db_messages db) \<Longrightarrow> isMember db (mr_ConversationID row) viewer \<Longrightarrow> liveFrame viewer db m"
  unfolding liveFrame_def by (intro bexI [of _ row]) (simp_all add: served_as_def entryOf_def rowEntry_def)

section \<open>What a client holds\<close>


text \<open>The shortest run: a dial, one page, caught up.\<close>

lemma one_page_run:
  assumes "page d 0 p d" "\<not> sr_HasMore p"
  shows "\<exists>s. (catchup_step step headOf page frame)\<^sup>*\<^sup>* (catchup_start d cred refreshing) s \<and> caught_up s \<and> cs_srv s = d \<and> cs_mark s = headOf d"
proof -
  let ?R = "catchup_step step headOf page frame"
  let ?s0 = "catchup_start d cred refreshing"
  let ?c1 = "triggerLocked ((bump st_Dials_update (cs_client ?s0))\<lparr>cl_connecting := True\<rparr>)"
  define c2 where "c2 = catchUpEnter ?c1"
  let ?s1 = "withClient headOf ?c1 ?s0"
  let ?s2 = "?s1\<lparr>cs_client := c2, cs_pc := CUTop (- 1)\<rparr>"
  let ?s3 = "?s2\<lparr>cs_client := c2, cs_pc := CUIssued (- 1) 1 False\<rparr>"
  let ?s4 = "?s3\<lparr>cs_pc := CUFetching 1 0 0\<rparr>"
  let ?s5 = "?s4\<lparr>cs_srv := d, cs_pc := CUAnswered 1 0 p\<rparr>"
  define c3 where "c3 = c2\<lparr>cl_j := landPage noFaults p (cl_j c2)\<rparr>"
  let ?s6 = "?s5\<lparr>cs_client := c3, cs_pc := CULanded 1 p True\<rparr>"
  define c4 where "c4 = (bump st_Pages_update c3)\<lparr>cl_doneGen := 1\<rparr>"
  let ?s7 = "?s6\<lparr>cs_client := catchUpLeave c4, cs_pc := CUIdle\<rparr>"
  note defs = catchup_start_def newClient_def NewJournal_def resetLocked_def triggerLocked_def bump_def noFaults_def catchUpEnter_def
  have c1: "cl_gen ?c1 = 1" "cl_doneGen ?c1 = 0" "\<not> cl_from0 ?c1" by (simp_all add: defs)
  have c2: "cl_gen c2 = 1" "\<not> cl_from0 c2" "j_cursor (cl_j c2) = 0" "j_wipes (cl_j c2) = 0" "\<not> cl_killed c2" "cl_faults c2 = noFaults"
    by (simp_all add: c2_def defs)
  have "?R ?s0 ?s1" by (rule catchup_step.dial)
  moreover have "?R ?s1 ?s2" using catchup_step.enter [of ?s1] c1 by (simp add: c2_def withClient_def catchup_start_def pending_def)
  moreover have "?R ?s2 ?s3" by (rule catchup_step.issue) (simp_all add: catchUpIssue_def c2)
  moreover have "?R ?s3 ?s4" using catchup_step.cursor [of ?s3 "- 1" 1 False 0 0] by (simp add: catchUpCursor_def c2)
  moreover have "?R ?s4 ?s5"
    using catchup_step.answered [of ?s4 1 0 0 page p d] assms(1) by (simp add: withClient_def catchup_start_def)
  moreover have "?R ?s5 ?s6" by (rule catchup_step.land) (simp_all add: applyPage_def c2 c3_def)
  moreover have "?R ?s6 ?s7"
    using catchup_step.settle [of ?s6 1 p True c4 "- 1" True] by (simp add: catchUpSettle_def assms(2) c4_def c3_def c2)
  ultimately have "?R\<^sup>*\<^sup>* ?s0 ?s7" by (meson converse_rtranclp_into_rtranclp rtranclp.rtrancl_refl)
  moreover have "caught_up ?s7" "cs_srv ?s7 = d"
    by (simp_all add: caught_up_def pending_def catchUpLeave_def c4_def c3_def c2 withClient_def catchup_start_def)
  moreover have "cs_mark ?s7 = headOf d" using c1(1) by (simp add: withClient_def marked_def) (simp add: catchup_start_def newClient_def)
  ultimately show ?thesis by blast
qed

lemma wireSync_total:
  assumes "sv_MediaURL v = Some url"
  shows "\<exists>p. wireSync unmarshal ut page v now = Some p"
proof -
  have "pageMessage unmarshal v page m = Some (the (pageMessage unmarshal v page m))" for m
    by (simp add: pageMessage_def wireMessage_def assms Let_def)
  then show ?thesis by (simp add: wireSync_def those_Some [of _ _ "\<lambda>m. the (pageMessage unmarshal v page m)"])
qed

definition bobView :: SyncViewer where
  "bobView = \<lparr>sv_UserID = ''b'', sv_MediaURL = Some (\<lambda>k. ''/media/'' @ k)\<rparr>"

definition quietPage :: "int \<Rightarrow> SyncResponse option" where
  "quietPage after = wireSync (\<lambda>_. emptyTranscript) plainTables (Sync (quietSnap chatOne) ''b'' after 0) bobView ''now''"

lemma quietPage_answer: "\<exists>p. quietPage after = Some p \<and> syncAnswer (\<lambda>_. emptyTranscript) plainTables bobView chatOne after p chatOne"
proof -
  have u: "sv_MediaURL bobView = Some (\<lambda>k. ''/media/'' @ k)" by (simp add: bobView_def)
  obtain p where p: "quietPage after = Some p" using wireSync_total [OF u] unfolding quietPage_def by blast
  then have "syncAnswer (\<lambda>_. emptyTranscript) plainTables bobView chatOne after p chatOne"
    unfolding syncAnswer_def quietPage_def by (intro exI [of _ "quietSnap chatOne"] exI [of _ 0] exI [of _ "''now''"])
      (simp add: quietSnap_def [of chatOne 0] quietSnap_def [of chatOne 7] quietSnap_def bobView_def)
  with p show ?thesis by blast
qed

lemma bob_run:
  "\<exists>s. (catchup_step chat_step db_log_counter (syncAnswer (\<lambda>_. emptyTranscript) plainTables bobView) (liveFrame (sv_UserID bobView)))\<^sup>*\<^sup>*
     (catchup_start chatOne zeroCredential False) s \<and> caught_up s \<and> cs_srv s = chatOne \<and> cs_mark s = db_log_counter chatOne"
proof -
  obtain p where p: "quietPage 0 = Some p" "syncAnswer (\<lambda>_. emptyTranscript) plainTables bobView chatOne 0 p chatOne"
    using quietPage_answer by blast
  have "\<not> sp_HasMore (Sync (quietSnap chatOne) ''b'' 0 0)" by code_simp
  then have "\<not> sr_HasMore p" using wireSync_entries(3) [OF p(1) [unfolded quietPage_def]] by simp
  from one_page_run [where page = "syncAnswer (\<lambda>_. emptyTranscript) plainTables bobView", OF p(2) this] show ?thesis .
qed


text \<open>
  C37. A catch-up ends. From any reachable state in which no pass is running and the client is
  alive, against a server that answers its page requests and stays put, a pass returns without an
  error, no trigger is outstanding then, and the report of the journal against the log is clean.
\<close>

theorem catchUp_terminates:
  fixes d :: "'h DB"
  assumes "chat_reach d"
    "(catchup_step chat_step db_log_counter (syncAnswer unmarshal ut v) (liveFrame (sv_UserID v)))\<^sup>*\<^sup>* (catchup_start d cred refreshing) s"
    "\<not> cl_killed (cs_client s)" "serving (syncAnswer unmarshal ut v) (cs_srv s) W"
  shows "\<exists>w' c'. catchUp W w (cs_client s) = Some (w', c', None) \<and> \<not> pending c' \<and>
    Clean (Compare (serverLog (sv_UserID v) (cs_srv s)) (takeSnapshot (cl_j c')))"
proof -
  have ok: "store_sync.sys_ok v s" by (rule store_sync.reach_ok [OF assms(2,1)])
  have g: "chat_reach (cs_srv s)" and p: "store_sync.pass_ok v (cs_srv s) (cs_client s) (- 1)"
    using ok assms(3) by (auto simp: store_sync.sys_ok_def store_sync.pass_ok_def store_sync.client_ok_def store_sync.store_ok_def)
  from store_sync.catchUp_ends [OF g assms(4) p] show ?thesis by blast
qed

definition quietWorld :: "nat SyncWorld" where
  "quietWorld = \<lparr>w_post = (\<lambda>w _ _. (w, None)), w_mint = (\<lambda>w. (w, None)), w_now = (\<lambda>w. int w), w_wait = (\<lambda>w _. (w, True)),
     w_sync = (\<lambda>w _ after _. (w + 1, Some \<lparr>sh_status = 200, sh_code = None, sh_page = quietPage after\<rparr>))\<rparr>"

theorem catchUp_terminates_witness:
  "\<exists>w' c'. catchUp quietWorld 7 (cs_client (catchup_start chatOne zeroCredential False)) = Some (w', c', None) \<and> \<not> pending c' \<and>
     Clean (Compare (serverLog ''b'' chatOne) (takeSnapshot (cl_j c')))"
proof -
  let ?ans = "syncAnswer (\<lambda>_. emptyTranscript) plainTables bobView :: unit DB \<Rightarrow> _" and ?s = "catchup_start chatOne zeroCredential False"
  have "\<exists>w' p. ?ans chatOne after p chatOne \<and> w_sync quietWorld w tok after limit = (w', Some \<lparr>sh_status = 200, sh_code = None, sh_page = Some p\<rparr>)"
    for w tok after limit using quietPage_answer [of after] by (auto simp: quietWorld_def)
  then have v: "serving ?ans (cs_srv ?s) quietWorld" by (simp add: serving_def catchup_start_def)
  have k: "\<not> cl_killed (cs_client ?s)" by (simp add: catchup_start_def newClient_def)
  have b: "sv_UserID bobView = ''b''" "cs_srv ?s = chatOne" by (simp_all add: bobView_def catchup_start_def)
  from catchUp_terminates [OF chatOne_reach rtranclp.rtrancl_refl k v] show ?thesis unfolding b .
qed

section \<open>Two interleavings of a wipe\<close>

text \<open>
  The critical sections of a pass of two pages with a \<open>ready\<close> handled between them: the first
  request and its page, \<open>onReady\<close>, the second request and its page. The result is the client, the
  cursor of the second request and whether the pass is over.
\<close>

definition readyBetweenPages :: "SyncResponse \<Rightarrow> ServerReady \<Rightarrow> SyncResponse \<Rightarrow> Client \<Rightarrow> Client \<times> int \<times> bool" where
  "readyBetweenPages p1 r p2 c =
     (let c1 = catchUpEnter (trigger c);
          (c2, issued1, from1) = catchUpIssue (- 1) c1;
          (epoch1, _) = catchUpCursor (- 1) from1 c2;
          (c3, applied1) = applyPage p1 epoch1 c2;
          (c4, next, _) = catchUpSettle issued1 p1 applied1 c3;
          c5 = onReady r c4;
          (c6, issued2, from2) = catchUpIssue next c5;
          (epoch2, after) = catchUpCursor next from2 c6;
          (c7, applied2) = applyPage p2 epoch2 c6;
          (c8, _, ended) = catchUpSettle issued2 p2 applied2 c7
      in (catchUpLeave c8, after, ended))"

definition demoMessage :: "uuid \<Rightarrow> int \<Rightarrow> Message" where
  "demoMessage i n = \<lparr>m_ID = i, m_Seq = n, m_LogSeq = n, m_ConversationID = ''r'', m_AuthorID = ''a'', m_At = '''', m_Text = None,
     m_Attachments = [], m_ReplyTo = None, m_State = ''sent'', m_ReadBy = None, m_ClientID = None, m_EditedAt = None, m_Deleted = None\<rparr>"

definition demoPage :: "Message list \<Rightarrow> int \<Rightarrow> bool \<Rightarrow> SyncResponse" where
  "demoPage ms n hasMore = \<lparr>sr_LogSeq = n, sr_Messages = ms, sr_Conversations = [], sr_Users = [], sr_HasMore = hasMore, sr_ServerTime = ''''\<rparr>"

definition demoReady :: "int \<Rightarrow> ServerReady" where
  "demoReady n = \<lparr>rd_SessionID = ''s'', rd_WireVersion = None, rd_ServerTime = '''', rd_HeartbeatIntervalSec = 30,
     rd_MissedPongLimit = 2, rd_LogSeq = n, rd_Resumed = False\<rparr>"


lemma stale_ready:
  assumes "quietPage 0 = Some p" "applyPage p 0 (newClient NewJournal False noFaults) = (c, applied)"
  shows "chat_step chatRoom chatOne \<and> applied \<and> ''m1'' \<in> held_ids (cl_j c) \<and>
    held_ids (cl_j (onReady (demoReady (db_log_counter chatRoom)) c)) = {} \<and>
    j_wipes (cl_j (onReady (demoReady (db_log_counter chatRoom)) c)) = 1"
proof -
  let ?p = "Sync (quietSnap chatOne) ''b'' 0 0"
  note e = wireSync_entries [OF assms(1) [unfolded quietPage_def]]
  have v: "map mr_ID (sp_Messages ?p) = [''m1'']" "sp_HighWater ?p = 2" "db_log_counter chatRoom = 1" by code_simp+
  have "map le_ID (map entryOf (sr_Messages p)) = [''m1'']" unfolding e(1) using v(1) by (simp add: comp_def)
  then have m: "map m_ID (sr_Messages p) = [''m1'']" by (simp add: comp_def)
  have w: "held_wf NewJournal" by (simp add: held_wf_def held_ids_def NewJournal_def resetLocked_def)
  have c: "applied" "c = (newClient NewJournal False noFaults)\<lparr>cl_j := landPage noFaults p NewJournal\<rparr>"
    using assms(2) by (auto simp: applyPage_def newClient_def NewJournal_def resetLocked_def split: if_splits)
  have "held_ids (cl_j c) = held_ids NewJournal \<union> m_ID ` set (sr_Messages p)"
    using landPage_held(2) [OF w] by (simp add: c(2))
  moreover have "m_ID ` set (sr_Messages p) = {''m1''}" using arg_cong [OF m, of set] by simp
  moreover have "j_cursor (cl_j c) = 2" using v(2) e(2) by (simp add: c(2) NewJournal_def resetLocked_def)
  then have "onReadyJournal (demoReady 1) c = (c\<lparr>cl_j := (resetLocked (cl_j c))\<lparr>j_wipes := j_wipes (cl_j c) + 1\<rparr>\<rparr>, True)"
    by (simp add: onReadyJournal_def demoReady_def c(2) newClient_def noFaults_def Let_def)
  then have "cl_j (onReady (demoReady 1) c) = (resetLocked (cl_j c))\<lparr>j_wipes := j_wipes (cl_j c) + 1\<rparr>"
    by (simp add: onReady_def onReadyClient_def triggerLocked_def Let_def)
  then have "held_ids (cl_j (onReady (demoReady 1) c)) = {}" "j_wipes (cl_j (onReady (demoReady 1) c)) = 1"
    by (simp_all add: held_ids_def resetLocked_def c(2) newClient_def NewJournal_def)
  ultimately show ?thesis using chatOne_step c(1) v(3) by simp
qed


end
