(* ===== verification/Spec2Isabelle.thy ===== *)
theory Spec2Isabelle
  imports Rest_Props Provision_Props Hub_System Catchup_System
begin

text \<open>
  Catenary is a chat service. Its server keeps one log of messages per room in PostgreSQL and one
  position counter for the whole deployment; its clients hold a copy of the rooms they are in and
  catch up with the log page by page, while a web socket brings new messages live. This
  development models the parts that decide what is stored, who may read it, what is served and
  what a client ends up holding, as functions translated from the Go sources under
  \<^verbatim>\<open>src/internal\<close>, and proves what they promise each other.

  \<^bold>\<open>The parts and how they interact.\<close>  A client (\<^verbatim>\<open>internal/client\<close>) holds a credential and a
  journal; it enrolls and refreshes over HTTP (\<^verbatim>\<open>internal/api/router.go\<close>, \<^verbatim>\<open>internal/store/tokens.go\<close>,
  \<^verbatim>\<open>refresh.go\<close>), opens a socket, and pages through \<^verbatim>\<open>GET /sync\<close>. The store (\<^verbatim>\<open>internal/store\<close>) is the only
  code that reads and writes the tables; every send draws a sequence number in its room and a
  position in the log and raises a notification when it commits. The hub (\<^verbatim>\<open>internal/hub\<close>) turns a
  notification into frames for the sessions attached to one instance, reading the rows again and
  mapping them per reader (\<^verbatim>\<open>internal/wireview\<close>), and severs sessions a revocation names.

  \<^bold>\<open>How state and effects are modelled.\<close>  The database is the record \<open>DB\<close> with a list of row
  records per table; a statement is a function of it, a transaction is atomic, and a read that the
  code makes before it holds its locks takes a database of its own (\<open>db0\<close>), so that a race is a
  stale argument. A READ COMMITTED page takes one snapshot per statement (\<open>snap k\<close>). The client's
  mutexes become steps: one function per critical section. Errors are values of a sum or option
  type. Go strings are lists of bytes, maps are association lists, times are nanoseconds since
  Go's zero time, durations and sequence numbers are integers with the 64-bit wrap-around or the
  overflow check written out where the code can meet it. Random draws, clocks, the network and the
  code outside the repository (SHA-256 digests, JSON, the letter tables of \<open>unicode\<close>, PostgreSQL's \<open>lower\<close>) are
  arguments, and the theorems hold for all of them under the stated hypotheses.

  \<^bold>\<open>Theories, in the order of their imports.\<close>

  \<^item> \<^verbatim>\<open>Catenary_Base\<close>, \<^verbatim>\<open>Go_Text\<close>, \<^verbatim>\<open>Go_Time\<close>: shared types and lemmas; UTF-8 decoding, \<^verbatim>\<open>strings.TrimSpace\<close>;
    the timestamp layout, with the theorem that served timestamps sort as the times they stand for.
  \<^item> \<^verbatim>\<open>Wire\<close>: the records and frames of \<^verbatim>\<open>internal/wire/generated.go\<close> that are exchanged.
  \<^item> \<^verbatim>\<open>Client_Rules\<close> (\<^verbatim>\<open>hold.go\<close>, \<^verbatim>\<open>refused.go\<close>, \<^verbatim>\<open>backoff.go\<close>, \<^verbatim>\<open>terminal.go\<close>): the pure rules of refreshing and
    redialling, with their bounds. \<^verbatim>\<open>Client_Journal\<close> (\<^verbatim>\<open>journal.go\<close>): the durable state and the invariant of
    its chain of proposals. \<^verbatim>\<open>Client_State\<close>, \<^verbatim>\<open>Client_Refresh\<close> (\<^verbatim>\<open>refresh.go\<close>): the walk over the chain, the
    suppressed refresh, and when a client gives up for good; the locale \<open>refresh_service\<close> is what it
    relies on.
  \<^item> \<^verbatim>\<open>Client_Log\<close> (\<^verbatim>\<open>client.go\<close>): frames, pages, the catch-up, the reconnect loop. \<^verbatim>\<open>Client_Compare\<close>
    (\<^verbatim>\<open>compare.go\<close>): the journal against the log. \<^verbatim>\<open>Client_Catchup\<close>: the interleaved system of the two
    goroutines and the server, over the locale \<open>sync_service\<close>, and its invariant. \<^verbatim>\<open>Client_Pass\<close>: a
    request leaves the store alone, and an undisturbed pass ends.
  \<^item> \<^verbatim>\<open>Store_Schema\<close> (\<^verbatim>\<open>migrations\<close>): the tables and their constraints. \<^verbatim>\<open>Store_Tokens\<close>,
    \<^verbatim>\<open>Store_Tokens_Props\<close> (\<^verbatim>\<open>tokens.go\<close>, \<^verbatim>\<open>refresh.go\<close>, \<^verbatim>\<open>sweep.go\<close>, \<^verbatim>\<open>bots.go\<close>): credentials, rotation with reuse
    detection, revocation. \<^verbatim>\<open>Credential_System\<close>: the refresh handler over the store as an instance of
    \<open>refresh_service\<close>, with a network that loses requests and responses and a client that restarts.
  \<^item> \<^verbatim>\<open>Store_Errors\<close> (\<^verbatim>\<open>senderror.go\<close>), \<^verbatim>\<open>Store_Messages\<close> (\<^verbatim>\<open>messages.go\<close>, \<^verbatim>\<open>uploads.go\<close>, \<^verbatim>\<open>readstate.go\<close>,
    \<^verbatim>\<open>hello.go\<close>), \<^verbatim>\<open>Store_Sync\<close> (\<^verbatim>\<open>sync.go\<close>, \<^verbatim>\<open>roster.go\<close>), \<^verbatim>\<open>Store_Rooms\<close> (\<^verbatim>\<open>metadata.go\<close>, \<^verbatim>\<open>offboard.go\<close>): the
    operations. \<^verbatim>\<open>Store_Log\<close>, \<^verbatim>\<open>Log_Reach\<close>, \<^verbatim>\<open>Log_Props\<close>, \<^verbatim>\<open>Sync_Props\<close>, \<^verbatim>\<open>Room_Props\<close>: the chat tables as a state
    machine (\<open>chat_step\<close>), the invariant of the log, exactly-once sends, exact pages that compose,
    one room per pair or request, and the end of a person's access. The locale \<open>upload_resolver\<close> is
    the contract of the two upload resolvers.
  \<^item> \<^verbatim>\<open>Store_Persons\<close>, \<^verbatim>\<open>Account_Effects\<close>, \<^verbatim>\<open>Person_Props\<close> (\<^verbatim>\<open>persons.go\<close>, \<^verbatim>\<open>bots.go\<close>, \<^verbatim>\<open>offboard.go\<close>): the person an email
    names, created once or reactivated under races, the handle it is assigned, \<open>SetEmail\<close>, service
    accounts; the accounts as a state machine (\<open>account_step\<close>) with one account per email and handle.
  \<^item> \<^verbatim>\<open>Wireview\<close>, \<^verbatim>\<open>Wire_Props\<close> (\<^verbatim>\<open>internal/wireview\<close>): rows to wire types, and what one reader is shown.
  \<^item> \<^verbatim>\<open>Store_Fanout\<close> (\<^verbatim>\<open>fanout.go\<close>), \<^verbatim>\<open>Hub\<close>, \<^verbatim>\<open>Hub_Props\<close> (\<^verbatim>\<open>hub.go\<close>), \<^verbatim>\<open>Hub_System\<close>: the hub's index and outboxes as
    a state machine, delivery or severance, revocations, and the hub over the store.
  \<^item> \<^verbatim>\<open>Api_Socket\<close>, \<^verbatim>\<open>Socket_Props\<close> (\<^verbatim>\<open>internal/api/socket.go\<close>): the upgrade, the hello, the read loop and the
    watchdog over the functions a session is given; the locale \<open>session_service\<close> is their contract,
    the store and the hub as \<^verbatim>\<open>cmd/catenary\<close> wires them its instances.
  \<^item> \<^verbatim>\<open>Api_Rest\<close>, \<^verbatim>\<open>Rest_Props\<close> (\<^verbatim>\<open>internal/api/router.go\<close>, \<^verbatim>\<open>messages.go\<close>, \<^verbatim>\<open>devices.go\<close>): the routes, their registration and the
    server's wiring of them; the locale \<open>rest_service\<close>, the agreement of REST and the socket, the one refusal
    of a credential, the revocation of one's own device and the reading of a cursor.
  \<^item> \<^verbatim>\<open>Provision\<close>, \<^verbatim>\<open>Provision_Props\<close> (\<^verbatim>\<open>internal/provision\<close>): the second listener with its one credential and
    three operations; the locale \<open>account_service\<close>, who opens the door, an invitation that enrolls its
    account, and how an offboard is answered.
  \<^item> \<^verbatim>\<open>Catchup_System\<close>: the store and \<^verbatim>\<open>wireview\<close> as an instance of \<open>sync_service\<close>: what every client holds,
    the end of a catch-up, and two interleavings of a wipe.

  \<^bold>\<open>Bounds and fuel.\<close>  The walk of a refresh is given the chain's length and eight steps more, as in
  the code. The hub's retried reads have the code's own six and eight attempts, the ensuring of a
  person its five and the choice of a handle its thousand candidates. A catch-up pass and
  the wait with a refused token are partial functions into \<open>option\<close>; that a pass returns is a
  theorem. Everything else recurses on data.

  \<^bold>\<open>Not modelled.\<close>  The web socket and HTTP libraries and the JSON codecs (library and generated code: what is read of a request,
  a frame or an answer is a record or a datatype, and a read or a write may fail),
  locks and the order in which they are taken (a transaction is atomic), the connection pool and the migrations
  runner, media files, the fetching of link previews, the web and mobile clients, and the rigs under \<^verbatim>\<open>server/cmd\<close>
  that drive deployments.
\<close>

end
